(* ===== verification/Byte_Strings.thy ===== *)
theory Byte_Strings
  imports Ledger_Prelude
begin

text \<open>
  The string and slice operations of Rust's standard library that the modelled code uses,
  on UTF-8 byte sequences, and the identifier grammars that several modules share
  (\<open>blake3:\<close> and \<open>origin_\<close> identifiers, prefixed lower-case ULIDs). The last section is the
  slice binary search of the standard library with its correctness on strictly sorted keys.
\<close>

section \<open>Prefixes, suffixes, containment\<close>

fun strip_prefix :: "bytes \<Rightarrow> bytes \<Rightarrow> bytes option" where
  "strip_prefix [] s = Some s"
| "strip_prefix (p # ps) [] = None"
| "strip_prefix (p # ps) (c # cs) = (if p = c then strip_prefix ps cs else None)"

definition strip_suffix :: "bytes \<Rightarrow> bytes \<Rightarrow> bytes option" where
  "strip_suffix suf s = map_option rev (strip_prefix (rev suf) (rev s))"

definition starts_with :: "bytes \<Rightarrow> bytes \<Rightarrow> bool" where
  "starts_with s p \<longleftrightarrow> strip_prefix p s \<noteq> None"

definition ends_with :: "bytes \<Rightarrow> bytes \<Rightarrow> bool" where
  "ends_with s p \<longleftrightarrow> strip_suffix p s \<noteq> None"

fun str_contains :: "bytes \<Rightarrow> bytes \<Rightarrow> bool" where
  "str_contains [] p = (p = [])"
| "str_contains (c # cs) p = (starts_with (c # cs) p \<or> str_contains cs p)"

text \<open>\<open>split(sep)\<close> on one byte: always at least one piece, empty pieces kept.\<close>

fun split_on :: "char \<Rightarrow> bytes \<Rightarrow> bytes list" where
  "split_on d [] = [[]]"
| "split_on d (c # cs) =
     (if c = d then [] # split_on d cs
      else (case split_on d cs of [] \<Rightarrow> [[c]] | w # ws \<Rightarrow> (c # w) # ws))"

text \<open>\<open>split_once(sep)\<close>: the parts before and after the first occurrence.\<close>

fun split_once :: "bytes \<Rightarrow> bytes \<Rightarrow> (bytes \<times> bytes) option" where
  "split_once sep [] = (if sep = [] then Some ([], []) else None)"
| "split_once sep (c # cs) =
     (case strip_prefix sep (c # cs) of
        Some r \<Rightarrow> Some ([], r)
      | None \<Rightarrow> map_option (\<lambda>(a, b). (c # a, b)) (split_once sep cs))"

lemma strip_prefix_eq_Some: "strip_prefix p s = Some r \<longleftrightarrow> s = p @ r"
  by (induction p s rule: strip_prefix.induct) auto

lemma strip_prefix_append [simp]: "strip_prefix p (p @ r) = Some r"
  by (simp add: strip_prefix_eq_Some)

lemma strip_suffix_eq_Some: "strip_suffix p s = Some r \<longleftrightarrow> s = r @ p"
  by (auto simp: strip_suffix_def strip_prefix_eq_Some rev_swap)

lemma starts_with_iff: "starts_with s p \<longleftrightarrow> (\<exists>r. s = p @ r)"
  by (cases "strip_prefix p s") (auto simp: starts_with_def strip_prefix_eq_Some)

lemma ends_with_iff: "ends_with s p \<longleftrightarrow> (\<exists>r. s = r @ p)"
  by (metis ends_with_def not_None_eq strip_suffix_eq_Some)

lemma str_contains_iff: "str_contains s p \<longleftrightarrow> (\<exists>a b. s = a @ p @ b)"
proof (induction s)
  case (Cons c cs)
  have "(\<exists>a b. c # cs = a @ p @ b) \<longleftrightarrow> (\<exists>b. c # cs = p @ b) \<or> (\<exists>a b. cs = a @ p @ b)"
    by (auto simp: Cons_eq_append_conv)
  with Cons show ?case by (simp add: starts_with_iff)
qed auto

lemma split_on_not_Nil [simp]: "split_on d s \<noteq> []"
  by (cases s) (auto split: list.split)

lemma split_on_pieces: "w \<in> set (split_on d s) \<Longrightarrow> d \<notin> set w"
proof (induction s arbitrary: w)
  case (Cons c cs)
  then show ?case
    by (cases "split_on d cs") (auto split: if_splits)
qed simp

section \<open>Character classes\<close>

definition is_ascii_digit :: "char \<Rightarrow> bool" where
  "is_ascii_digit c \<longleftrightarrow> CHR ''0'' \<le> c \<and> c \<le> CHR ''9''"

definition is_ascii_lower :: "char \<Rightarrow> bool" where
  "is_ascii_lower c \<longleftrightarrow> CHR ''a'' \<le> c \<and> c \<le> CHR ''z''"

definition is_ascii_upper :: "char \<Rightarrow> bool" where
  "is_ascii_upper c \<longleftrightarrow> CHR ''A'' \<le> c \<and> c \<le> CHR ''Z''"

definition is_ascii_alphanumeric :: "char \<Rightarrow> bool" where
  "is_ascii_alphanumeric c \<longleftrightarrow> is_ascii_digit c \<or> is_ascii_lower c \<or> is_ascii_upper c"

definition to_lower_char :: "char \<Rightarrow> char" where
  "to_lower_char c = (if is_ascii_upper c then char_of (of_char c + 32 :: nat) else c)"

definition to_ascii_lowercase :: "bytes \<Rightarrow> bytes" where
  "to_ascii_lowercase s = map to_lower_char s"

text \<open>
  \<open>trim\<close> removes Unicode white space at both ends. \<open>ws_front\<close> is the byte length of a
  white-space character at the front of a UTF-8 string (0 if there is none); \<open>ws_back\<close> is
  the same at the end, on the reversed bytes. The code points are U+0009 to U+000D, U+0020,
  U+0085, U+00A0, U+1680, U+2000 to U+200A, U+2028, U+2029, U+202F, U+205F and U+3000.
\<close>

definition ascii_ws :: "nat \<Rightarrow> bool" where
  "ascii_ws b \<longleftrightarrow> b = 32 \<or> 9 \<le> b \<and> b \<le> 13"

definition ws3 :: "nat \<Rightarrow> nat \<Rightarrow> nat \<Rightarrow> bool" where
  "ws3 a b c \<longleftrightarrow>
     a = 225 \<and> b = 154 \<and> c = 128 \<or>
     a = 226 \<and> b = 128 \<and> (128 \<le> c \<and> c \<le> 138 \<or> c = 168 \<or> c = 169 \<or> c = 175) \<or>
     a = 226 \<and> b = 129 \<and> c = 159 \<or>
     a = 227 \<and> b = 128 \<and> c = 128"

definition ws_front :: "nat list \<Rightarrow> nat" where
  "ws_front s =
     (case s of [] \<Rightarrow> 0
      | a # t \<Rightarrow>
          if ascii_ws a then 1
          else (case t of [] \<Rightarrow> 0
                | b # u \<Rightarrow>
                    if a = 194 \<and> (b = 133 \<or> b = 160) then 2
                    else (case u of [] \<Rightarrow> 0 | c # _ \<Rightarrow> if ws3 a b c then 3 else 0)))"

definition ws_back :: "nat list \<Rightarrow> nat" where
  "ws_back s =
     (case s of [] \<Rightarrow> 0
      | a # t \<Rightarrow>
          if ascii_ws a then 1
          else (case t of [] \<Rightarrow> 0
                | b # u \<Rightarrow>
                    if b = 194 \<and> (a = 133 \<or> a = 160) then 2
                    else (case u of [] \<Rightarrow> 0 | c # _ \<Rightarrow> if ws3 c b a then 3 else 0)))"

text \<open>Dropping while the measuring function reports a non-zero length.\<close>

fun drop_ws :: "(nat list \<Rightarrow> nat) \<Rightarrow> nat \<Rightarrow> nat list \<Rightarrow> nat list" where
  "drop_ws f 0 s = s"
| "drop_ws f (Suc n) s = (if f s = 0 then s else drop_ws f n (drop (f s) s))"

definition str_trim :: "bytes \<Rightarrow> bytes" where
  "str_trim s =
     (let b = map of_char s;
          t = drop_ws ws_front (length b) b;
          u = rev (drop_ws ws_back (length t) (rev t))
      in map char_of u)"

definition is_blank :: "bytes \<Rightarrow> bool" where
  "is_blank s \<longleftrightarrow> str_trim s = []"

text \<open>The fuel of \<open>drop_ws\<close> is the length of the input, which is always enough.\<close>

lemma drop_ws_complete:
  assumes "length s \<le> n" and "f [] = 0"
  shows "f (drop_ws f n s) = 0"
  using assms(1)
proof (induction n arbitrary: s)
  case 0
  then show ?case using assms(2) by simp
next
  case (Suc n)
  show ?case
  proof (cases "f s = 0")
    case False
    with Suc.prems have "length (drop (f s) s) \<le> n" by simp
    with False show ?thesis by (simp add: Suc.IH)
  qed simp
qed

lemma is_blank_Nil [simp]: "is_blank []"
  by (simp add: is_blank_def str_trim_def)

section \<open>UTF-8 validity\<close>

definition utf8_cont :: "nat \<Rightarrow> bool" where
  "utf8_cont b \<longleftrightarrow> 128 \<le> b \<and> b \<le> 191"

text \<open>\<open>utf8_lead a b\<close>: the second byte \<open>b\<close> is allowed after the lead byte \<open>a\<close>.\<close>

definition utf8_lead :: "nat \<Rightarrow> nat \<Rightarrow> bool" where
  "utf8_lead a b \<longleftrightarrow>
     (if a = 224 then 160 \<le> b \<and> b \<le> 191
      else if a = 237 then 128 \<le> b \<and> b \<le> 159
      else if a = 240 then 144 \<le> b \<and> b \<le> 191
      else if a = 244 then 128 \<le> b \<and> b \<le> 143
      else utf8_cont b)"

text \<open>The length of the UTF-8 character at the front, 0 if there is none.\<close>

definition utf8_char_len :: "nat list \<Rightarrow> nat" where
  "utf8_char_len s =
     (case s of [] \<Rightarrow> 0
      | a # t \<Rightarrow>
          if a < 128 then 1
          else (case t of [] \<Rightarrow> 0
                | b # u \<Rightarrow>
                    if a \<le> 223 then (if 194 \<le> a \<and> utf8_cont b then 2 else 0)
                    else (case u of [] \<Rightarrow> 0
                          | c # v \<Rightarrow>
                              if a \<le> 239 then (if utf8_lead a b \<and> utf8_cont c then 3 else 0)
                              else (case v of [] \<Rightarrow> 0
                                    | d # _ \<Rightarrow>
                                        if a \<le> 244 \<and> utf8_lead a b \<and> utf8_cont c \<and> utf8_cont d
                                        then 4 else 0))))"

definition is_utf8 :: "bytes \<Rightarrow> bool" where
  "is_utf8 s = (drop_ws utf8_char_len (length s) (map of_char s) = [])"

section \<open>Identifier grammars\<close>

definition is_lower_hex_64 :: "bytes \<Rightarrow> bool" where
  "is_lower_hex_64 v \<longleftrightarrow>
     length v = 64 \<and> list_all (\<lambda>b. is_ascii_digit b \<or> CHR ''a'' \<le> b \<and> b \<le> CHR ''f'') v"

definition is_blake3_identifier :: "bytes \<Rightarrow> bool" where
  "is_blake3_identifier v =
     (case strip_prefix ''blake3:'' v of None \<Rightarrow> False | Some h \<Rightarrow> is_lower_hex_64 h)"

definition is_origin_id :: "bytes \<Rightarrow> bool" where
  "is_origin_id v =
     (case strip_prefix ''origin_'' v of None \<Rightarrow> False | Some h \<Rightarrow> is_lower_hex_64 h)"

text \<open>
  \<open>Ulid::from_string\<close> belongs to a third-party crate; whether it accepts a text is the
  parameter \<open>ulid_ok\<close>.
\<close>

definition is_prefixed_lowercase_ulid :: "(bytes \<Rightarrow> bool) \<Rightarrow> bytes \<Rightarrow> bytes \<Rightarrow> bool" where
  "is_prefixed_lowercase_ulid ulid_ok v prefix =
     (case strip_prefix prefix v of None \<Rightarrow> False
      | Some u \<Rightarrow> u = to_ascii_lowercase u \<and> ulid_ok u)"

lemma is_blake3_identifier_iff:
  "is_blake3_identifier v \<longleftrightarrow> (\<exists>h. v = ''blake3:'' @ h \<and> is_lower_hex_64 h)"
  by (cases "strip_prefix ''blake3:'' v")
    (auto simp: is_blake3_identifier_def strip_prefix_eq_Some)

lemma is_blake3_identifier_prefixed [simp]:
  "is_blake3_identifier (''blake3:'' @ h) \<longleftrightarrow> is_lower_hex_64 h"
  by (simp add: is_blake3_identifier_iff)

lemma is_origin_id_prefixed [simp]: "is_origin_id (''origin_'' @ h) \<longleftrightarrow> is_lower_hex_64 h"
  unfolding is_origin_id_def by (simp only: strip_prefix_append option.case)

section \<open>Slice binary search\<close>

text \<open>
  \<open>binary_search\<close> and \<open>binary_search_by\<close> of Rust's standard library, on the list of keys
  of the slice. The insertion point of an unsuccessful search is never used by the
  modelled code, so it is \<open>None\<close> here.
\<close>

function bsearch_base :: "'k::linorder list \<Rightarrow> 'k \<Rightarrow> nat \<Rightarrow> nat \<Rightarrow> nat" where
  "bsearch_base ks k base sz =
     (if sz \<le> 1 then base
      else let half = sz div 2; mid = base + half
           in bsearch_base ks k (if k < ks ! mid then base else mid) (sz - half))"
  by pat_completeness auto
termination
  by (relation "measure (\<lambda>(ks, k, base, sz). sz)") auto

declare bsearch_base.simps [simp del]

definition binary_search :: "'k::linorder list \<Rightarrow> 'k \<Rightarrow> nat option" where
  "binary_search ks k =
     (if ks = [] then None
      else let b = bsearch_base ks k 0 (length ks) in if ks ! b = k then Some b else None)"

lemma bsearch_base_correct:
  assumes "sorted_wrt (<) ks" and "1 \<le> sz" and "base + sz \<le> length ks"
    and "i < length ks" and "ks ! i = k" and "base \<le> i" and "i < base + sz"
  shows "bsearch_base ks k base sz = i"
  using assms
proof (induction ks k base sz rule: bsearch_base.induct)
  case (1 ks k base sz)
  show ?case
  proof (cases "sz \<le> 1")
    case True
    with 1 show ?thesis by (simp add: bsearch_base.simps [of ks k base sz])
  next
    case False
    let ?h = "sz div 2"
    have h: "0 < ?h" "?h < sz" using False by auto
    have less: "k < ks ! (base + ?h) \<longleftrightarrow> i < base + ?h"
      using 1(2,4,5,6) h
      by (metis add_less_cancel_left linorder_neqE_nat order_less_asym
          order_less_irrefl order_less_le_trans sorted_wrt_iff_nth_less)
    show ?thesis
      using 1 False h less
      by (cases "k < ks ! (base + ?h)")
        (simp_all add: bsearch_base.simps [of ks k base sz] Let_def)
  qed
qed

lemma bsearch_base_bound:
  "1 \<le> sz \<Longrightarrow> bsearch_base ks k base sz < base + sz"
proof (induction ks k base sz rule: bsearch_base.induct)
  case (1 ks k base sz)
  show ?case
  proof (cases "sz \<le> 1")
    case True
    with 1 show ?thesis by (subst bsearch_base.simps) simp
  next
    case False
    have "1 \<le> sz - sz div 2" using False by auto
    with 1(1) [OF False refl refl] False show ?thesis
      by (auto simp: bsearch_base.simps [of ks k base sz] Let_def split: if_splits)
  qed
qed

lemma binary_search_eq_Some:
  assumes "sorted_wrt (<) ks"
  shows "binary_search ks k = Some i \<longleftrightarrow> i < length ks \<and> ks ! i = k"
proof (cases "ks = []")
  case False
  then have bound: "bsearch_base ks k 0 (length ks) < length ks"
    using bsearch_base_bound [of "length ks" ks k 0] by (simp add: Suc_le_eq)
  show ?thesis
  proof
    assume "binary_search ks k = Some i"
    with False bound show "i < length ks \<and> ks ! i = k"
      by (auto simp: binary_search_def Let_def split: if_splits)
  next
    assume "i < length ks \<and> ks ! i = k"
    with False bsearch_base_correct [OF assms, of "length ks" 0 i k]
    show "binary_search ks k = Some i"
      by (simp add: binary_search_def Suc_le_eq)
  qed
qed (simp add: binary_search_def)

lemma binary_search_SomeD: "binary_search ks k = Some i \<Longrightarrow> k \<in> set ks"
  using bsearch_base_bound [of "length ks" ks k 0]
  by (auto simp: binary_search_def Let_def Suc_le_eq split: if_splits)

lemma binary_search_eq_None:
  assumes "sorted_wrt (<) ks"
  shows "binary_search ks k = None \<longleftrightarrow> k \<notin> set ks"
proof (cases "binary_search ks k")
  case None
  with binary_search_eq_Some [OF assms, of k] show ?thesis
    by (auto simp: in_set_conv_nth)
next
  case (Some i)
  with binary_search_eq_Some [OF assms, of k i] show ?thesis by auto
qed

end
