(* ===== verification/Frontier.thy ===== *)
theory Frontier
  imports Byte_Strings
begin

text \<open>
  Causal frontiers (\<open>src/src/frontier.rs\<close>): the value that says, per origin, up to which
  sequence number the Archive's history is accepted. \<open>frontier_validate\<close> checks one
  frontier, \<open>validate_successor_of\<close> checks that one frontier extends another. The abstract
  view of a frontier is the partial map \<open>dots\<close> from origins to their accepted tails, and
  the contract of the successor check is that it refines the order \<open>dominates\<close> on these
  maps. The locale \<open>causal_successor\<close> states the law a consumer of accepted frontiers
  relies on, and derives what holds along whole chains of accepted successors.

  \<open>serde_json::to_vec\<close> and \<open>blake3::hash(..).to_hex()\<close> are third-party code: the
  parameters \<open>to_vec\<close> and \<open>blake3_hex\<close>.
\<close>

section \<open>Data\<close>

definition FRONTIER_VERSION :: u32 where
  "FRONTIER_VERSION = 2"

definition INITIAL_ITEM_PROJECTION_VERSION :: u32 where
  "INITIAL_ITEM_PROJECTION_VERSION = 1"

datatype frontier_error =
    UnsupportedVersion u32 u32
  | EmptyArchiveId
  | InvalidProjectionVersion
  | InvalidHash bytes
  | InvalidOriginId bytes
  | ZeroOriginSequence bytes
  | OriginsNotStrictlySorted
  | PreviousFrontiersNotStrictlySorted
  | ArchiveMismatch bytes bytes
  | GenesisMismatch
  | ProjectionVersionRegression u32 u32
  | MissingBaseFrontier
  | OriginOmitted bytes
  | OriginRegression bytes u64 u64
  | ChangedOriginTail bytes
  | Serialization bytes

record origin_frontier =
  of_origin_id :: bytes
  of_seq :: u64
  of_event_hash :: bytes
  of_segment_manifest_hash :: bytes

record causal_frontier =
  cf_v :: u32
  cf_archive_id :: bytes
  cf_genesis_hash :: bytes
  cf_origins :: "origin_frontier list"
  cf_previous_frontiers :: "bytes list"
  cf_item_projection_version :: u32

record frontier_advance =
  advanced_origins :: "bytes list"
  added_origins :: "bytes list"

section \<open>Operations\<close>

definition validate_hash :: "bytes \<Rightarrow> bytes \<Rightarrow> frontier_error + unit" where
  "validate_hash field value =
     (if is_blake3_identifier value then Inr () else Inl (InvalidHash field))"

fun validate_origins :: "bytes option \<Rightarrow> origin_frontier list \<Rightarrow> frontier_error + unit" where
  "validate_origins prior_origin [] = Inr ()"
| "validate_origins prior_origin (origin # rest) =
     (if \<not> is_origin_id (of_origin_id origin) then Inl (InvalidOriginId (of_origin_id origin))
      else if of_seq origin = 0 then Inl (ZeroOriginSequence (of_origin_id origin))
      else if (case prior_origin of None \<Rightarrow> False | Some prior \<Rightarrow> prior \<ge> of_origin_id origin)
        then Inl OriginsNotStrictlySorted
      else ebind (validate_hash ''origins.event_hash'' (of_event_hash origin)) (\<lambda>_.
           ebind (validate_hash ''origins.segment_manifest_hash''
                    (of_segment_manifest_hash origin)) (\<lambda>_.
           validate_origins (Some (of_origin_id origin)) rest)))"

fun validate_parents :: "bytes option \<Rightarrow> bytes list \<Rightarrow> frontier_error + unit" where
  "validate_parents prior_frontier [] = Inr ()"
| "validate_parents prior_frontier (frontier # rest) =
     ebind (validate_hash ''previous_frontiers'' frontier) (\<lambda>_.
     if (case prior_frontier of None \<Rightarrow> False | Some prior \<Rightarrow> prior \<ge> frontier)
     then Inl PreviousFrontiersNotStrictlySorted
     else validate_parents (Some frontier) rest)"

definition frontier_validate :: "causal_frontier \<Rightarrow> frontier_error + unit" where
  "frontier_validate f =
     (if cf_v f \<noteq> FRONTIER_VERSION then Inl (UnsupportedVersion (cf_v f) FRONTIER_VERSION)
      else if cf_archive_id f = [] then Inl EmptyArchiveId
      else if cf_item_projection_version f = 0 then Inl InvalidProjectionVersion
      else ebind (validate_hash ''genesis_hash'' (cf_genesis_hash f)) (\<lambda>_.
           ebind (validate_origins None (cf_origins f)) (\<lambda>_.
           validate_parents None (cf_previous_frontiers f))))"

definition frontier_canonical_bytes ::
  "(causal_frontier \<Rightarrow> bytes + bytes) \<Rightarrow> causal_frontier \<Rightarrow> frontier_error + bytes" where
  "frontier_canonical_bytes to_vec f =
     ebind (frontier_validate f) (\<lambda>_. map_err Serialization (to_vec f))"

definition frontier_hash ::
  "(causal_frontier \<Rightarrow> bytes + bytes) \<Rightarrow> (bytes \<Rightarrow> bytes) \<Rightarrow> causal_frontier
     \<Rightarrow> frontier_error + bytes" where
  "frontier_hash to_vec blake3_hex f =
     ebind (frontier_canonical_bytes to_vec f) (\<lambda>b. Inr (''blake3:'' @ blake3_hex b))"

text \<open>The loop over the base origins, returning the origins whose tail advanced.\<close>

fun check_base_origins ::
  "origin_frontier list \<Rightarrow> origin_frontier list \<Rightarrow> frontier_error + bytes list" where
  "check_base_origins succ_origins [] = Inr []"
| "check_base_origins succ_origins (base_origin # rest) =
     (case binary_search (map of_origin_id succ_origins) (of_origin_id base_origin) of
        None \<Rightarrow> Inl (OriginOmitted (of_origin_id base_origin))
      | Some index \<Rightarrow>
          let successor_origin = succ_origins ! index in
          if of_seq successor_origin < of_seq base_origin then
            Inl (OriginRegression (of_origin_id base_origin) (of_seq base_origin)
                   (of_seq successor_origin))
          else if of_seq successor_origin = of_seq base_origin then
            (if of_event_hash successor_origin \<noteq> of_event_hash base_origin
                \<or> of_segment_manifest_hash successor_origin
                    \<noteq> of_segment_manifest_hash base_origin
             then Inl (ChangedOriginTail (of_origin_id base_origin))
             else check_base_origins succ_origins rest)
          else ebind (check_base_origins succ_origins rest)
                 (\<lambda>advanced. Inr (of_origin_id base_origin # advanced)))"

definition validate_successor_of ::
  "(causal_frontier \<Rightarrow> bytes + bytes) \<Rightarrow> (bytes \<Rightarrow> bytes) \<Rightarrow> causal_frontier
     \<Rightarrow> causal_frontier \<Rightarrow> frontier_error + frontier_advance" where
  "validate_successor_of to_vec blake3_hex self base =
     ebind (frontier_validate base) (\<lambda>_.
     ebind (frontier_validate self) (\<lambda>_.
     if cf_archive_id self \<noteq> cf_archive_id base then
       Inl (ArchiveMismatch (cf_archive_id base) (cf_archive_id self))
     else if cf_genesis_hash self \<noteq> cf_genesis_hash base then Inl GenesisMismatch
     else if cf_item_projection_version self < cf_item_projection_version base then
       Inl (ProjectionVersionRegression (cf_item_projection_version base)
              (cf_item_projection_version self))
     else
       ebind (frontier_hash to_vec blake3_hex base) (\<lambda>base_hash.
       if binary_search (cf_previous_frontiers self) base_hash = None
       then Inl MissingBaseFrontier
       else
         ebind (check_base_origins (cf_origins self) (cf_origins base)) (\<lambda>advanced.
         Inr \<lparr>advanced_origins = advanced,
              added_origins =
                map of_origin_id
                  (filter (\<lambda>origin. binary_search (map of_origin_id (cf_origins base))
                                     (of_origin_id origin) = None) (cf_origins self))\<rparr>))))"

section \<open>What a valid frontier is\<close>

definition origin_ok :: "origin_frontier \<Rightarrow> bool" where
  "origin_ok origin \<longleftrightarrow>
     is_origin_id (of_origin_id origin) \<and> of_seq origin \<noteq> 0
     \<and> is_blake3_identifier (of_event_hash origin)
     \<and> is_blake3_identifier (of_segment_manifest_hash origin)"

definition wf_frontier :: "causal_frontier \<Rightarrow> bool" where
  "wf_frontier f \<longleftrightarrow>
     cf_v f = FRONTIER_VERSION \<and> cf_archive_id f \<noteq> [] \<and> cf_item_projection_version f \<noteq> 0
     \<and> is_blake3_identifier (cf_genesis_hash f)
     \<and> list_all origin_ok (cf_origins f)
     \<and> sorted_wrt (<) (map of_origin_id (cf_origins f))
     \<and> list_all is_blake3_identifier (cf_previous_frontiers f)
     \<and> sorted_wrt (<) (cf_previous_frontiers f)"

definition opt_list :: "'a option \<Rightarrow> 'a list" where
  "opt_list x = (case x of None \<Rightarrow> [] | Some v \<Rightarrow> [v])"

lemma validate_hash_ok [simp]: "validate_hash field v = Inr () \<longleftrightarrow> is_blake3_identifier v"
  by (simp add: validate_hash_def)

lemma validate_origins_ok:
  "validate_origins prior os = Inr () \<longleftrightarrow>
     list_all origin_ok os \<and> sorted_wrt (<) (opt_list prior @ map of_origin_id os)"
proof (induction os arbitrary: prior)
  case Nil
  then show ?case by (simp add: opt_list_def split: option.split)
next
  case (Cons origin os)
  show ?case
    by (cases prior)
      (auto simp: Cons.IH ebind_eq_Inr origin_ok_def opt_list_def not_le
        intro: less_trans split: if_splits)
qed

lemma validate_parents_ok:
  "validate_parents prior ps = Inr () \<longleftrightarrow>
     list_all is_blake3_identifier ps \<and> sorted_wrt (<) (opt_list prior @ ps)"
proof (induction ps arbitrary: prior)
  case Nil
  then show ?case by (simp add: opt_list_def split: option.split)
next
  case (Cons p ps)
  show ?case
    by (cases prior)
      (auto simp: Cons.IH ebind_eq_Inr opt_list_def not_le intro: less_trans split: if_splits)
qed

lemma frontier_validate_ok: "frontier_validate f = Inr () \<longleftrightarrow> wf_frontier f"
  by (auto simp: frontier_validate_def wf_frontier_def ebind_eq_Inr validate_origins_ok
      validate_parents_ok opt_list_def)

section \<open>The abstract view: origins and their accepted tails\<close>

type_synonym dot = "u64 \<times> bytes \<times> bytes"

definition dots :: "causal_frontier \<Rightarrow> bytes \<rightharpoonup> dot" where
  "dots f = map_of (map (\<lambda>origin. (of_origin_id origin,
      (of_seq origin, of_event_hash origin, of_segment_manifest_hash origin))) (cf_origins f))"

definition dominates :: "causal_frontier \<Rightarrow> causal_frontier \<Rightarrow> bool" where
  "dominates self base \<longleftrightarrow>
     (\<forall>i n t. dots base i = Some (n, t) \<longrightarrow>
        (\<exists>n' t'. dots self i = Some (n', t') \<and> n \<le> n' \<and> (n = n' \<longrightarrow> t = t')))"

text \<open>The origins of the base whose sequence number differs in the successor.\<close>

definition advanced_from :: "causal_frontier \<Rightarrow> causal_frontier \<Rightarrow> bytes list" where
  "advanced_from self base =
     map of_origin_id
       (filter (\<lambda>origin. map_option fst (dots self (of_origin_id origin)) \<noteq> Some (of_seq origin))
         (cf_origins base))"

definition added_to :: "causal_frontier \<Rightarrow> causal_frontier \<Rightarrow> bytes list" where
  "added_to self base =
     map of_origin_id (filter (\<lambda>origin. dots base (of_origin_id origin) = None) (cf_origins self))"

lemma dots_lookup:
  assumes "sorted_wrt (<) (map of_origin_id (cf_origins f))"
  shows "dots f i = Some (n, e, m) \<longleftrightarrow>
     (\<exists>origin \<in> set (cf_origins f). of_origin_id origin = i \<and> of_seq origin = n
        \<and> of_event_hash origin = e \<and> of_segment_manifest_hash origin = m)"
proof -
  have "distinct (map of_origin_id (cf_origins f))"
    using assms by (simp add: strict_sorted_iff)
  then have "distinct (map fst (map (\<lambda>origin. (of_origin_id origin, (of_seq origin,
      of_event_hash origin, of_segment_manifest_hash origin))) (cf_origins f)))"
    by (simp add: comp_def)
  then show ?thesis
    unfolding dots_def by (subst map_of_eq_Some_iff) auto
qed

lemma dots_None: "dots f i = None \<longleftrightarrow> i \<notin> of_origin_id ` set (cf_origins f)"
  by (force simp: dots_def map_of_eq_None_iff)

lemma binary_search_origin:
  assumes "sorted_wrt (<) (map of_origin_id (cf_origins f))"
  shows "case binary_search (map of_origin_id (cf_origins f)) i of
      None \<Rightarrow> dots f i = None
    | Some ix \<Rightarrow> dots f i = Some (of_seq (cf_origins f ! ix), of_event_hash (cf_origins f ! ix),
                    of_segment_manifest_hash (cf_origins f ! ix))"
proof (cases "binary_search (map of_origin_id (cf_origins f)) i")
  case None
  then have "i \<notin> set (map of_origin_id (cf_origins f))"
    using binary_search_eq_None [OF assms] by blast
  with None show ?thesis by (simp add: dots_None)
next
  case (Some ix)
  with binary_search_eq_Some [OF assms, of i ix]
  have "ix < length (cf_origins f)" "of_origin_id (cf_origins f ! ix) = i" by auto
  with Some show ?thesis by (auto simp: dots_lookup [OF assms])
qed

definition tail_kept :: "causal_frontier \<Rightarrow> origin_frontier \<Rightarrow> bool" where
  "tail_kept self origin \<longleftrightarrow>
     (\<exists>n' e' m'. dots self (of_origin_id origin) = Some (n', e', m') \<and> of_seq origin \<le> n'
        \<and> (of_seq origin = n' \<longrightarrow>
             of_event_hash origin = e' \<and> of_segment_manifest_hash origin = m'))"

lemma check_base_origins_ok:
  assumes "sorted_wrt (<) (map of_origin_id (cf_origins self))"
  shows "check_base_origins (cf_origins self) os = Inr adv \<longleftrightarrow>
     list_all (tail_kept self) os \<and>
     adv = map of_origin_id (filter (\<lambda>origin.
       map_option fst (dots self (of_origin_id origin)) \<noteq> Some (of_seq origin)) os)"
proof (induction os arbitrary: adv)
  case Nil
  then show ?case by auto
next
  case (Cons origin os)
  note look = binary_search_origin [OF assms, of "of_origin_id origin"]
  show ?case
  proof (cases "binary_search (map of_origin_id (cf_origins self)) (of_origin_id origin)")
    case None
    with look show ?thesis by (simp add: tail_kept_def)
  next
    case (Some ix)
    with look show ?thesis
      by (auto simp: Let_def Cons.IH ebind_eq_Inr tail_kept_def not_less)
  qed
qed

lemma dominates_iff_tails_kept:
  assumes "sorted_wrt (<) (map of_origin_id (cf_origins base))"
  shows "dominates self base \<longleftrightarrow> list_all (tail_kept self) (cf_origins base)"
  unfolding dominates_def tail_kept_def list_all_iff
  by (auto simp: dots_lookup [OF assms] split_paired_all) (metis | blast)+

text \<open>
  C1. The successor check is exactly the abstract causal order: a frontier is accepted as a
  successor if and only if both frontiers are well formed, they belong to the same Archive
  and genesis, the projection rules do not regress, the base's hash is among the named
  parents, and the successor dominates the base (no origin omitted, no sequence number
  regressed, no accepted tail rewritten at an unchanged sequence number). The reported
  origins are exactly the base origins that moved and the origins the base did not have.
\<close>

theorem validate_successor_of_refines:
  "validate_successor_of to_vec blake3_hex self base = Inr adv \<longleftrightarrow>
     wf_frontier base \<and> wf_frontier self
     \<and> cf_archive_id self = cf_archive_id base
     \<and> cf_genesis_hash self = cf_genesis_hash base
     \<and> cf_item_projection_version base \<le> cf_item_projection_version self
     \<and> (\<exists>b. to_vec base = Inr b \<and> ''blake3:'' @ blake3_hex b \<in> set (cf_previous_frontiers self))
     \<and> dominates self base
     \<and> adv = \<lparr>advanced_origins = advanced_from self base, added_origins = added_to self base\<rparr>"
proof -
  have self: "wf_frontier self \<Longrightarrow> sorted_wrt (<) (map of_origin_id (cf_origins self))"
    and base: "wf_frontier base \<Longrightarrow> sorted_wrt (<) (map of_origin_id (cf_origins base))"
    and parents: "wf_frontier self \<Longrightarrow> sorted_wrt (<) (cf_previous_frontiers self)"
    by (simp_all add: wf_frontier_def)
  have added: "wf_frontier base \<Longrightarrow>
      map of_origin_id (filter (\<lambda>origin. binary_search (map of_origin_id (cf_origins base))
        (of_origin_id origin) = None) (cf_origins self)) = added_to self base"
    by (simp add: added_to_def binary_search_eq_None [OF base] dots_None)
  show ?thesis
    unfolding validate_successor_of_def frontier_hash_def frontier_canonical_bytes_def
    by (auto simp: ebind_eq_Inr map_err_eq_Inr frontier_validate_ok not_less
        binary_search_eq_None [OF parents] check_base_origins_ok [OF self]
        dominates_iff_tails_kept [OF base] added advanced_from_def
        simp del: not_None_eq dest: binary_search_SomeD split: if_splits)
qed

section \<open>Chains of accepted frontiers\<close>

text \<open>
  What a consumer of accepted frontiers relies on: an accepted step keeps every tail or
  moves it forward. Along a chain of steps this gives monotone sequence numbers and, for
  two chains from one base, agreement on every tail that did not move.
\<close>

locale causal_successor =
  fixes successor :: "'f \<Rightarrow> 'f \<Rightarrow> bool"
    and tails :: "'f \<Rightarrow> 'i \<Rightarrow> ('n::linorder \<times> 't) option"
  assumes step_keeps: "successor later earlier \<Longrightarrow> tails earlier i = Some (n, t) \<Longrightarrow>
    \<exists>n' t'. tails later i = Some (n', t') \<and> n \<le> n' \<and> (n = n' \<longrightarrow> t = t')"
begin

definition step :: "'f \<Rightarrow> 'f \<Rightarrow> bool" where
  "step earlier later \<longleftrightarrow> successor later earlier"

lemma chain_keeps:
  assumes "step\<^sup>*\<^sup>* base later" and "tails base i = Some (n, t)"
  shows "\<exists>n' t'. tails later i = Some (n', t') \<and> n \<le> n' \<and> (n = n' \<longrightarrow> t = t')"
  using assms
proof (induction rule: rtranclp_induct)
  case base
  then show ?case by simp
next
  case (step mid later)
  then obtain n1 t1 where mid: "tails mid i = Some (n1, t1)" "n \<le> n1" "n = n1 \<longrightarrow> t = t1"
    by blast
  with step_keeps step.hyps(2) obtain n2 t2
    where "tails later i = Some (n2, t2)" "n1 \<le> n2" "n1 = n2 \<longrightarrow> t1 = t2"
    unfolding step_def by blast
  with mid show ?case by (metis order.antisym order.trans)
qed

lemma chain_origins: "step\<^sup>*\<^sup>* base later \<Longrightarrow> dom (tails base) \<subseteq> dom (tails later)"
  using chain_keeps by fastforce

lemma chain_no_rewrite:
  "step\<^sup>*\<^sup>* base later \<Longrightarrow> tails base i = Some (n, t) \<Longrightarrow> tails later i = Some (n, t') \<Longrightarrow> t = t'"
  using chain_keeps by fastforce

end

definition accepted_successor ::
  "(causal_frontier \<Rightarrow> bytes + bytes) \<Rightarrow> (bytes \<Rightarrow> bytes) \<Rightarrow> causal_frontier
     \<Rightarrow> causal_frontier \<Rightarrow> bool" where
  "accepted_successor to_vec blake3_hex self base =
     (case validate_successor_of to_vec blake3_hex self base of Inl _ \<Rightarrow> False | Inr _ \<Rightarrow> True)"

lemma accepted_successor_dominates:
  "accepted_successor to_vec blake3_hex self base \<Longrightarrow> dominates self base"
proof -
  assume "accepted_successor to_vec blake3_hex self base"
  then obtain adv where "validate_successor_of to_vec blake3_hex self base = Inr adv"
    by (auto simp: accepted_successor_def split: sum.splits)
  then have "wf_frontier base" "wf_frontier self"
    and keeps: "check_base_origins (cf_origins self) (cf_origins base) = Inr (advanced_origins adv)"
    by (auto simp: validate_successor_of_def ebind_eq_Inr frontier_validate_ok split: if_splits)
  then show ?thesis
    by (simp add: check_base_origins_ok dominates_iff_tails_kept wf_frontier_def)
qed

interpretation frontier: causal_successor "accepted_successor to_vec blake3_hex" dots
  for to_vec blake3_hex
  by unfold_locales (use accepted_successor_dominates in \<open>unfold dominates_def, blast\<close>)

inductive accepted_chain ::
  "(causal_frontier \<Rightarrow> bytes + bytes) \<Rightarrow> (bytes \<Rightarrow> bytes) \<Rightarrow> causal_frontier
     \<Rightarrow> causal_frontier \<Rightarrow> bool" for to_vec blake3_hex where
  chain_refl: "accepted_chain to_vec blake3_hex f f"
| chain_step: "accepted_chain to_vec blake3_hex base f \<Longrightarrow>
    accepted_successor to_vec blake3_hex f' f \<Longrightarrow> accepted_chain to_vec blake3_hex base f'"

lemma accepted_chain_rtranclp:
  "accepted_chain to_vec blake3_hex base f \<Longrightarrow> (frontier.step to_vec blake3_hex)\<^sup>*\<^sup>* base f"
proof (induction rule: accepted_chain.induct)
  case (chain_step base f f')
  then have "frontier.step to_vec blake3_hex f f'" by (simp add: frontier.step_def)
  with chain_step.IH show ?case by (rule rtranclp.rtrancl_into_rtrancl)
qed simp

text \<open>
  C2. Along any chain of accepted successor frontiers no origin disappears, no accepted
  sequence number decreases, and a tail whose sequence number did not change is never
  rewritten.
\<close>

theorem accepted_chain_never_rewrites:
  assumes "accepted_chain to_vec blake3_hex base f" and "dots base i = Some (n, t)"
  shows "\<exists>n' t'. dots f i = Some (n', t') \<and> n \<le> n' \<and> (n = n' \<longrightarrow> t = t')"
  using frontier.chain_keeps [OF accepted_chain_rtranclp [OF assms(1)] assms(2)] .

text \<open>A two-step chain used as the witness: one origin advances, then another is added.\<close>

definition hex_a :: bytes where "hex_a = replicate 64 (CHR ''a'')"
definition hex_b :: bytes where "hex_b = replicate 64 (CHR ''b'')"

definition sample_origin :: "bytes \<Rightarrow> u64 \<Rightarrow> origin_frontier" where
  "sample_origin h n = \<lparr>of_origin_id = ''origin_'' @ h, of_seq = n,
     of_event_hash = ''blake3:'' @ h, of_segment_manifest_hash = ''blake3:'' @ h\<rparr>"

definition sample_frontier :: "origin_frontier list \<Rightarrow> bytes list \<Rightarrow> causal_frontier" where
  "sample_frontier os ps = \<lparr>cf_v = 2, cf_archive_id = ''arc'', cf_genesis_hash = ''blake3:'' @ hex_a,
     cf_origins = os, cf_previous_frontiers = ps, cf_item_projection_version = 1\<rparr>"

theorem accepted_chain_never_rewrites_witness:
  "\<exists>n' t'. dots (sample_frontier [sample_origin hex_a 3, sample_origin hex_b 1]
            [''blake3:'' @ hex_b]) (''origin_'' @ hex_a) = Some (n', t')
          \<and> (2 :: u64) \<le> n' \<and> (2 = n' \<longrightarrow> (''blake3:'' @ hex_a, ''blake3:'' @ hex_a) = t')"
proof (rule accepted_chain_never_rewrites)
  let ?tv = "\<lambda>_ :: causal_frontier. Inr [] :: bytes + bytes" and ?hx = "\<lambda>_ :: bytes. hex_b"
  let ?f0 = "sample_frontier [sample_origin hex_a 2] []"
  let ?f1 = "sample_frontier [sample_origin hex_a 3] [''blake3:'' @ hex_b]"
  let ?f2 = "sample_frontier [sample_origin hex_a 3, sample_origin hex_b 1] [''blake3:'' @ hex_b]"
  have "accepted_successor ?tv ?hx ?f1 ?f0" "accepted_successor ?tv ?hx ?f2 ?f1"
    by code_simp+
  then show "accepted_chain ?tv ?hx ?f0 ?f2"
    by (blast intro: accepted_chain.intros)
  show "dots ?f0 (''origin_'' @ hex_a) = Some (2, ''blake3:'' @ hex_a, ''blake3:'' @ hex_a)"
    by code_simp
qed

end
