(* ===== verification/Paths.thy ===== *)
theory Paths
  imports Byte_Strings
begin

text \<open>
  Path values. A path on disk is a byte sequence; the catalog stores it with an encoding
  tag. \<open>encoded_path\<close> (\<open>src/src/discovery.rs\<close>) is what discovery produces,
  \<open>registry_path\<close> (\<open>src/src/registry.rs\<close>) what requests and snapshots carry,
  \<open>lossless_path\<close> (\<open>src/src/review.rs\<close>) what queries print. The theory shows that the
  stored bytes survive the conversions, and that the half-open byte range computed for a
  prefix query selects exactly the paths with that prefix, in both implementations of the
  bound. Base64 coding is third-party code and appears as the parameters \<open>enc\<close> and \<open>dec\<close>.
  The conversions that exist per platform are modelled for Unix.
\<close>

section \<open>Encoded paths of discovery\<close>

datatype path_encoding = Utf8 | UnixBytes | WindowsUtf16Le

fun encoding_as_str :: "path_encoding \<Rightarrow> bytes" where
  "encoding_as_str Utf8 = ''utf8''"
| "encoding_as_str UnixBytes = ''unix_bytes''"
| "encoding_as_str WindowsUtf16Le = ''windows_utf16le''"

record encoded_path =
  ep_encoding :: path_encoding
  ep_bytes :: bytes
  ep_display :: bytes

definition utf8_path :: "bytes \<Rightarrow> encoded_path" where
  "utf8_path v = \<lparr>ep_encoding = Utf8, ep_bytes = v, ep_display = v\<rparr>"

definition hex_digit :: "nat \<Rightarrow> char" where
  "hex_digit n = (if n < 10 then char_of (48 + n) else char_of (87 + n))"

fun escape_bytes :: "bytes \<Rightarrow> bytes" where
  "escape_bytes [] = []"
| "escape_bytes (b # bs) =
     (let n = of_char b :: nat in
      (if 33 \<le> n \<and> n \<le> 126 \<or> n = 32 then [b]
       else [CHR 0x5C, CHR ''x'', hex_digit (n div 16), hex_digit (n mod 16)])
      @ escape_bytes bs)"

definition encode_relative_path :: "bytes \<Rightarrow> encoded_path" where
  "encode_relative_path path =
     (if is_utf8 path
      then \<lparr>ep_encoding = Utf8, ep_bytes = path, ep_display = path\<rparr>
      else \<lparr>ep_encoding = UnixBytes, ep_bytes = path, ep_display = escape_bytes path\<rparr>)"

section \<open>Registry paths\<close>

record registry_path =
  rp_encoding :: bytes
  rp_text :: "bytes option"
  rp_base64 :: "bytes option"
  rp_display :: bytes

definition registry_path_utf8 :: "bytes \<Rightarrow> registry_path" where
  "registry_path_utf8 v =
     \<lparr>rp_encoding = ''utf8'', rp_text = Some v, rp_base64 = None, rp_display = v\<rparr>"

definition to_path_buf :: "(bytes \<Rightarrow> bytes option) \<Rightarrow> registry_path \<Rightarrow> bytes option" where
  "to_path_buf dec p =
     (if rp_encoding p = ''utf8'' then rp_text p
      else if rp_encoding p = ''unix_bytes'' then Option.bind (rp_base64 p) dec
      else None)"

text \<open>The error is the text of \<open>RegistryError::Invalid\<close>.\<close>

definition registry_path_bytes ::
  "(bytes \<Rightarrow> bytes option) \<Rightarrow> registry_path \<Rightarrow> bytes + bytes" where
  "registry_path_bytes dec p =
     (if rp_encoding p = ''utf8'' then
        (case rp_text p of
           Some t \<Rightarrow> if rp_base64 p = None then Inr t else Inl ''invalid UTF-8 registry path''
         | None \<Rightarrow> Inl ''invalid UTF-8 registry path'')
      else if rp_encoding p = ''unix_bytes'' \<or> rp_encoding p = ''windows_utf16le'' then
        (case rp_base64 p of
           Some b \<Rightarrow>
             if rp_text p = None then ok_or (dec b) ''invalid base64 registry path''
             else Inl ''invalid encoded registry path''
         | None \<Rightarrow> Inl ''invalid encoded registry path'')
      else Inl ''unsupported registry path encoding'')"

text \<open>Rebuilding a path from the stored columns; \<open>None\<close> is the conversion failure.\<close>

definition registry_path_from_parts ::
  "(bytes \<Rightarrow> bytes) \<Rightarrow> bytes \<Rightarrow> bytes \<Rightarrow> bytes \<Rightarrow> registry_path option" where
  "registry_path_from_parts enc encoding b display =
     (if encoding = ''utf8'' then
        (if is_utf8 b
         then Some \<lparr>rp_encoding = encoding, rp_text = Some b, rp_base64 = None,
                    rp_display = display\<rparr>
         else None)
      else Some \<lparr>rp_encoding = encoding, rp_text = None, rp_base64 = Some (enc b),
                 rp_display = display\<rparr>)"

section \<open>Lossless paths of query results\<close>

record lossless_path =
  lp_encoding :: bytes
  lp_display :: bytes
  lp_text :: "bytes option"
  lp_base64 :: "bytes option"

section \<open>Byte ranges for prefix queries\<close>

fun pop_bound :: "bytes \<Rightarrow> bytes option" where
  "pop_bound [] = None"
| "pop_bound (lst # upper) =
     (if (of_char lst :: nat) < 255 then Some (rev (char_of (of_char lst + 1 :: nat) # upper))
      else pop_bound upper)"

definition prefix_upper_bound :: "bytes \<Rightarrow> bytes option" where
  "prefix_upper_bound b = pop_bound (rev b)"

fun prefix_end_from :: "nat \<Rightarrow> bytes \<Rightarrow> bytes option" where
  "prefix_end_from 0 e = None"
| "prefix_end_from (Suc index) e =
     (if (of_char (e ! index) :: nat) \<noteq> 255
      then Some (take (Suc index) (e[index := char_of (of_char (e ! index) + 1 :: nat)]))
      else prefix_end_from index e)"

definition exclusive_prefix_end :: "bytes \<Rightarrow> bytes option" where
  "exclusive_prefix_end prefix = prefix_end_from (length prefix) prefix"

text \<open>The bound, recursively from the front: the form the proofs use.\<close>

fun upper_of :: "bytes \<Rightarrow> bytes option" where
  "upper_of [] = None"
| "upper_of (c # cs) =
     (case upper_of cs of
        Some u \<Rightarrow> Some (c # u)
      | None \<Rightarrow> if (of_char c :: nat) < 255 then Some [char_of (of_char c + 1 :: nat)] else None)"

lemma of_char_less_255: "(of_char c :: nat) < 255 \<longleftrightarrow> (of_char c :: nat) \<noteq> 255"
  using nat_of_char_less_256 [of c] by linarith

lemma upper_of_snoc:
  "upper_of (cs @ [c]) =
     (if (of_char c :: nat) < 255 then Some (cs @ [char_of (of_char c + 1 :: nat)])
      else upper_of cs)"
  by (induction cs) (auto split: option.split)

lemma prefix_upper_bound_eq: "prefix_upper_bound b = upper_of b"
  unfolding prefix_upper_bound_def
  by (induction b rule: rev_induct) (simp_all add: upper_of_snoc)

lemma prefix_end_from_eq: "n \<le> length e \<Longrightarrow> prefix_end_from n e = upper_of (take n e)"
proof (induction n)
  case (Suc n)
  then have "take (Suc n) e = take n e @ [e ! n]" by (simp add: take_Suc_conv_app_nth)
  moreover have "take (Suc n) (e[n := x]) = take n e @ [x]" for x
    using Suc.prems by (simp add: take_Suc_conv_app_nth)
  ultimately show ?case
    using Suc by (simp add: upper_of_snoc of_char_less_255)
qed simp

lemma char_top:
  assumes "(of_char c :: nat) = 255"
  shows "c \<le> d \<longleftrightarrow> c = d"
proof -
  have "(of_char d :: nat) \<le> 255" using nat_of_char_less_256 [of d] by linarith
  then have "c \<le> d \<longleftrightarrow> (of_char c :: nat) = of_char d"
    using assms by (auto simp only: less_eq_char_def)
  then show ?thesis by simp
qed

lemma char_next:
  assumes "(of_char c :: nat) < 255"
  shows "d < char_of (of_char c + 1 :: nat) \<longleftrightarrow> d \<le> c"
  using assms by (auto simp: less_char_def less_eq_char_def)

lemma upper_of_None: "upper_of p = None \<Longrightarrow> p \<le> b \<longleftrightarrow> (\<exists>r. b = p @ r)"
proof (induction p arbitrary: b)
  case (Cons c cs)
  then have "(of_char c :: nat) = 255" and "upper_of cs = None"
    by (auto simp: of_char_less_255 split: option.splits if_splits)
  with Cons.IH char_top [of c] show ?case
    by (cases b) (auto simp: order.strict_iff_order)
qed simp

lemma upper_of_Some: "upper_of p = Some u \<Longrightarrow> p \<le> b \<and> b < u \<longleftrightarrow> (\<exists>r. b = p @ r)"
proof (induction p arbitrary: b u)
  case (Cons c cs)
  show ?case
  proof (cases "upper_of cs")
    case None
    with Cons.prems have c: "(of_char c :: nat) < 255" and u: "u = [char_of (of_char c + 1 :: nat)]"
      by (auto split: if_splits)
    show ?thesis
      using upper_of_None [OF None] char_next [OF c] u by (cases b) auto
  next
    case (Some u')
    with Cons.prems have u: "u = c # u'" by simp
    show ?thesis
    proof (cases b)
      case (Cons d ds)
      with u Cons.IH [OF Some, of ds] show ?thesis by auto
    qed simp
  qed
qed simp

text \<open>
  C37. A prefix query by byte range is exact: a stored path lies at or above the prefix and
  below the computed exclusive upper bound (when there is one) if and only if it starts
  with the prefix, and the two implementations of the bound agree.
\<close>

theorem prefix_range_exact:
  "exclusive_prefix_end p = prefix_upper_bound p \<and>
   (p \<le> b \<and> (case prefix_upper_bound p of None \<Rightarrow> True | Some upper \<Rightarrow> b < upper)
      \<longleftrightarrow> starts_with b p)"
  by (cases "upper_of p")
    (simp_all add: exclusive_prefix_end_def prefix_end_from_eq prefix_upper_bound_eq
      starts_with_iff upper_of_None upper_of_Some)

section \<open>Stored bytes survive the conversions\<close>

text \<open>
  Reading a stored path back loses nothing: whenever the stored columns convert to a
  registry path with a supported encoding, the bytes of that path are the stored bytes,
  given that base64 decoding inverts encoding on them.
\<close>

theorem registry_path_roundtrip:
  assumes "registry_path_from_parts enc encoding b display = Some p"
    and "encoding \<in> {''utf8'', ''unix_bytes'', ''windows_utf16le''}"
    and "dec (enc b) = Some b"
  shows "registry_path_bytes dec p = Inr b \<and> rp_encoding p = encoding \<and> rp_display p = display"
proof (cases "encoding = ''utf8''")
  case True
  with assms(1) show ?thesis
    by (auto simp: registry_path_from_parts_def registry_path_bytes_def split: if_splits)
next
  case False
  with assms(1) have p: "p = \<lparr>rp_encoding = encoding, rp_text = None,
      rp_base64 = Some (enc b), rp_display = display\<rparr>"
    by (simp add: registry_path_from_parts_def)
  have "encoding = ''unix_bytes'' \<or> encoding = ''windows_utf16le''"
    using False assms(2) by blast
  with False assms(3) show ?thesis by (simp add: p registry_path_bytes_def)
qed

theorem registry_path_roundtrip_witness:
  "registry_path_bytes (\<lambda>s. Some (rev s))
     (the (registry_path_from_parts rev ''unix_bytes'' [CHR 0xFF, CHR ''a''] ''?a'')) =
   Inr [CHR 0xFF, CHR ''a'']"
proof -
  let ?p = "\<lparr>rp_encoding = ''unix_bytes'', rp_text = None, rp_base64 = Some [CHR ''a'', CHR 0xFF],
             rp_display = ''?a''\<rparr>"
  have "registry_path_from_parts rev ''unix_bytes'' [CHR 0xFF, CHR ''a''] ''?a'' = Some ?p"
    by (simp add: registry_path_from_parts_def)
  from registry_path_roundtrip [OF this, of "\<lambda>s. Some (rev s)"] this show ?thesis by simp
qed

end
