(* ===== verification/Json_Values.thy ===== *)
theory Json_Values
  imports Byte_Strings
begin

text \<open>
  The JSON values that catalog parameters, history details and event payloads carry
  (\<open>serde_json::Value\<close>): only the shape the modelled code inspects. Objects hold their
  members in serialization order with distinct names. Printing and parsing are third-party
  code and appear as parameters where they are used.
\<close>

datatype json =
    JNull
  | JBool bool
  | JNum int
  | JStr bytes
  | JArr "json list"
  | JObj "(bytes \<times> json) list"

text \<open>Indexing with a name: a missing member, or a value that is no object, gives null.\<close>

fun json_get :: "json \<Rightarrow> bytes \<Rightarrow> json" where
  "json_get (JObj members) k = (case map_of members k of Some v \<Rightarrow> v | None \<Rightarrow> JNull)"
| "json_get v k = JNull"

fun json_as_str :: "json \<Rightarrow> bytes option" where
  "json_as_str (JStr s) = Some s"
| "json_as_str v = None"

fun json_is_object :: "json \<Rightarrow> bool" where
  "json_is_object (JObj _) = True"
| "json_is_object v = False"

text \<open>The accessors of \<open>serde_json::Value\<close> that keep a missing member apart from a null.\<close>

fun json_member :: "json \<Rightarrow> bytes \<Rightarrow> json option" where
  "json_member (JObj members) k = map_of members k"
| "json_member v k = None"

fun json_as_array :: "json \<Rightarrow> json list option" where
  "json_as_array (JArr vs) = Some vs"
| "json_as_array v = None"

fun json_as_u64 :: "json \<Rightarrow> u64 option" where
  "json_as_u64 (JNum n) = (if 0 \<le> n \<and> n < 2 ^ 64 then Some (of_int n) else None)"
| "json_as_u64 v = None"

definition json_opt_str :: "bytes option \<Rightarrow> json" where
  "json_opt_str s = (case s of None \<Rightarrow> JNull | Some t \<Rightarrow> JStr t)"

end
