(* ===== verification/Policy_Requirements.thy ===== *)
theory Policy_Requirements
  imports Byte_Strings
begin

text \<open>
  The typed requirements of a preservation policy (\<open>PolicyRequirements\<close> of
  \<open>src/src/policy.rs\<close>) and their validation. JSON parsing is third-party code: the
  parameter \<open>from_str\<close> yields the parsed record or the parser's message.
\<close>

definition DAY_MS :: u64 where
  "DAY_MS = 86400000"

datatype policy_error =
    PolicySqlite bytes bytes
  | InvalidRequirements bytes bytes
  | InvalidState bytes
  | InvalidLimit
  | PolicyInvalidContinuation
  | PolicyStaleContinuation

fun policy_error_code :: "policy_error \<Rightarrow> bytes" where
  "policy_error_code (PolicySqlite _ _) = ''policy_sqlite''"
| "policy_error_code (InvalidRequirements _ _) = ''policy_invalid_requirements''"
| "policy_error_code (InvalidState _) = ''policy_invalid_state''"
| "policy_error_code InvalidLimit = ''invalid_limit''"
| "policy_error_code PolicyInvalidContinuation = ''invalid_continuation''"
| "policy_error_code PolicyStaleContinuation = ''stale_continuation''"

text \<open>The message of an error, from the attributes of the enum.\<close>

fun policy_error_str :: "policy_error \<Rightarrow> bytes" where
  "policy_error_str (PolicySqlite path source) =
     ''SQLite operation failed for '' @ path @ '': '' @ source"
| "policy_error_str (InvalidRequirements policy_id message) =
     ''policy '' @ policy_id @ '' has invalid requirements: '' @ message"
| "policy_error_str (InvalidState message) =
     ''policy evaluation cannot use projection state: '' @ message"
| "policy_error_str InvalidLimit = ''finding page limit must be between 1 and 1000''"
| "policy_error_str PolicyInvalidContinuation = ''invalid policy finding continuation token''"
| "policy_error_str PolicyStaleContinuation =
     ''policy finding continuation token is stale; restart the query''"

record policy_requirements =
  min_qualifying_copies :: u64
  min_devices :: u64
  min_sites :: u64
  require_offsite_copy :: bool
  require_offline_copy :: bool
  require_encrypted_offsite :: bool
  max_verification_age_days :: u64
  max_observation_age_days :: u64
  max_device_checkin_age_days :: u64

fun check_age_fields ::
  "bytes \<Rightarrow> (bytes \<times> u64) list \<Rightarrow> policy_error + unit" where
  "check_age_fields policy_id [] = Inr ()"
| "check_age_fields policy_id ((field, days) # rest) =
     (if checked_mul days DAY_MS = None
      then Inl (InvalidRequirements policy_id (field @ '' is too large''))
      else check_age_fields policy_id rest)"

definition requirements_from_json ::
  "(bytes \<Rightarrow> bytes + policy_requirements) \<Rightarrow> bytes \<Rightarrow> bytes
     \<Rightarrow> policy_error + policy_requirements" where
  "requirements_from_json from_str policy_id json_text =
     ebind (map_err (InvalidRequirements policy_id) (from_str json_text)) (\<lambda>v.
     if List.member
          [min_qualifying_copies v, min_devices v, min_sites v, max_verification_age_days v,
           max_observation_age_days v, max_device_checkin_age_days v] 0
     then Inl (InvalidRequirements policy_id ''counts and age limits must be positive integers'')
     else
       ebind (check_age_fields policy_id
                [(''max_verification_age_days'', max_verification_age_days v),
                 (''max_observation_age_days'', max_observation_age_days v),
                 (''max_device_checkin_age_days'', max_device_checkin_age_days v)])
         (\<lambda>_. Inr v))"

text \<open>Every count and age is positive and every age limit in milliseconds fits \<open>u64\<close>.\<close>

definition wf_requirements :: "policy_requirements \<Rightarrow> bool" where
  "wf_requirements v \<longleftrightarrow>
     0 < min_qualifying_copies v \<and> 0 < min_devices v \<and> 0 < min_sites v
     \<and> 0 < max_verification_age_days v \<and> 0 < max_observation_age_days v
     \<and> 0 < max_device_checkin_age_days v
     \<and> unat (max_verification_age_days v) * unat DAY_MS < 2 ^ 64
     \<and> unat (max_observation_age_days v) * unat DAY_MS < 2 ^ 64
     \<and> unat (max_device_checkin_age_days v) * unat DAY_MS < 2 ^ 64"

lemma requirements_from_json_ok:
  "requirements_from_json from_str policy_id t = Inr v \<longleftrightarrow> from_str t = Inr v \<and> wf_requirements v"
  by (auto simp: requirements_from_json_def wf_requirements_def ebind_eq_Inr map_err_eq_Inr
      checked_mul_def word_neq_0_conv)

end
