(* ===== verification/Registry_Types.thy ===== *)
theory Registry_Types
  imports Paths Policy_Requirements
begin

text \<open>
  The typed full-snapshot contracts of the registry (\<open>src/src/registry.rs\<close>): the entities a
  user registers, the actions on them and the errors of a rejected change. Field names
  carry a prefix per record, since several snapshots share a field name. The errors that
  wrap another module's error carry that error's text only.
\<close>

datatype registry_error =
    EventStoreFailed bytes
  | ProjectionFailed bytes
  | V2StoreFailed bytes
  | V2ProjectionFailed bytes
  | RegistrySqlite bytes
  | RegistryInvalid bytes
  | DuplicateHardwareIdentity bytes bytes
  | AlreadyExists bytes bytes
  | NotFound bytes bytes

text \<open>
  \<open>DuplicateHardwareIdentity\<close> is the one \<open>RegistryError::Invalid\<close> whose message quotes
  stored text: its arguments are the display name and the ID in that message.
\<close>

fun registry_error_code :: "registry_error \<Rightarrow> bytes" where
  "registry_error_code (EventStoreFailed code) = code"
| "registry_error_code (ProjectionFailed code) = code"
| "registry_error_code (V2StoreFailed code) = code"
| "registry_error_code (V2ProjectionFailed code) = code"
| "registry_error_code (RegistrySqlite _) = ''registry_sqlite''"
| "registry_error_code (RegistryInvalid _) = ''registry_invalid''"
| "registry_error_code (DuplicateHardwareIdentity _ _) = ''registry_invalid''"
| "registry_error_code (AlreadyExists _ _) = ''already_exists''"
| "registry_error_code (NotFound _ _) = ''not_found''"

datatype registry_action = Register | Update | Move | Retire

record site_snapshot =
  si_site_id :: bytes
  si_display_name :: bytes
  si_site_kind :: bytes
  si_description :: "bytes option"
  si_status :: bytes

record policy_snapshot =
  po_policy_id :: bytes
  po_display_name :: bytes
  po_policy_version :: u64
  po_requirements :: policy_requirements
  po_enabled :: bool
  po_status :: bytes

record collection_snapshot =
  co_collection_id :: bytes
  co_display_name :: bytes
  co_description :: "bytes option"
  co_home_site_id :: "bytes option"
  co_policy_id :: "bytes option"
  co_status :: bytes

record device_snapshot =
  de_device_id :: bytes
  de_display_name :: bytes
  de_device_kind :: bytes
  de_serial_hint :: "bytes option"
  de_hardware_fingerprint :: "bytes option"
  de_fingerprint_kind :: "bytes option"
  de_identity_state :: bytes
  de_owner :: "bytes option"
  de_status :: bytes
  de_current_site_id :: "bytes option"
  de_expected_availability :: bytes

record archive_root_snapshot =
  ar_archive_root_id :: bytes
  ar_device_id :: bytes
  ar_display_name :: bytes
  ar_root_path_on_device :: registry_path
  ar_status :: bytes
  ar_filesystem_fingerprint :: "bytes option"
  ar_fingerprint_kind :: "bytes option"
  ar_identity_state :: bytes

record location_snapshot =
  lo_location_id :: bytes
  lo_display_name :: bytes
  lo_kind :: bytes
  lo_archive_root_id :: "bytes option"
  lo_relative_path :: "registry_path option"
  lo_device_id :: "bytes option"
  lo_site_id :: "bytes option"
  lo_encryption_state :: "bytes option"
  lo_trust_level :: "bytes option"
  lo_expected_availability :: bytes
  lo_is_writable :: bool
  lo_status :: bytes

record risk_domain_snapshot =
  rd_risk_domain_id :: bytes
  rd_display_name :: bytes
  rd_risk_kind :: bytes
  rd_description :: "bytes option"
  rd_status :: bytes

record risk_assignment =
  ra_entity_type :: bytes
  ra_entity_id :: bytes
  ra_risk_domain_id :: bytes

record device_check_in =
  ci_device_id :: bytes
  ci_fingerprint_status :: bytes

record device_mount =
  mo_mount_id :: bytes
  mo_device_id :: bytes
  mo_archive_root_id :: "bytes option"
  mo_mount_root_uri :: bytes
  mo_status :: bytes
  mo_fingerprint_status :: bytes

datatype registry_change =
    Site registry_action site_snapshot
  | Policy registry_action policy_snapshot
  | Collection registry_action collection_snapshot
  | Device registry_action device_snapshot
  | ArchiveRoot registry_action archive_root_snapshot
  | Location registry_action location_snapshot
  | RiskDomain registry_action risk_domain_snapshot
  | AssignRisk risk_assignment
  | UnassignRisk risk_assignment
  | DeviceCheckIn device_check_in
  | DeviceMount device_mount

end
