(* ===== verification/Catalog_State.thy ===== *)
theory Catalog_State
  imports Registry_Types
begin

text \<open>
  The authoritative SQLite catalog (\<open>src/src/sqlite_catalog.rs\<close> and its schema
  \<open>src/src/sqlite_catalog.sql\<close>). The state is one record with a list of rows per table;
  history is the list of its rows in insertion order, so the \<open>history_id\<close> of a row is its
  position counted from 1. \<open>schema_ok\<close> collects every constraint of the schema (primary
  keys, unique indexes, CHECK clauses, foreign keys, the non-negative revision in the
  64-bit range). \<open>exec_sql\<close> runs one statement: SQLite accepts its effect if the
  constraints hold afterwards and raises an error, which aborts the surrounding
  transaction, otherwise. A transaction is a function from the state to an error or the
  new state; returning an error leaves the caller with the old state, which is the rollback.

  The model is about catalogs whose file obeys the schema, as every catalog does that was
  made by \<open>catalog_create\<close> and changed through SQLite with foreign keys enabled.
\<close>

section \<open>Tables\<close>

text \<open>
  A BLAKE3 digest is 32 bytes, in Rust by the type \<open>[u8; 32]\<close> and in SQLite by a CHECK clause
  on the column: here it is a 256-bit word.
\<close>

type_synonym digest = "256 word"

text \<open>Text columns restricted by a CHECK clause to a fixed set of words are datatypes.\<close>

datatype presence = Present | Missing | Unknown
datatype integrity = Unverified | Verified | Damaged
datatype check_result = Ok | Mismatch | MissingResult | ReadErrorResult

fun presence_str :: "presence \<Rightarrow> bytes" where
  "presence_str Present = ''present''"
| "presence_str Missing = ''missing''"
| "presence_str Unknown = ''unknown''"

fun integrity_str :: "integrity \<Rightarrow> bytes" where
  "integrity_str Unverified = ''unverified''"
| "integrity_str Verified = ''verified''"
| "integrity_str Damaged = ''damaged''"

fun check_result_str :: "check_result \<Rightarrow> bytes" where
  "check_result_str Ok = ''ok''"
| "check_result_str Mismatch = ''mismatch''"
| "check_result_str MissingResult = ''missing''"
| "check_result_str ReadErrorResult = ''read_error''"

record policy_row =
  pr_policy_id :: bytes
  pr_display_name :: bytes
  pr_policy_version :: int
  pr_requirements_json :: bytes
  pr_enabled :: bool
  pr_status :: bytes

record device_row = device_snapshot +
  de_last_checkin_time_utc_ms :: "int option"
  de_last_fingerprint_match_time_utc_ms :: "int option"
  de_last_fingerprint_status :: "bytes option"

record device_site_row =
  ds_device_id :: bytes
  ds_site_id :: bytes
  ds_arrived_time_utc_ms :: int
  ds_departed_time_utc_ms :: "int option"

record archive_root_row =
  rt_archive_root_id :: bytes
  rt_device_id :: bytes
  rt_display_name :: bytes
  rt_filesystem_fingerprint :: "bytes option"
  rt_fingerprint_kind :: "bytes option"
  rt_identity_state :: bytes
  rt_root_path_bytes :: bytes
  rt_root_path_encoding :: bytes
  rt_root_path_display :: bytes
  rt_status :: bytes
  rt_last_seen_time_utc_ms :: "int option"

record location_row =
  lr_location_id :: bytes
  lr_display_name :: bytes
  lr_kind :: bytes
  lr_archive_root_id :: "bytes option"
  lr_relative_path_bytes :: "bytes option"
  lr_relative_path_encoding :: "bytes option"
  lr_relative_path_display :: "bytes option"
  lr_device_id :: "bytes option"
  lr_site_id :: "bytes option"
  lr_encryption_state :: "bytes option"
  lr_trust_level :: "bytes option"
  lr_expected_availability :: bytes
  lr_is_writable :: bool
  lr_status :: bytes

record mount_row = device_mount +
  mo_host_id :: bytes
  mo_observed_time_utc_ms :: int

record object_row =
  ob_object_id :: bytes
  ob_collection_id :: bytes
  ob_path_encoding :: bytes
  ob_path_bytes :: bytes
  ob_path_display :: bytes
  ob_expected_blake3 :: "digest option"
  ob_expected_size_bytes :: "int option"

record file_row =
  fi_object_id :: bytes
  fi_location_id :: bytes
  fi_presence :: presence
  fi_integrity :: integrity
  fi_last_check_time_utc_ms :: "int option"
  fi_last_check_result :: "check_result option"
  fi_observed_blake3 :: "digest option"
  fi_last_success_time_utc_ms :: "int option"

record history_row =
  hi_object_id :: "bytes option"
  hi_location_id :: "bytes option"
  hi_time_utc_ms :: int
  hi_kind :: bytes
  hi_check_result :: "check_result option"
  hi_expected_blake3 :: "digest option"
  hi_observed_blake3 :: "digest option"
  hi_details_json :: "bytes option"

record job_row =
  jo_job_id :: bytes
  jo_kind :: bytes
  jo_params_json :: bytes
  jo_status :: bytes
  jo_started_time_utc_ms :: int
  jo_finished_time_utc_ms :: "int option"
  jo_progress_json :: bytes

record operation_row =
  op_operation_key :: bytes
  op_request_json :: bytes
  op_outcome_json :: bytes

record catalog =
  ca_archive_id :: bytes
  ca_display_name :: bytes
  ca_revision :: int
  ca_sites :: "site_snapshot list"
  ca_policies :: "policy_row list"
  ca_collections :: "collection_snapshot list"
  ca_devices :: "device_row list"
  ca_device_site_history :: "device_site_row list"
  ca_archive_roots :: "archive_root_row list"
  ca_locations :: "location_row list"
  ca_device_mounts :: "mount_row list"
  ca_risk_domains :: "risk_domain_snapshot list"
  ca_entity_risk_domains :: "risk_assignment list"
  ca_objects :: "object_row list"
  ca_files :: "file_row list"
  ca_history :: "history_row list"
  ca_jobs :: "job_row list"
  ca_scan_seen :: "(bytes \<times> bytes) list"
  ca_write_operations :: "operation_row list"
  ca_job_items :: "(bytes \<times> bytes) list"

section \<open>Status words\<close>

definition ACTIVE :: bytes where "ACTIVE = ''active''"
definition RETIRED :: bytes where "RETIRED = ''retired''"
definition RUNNING :: bytes where "RUNNING = ''running''"
definition COMPLETE :: bytes where "COMPLETE = ''complete''"
definition PARTIAL :: bytes where "PARTIAL = ''partial''"
definition CANCELLED :: bytes where "CANCELLED = ''cancelled''"
definition CONFIRMED :: bytes where "CONFIRMED = ''confirmed''"

lemma status_words_distinct [simp]:
  "ACTIVE \<noteq> RETIRED" "RETIRED \<noteq> ACTIVE"
  "RUNNING \<noteq> COMPLETE" "RUNNING \<noteq> PARTIAL" "RUNNING \<noteq> CANCELLED"
  "COMPLETE \<noteq> RUNNING" "PARTIAL \<noteq> RUNNING" "CANCELLED \<noteq> RUNNING"
  by (simp_all add: ACTIVE_def RETIRED_def RUNNING_def COMPLETE_def PARTIAL_def CANCELLED_def)

definition active_or_retired :: "bytes \<Rightarrow> bool" where
  "active_or_retired s \<longleftrightarrow> s = ACTIVE \<or> s = RETIRED"

definition valid_identity_state :: "bytes \<Rightarrow> bool" where
  "valid_identity_state s \<longleftrightarrow> s = CONFIRMED \<or> s = ''unavailable'' \<or> s = ''conflict''"

definition valid_availability :: "bytes \<Rightarrow> bool" where
  "valid_availability s \<longleftrightarrow> s = ''online'' \<or> s = ''offline'' \<or> s = ''intermittent''"

definition valid_mount_status :: "bytes \<Rightarrow> bool" where
  "valid_mount_status s \<longleftrightarrow> s = ''mounted'' \<or> s = ''unmounted'' \<or> s = ''mismatch''"

section \<open>Schema constraints\<close>

text \<open>Foreign keys: a null reference is allowed where the column is nullable.\<close>

definition refers :: "'k option \<Rightarrow> 'k list \<Rightarrow> bool" where
  "refers r ks \<longleftrightarrow> (case r of None \<Rightarrow> True | Some k \<Rightarrow> k \<in> set ks)"

abbreviation site_ids :: "catalog \<Rightarrow> bytes list" where
  "site_ids c \<equiv> map si_site_id (ca_sites c)"
abbreviation policy_ids :: "catalog \<Rightarrow> bytes list" where
  "policy_ids c \<equiv> map pr_policy_id (ca_policies c)"
abbreviation collection_ids :: "catalog \<Rightarrow> bytes list" where
  "collection_ids c \<equiv> map co_collection_id (ca_collections c)"
abbreviation device_ids :: "catalog \<Rightarrow> bytes list" where
  "device_ids c \<equiv> map de_device_id (ca_devices c)"
abbreviation root_ids :: "catalog \<Rightarrow> bytes list" where
  "root_ids c \<equiv> map rt_archive_root_id (ca_archive_roots c)"
abbreviation location_ids :: "catalog \<Rightarrow> bytes list" where
  "location_ids c \<equiv> map lr_location_id (ca_locations c)"
abbreviation risk_domain_ids :: "catalog \<Rightarrow> bytes list" where
  "risk_domain_ids c \<equiv> map rd_risk_domain_id (ca_risk_domains c)"
abbreviation object_ids :: "catalog \<Rightarrow> bytes list" where
  "object_ids c \<equiv> map ob_object_id (ca_objects c)"
abbreviation job_ids :: "catalog \<Rightarrow> bytes list" where
  "job_ids c \<equiv> map jo_job_id (ca_jobs c)"
abbreviation file_key :: "file_row \<Rightarrow> bytes \<times> bytes" where
  "file_key f \<equiv> (fi_object_id f, fi_location_id f)"
abbreviation object_path :: "object_row \<Rightarrow> bytes \<times> bytes \<times> bytes" where
  "object_path r \<equiv> (ob_collection_id r, ob_path_encoding r, ob_path_bytes r)"

text \<open>Rows covered by the partial unique indexes, with the indexed columns.\<close>

definition device_fingerprint_keys :: "catalog \<Rightarrow> (bytes option \<times> bytes option) list" where
  "device_fingerprint_keys c =
     map (\<lambda>d. (de_fingerprint_kind d, de_hardware_fingerprint d))
       (filter (\<lambda>d. de_status d = ACTIVE \<and> de_identity_state d = CONFIRMED
                     \<and> de_hardware_fingerprint d \<noteq> None \<and> de_fingerprint_kind d \<noteq> None)
         (ca_devices c))"

definition root_path_keys :: "catalog \<Rightarrow> (bytes \<times> bytes \<times> bytes) list" where
  "root_path_keys c =
     map (\<lambda>r. (rt_device_id r, rt_root_path_encoding r, rt_root_path_bytes r))
       (filter (\<lambda>r. rt_status r = ACTIVE) (ca_archive_roots c))"

definition root_fingerprint_keys :: "catalog \<Rightarrow> (bytes option \<times> bytes option) list" where
  "root_fingerprint_keys c =
     map (\<lambda>r. (rt_fingerprint_kind r, rt_filesystem_fingerprint r))
       (filter (\<lambda>r. rt_status r = ACTIVE \<and> rt_identity_state r = CONFIRMED
                     \<and> rt_filesystem_fingerprint r \<noteq> None \<and> rt_fingerprint_kind r \<noteq> None)
         (ca_archive_roots c))"

definition location_row_ok :: "location_row \<Rightarrow> bool" where
  "location_row_ok l \<longleftrightarrow>
     (lr_kind l = ''filesystem'' \<or> lr_kind l = ''service'')
     \<and> (case lr_encryption_state l of None \<Rightarrow> True
         | Some s \<Rightarrow> s = ''encrypted'' \<or> s = ''unencrypted'' \<or> s = ''unknown'')
     \<and> (case lr_trust_level l of None \<Rightarrow> True
         | Some s \<Rightarrow> s = ''trusted'' \<or> s = ''untrusted'' \<or> s = ''unknown'')
     \<and> valid_availability (lr_expected_availability l) \<and> active_or_retired (lr_status l)
     \<and> (lr_archive_root_id l \<noteq> None \<and> lr_device_id l \<noteq> None \<and> lr_site_id l = None
          \<and> lr_relative_path_bytes l \<noteq> None
        \<or> lr_archive_root_id l = None \<and> lr_device_id l = None \<and> lr_site_id l \<noteq> None
          \<and> lr_relative_path_bytes l = None)"

definition topology_schema_ok :: "catalog \<Rightarrow> bool" where
  "topology_schema_ok c \<longleftrightarrow>
     distinct (site_ids c) \<and> list_all (\<lambda>s. active_or_retired (si_status s)) (ca_sites c)
     \<and> distinct (policy_ids c)
     \<and> list_all (\<lambda>p. 0 < pr_policy_version p \<and> active_or_retired (pr_status p)) (ca_policies c)
     \<and> distinct (collection_ids c)
     \<and> list_all (\<lambda>k. active_or_retired (co_status k) \<and> refers (co_home_site_id k) (site_ids c)
                   \<and> refers (co_policy_id k) (policy_ids c)) (ca_collections c)
     \<and> distinct (risk_domain_ids c)
     \<and> list_all (\<lambda>r. active_or_retired (rd_status r)) (ca_risk_domains c)
     \<and> distinct (ca_entity_risk_domains c)
     \<and> list_all (\<lambda>a. (ra_entity_type a = ''location'' \<or> ra_entity_type a = ''archive_root''
                       \<or> ra_entity_type a = ''device'' \<or> ra_entity_type a = ''site'')
                   \<and> ra_risk_domain_id a \<in> set (risk_domain_ids c)) (ca_entity_risk_domains c)"

definition storage_schema_ok :: "catalog \<Rightarrow> bool" where
  "storage_schema_ok c \<longleftrightarrow>
     distinct (device_ids c)
     \<and> list_all (\<lambda>d. valid_identity_state (de_identity_state d) \<and> active_or_retired (de_status d)
                   \<and> valid_availability (de_expected_availability d)
                   \<and> refers (de_current_site_id d) (site_ids c)) (ca_devices c)
     \<and> distinct (device_fingerprint_keys c)
     \<and> distinct (map (\<lambda>h. (ds_device_id h, ds_arrived_time_utc_ms h)) (ca_device_site_history c))
     \<and> distinct (map ds_device_id
                   (filter (\<lambda>h. ds_departed_time_utc_ms h = None) (ca_device_site_history c)))
     \<and> list_all (\<lambda>h. ds_device_id h \<in> set (device_ids c) \<and> ds_site_id h \<in> set (site_ids c))
         (ca_device_site_history c)
     \<and> distinct (root_ids c)
     \<and> list_all (\<lambda>r. rt_device_id r \<in> set (device_ids c)
                   \<and> valid_identity_state (rt_identity_state r)
                   \<and> active_or_retired (rt_status r)) (ca_archive_roots c)
     \<and> distinct (root_path_keys c) \<and> distinct (root_fingerprint_keys c)
     \<and> distinct (location_ids c)
     \<and> list_all (\<lambda>l. location_row_ok l \<and> refers (lr_archive_root_id l) (root_ids c)
                   \<and> refers (lr_device_id l) (device_ids c)
                   \<and> refers (lr_site_id l) (site_ids c)) (ca_locations c)
     \<and> distinct (map mo_mount_id (ca_device_mounts c))
     \<and> list_all (\<lambda>m. mo_device_id m \<in> set (device_ids c)
                   \<and> refers (mo_archive_root_id m) (root_ids c)
                   \<and> valid_mount_status (mo_status m)) (ca_device_mounts c)"

definition object_row_ok :: "bytes list \<Rightarrow> object_row \<Rightarrow> bool" where
  "object_row_ok cids r \<longleftrightarrow>
     ob_collection_id r \<in> set cids
     \<and> (case ob_expected_size_bytes r of None \<Rightarrow> True | Some n \<Rightarrow> 0 \<le> n)"

definition file_row_ok :: "bytes list \<Rightarrow> bytes list \<Rightarrow> file_row \<Rightarrow> bool" where
  "file_row_ok oids lids f \<longleftrightarrow>
     fi_object_id f \<in> set oids \<and> fi_location_id f \<in> set lids
     \<and> (fi_last_check_time_utc_ms f = None \<longleftrightarrow> fi_last_check_result f = None)
     \<and> (fi_integrity f = Verified \<longrightarrow> fi_last_success_time_utc_ms f \<noteq> None)"

definition history_row_ok :: "bytes list \<Rightarrow> bytes list \<Rightarrow> history_row \<Rightarrow> bool" where
  "history_row_ok oids lids h \<longleftrightarrow>
     refers (hi_object_id h) oids \<and> refers (hi_location_id h) lids"

definition job_status_ok :: "bytes \<Rightarrow> bool" where
  "job_status_ok s \<longleftrightarrow> s = RUNNING \<or> s = COMPLETE \<or> s = PARTIAL \<or> s = CANCELLED"

definition content_schema_ok :: "catalog \<Rightarrow> bool" where
  "content_schema_ok c \<longleftrightarrow>
     distinct (object_ids c) \<and> distinct (map object_path (ca_objects c))
     \<and> list_all (object_row_ok (collection_ids c)) (ca_objects c)
     \<and> distinct (map file_key (ca_files c))
     \<and> list_all (file_row_ok (object_ids c) (location_ids c)) (ca_files c)
     \<and> list_all (history_row_ok (object_ids c) (location_ids c)) (ca_history c)"

definition job_schema_ok :: "catalog \<Rightarrow> bool" where
  "job_schema_ok c \<longleftrightarrow>
     distinct (job_ids c) \<and> list_all (\<lambda>j. job_status_ok (jo_status j)) (ca_jobs c)
     \<and> distinct (ca_scan_seen c)
     \<and> list_all (\<lambda>(j, i). j \<in> set (job_ids c) \<and> i \<in> set (object_ids c)) (ca_scan_seen c)
     \<and> distinct (ca_job_items c)
     \<and> list_all (\<lambda>(j, i). j \<in> set (job_ids c) \<and> i \<in> set (object_ids c)) (ca_job_items c)
     \<and> distinct (map op_operation_key (ca_write_operations c))"

definition schema_ok :: "catalog \<Rightarrow> bool" where
  "schema_ok c \<longleftrightarrow>
     0 \<le> ca_revision c \<and> ca_revision c \<le> i64_max
     \<and> topology_schema_ok c \<and> storage_schema_ok c \<and> content_schema_ok c \<and> job_schema_ok c"

section \<open>Statements\<close>

text \<open>One statement with its constraint check; \<open>err\<close> is the error of the caller's type.\<close>

definition exec_sql :: "'e \<Rightarrow> (catalog \<Rightarrow> catalog) \<Rightarrow> catalog \<Rightarrow> 'e + catalog" where
  "exec_sql err stmt c = (if schema_ok (stmt c) then Inr (stmt c) else Inl err)"

definition update_where :: "('r \<Rightarrow> bool) \<Rightarrow> ('r \<Rightarrow> 'r) \<Rightarrow> 'r list \<Rightarrow> 'r list" where
  "update_where p f rows = map (\<lambda>r. if p r then f r else r) rows"

text \<open>\<open>INSERT .. ON CONFLICT(key) DO UPDATE\<close>.\<close>

definition upsert_by :: "('r \<Rightarrow> 'k) \<Rightarrow> ('r \<Rightarrow> 'r) \<Rightarrow> 'r \<Rightarrow> 'r list \<Rightarrow> 'r list" where
  "upsert_by key upd new rows =
     (if List.member (map key rows) (key new)
      then update_where (\<lambda>r. key r = key new) upd rows
      else rows @ [new])"

text \<open>\<open>INSERT OR IGNORE\<close> on a key.\<close>

definition insert_or_ignore :: "('r \<Rightarrow> 'k) \<Rightarrow> 'r \<Rightarrow> 'r list \<Rightarrow> 'r list" where
  "insert_or_ignore key new rows =
     (if List.member (map key rows) (key new) then rows else rows @ [new])"

definition lookup_by :: "('r \<Rightarrow> 'k) \<Rightarrow> 'k \<Rightarrow> 'r list \<Rightarrow> 'r option" where
  "lookup_by key k rows = find (\<lambda>r. key r = k) rows"

definition bump_revision :: "catalog \<Rightarrow> catalog" where
  "bump_revision c = c\<lparr>ca_revision := ca_revision c + 1\<rparr>"

definition append_history_row :: "history_row \<Rightarrow> catalog \<Rightarrow> catalog" where
  "append_history_row h c = c\<lparr>ca_history := ca_history c @ [h]\<rparr>"

section \<open>Creating, opening and describing a catalog\<close>

definition CATALOG_APPLICATION_ID :: int where
  "CATALOG_APPLICATION_ID = 0x414c5343"

definition CATALOG_SCHEMA_VERSION :: int where
  "CATALOG_SCHEMA_VERSION = 1"

datatype sqlite_catalog_error =
    CatalogIo bytes
  | CatalogSqlite bytes
  | UnsupportedFormat int int

text \<open>A database file: its two header integers and the tables.\<close>

record database_file =
  db_application_id :: int
  db_user_version :: int
  db_catalog :: catalog

definition empty_catalog :: "bytes \<Rightarrow> bytes \<Rightarrow> catalog" where
  "empty_catalog archive_id display_name =
     \<lparr>ca_archive_id = archive_id, ca_display_name = display_name, ca_revision = 0,
      ca_sites = [], ca_policies = [], ca_collections = [], ca_devices = [],
      ca_device_site_history = [], ca_archive_roots = [], ca_locations = [],
      ca_device_mounts = [], ca_risk_domains = [], ca_entity_risk_domains = [],
      ca_objects = [], ca_files = [], ca_history = [], ca_jobs = [], ca_scan_seen = [],
      ca_write_operations = [], ca_job_items = []\<rparr>"

text \<open>The file system entry at the path, if any, is the second argument.\<close>

definition catalog_create ::
  "bytes \<Rightarrow> database_file option \<Rightarrow> bytes \<Rightarrow> bytes \<Rightarrow> sqlite_catalog_error + database_file" where
  "catalog_create path existing archive_id display_name =
     (case existing of
        Some _ \<Rightarrow> Inl (CatalogIo path)
      | None \<Rightarrow> Inr \<lparr>db_application_id = CATALOG_APPLICATION_ID,
                    db_user_version = CATALOG_SCHEMA_VERSION,
                    db_catalog = empty_catalog archive_id display_name\<rparr>)"

definition catalog_open :: "database_file \<Rightarrow> sqlite_catalog_error + catalog" where
  "catalog_open db =
     (if db_application_id db \<noteq> CATALOG_APPLICATION_ID
         \<or> db_user_version db \<noteq> CATALOG_SCHEMA_VERSION
      then Inl (UnsupportedFormat (db_application_id db) (db_user_version db))
      else if ca_revision (db_catalog db) < 0 then Inl (CatalogSqlite ''out of range'')
      else Inr (db_catalog db))"

record catalog_metadata =
  cm_archive_id :: bytes
  cm_display_name :: bytes
  cm_revision :: u64

definition metadata :: "catalog \<Rightarrow> sqlite_catalog_error + catalog_metadata" where
  "metadata c =
     (if ca_revision c < 0 then Inl (CatalogSqlite ''out of range'')
      else Inr \<lparr>cm_archive_id = ca_archive_id c, cm_display_name = ca_display_name c,
                cm_revision = of_int (ca_revision c)\<rparr>)"

section \<open>Facts about rows and keys\<close>

lemma map_update_where [table_simps]:
  "(\<And>r. p r \<Longrightarrow> key (f r) = key r) \<Longrightarrow> map key (update_where p f rows) = map key rows"
  by (simp add: update_where_def)

lemma set_update_where:
  "set (update_where p f rows) = {r \<in> set rows. \<not> p r} \<union> f ` {r \<in> set rows. p r}"
  by (auto simp: update_where_def)

lemma update_where_id: "(\<And>r. r \<in> set rows \<Longrightarrow> \<not> p r) \<Longrightarrow> update_where p f rows = rows"
  by (simp add: update_where_def map_idI)

lemma list_all_update_where:
  "list_all Q rows \<Longrightarrow> (\<And>r. r \<in> set rows \<Longrightarrow> Q r \<Longrightarrow> p r \<Longrightarrow> Q (f r)) \<Longrightarrow>
     list_all Q (update_where p f rows)"
  by (auto simp: list_all_iff set_update_where)

lemma map_upsert_by:
  "(\<And>r. key r = key new \<Longrightarrow> key' (upd r) = key' r) \<Longrightarrow>
     map key' (upsert_by key upd new rows) =
       (if key new \<in> key ` set rows then map key' rows else map key' rows @ [key' new])"
  by (simp add: upsert_by_def map_update_where)

lemma distinct_upsert_by:
  "distinct (map key rows) \<Longrightarrow> (\<And>r. key r = key new \<Longrightarrow> key (upd r) = key r) \<Longrightarrow>
     distinct (map key (upsert_by key upd new rows))"
  by (auto simp: map_upsert_by)

lemma list_all_upsert_by:
  "list_all Q rows \<Longrightarrow> Q new \<Longrightarrow>
     (\<And>r. r \<in> set rows \<Longrightarrow> Q r \<Longrightarrow> key r = key new \<Longrightarrow> Q (upd r)) \<Longrightarrow>
     list_all Q (upsert_by key upd new rows)"
  by (simp add: upsert_by_def list_all_update_where)

lemma distinct_insert_or_ignore:
  "distinct (map key rows) \<Longrightarrow> distinct (map key (insert_or_ignore key new rows))"
  by (auto simp: insert_or_ignore_def)

lemma list_all_insert_or_ignore:
  "list_all Q rows \<Longrightarrow> Q new \<Longrightarrow> list_all Q (insert_or_ignore key new rows)"
  by (simp add: insert_or_ignore_def)

lemma set_insert_or_ignore:
  "set (insert_or_ignore key new rows) =
     (if key new \<in> key ` set rows then set rows else insert new (set rows))"
  by (auto simp: insert_or_ignore_def)

lemma lookup_by_None: "lookup_by key k rows = None \<longleftrightarrow> k \<notin> key ` set rows"
  by (auto simp: lookup_by_def find_None_iff)

lemma lookup_by_SomeD: "lookup_by key k rows = Some r \<Longrightarrow> r \<in> set rows \<and> key r = k"
  by (auto simp: lookup_by_def find_Some_iff)

lemma lookup_by_eq_Some:
  assumes "distinct (map key rows)"
  shows "lookup_by key k rows = Some r \<longleftrightarrow> r \<in> set rows \<and> key r = k"
proof
  assume r: "r \<in> set rows \<and> key r = k"
  then obtain r' where r': "lookup_by key k rows = Some r'"
    by (cases "lookup_by key k rows") (auto simp: lookup_by_None)
  with r assms have "r' = r"
    by (auto simp: distinct_map dest!: lookup_by_SomeD intro: inj_onD)
  with r' show "lookup_by key k rows = Some r" by simp
qed (rule lookup_by_SomeD)

lemma lookup_by_update_where:
  assumes "\<And>r. p r \<Longrightarrow> key (f r) = key r"
  shows "lookup_by key k (update_where p f rows) =
    map_option (\<lambda>r. if p r then f r else r) (lookup_by key k rows)"
  using assms by (induction rows) (auto simp: lookup_by_def update_where_def)

lemma lookup_by_append:
  "lookup_by key k (rows @ rows') =
     (case lookup_by key k rows of Some r \<Rightarrow> Some r | None \<Rightarrow> lookup_by key k rows')"
  by (induction rows) (auto simp: lookup_by_def)

lemma lookup_by_single: "lookup_by key k [r] = (if key r = k then Some r else None)"
  by (simp add: lookup_by_def)

lemma lookup_by_upsert_by:
  assumes "\<And>r. key r = key new \<Longrightarrow> key (upd r) = key r"
  shows "lookup_by key k (upsert_by key upd new rows) =
    (if k = key new then Some (case lookup_by key k rows of None \<Rightarrow> new | Some r \<Rightarrow> upd r)
     else lookup_by key k rows)"
proof (cases "key new \<in> key ` set rows")
  case True
  then obtain r where "lookup_by key (key new) rows = Some r" "key r = key new"
    by (cases "lookup_by key (key new) rows") (auto simp: lookup_by_None dest: lookup_by_SomeD)
  moreover have "lookup_by key k (upsert_by key upd new rows) =
      map_option (\<lambda>r. if key r = key new then upd r else r) (lookup_by key k rows)"
    using True lookup_by_update_where [of "\<lambda>r. key r = key new" key upd, OF assms]
    by (simp add: upsert_by_def)
  ultimately show ?thesis
    by (cases "lookup_by key k rows") (auto dest: lookup_by_SomeD)
next
  case False
  then have "lookup_by key (key new) rows = None" by (simp add: lookup_by_None)
  with False show ?thesis
    by (auto simp: upsert_by_def lookup_by_append lookup_by_single split: option.split)
qed

lemma lookup_by_insert_or_ignore:
  "lookup_by key k (insert_or_ignore key new rows) =
    (if k = key new then Some (case lookup_by key k rows of None \<Rightarrow> new | Some r \<Rightarrow> r)
     else lookup_by key k rows)"
proof (cases "lookup_by key (key new) rows")
  case None
  then have "key new \<notin> key ` set rows" by (simp only: lookup_by_None) simp
  with None show ?thesis
    by (auto simp: insert_or_ignore_def lookup_by_append lookup_by_single split: option.split)
next
  case (Some r)
  then have "key new \<in> key ` set rows" using lookup_by_None [of key "key new" rows] by auto
  with Some show ?thesis by (auto simp: insert_or_ignore_def)
qed

lemma exec_sql_eq_Inr [result_simps]:
  "exec_sql err stmt c = Inr c' \<longleftrightarrow> c' = stmt c \<and> schema_ok (stmt c)"
  by (auto simp: exec_sql_def)

lemma exec_sql_ok [simp]: "schema_ok (stmt c) \<Longrightarrow> exec_sql err stmt c = Inr (stmt c)"
  by (simp add: exec_sql_def)

lemma schema_ok_empty: "schema_ok (empty_catalog archive_id display_name)"
  by (simp add: schema_ok_def topology_schema_ok_def storage_schema_ok_def content_schema_ok_def
      job_schema_ok_def empty_catalog_def device_fingerprint_keys_def root_path_keys_def
      root_fingerprint_keys_def i64_max_def)

end
