(* ===== verification/Registry_Validation.thy ===== *)
theory Registry_Validation
  imports Catalog_State Json_Values
begin

text \<open>
  Validation of a registry change against the current catalog (\<open>validate_change_on\<close> of
  \<open>src/src/registry.rs\<close> with its helpers), one function per kind of change, in the order of
  the checks in the source. Serialization of requirements and base64 are third-party code,
  held by \<open>registry_codec\<close>.
\<close>

record registry_codec =
  requirements_to_string :: "policy_requirements \<Rightarrow> bytes"
  requirements_from_str :: "bytes \<Rightarrow> bytes + policy_requirements"
  registry_base64_decode :: "bytes \<Rightarrow> bytes option"
  registry_base64_encode :: "bytes \<Rightarrow> bytes"
  change_to_value :: "registry_change \<Rightarrow> json"
  registry_value_to_string :: "json \<Rightarrow> bytes"

section \<open>Tables of entities\<close>

datatype entity_table_name = Sites | Policies | Collections | Devices | ArchiveRoots | Locations | RiskDomains

fun table_name :: "entity_table_name \<Rightarrow> bytes" where
  "table_name Sites = ''sites''"
| "table_name Policies = ''policies''"
| "table_name Collections = ''collections''"
| "table_name Devices = ''devices''"
| "table_name ArchiveRoots = ''archive_roots''"
| "table_name Locations = ''locations''"
| "table_name RiskDomains = ''risk_domains''"

fun table_ids :: "entity_table_name \<Rightarrow> catalog \<Rightarrow> bytes list" where
  "table_ids Sites c = site_ids c"
| "table_ids Policies c = policy_ids c"
| "table_ids Collections c = collection_ids c"
| "table_ids Devices c = device_ids c"
| "table_ids ArchiveRoots c = root_ids c"
| "table_ids Locations c = location_ids c"
| "table_ids RiskDomains c = risk_domain_ids c"

definition entity_exists :: "entity_table_name \<Rightarrow> bytes \<Rightarrow> catalog \<Rightarrow> bool" where
  "entity_exists table entity_id c = List.member (table_ids table c) entity_id"

definition require_entity :: "entity_table_name \<Rightarrow> bytes \<Rightarrow> catalog \<Rightarrow> registry_error + unit" where
  "require_entity table entity_id c =
     ensure (entity_exists table entity_id c) (NotFound (table_name table) entity_id)"

definition require_optional_entity ::
  "entity_table_name \<Rightarrow> bytes option \<Rightarrow> catalog \<Rightarrow> registry_error + unit" where
  "require_optional_entity table entity_id c =
     (case entity_id of None \<Rightarrow> Inr () | Some i \<Rightarrow> require_entity table i c)"

definition require_nonempty :: "bytes \<Rightarrow> bytes \<Rightarrow> registry_error + unit" where
  "require_nonempty field v = ensure (str_trim v \<noteq> []) (RegistryInvalid (field @ '' is required''))"

definition entity_table :: "bytes \<Rightarrow> registry_error + entity_table_name" where
  "entity_table entity_type =
     (if entity_type = ''location'' then Inr Locations
      else if entity_type = ''archive_root'' then Inr ArchiveRoots
      else if entity_type = ''device'' then Inr Devices
      else if entity_type = ''site'' then Inr Sites
      else Inl (RegistryInvalid ''invalid risk entity type''))"

section \<open>The life cycle shared by all entities\<close>

definition validate_lifecycle ::
  "entity_table_name \<Rightarrow> bytes \<Rightarrow> bytes \<Rightarrow> bytes \<Rightarrow> bytes \<Rightarrow> registry_action \<Rightarrow> catalog \<Rightarrow>
   registry_error + unit" where
  "validate_lifecycle table kind entity_id display_name status action c =
     ebind (require_nonempty ''ID'' entity_id) (\<lambda>_.
     ebind (require_nonempty ''display_name'' display_name) (\<lambda>_.
     let expected_status = (if action = Retire then RETIRED else ACTIVE);
         exists = entity_exists table entity_id c
     in
     ebind (ensure (status = expected_status)
       (RegistryInvalid (kind @ '' status must be '' @ expected_status @ '' for this action''))) (\<lambda>_.
     ebind (ensure (\<not> (action = Register \<and> exists)) (AlreadyExists kind entity_id)) (\<lambda>_.
     ensure (\<not> (action \<noteq> Register \<and> \<not> exists)) (NotFound kind entity_id)))))"

section \<open>Changes per kind of entity\<close>

definition validate_site :: "registry_action \<Rightarrow> site_snapshot \<Rightarrow> catalog \<Rightarrow> registry_error + unit" where
  "validate_site action v c =
     ebind (validate_lifecycle Sites ''site'' (si_site_id v) (si_display_name v) (si_status v) action c)
       (\<lambda>_. require_nonempty ''site_kind'' (si_site_kind v))"

definition validate_policy ::
  "registry_codec \<Rightarrow> registry_action \<Rightarrow> policy_snapshot \<Rightarrow> catalog \<Rightarrow> registry_error + unit" where
  "validate_policy codec action v c =
     ebind (validate_lifecycle Policies ''policy'' (po_policy_id v) (po_display_name v) (po_status v)
              action c) (\<lambda>_.
     ebind (map_err (\<lambda>e. RegistryInvalid (policy_error_str e))
              (requirements_from_json (requirements_from_str codec) (po_policy_id v)
                (requirements_to_string codec (po_requirements v)))) (\<lambda>_.
     ebind (ensure (po_policy_version v \<noteq> 0) (RegistryInvalid ''policy_version must be positive''))
       (\<lambda>_.
     if action = Update then
       ebind (ok_or (lookup_by pr_policy_id (po_policy_id v) (ca_policies c))
                (RegistrySqlite ''no rows'')) (\<lambda>current.
       ensure (0 \<le> pr_policy_version current \<and> pr_policy_version current < uint (po_policy_version v))
         (RegistryInvalid ''policy updates must increase policy_version''))
     else Inr ())))"

definition validate_collection ::
  "registry_action \<Rightarrow> collection_snapshot \<Rightarrow> catalog \<Rightarrow> registry_error + unit" where
  "validate_collection action v c =
     ebind (validate_lifecycle Collections ''collection'' (co_collection_id v) (co_display_name v)
              (co_status v) action c) (\<lambda>_.
     ebind (require_optional_entity Sites (co_home_site_id v) c) (\<lambda>_.
     require_optional_entity Policies (co_policy_id v) c))"

definition is_archive_root_fingerprint_kind :: "bytes \<Rightarrow> bool" where
  "is_archive_root_fingerprint_kind kind =
     List.member [''filesystem_uuid'', ''filesystem_label'', ''partition_uuid'', ''partition_label'',
                  ''mount_path'', ''path''] (to_ascii_lowercase kind)"

definition trimmed :: "bytes option \<Rightarrow> bytes option" where
  "trimmed v = (case map_option str_trim v of None \<Rightarrow> None | Some s \<Rightarrow> if s = [] then None else Some s)"

definition validate_device_identity :: "device_snapshot \<Rightarrow> catalog \<Rightarrow> registry_error + unit" where
  "validate_device_identity v c =
     (let fingerprint = trimmed (de_hardware_fingerprint v);
          fingerprint_kind = trimmed (de_fingerprint_kind v)
      in
      ebind (ensure ((fingerprint \<noteq> None) = (fingerprint_kind \<noteq> None))
        (RegistryInvalid ''device fingerprint kind and value must be supplied together'')) (\<lambda>_.
      ebind (ensure (\<not> ((de_identity_state v = CONFIRMED \<or> de_identity_state v = ''conflict'')
                         \<and> (fingerprint = None \<or> fingerprint_kind = None)))
        (RegistryInvalid (de_identity_state v @ '' devices require fingerprint kind and value'')))
        (\<lambda>_.
      ebind (ensure (\<not> (de_identity_state v = ''unavailable'' \<and> fingerprint \<noteq> None))
        (RegistryInvalid ''unavailable Device identity cannot retain a hardware fingerprint'')) (\<lambda>_.
      ebind (ensure (case fingerprint_kind of None \<Rightarrow> True
                     | Some k \<Rightarrow> \<not> is_archive_root_fingerprint_kind k)
        (RegistryInvalid ''filesystem, partition, and mount-path fingerprints identify Archive Roots, not Devices''))
        (\<lambda>_.
      if de_identity_state v = CONFIRMED then
        (case find (\<lambda>d. de_device_id d \<noteq> de_device_id v \<and> de_status d = ACTIVE
                        \<and> de_identity_state d = CONFIRMED \<and> de_fingerprint_kind d = fingerprint_kind
                        \<and> de_hardware_fingerprint d = fingerprint) (ca_devices c) of
           Some d \<Rightarrow> Inl (DuplicateHardwareIdentity (de_display_name d) (de_device_id d))
         | None \<Rightarrow> Inr ())
      else Inr ())))))"

definition validate_device ::
  "registry_action \<Rightarrow> device_snapshot \<Rightarrow> catalog \<Rightarrow> registry_error + unit" where
  "validate_device action v c =
     ebind (validate_lifecycle Devices ''device'' (de_device_id v) (de_display_name v) (de_status v)
              action c) (\<lambda>_.
     ebind (require_optional_entity Sites (de_current_site_id v) c) (\<lambda>_.
     ebind (ensure (valid_identity_state (de_identity_state v))
       (RegistryInvalid ''invalid device identity_state'')) (\<lambda>_.
     ebind (ensure (valid_availability (de_expected_availability v))
       (RegistryInvalid ''invalid expected_availability'')) (\<lambda>_.
     ebind (validate_device_identity v c) (\<lambda>_.
     if action = Update \<or> action = Move then
       ebind (ok_or (lookup_by de_device_id (de_device_id v) (ca_devices c))
                (RegistrySqlite ''no rows'')) (\<lambda>current.
       ebind (ensure (\<not> (action = Update \<and> de_current_site_id current \<noteq> de_current_site_id v))
         (RegistryInvalid ''use device move when changing current_site_id'')) (\<lambda>_.
       ensure (\<not> (action = Move \<and> de_current_site_id current = de_current_site_id v))
         (RegistryInvalid ''device move must change current_site_id'')))
     else Inr ())))))"

definition root_path_bytes :: "registry_codec \<Rightarrow> registry_path \<Rightarrow> registry_error + bytes" where
  "root_path_bytes codec p = map_err RegistryInvalid (registry_path_bytes (registry_base64_decode codec) p)"

text \<open>What an update of an archive root must keep.\<close>

definition root_identity_row ::
  "archive_root_row \<Rightarrow> bytes \<times> bytes \<times> bytes \<times> bytes option \<times> bytes option \<times> bytes" where
  "root_identity_row r = (rt_device_id r, rt_root_path_encoding r, rt_root_path_bytes r,
     rt_filesystem_fingerprint r, rt_fingerprint_kind r, rt_identity_state r)"

definition validate_archive_root ::
  "registry_codec \<Rightarrow> registry_action \<Rightarrow> archive_root_snapshot \<Rightarrow> catalog \<Rightarrow>
   registry_error + unit" where
  "validate_archive_root codec action v c =
     ebind (validate_lifecycle ArchiveRoots ''archive root'' (ar_archive_root_id v)
              (ar_display_name v) (ar_status v) action c) (\<lambda>_.
     ebind (require_entity Devices (ar_device_id v) c) (\<lambda>_.
     ebind (ensure (valid_identity_state (ar_identity_state v))
       (RegistryInvalid ''invalid archive root identity_state'')) (\<lambda>_.
     let has_fingerprint = ar_filesystem_fingerprint v \<noteq> None;
         has_kind = ar_fingerprint_kind v \<noteq> None
     in
     ebind (ensure (\<not> (has_fingerprint \<noteq> has_kind
                        \<or> ar_identity_state v = CONFIRMED \<and> \<not> has_fingerprint
                        \<or> ar_identity_state v = ''unavailable'' \<and> has_fingerprint))
       (RegistryInvalid ''archive root identity evidence does not match identity_state'')) (\<lambda>_.
     ebind (root_path_bytes codec (ar_root_path_on_device v)) (\<lambda>path_bytes.
     ebind (ensure (\<not> list_ex (\<lambda>r. rt_device_id r = ar_device_id v
                        \<and> rt_root_path_encoding r = rp_encoding (ar_root_path_on_device v)
                        \<and> rt_root_path_bytes r = path_bytes \<and> rt_status r = ACTIVE
                        \<and> rt_archive_root_id r \<noteq> ar_archive_root_id v) (ca_archive_roots c))
       (RegistryInvalid ''an active Archive Root already uses this path on the Device'')) (\<lambda>_.
     ebind (ensure (\<not> (ar_identity_state v = CONFIRMED
                       \<and> list_ex (\<lambda>r. rt_fingerprint_kind r = ar_fingerprint_kind v
                            \<and> ar_fingerprint_kind v \<noteq> None
                            \<and> rt_filesystem_fingerprint r = ar_filesystem_fingerprint v
                            \<and> ar_filesystem_fingerprint v \<noteq> None
                            \<and> rt_identity_state r = CONFIRMED \<and> rt_status r = ACTIVE
                            \<and> rt_archive_root_id r \<noteq> ar_archive_root_id v) (ca_archive_roots c)))
       (RegistryInvalid ''an active Archive Root already has this confirmed filesystem identity''))
       (\<lambda>_.
     if action \<noteq> Register then
       ebind (ok_or (lookup_by rt_archive_root_id (ar_archive_root_id v) (ca_archive_roots c))
                (RegistrySqlite ''no rows'')) (\<lambda>current.
       ensure (root_identity_row current =
                 (ar_device_id v, rp_encoding (ar_root_path_on_device v), path_bytes,
                  ar_filesystem_fingerprint v, ar_fingerprint_kind v, ar_identity_state v))
         (RegistryInvalid ''Archive Root updates must preserve Device, path, and filesystem identity evidence''))
     else Inr ())))))))"

definition validate_location :: "location_snapshot \<Rightarrow> catalog \<Rightarrow> registry_error + unit" where
  "validate_location v c =
     ebind (ensure (valid_availability (lo_expected_availability v))
       (RegistryInvalid ''invalid expected_availability'')) (\<lambda>_.
     if lo_kind v = ''filesystem'' then
       (case (lo_archive_root_id v, lo_device_id v, lo_relative_path v) of
          (Some root, Some device, Some _) \<Rightarrow>
            ebind (ensure (lo_site_id v = None)
              (RegistryInvalid ''filesystem location inherits its site from its device'')) (\<lambda>_.
            ensure (list_ex (\<lambda>r. rt_archive_root_id r = root \<and> rt_device_id r = device)
                      (ca_archive_roots c))
              (RegistryInvalid ''filesystem root and device do not match''))
        | _ \<Rightarrow> Inl (RegistryInvalid ''filesystem location requires root, device, and relative path''))
     else if lo_kind v = ''service'' then
       ebind (ensure (\<not> (lo_site_id v = None \<or> lo_archive_root_id v \<noteq> None
                          \<or> lo_device_id v \<noteq> None \<or> lo_relative_path v \<noteq> None))
         (RegistryInvalid ''service location requires only a site topology'')) (\<lambda>_.
       require_optional_entity Sites (lo_site_id v) c)
     else Inl (RegistryInvalid ''invalid location kind''))"

definition validate_risk_domain ::
  "registry_action \<Rightarrow> risk_domain_snapshot \<Rightarrow> catalog \<Rightarrow> registry_error + unit" where
  "validate_risk_domain action v c =
     ebind (validate_lifecycle RiskDomains ''risk domain'' (rd_risk_domain_id v) (rd_display_name v)
              (rd_status v) action c)
       (\<lambda>_. require_nonempty ''risk_kind'' (rd_risk_kind v))"

definition validate_risk_assignment ::
  "bool \<Rightarrow> risk_assignment \<Rightarrow> catalog \<Rightarrow> registry_error + unit" where
  "validate_risk_assignment assign v c =
     ebind (require_entity RiskDomains (ra_risk_domain_id v) c) (\<lambda>_.
     ebind (entity_table (ra_entity_type v)) (\<lambda>table.
     ebind (require_entity table (ra_entity_id v) c) (\<lambda>_.
     let assigned = List.member (ca_entity_risk_domains c) v;
         entity_id = ra_entity_type v @ '':'' @ ra_entity_id v
     in
     ebind (ensure (\<not> (assign \<and> assigned)) (AlreadyExists ''risk assignment'' entity_id)) (\<lambda>_.
     ensure (\<not> (\<not> assign \<and> \<not> assigned)) (NotFound ''risk assignment'' entity_id)))))"

definition valid_fingerprint_status :: "bytes \<Rightarrow> bool" where
  "valid_fingerprint_status s \<longleftrightarrow> s = ''match'' \<or> s = ''unavailable'' \<or> s = ''mismatch''"

definition validate_check_in :: "device_check_in \<Rightarrow> catalog \<Rightarrow> registry_error + unit" where
  "validate_check_in v c =
     ebind (require_entity Devices (ci_device_id v) c) (\<lambda>_.
     ensure (valid_fingerprint_status (ci_fingerprint_status v))
       (RegistryInvalid ''invalid fingerprint_status''))"

definition validate_mount :: "device_mount \<Rightarrow> catalog \<Rightarrow> registry_error + unit" where
  "validate_mount v c =
     ebind (require_entity Devices (mo_device_id v) c) (\<lambda>_.
     ebind (case mo_archive_root_id v of
              None \<Rightarrow> Inr ()
            | Some root_id \<Rightarrow>
                ebind (ok_or (lookup_by rt_archive_root_id root_id (ca_archive_roots c))
                         (NotFound ''archive root'' root_id)) (\<lambda>root.
                ensure (rt_device_id root = mo_device_id v)
                  (RegistryInvalid ''device mount root belongs to a different device''))) (\<lambda>_.
     ebind (require_nonempty ''mount_id'' (mo_mount_id v)) (\<lambda>_.
     ebind (require_nonempty ''mount_root_uri'' (mo_mount_root_uri v)) (\<lambda>_.
     ensure (valid_mount_status (mo_status v) \<and> valid_fingerprint_status (mo_fingerprint_status v))
       (RegistryInvalid ''invalid device mount state'')))))"

fun validate_change_on ::
  "registry_codec \<Rightarrow> registry_change \<Rightarrow> catalog \<Rightarrow> registry_error + unit" where
  "validate_change_on codec (Site action v) c = validate_site action v c"
| "validate_change_on codec (Policy action v) c = validate_policy codec action v c"
| "validate_change_on codec (Collection action v) c = validate_collection action v c"
| "validate_change_on codec (Device action v) c = validate_device action v c"
| "validate_change_on codec (ArchiveRoot action v) c = validate_archive_root codec action v c"
| "validate_change_on codec (Location action v) c =
     ebind (validate_lifecycle Locations ''location'' (lo_location_id v) (lo_display_name v)
              (lo_status v) action c) (\<lambda>_. validate_location v c)"
| "validate_change_on codec (RiskDomain action v) c = validate_risk_domain action v c"
| "validate_change_on codec (AssignRisk v) c = validate_risk_assignment True v c"
| "validate_change_on codec (UnassignRisk v) c = validate_risk_assignment False v c"
| "validate_change_on codec (DeviceCheckIn v) c = validate_check_in v c"
| "validate_change_on codec (DeviceMount v) c = validate_mount v c"

section \<open>What an accepted life-cycle step implies\<close>

lemma validate_lifecycle_Inr [result_simps]:
  "validate_lifecycle table kind i name status action c = Inr u \<longleftrightarrow>
     str_trim i \<noteq> [] \<and> str_trim name \<noteq> []
     \<and> status = (if action = Retire then RETIRED else ACTIVE)
     \<and> (action = Register \<longleftrightarrow> i \<notin> set (table_ids table c))"
  by (auto simp: validate_lifecycle_def require_nonempty_def ebind_eq_Inr ensure_eq_Inr Let_def
      entity_exists_def)

lemma require_entity_Inr [result_simps]:
  "require_entity table i c = Inr u \<longleftrightarrow> i \<in> set (table_ids table c)"
  by (simp add: require_entity_def entity_exists_def ensure_eq_Inr)

lemma require_optional_entity_Inr [result_simps]:
  "require_optional_entity table i c = Inr u \<longleftrightarrow> refers i (table_ids table c)"
  by (simp add: require_optional_entity_def refers_def require_entity_Inr split: option.split)

end
