(* ===== verification/Catalog_Writes.thy ===== *)
theory Catalog_Writes
  imports Catalog_State Json_Values "HOL-Library.Sublist"
begin

text \<open>
  Direct catalog transactions (\<open>src/src/sqlite_writes.rs\<close>): recording observations of files,
  and the life of a scan job. Every operation of \<open>SqliteCatalog\<close> in that file is a function
  from the catalog to an error or the new catalog, with its statements in the order of the
  source. Serialization (serde), base64 and the generation of ULIDs are third-party code:
  the record \<open>catalog_codec\<close> holds the former, and \<open>new_ulid i\<close> is the ULID generated while
  the \<open>i\<close>-th observation of a batch is recorded.
\<close>

section \<open>Requests and outcomes\<close>

datatype catalog_write_error = WriteSqlite | WriteInvalid bytes | WriteJson

datatype observation_result =
    MetadataPresent
  | MetadataUnknown
  | RejectedChecksum digest
  | Checksum digest u64
  | ReadError
  | MissingObserved

record catalog_observation =
  obs_collection_id :: bytes
  obs_location_id :: bytes
  obs_path :: registry_path
  obs_time_utc_ms :: u64
  obs_result :: observation_result
  obs_accept_change :: bool
  obs_operation_key :: "bytes option"
  obs_job_id :: "bytes option"

record observation_outcome =
  out_object_id :: bytes
  out_result :: bytes
  out_established_identity :: bool
  out_accepted_change :: bool

text \<open>
  The third-party functions: printing is total (the types serialize without failure), parsing
  and decoding may fail.
\<close>

record catalog_codec =
  observation_to_string :: "catalog_observation \<Rightarrow> bytes"
  outcome_to_string :: "observation_outcome \<Rightarrow> bytes"
  outcome_from_str :: "bytes \<Rightarrow> observation_outcome option"
  value_to_string :: "json \<Rightarrow> bytes"
  value_from_str :: "bytes \<Rightarrow> json option"
  base64_decode :: "bytes \<Rightarrow> bytes option"

section \<open>Shared checks\<close>

definition sql_time :: "u64 \<Rightarrow> catalog_write_error + int" where
  "sql_time v = (if uint v \<le> i64_max then Inr (uint v)
                 else Inl (WriteInvalid ''integer exceeds SQLite range''))"

definition require_running_job :: "bytes \<Rightarrow> catalog \<Rightarrow> catalog_write_error + unit" where
  "require_running_job job_id c =
     ensure (list_ex (\<lambda>j. jo_job_id j = job_id \<and> jo_status j = RUNNING) (ca_jobs c))
       (WriteInvalid (''job '' @ job_id @ '' is not running''))"

text \<open>The scope check shared by observations and scan finalization.\<close>

definition require_job_scope ::
  "catalog_codec \<Rightarrow> bytes \<Rightarrow> bytes \<Rightarrow> bytes \<Rightarrow> bytes \<Rightarrow> catalog \<Rightarrow> catalog_write_error + unit" where
  "require_job_scope codec job_id collection_id location_id message c =
     ebind (ok_or (lookup_by jo_job_id job_id (ca_jobs c)) WriteSqlite) (\<lambda>job.
     ebind (ok_or (value_from_str codec (jo_params_json job)) WriteJson) (\<lambda>parameters.
     ensure (json_as_str (json_get parameters ''collection_id'') = Some collection_id
             \<and> json_as_str (json_get parameters ''location_id'') = Some location_id)
       (WriteInvalid message)))"

definition require_observation_job ::
  "catalog_codec \<Rightarrow> catalog_observation \<Rightarrow> catalog \<Rightarrow> catalog_write_error + unit" where
  "require_observation_job codec observation c =
     (case obs_job_id observation of
        None \<Rightarrow> Inr ()
      | Some job \<Rightarrow>
          ebind (require_running_job job c) (\<lambda>_.
          require_job_scope codec job (obs_collection_id observation)
            (obs_location_id observation) ''observation scope differs from job inputs'' c))"

section \<open>Statements\<close>

text \<open>
  \<open>INSERT OR IGNORE INTO objects\<close>: a conflict with the primary key or with the unique path
  skips the insertion.
\<close>

definition insert_object :: "object_row \<Rightarrow> catalog \<Rightarrow> catalog" where
  "insert_object r c =
     (if List.member (object_ids c) (ob_object_id r)
         \<or> List.member (map object_path (ca_objects c)) (object_path r)
      then c else c\<lparr>ca_objects := ca_objects c @ [r]\<rparr>)"

definition invalidate_verifications :: "bytes \<Rightarrow> catalog \<Rightarrow> catalog" where
  "invalidate_verifications object_id c =
     c\<lparr>ca_files := update_where (\<lambda>f. fi_object_id f = object_id)
         (\<lambda>f. f\<lparr>fi_integrity := Unverified, fi_last_success_time_utc_ms := None\<rparr>)
         (ca_files c)\<rparr>"

definition set_expected :: "bytes \<Rightarrow> digest \<Rightarrow> int \<Rightarrow> catalog \<Rightarrow> catalog" where
  "set_expected object_id blake3 size_bytes c =
     c\<lparr>ca_objects := update_where (\<lambda>r. ob_object_id r = object_id)
         (\<lambda>r. r\<lparr>ob_expected_blake3 := Some blake3, ob_expected_size_bytes := Some size_bytes\<rparr>)
         (ca_objects c)\<rparr>"

text \<open>
  The classification of an observation against the expected checksum: presence, integrity,
  the check result (none for a metadata observation) and the observed checksum.
\<close>

fun classify :: "digest option \<Rightarrow> observation_result \<Rightarrow>
    presence \<times> integrity \<times> check_result option \<times> digest option" where
  "classify expected MetadataPresent = (Present, Unverified, None, None)"
| "classify expected MetadataUnknown = (Unknown, Unverified, None, None)"
| "classify expected (RejectedChecksum blake3) = (Present, Damaged, Some Mismatch, Some blake3)"
| "classify expected (Checksum blake3 size_bytes) =
     (if expected = Some blake3 then (Present, Verified, Some Ok, Some blake3)
      else (Present, Damaged, Some Mismatch, Some blake3))"
| "classify expected ReadError = (Unknown, Unverified, Some ReadErrorResult, None)"
| "classify expected MissingObserved = (Missing, Unverified, Some MissingResult, None)"

text \<open>The Rust string for the result, where a metadata observation is \<open>observed\<close>.\<close>

definition result_str :: "check_result option \<Rightarrow> bytes" where
  "result_str r = (case r of None \<Rightarrow> ''observed'' | Some x \<Rightarrow> check_result_str x)"

definition new_file :: "bytes \<Rightarrow> bytes \<Rightarrow> presence \<Rightarrow> integrity \<Rightarrow> file_row" where
  "new_file object_id location_id p i =
     \<lparr>fi_object_id = object_id, fi_location_id = location_id, fi_presence = p, fi_integrity = i,
      fi_last_check_time_utc_ms = None, fi_last_check_result = None, fi_observed_blake3 = None,
      fi_last_success_time_utc_ms = None\<rparr>"

definition observe_present :: "file_row \<Rightarrow> file_row" where
  "observe_present f =
     f\<lparr>fi_presence := Present,
       fi_integrity := (if fi_integrity f = Damaged then Damaged
                        else if fi_presence f = Present then fi_integrity f else Unverified)\<rparr>"

text \<open>The insertion and the conflict clause of a check.\<close>

definition record_check ::
  "int \<Rightarrow> presence \<Rightarrow> integrity \<Rightarrow> check_result \<Rightarrow> digest option \<Rightarrow> file_row \<Rightarrow> file_row" where
  "record_check time p i result observed f =
     f\<lparr>fi_presence := p,
       fi_integrity := (if result = ReadErrorResult \<and> fi_integrity f = Damaged then Damaged else i),
       fi_last_check_time_utc_ms := Some time, fi_last_check_result := Some result,
       fi_observed_blake3 := observed,
       fi_last_success_time_utc_ms :=
         (if result = Ok then Some time else fi_last_success_time_utc_ms f)\<rparr>"

definition put_file ::
  "bytes \<Rightarrow> bytes \<Rightarrow> int \<Rightarrow> observation_result \<Rightarrow>
   presence \<times> integrity \<times> check_result option \<times> digest option \<Rightarrow> catalog \<Rightarrow> catalog" where
  "put_file object_id location_id time result outcome c =
     (case outcome of (p, i, res, observed) \<Rightarrow>
      c\<lparr>ca_files :=
        (case res of
           None \<Rightarrow>
             (if result = MetadataUnknown
              then insert_or_ignore file_key (new_file object_id location_id Unknown Unverified)
                     (ca_files c)
              else upsert_by file_key observe_present
                     (new_file object_id location_id Present Unverified) (ca_files c))
         | Some r \<Rightarrow>
             upsert_by file_key (record_check time p i r observed)
               (record_check time p i r observed (new_file object_id location_id p i))
               (ca_files c))\<rparr>)"

definition mark_seen :: "bytes \<Rightarrow> bytes \<Rightarrow> catalog \<Rightarrow> catalog" where
  "mark_seen job object_id c =
     c\<lparr>ca_scan_seen := insert_or_ignore id (job, object_id) (ca_scan_seen c)\<rparr>"

definition mark_item :: "bytes \<Rightarrow> bytes \<Rightarrow> catalog \<Rightarrow> catalog" where
  "mark_item job object_id c =
     c\<lparr>ca_job_items := insert_or_ignore id (job, object_id) (ca_job_items c)\<rparr>"

definition insert_operation :: "operation_row \<Rightarrow> catalog \<Rightarrow> catalog" where
  "insert_operation r c = c\<lparr>ca_write_operations := ca_write_operations c @ [r]\<rparr>"

definition revision :: "catalog \<Rightarrow> catalog_write_error + catalog" where
  "revision c = exec_sql WriteSqlite bump_revision c"

section \<open>Recording one observation\<close>

definition observation_path :: "catalog_codec \<Rightarrow> registry_path \<Rightarrow> catalog_write_error + bytes" where
  "observation_path codec path =
     ebind (map_err (\<lambda>e. WriteInvalid (''invalid registry change: '' @ e))
              (registry_path_bytes (base64_decode codec) path)) (\<lambda>b.
     ebind (ensure (b \<noteq> [] \<and> CHR 0x00 \<notin> set b)
              (WriteInvalid ''empty or NUL-containing relative path'')) (\<lambda>_.
     ebind (ensure (rp_encoding path = ''utf8'' \<or> rp_encoding path = ''unix_bytes'')
              (WriteInvalid ''unsupported relative path encoding'')) (\<lambda>_.
     ebind (ensure (\<not> starts_with b ''/''
                    \<and> list_all (\<lambda>part. part \<noteq> ''..'' \<and> part \<noteq> [] \<and> part \<noteq> ''.'')
                        (split_on (CHR ''/'') b))
              (WriteInvalid ''path must be a normalized Collection-relative path'')) (\<lambda>_.
     Inr b))))"

fun is_checksum :: "observation_result \<Rightarrow> bool" where
  "is_checksum (Checksum _ _) = True"
| "is_checksum _ = False"

definition scope_active :: "bytes \<Rightarrow> bytes \<Rightarrow> catalog \<Rightarrow> bool" where
  "scope_active collection_id location_id c \<longleftrightarrow>
     list_ex (\<lambda>k. co_collection_id k = collection_id \<and> co_status k = ACTIVE) (ca_collections c)
     \<and> list_ex (\<lambda>l. lr_location_id l = location_id \<and> lr_status l = ACTIVE) (ca_locations c)"

definition details_job :: "catalog_codec \<Rightarrow> bytes option \<Rightarrow> bytes option" where
  "details_job codec job = Some (value_to_string codec (JObj [(''job_id'', json_opt_str job)]))"

text \<open>
  Establishing the expected checksum, or replacing it when the observation accepts the
  change; the result is the state, the expected checksum afterwards and the two flags
  \<open>established\<close> and \<open>accepted\<close>.
\<close>

definition update_expected ::
  "catalog_codec \<Rightarrow> catalog_observation \<Rightarrow> bytes \<Rightarrow> int \<Rightarrow> digest option \<Rightarrow> catalog \<Rightarrow>
   catalog_write_error + catalog \<times> digest option \<times> bool \<times> bool" where
  "update_expected codec observation object_id time expected c =
     (case obs_result observation of
        Checksum blake3 size_bytes \<Rightarrow>
          if expected = None \<or> obs_accept_change observation \<and> expected \<noteq> Some blake3 then
            ebind (if expected \<noteq> None then
                     ebind (exec_sql WriteSqlite (invalidate_verifications object_id) c)
                       (exec_sql WriteSqlite (append_history_row
                         \<lparr>hi_object_id = Some object_id,
                          hi_location_id = Some (obs_location_id observation),
                          hi_time_utc_ms = time, hi_kind = ''expected_checksum_changed'',
                          hi_check_result = None, hi_expected_blake3 = expected,
                          hi_observed_blake3 = Some blake3,
                          hi_details_json = details_job codec (obs_job_id observation)\<rparr>))
                   else Inr c) (\<lambda>c1.
            ebind (sql_time size_bytes) (\<lambda>n.
            ebind (exec_sql WriteSqlite (set_expected object_id blake3 n) c1) (\<lambda>c2.
            Inr (c2, Some blake3, expected = None, expected \<noteq> None))))
          else Inr (c, expected, False, False)
      | _ \<Rightarrow> Inr (c, expected, False, False))"

definition find_object :: "bytes \<times> bytes \<times> bytes \<Rightarrow> catalog \<Rightarrow> object_row option" where
  "find_object path c = lookup_by object_path path (ca_objects c)"

definition find_file :: "bytes \<Rightarrow> bytes \<Rightarrow> catalog \<Rightarrow> file_row option" where
  "find_file object_id location_id c = lookup_by file_key (object_id, location_id) (ca_files c)"

definition prior_check :: "bytes \<Rightarrow> bytes \<Rightarrow> catalog \<Rightarrow> int option" where
  "prior_check object_id location_id c =
     Option.bind (find_file object_id location_id c) fi_last_check_time_utc_ms"

text \<open>The history row of an observation classified against \<open>expected\<close>.\<close>

definition observation_history ::
  "catalog_codec \<Rightarrow> catalog_observation \<Rightarrow> bytes \<Rightarrow> int \<Rightarrow> digest option \<Rightarrow> history_row" where
  "observation_history codec ob object_id time expected =
     (case classify expected (obs_result ob) of (_, _, result, observed) \<Rightarrow>
       \<lparr>hi_object_id = Some object_id, hi_location_id = Some (obs_location_id ob),
        hi_time_utc_ms = time,
        hi_kind = (if result = None then ''presence_observed'' else ''file_checked''),
        hi_check_result = result, hi_expected_blake3 = expected,
        hi_observed_blake3 = observed,
        hi_details_json = details_job codec (obs_job_id ob)\<rparr>)"

text \<open>The statements after the classification.\<close>

definition store_outcome ::
  "catalog_codec \<Rightarrow> catalog_observation \<Rightarrow> bytes \<Rightarrow> int \<Rightarrow> digest option \<Rightarrow> catalog \<Rightarrow>
   catalog_write_error + catalog" where
  "store_outcome codec observation object_id time expected c =
     ebind (exec_sql WriteSqlite (put_file object_id (obs_location_id observation) time
              (obs_result observation) (classify expected (obs_result observation))) c) (\<lambda>c1.
     ebind (exec_sql WriteSqlite (append_history_row
              (observation_history codec observation object_id time expected)) c1) (\<lambda>c2.
     case obs_job_id observation of
       None \<Rightarrow> Inr c2
     | Some job \<Rightarrow> ebind (exec_sql WriteSqlite (mark_seen job object_id) c2)
                     (exec_sql WriteSqlite (mark_item job object_id))))"

text \<open>The statements on the object whose ID and expected checksum were looked up.\<close>

definition observe_object ::
  "catalog_codec \<Rightarrow> catalog_observation \<Rightarrow> int \<Rightarrow> object_row \<Rightarrow> digest option \<Rightarrow> catalog \<Rightarrow>
   catalog_write_error + catalog \<times> observation_outcome" where
  "observe_object codec observation time new expected c =
     ebind (exec_sql WriteSqlite (insert_object new) c) (\<lambda>c1.
     ebind (ensure (case prior_check (ob_object_id new) (obs_location_id observation) c1 of
                      None \<Rightarrow> True | Some prior \<Rightarrow> prior \<le> time)
       (WriteInvalid ''observation predates the current check'')) (\<lambda>_.
     ebind (update_expected codec observation (ob_object_id new) time expected c1)
       (\<lambda>(c2, expected', established, accepted).
     ebind (store_outcome codec observation (ob_object_id new) time expected' c2) (\<lambda>c3.
     Inr (c3, \<lparr>out_object_id = ob_object_id new,
               out_result = result_str
                 (fst (snd (snd (classify expected' (obs_result observation))))),
               out_established_identity = established,
               out_accepted_change = accepted\<rparr>)))))"

definition new_object_id :: "bytes \<Rightarrow> bytes" where
  "new_object_id ulid = ''obj_'' @ to_ascii_lowercase ulid"

text \<open>From the lookup of the object on; \<open>b\<close> are the bytes of the path.\<close>

definition observe_path ::
  "catalog_codec \<Rightarrow> bytes \<Rightarrow> catalog_observation \<Rightarrow> bytes \<Rightarrow> int \<Rightarrow> catalog \<Rightarrow>
   catalog_write_error + catalog \<times> observation_outcome" where
  "observe_path codec ulid observation b time c =
     (let existing = find_object
            (obs_collection_id observation, rp_encoding (obs_path observation), b) c
      in observe_object codec observation time
           \<lparr>ob_object_id = (case existing of Some r \<Rightarrow> ob_object_id r
                            | None \<Rightarrow> new_object_id ulid),
            ob_collection_id = obs_collection_id observation,
            ob_path_encoding = rp_encoding (obs_path observation), ob_path_bytes = b,
            ob_path_display = rp_display (obs_path observation), ob_expected_blake3 = None,
            ob_expected_size_bytes = None\<rparr>
           (Option.bind existing ob_expected_blake3) c)"

definition observe_in_transaction ::
  "catalog_codec \<Rightarrow> bytes \<Rightarrow> catalog_observation \<Rightarrow> catalog \<Rightarrow>
   catalog_write_error + catalog \<times> observation_outcome" where
  "observe_in_transaction codec ulid observation c =
     ebind (observation_path codec (obs_path observation)) (\<lambda>b.
     ebind (ensure (obs_accept_change observation \<longrightarrow> is_checksum (obs_result observation))
       (WriteInvalid ''accepting a change requires successfully checksummed bytes'')) (\<lambda>_.
     ebind (sql_time (obs_time_utc_ms observation)) (\<lambda>time.
     ebind (ensure (scope_active (obs_collection_id observation) (obs_location_id observation) c)
       (WriteInvalid ''Collection or Location is missing/retired'')) (\<lambda>_.
     ebind (require_observation_job codec observation c) (\<lambda>_.
     observe_path codec ulid observation b time c)))))"

section \<open>Recording a batch\<close>

text \<open>
  One round of the loop of \<open>observe_batch\<close>; the loop state is the catalog inside the
  transaction, the outcomes so far and whether anything was changed.
\<close>

definition observe_step ::
  "catalog_codec \<Rightarrow> (nat \<Rightarrow> bytes) \<Rightarrow> nat \<times> catalog_observation \<Rightarrow>
   catalog \<times> observation_outcome list \<times> bool \<Rightarrow>
   catalog_write_error + catalog \<times> observation_outcome list \<times> bool" where
  "observe_step codec new_ulid item state =
     (case (item, state) of ((index, observation), (c, outcomes, changed)) \<Rightarrow>
      let request = observation_to_string codec observation;
          previous = Option.bind (obs_operation_key observation)
                       (\<lambda>key. lookup_by op_operation_key key (ca_write_operations c))
      in
      case previous of
        Some row \<Rightarrow>
          ebind (ensure (op_request_json row = request)
            (WriteInvalid ''operation key reused for different immutable inputs'')) (\<lambda>_.
          ebind (ok_or (outcome_from_str codec (op_outcome_json row)) WriteJson) (\<lambda>outcome.
          ebind (case obs_job_id observation of
                   None \<Rightarrow> Inr c
                 | Some job \<Rightarrow>
                     ebind (require_observation_job codec observation c) (\<lambda>_.
                     exec_sql WriteSqlite (mark_seen job (out_object_id outcome)) c)) (\<lambda>c1.
          Inr (c1, outcomes @ [outcome], changed))))
      | None \<Rightarrow>
          ebind (observe_in_transaction codec (new_ulid index) observation c) (\<lambda>(c1, outcome).
          ebind (case obs_operation_key observation of
                   None \<Rightarrow> Inr c1
                 | Some key \<Rightarrow>
                     exec_sql WriteSqlite (insert_operation
                       \<lparr>op_operation_key = key, op_request_json = request,
                        op_outcome_json = outcome_to_string codec outcome\<rparr>) c1) (\<lambda>c2.
          Inr (c2, outcomes @ [outcome], True))))"

definition observe_batch ::
  "catalog_codec \<Rightarrow> (nat \<Rightarrow> bytes) \<Rightarrow> catalog_observation list \<Rightarrow> catalog \<Rightarrow>
   catalog_write_error + catalog \<times> observation_outcome list" where
  "observe_batch codec new_ulid observations c =
     ebind (efold (observe_step codec new_ulid) (enumerate 0 observations) (c, [], False))
       (\<lambda>(c1, outcomes, changed).
     ebind (if changed then revision c1 else Inr c1) (\<lambda>c2.
     Inr (c2, outcomes)))"

text \<open>\<open>Vec::remove(0)\<close> on the outcomes of a batch of one.\<close>

definition observe ::
  "catalog_codec \<Rightarrow> (nat \<Rightarrow> bytes) \<Rightarrow> catalog_observation \<Rightarrow> catalog \<Rightarrow>
   catalog_write_error + catalog \<times> observation_outcome" where
  "observe codec new_ulid observation c =
     ebind (observe_batch codec new_ulid [observation] c) (\<lambda>(c1, outcomes).
     Inr (c1, hd outcomes))"

section \<open>Jobs\<close>

definition job_history :: "int \<Rightarrow> bytes \<Rightarrow> bytes \<Rightarrow> history_row" where
  "job_history time kind details =
     \<lparr>hi_object_id = None, hi_location_id = None, hi_time_utc_ms = time, hi_kind = kind,
      hi_check_result = None, hi_expected_blake3 = None, hi_observed_blake3 = None,
      hi_details_json = Some details\<rparr>"

definition insert_job :: "job_row \<Rightarrow> catalog \<Rightarrow> catalog" where
  "insert_job j c = c\<lparr>ca_jobs := ca_jobs c @ [j]\<rparr>"

definition begin_catalog_job ::
  "catalog_codec \<Rightarrow> bytes \<Rightarrow> bytes \<Rightarrow> json \<Rightarrow> u64 \<Rightarrow> catalog \<Rightarrow>
   catalog_write_error + catalog \<times> bytes" where
  "begin_catalog_job codec job_id kind parameters time c =
     (let serialized = value_to_string codec parameters in
      case lookup_by jo_job_id job_id (ca_jobs c) of
        Some old \<Rightarrow>
          if jo_kind old \<noteq> kind \<or> jo_params_json old \<noteq> serialized
          then Inl (WriteInvalid (''job '' @ job_id @ '' belongs to different immutable inputs''))
          else Inr (c, jo_status old)
      | None \<Rightarrow>
          ebind (sql_time time) (\<lambda>t.
          ebind (exec_sql WriteSqlite (insert_job
            \<lparr>jo_job_id = job_id, jo_kind = kind, jo_params_json = serialized,
             jo_status = RUNNING, jo_started_time_utc_ms = t, jo_finished_time_utc_ms = None,
             jo_progress_json = ''{}''\<rparr>) c) (\<lambda>c1.
          ebind (exec_sql WriteSqlite (append_history_row (job_history t ''job_started''
            (value_to_string codec (JObj [(''job_id'', JStr job_id), (''kind'', JStr kind),
                                         (''params'', parameters)])))) c1) (\<lambda>c2.
          ebind (revision c2) (\<lambda>c3.
          Inr (c3, RUNNING))))))"

definition delete_seen :: "bytes \<Rightarrow> catalog \<Rightarrow> catalog" where
  "delete_seen job_id c = c\<lparr>ca_scan_seen := filter (\<lambda>(j, _). j \<noteq> job_id) (ca_scan_seen c)\<rparr>"

definition delete_items :: "bytes \<Rightarrow> catalog \<Rightarrow> catalog" where
  "delete_items job_id c = c\<lparr>ca_job_items := filter (\<lambda>(j, _). j \<noteq> job_id) (ca_job_items c)\<rparr>"

definition update_job :: "bytes \<Rightarrow> (job_row \<Rightarrow> job_row) \<Rightarrow> catalog \<Rightarrow> catalog" where
  "update_job job_id f c =
     c\<lparr>ca_jobs := update_where (\<lambda>j. jo_job_id j = job_id) f (ca_jobs c)\<rparr>"

definition reset_scan_coverage :: "bytes \<Rightarrow> catalog \<Rightarrow> catalog_write_error + catalog" where
  "reset_scan_coverage job_id c =
     ebind (require_running_job job_id c) (\<lambda>_. exec_sql WriteSqlite (delete_seen job_id) c)"

definition checkpoint_catalog_job ::
  "catalog_codec \<Rightarrow> bytes \<Rightarrow> json \<Rightarrow> catalog \<Rightarrow> catalog_write_error + catalog" where
  "checkpoint_catalog_job codec job_id progress c =
     ebind (require_running_job job_id c) (\<lambda>_.
     exec_sql WriteSqlite
       (update_job job_id (\<lambda>j. j\<lparr>jo_progress_json := value_to_string codec progress\<rparr>)) c)"

definition finish_job ::
  "catalog_codec \<Rightarrow> bytes \<Rightarrow> bytes \<Rightarrow> u64 \<Rightarrow> json \<Rightarrow> catalog \<Rightarrow>
   catalog_write_error + catalog" where
  "finish_job codec job_id status time summary c =
     ebind (sql_time time) (\<lambda>t.
     ebind (exec_sql WriteSqlite (update_job job_id
       (\<lambda>j. j\<lparr>jo_status := status, jo_finished_time_utc_ms := Some t,
              jo_progress_json := value_to_string codec summary\<rparr>)) c) (\<lambda>c1.
     ebind (exec_sql WriteSqlite (append_history_row (job_history t ''job_finished''
       (value_to_string codec (JObj [(''job_id'', JStr job_id), (''status'', JStr status),
                                    (''summary'', summary)])))) c1) (\<lambda>c2.
     ebind (exec_sql WriteSqlite (delete_seen job_id) c2) (\<lambda>c3.
     exec_sql WriteSqlite (delete_items job_id) c3))))"

text \<open>The rows the two statements of a complete scan select.\<close>

definition in_scope :: "bytes \<Rightarrow> bytes \<Rightarrow> catalog \<Rightarrow> file_row \<Rightarrow> bool" where
  "in_scope collection_id location_id c f \<longleftrightarrow>
     fi_location_id f = location_id
     \<and> list_ex (\<lambda>r. ob_object_id r = fi_object_id f \<and> ob_collection_id r = collection_id)
         (ca_objects c)"

definition unseen :: "bytes \<Rightarrow> bytes \<Rightarrow> bytes \<Rightarrow> catalog \<Rightarrow> file_row \<Rightarrow> bool" where
  "unseen job_id collection_id location_id c f \<longleftrightarrow>
     in_scope collection_id location_id c f \<and> fi_presence f \<noteq> Missing
     \<and> \<not> List.member (ca_scan_seen c) (job_id, fi_object_id f)"

definition expected_of :: "bytes \<Rightarrow> catalog \<Rightarrow> digest option" where
  "expected_of object_id c =
     Option.bind (lookup_by ob_object_id object_id (ca_objects c)) ob_expected_blake3"

definition append_scan_missing ::
  "catalog_codec \<Rightarrow> bytes \<Rightarrow> bytes \<Rightarrow> bytes \<Rightarrow> int \<Rightarrow> catalog \<Rightarrow> catalog" where
  "append_scan_missing codec job_id collection_id location_id time c =
     c\<lparr>ca_history := ca_history c @
        map (\<lambda>f. \<lparr>hi_object_id = Some (fi_object_id f), hi_location_id = Some (fi_location_id f),
                  hi_time_utc_ms = time, hi_kind = ''scan_missing'',
                  hi_check_result = Some MissingResult,
                  hi_expected_blake3 = expected_of (fi_object_id f) c,
                  hi_observed_blake3 = None,
                  hi_details_json = Some (value_to_string codec
                    (JObj [(''job_id'', JStr job_id)]))\<rparr>)
          (filter (unseen job_id collection_id location_id c) (ca_files c))\<rparr>"

definition to_missing :: "int \<Rightarrow> file_row \<Rightarrow> file_row" where
  "to_missing time f =
     f\<lparr>fi_presence := Missing, fi_integrity := Unverified,
       fi_last_check_time_utc_ms := Some time, fi_last_check_result := Some MissingResult,
       fi_observed_blake3 := None\<rparr>"

definition mark_unseen_missing ::
  "bytes \<Rightarrow> bytes \<Rightarrow> bytes \<Rightarrow> int \<Rightarrow> catalog \<Rightarrow> catalog" where
  "mark_unseen_missing job_id collection_id location_id time c =
     c\<lparr>ca_files := update_where (unseen job_id collection_id location_id c)
         (to_missing time) (ca_files c)\<rparr>"

definition finish_catalog_scan ::
  "catalog_codec \<Rightarrow> bytes \<Rightarrow> bytes \<Rightarrow> bytes \<Rightarrow> bool \<Rightarrow> u64 \<Rightarrow> json \<Rightarrow> catalog \<Rightarrow>
   catalog_write_error + catalog \<times> nat" where
  "finish_catalog_scan codec job_id collection_id location_id complete_coverage time summary c =
     ebind (require_running_job job_id c) (\<lambda>_.
     ebind (require_job_scope codec job_id collection_id location_id
              ''scan finalization scope differs from job inputs'' c) (\<lambda>_.
     ebind (if complete_coverage then
              ebind (sql_time time) (\<lambda>t.
              ebind (ensure (\<not> list_ex (\<lambda>f. in_scope collection_id location_id c f
                        \<and> (case fi_last_check_time_utc_ms f of None \<Rightarrow> False | Some u \<Rightarrow> t < u))
                        (ca_files c))
                (WriteInvalid ''scan finalization predates current checks'')) (\<lambda>_.
              ebind (exec_sql WriteSqlite
                (append_scan_missing codec job_id collection_id location_id t) c) (\<lambda>c1.
              ebind (exec_sql WriteSqlite
                (mark_unseen_missing job_id collection_id location_id t) c1) (\<lambda>c2.
              Inr (c2, length (filter (unseen job_id collection_id location_id c1)
                                (ca_files c1)))))))
            else Inr (c, 0)) (\<lambda>(c2, missing).
     ebind (finish_job codec job_id (if complete_coverage then COMPLETE else PARTIAL)
              time summary c2) (\<lambda>c3.
     ebind (revision c3) (\<lambda>c4.
     Inr (c4, missing))))))"

definition finish_catalog_job ::
  "catalog_codec \<Rightarrow> bytes \<Rightarrow> bytes \<Rightarrow> u64 \<Rightarrow> json \<Rightarrow> catalog \<Rightarrow>
   catalog_write_error + catalog" where
  "finish_catalog_job codec job_id status time summary c =
     ebind (ensure (status = COMPLETE \<or> status = PARTIAL \<or> status = CANCELLED)
       (WriteInvalid ''invalid terminal job status'')) (\<lambda>_.
     if map_option jo_status (lookup_by jo_job_id job_id (ca_jobs c)) = Some status then Inr c
     else
       ebind (require_running_job job_id c) (\<lambda>_.
       ebind (finish_job codec job_id status time summary c) (\<lambda>c1.
       revision c1)))"

section \<open>What a successful observation did\<close>

lemma schema_ok_distinct_objects:
  "schema_ok c \<Longrightarrow> distinct (object_ids c)" "schema_ok c \<Longrightarrow> distinct (map object_path (ca_objects c))"
  "schema_ok c \<Longrightarrow> distinct (map file_key (ca_files c))" "schema_ok c \<Longrightarrow> distinct (job_ids c)"
  "schema_ok c \<Longrightarrow> distinct (map op_operation_key (ca_write_operations c))"
  by (simp_all add: schema_ok_def content_schema_ok_def job_schema_ok_def)

lemma expected_of_row:
  "schema_ok c \<Longrightarrow> r \<in> set (ca_objects c) \<Longrightarrow> expected_of (ob_object_id r) c = ob_expected_blake3 r"
  using lookup_by_eq_Some [OF schema_ok_distinct_objects(1), of c "ob_object_id r" r]
  by (simp add: expected_of_def)

text \<open>
  The object an observation is about: an existing row, or a new row without an expected
  checksum.
\<close>

definition located_object ::
  "bytes \<Rightarrow> catalog_observation \<Rightarrow> bytes \<Rightarrow> catalog \<Rightarrow> object_row \<Rightarrow> catalog \<Rightarrow> bool" where
  "located_object ulid ob b c row c1 \<longleftrightarrow>
     object_path row = (obs_collection_id ob, rp_encoding (obs_path ob), b)
     \<and> (row \<in> set (ca_objects c) \<and> c1 = c
        \<or> object_path row \<notin> object_path ` set (ca_objects c)
          \<and> ob_object_id row = new_object_id ulid \<and> ob_expected_blake3 row = None
          \<and> ob_object_id row \<notin> set (object_ids c)
          \<and> c1 = c\<lparr>ca_objects := ca_objects c @ [row]\<rparr>)"

definition mark_job :: "bytes option \<Rightarrow> bytes \<Rightarrow> catalog \<Rightarrow> catalog" where
  "mark_job job object_id c =
     (case job of None \<Rightarrow> c | Some j \<Rightarrow> mark_item j object_id (mark_seen j object_id c))"

lemma store_outcome_eq_Inr:
  "store_outcome codec ob oid time expected c = Inr c' \<Longrightarrow>
     c' = mark_job (obs_job_id ob) oid
            (append_history_row (observation_history codec ob oid time expected)
              (put_file oid (obs_location_id ob) time (obs_result ob)
                (classify expected (obs_result ob)) c)) \<and> schema_ok c'"
  by (cases "obs_job_id ob")
    (auto simp: store_outcome_def mark_job_def ebind_eq_Inr exec_sql_eq_Inr)

lemma observe_object_cases:
  assumes "observe_object codec ob time new expected c = Inr (c', out)"
  obtains c2 expected' where
    "schema_ok (insert_object new c)"
    "\<forall>prior. prior_check (ob_object_id new) (obs_location_id ob) (insert_object new c)
       = Some prior \<longrightarrow> prior \<le> time"
    "update_expected codec ob (ob_object_id new) time expected (insert_object new c)
       = Inr (c2, expected', out_established_identity out, out_accepted_change out)"
    "out_object_id out = ob_object_id new"
    "out_result out = result_str (fst (snd (snd (classify expected' (obs_result ob)))))"
    "store_outcome codec ob (ob_object_id new) time expected' c2 = Inr c'"
proof -
  from assms obtain c2 expected' est acc where
    "schema_ok (insert_object new c)"
    "case prior_check (ob_object_id new) (obs_location_id ob) (insert_object new c) of
       None \<Rightarrow> True | Some prior \<Rightarrow> prior \<le> time"
    "update_expected codec ob (ob_object_id new) time expected (insert_object new c)
       = Inr (c2, expected', est, acc)"
    "store_outcome codec ob (ob_object_id new) time expected' c2 = Inr c'"
    "out = \<lparr>out_object_id = ob_object_id new,
            out_result = result_str (fst (snd (snd (classify expected' (obs_result ob))))),
            out_established_identity = est, out_accepted_change = acc\<rparr>"
    unfolding observe_object_def ebind_eq_Inr exec_sql_eq_Inr ensure_eq_Inr
    by (auto simp: ebind_eq_Inr)
  then show thesis using that by (simp split: option.splits)
qed

lemma observe_path_cases:
  assumes ok: "observe_path codec ulid ob b time c = Inr (c', out)"
    and fresh: "new_object_id ulid \<notin> set (object_ids c)"
  obtains row c1 c2 expected where
    "located_object ulid ob b c row c1" "schema_ok c1" "row \<in> set (ca_objects c1)"
    "\<forall>prior. prior_check (ob_object_id row) (obs_location_id ob) c1 = Some prior \<longrightarrow> prior \<le> time"
    "update_expected codec ob (ob_object_id row) time (ob_expected_blake3 row) c1
       = Inr (c2, expected, out_established_identity out, out_accepted_change out)"
    "out_object_id out = ob_object_id row"
    "out_result out = result_str (fst (snd (snd (classify expected (obs_result ob)))))"
    "store_outcome codec ob (ob_object_id row) time expected c2 = Inr c'"
proof -
  define path where "path = (obs_collection_id ob, rp_encoding (obs_path ob), b)"
  define new where "new = \<lparr>ob_object_id = new_object_id ulid,
        ob_collection_id = obs_collection_id ob,
        ob_path_encoding = rp_encoding (obs_path ob), ob_path_bytes = b,
        ob_path_display = rp_display (obs_path ob), ob_expected_blake3 = None,
        ob_expected_size_bytes = None\<rparr>"
  have new_path: "object_path new = path" by (simp add: new_def path_def)
  show thesis
  proof (cases "find_object path c")
    case None
    then have unknown: "path \<notin> object_path ` set (ca_objects c)"
      by (simp only: find_object_def lookup_by_None) simp
    have ins: "insert_object new c = c\<lparr>ca_objects := ca_objects c @ [new]\<rparr>"
      using fresh unknown by (simp add: insert_object_def new_def path_def)
    have loc: "located_object ulid ob b c new (insert_object new c)"
      using fresh unknown unfolding ins by (simp add: located_object_def new_def path_def)
    from ok None have "observe_object codec ob time new (ob_expected_blake3 new) c = Inr (c', out)"
      by (simp add: observe_path_def path_def new_def)
    then show thesis
      by (rule observe_object_cases) (rule that [OF loc], simp_all add: ins)
  next
    case (Some row)
    then have row: "row \<in> set (ca_objects c)" "object_path row = path"
      by (auto simp: find_object_def dest: lookup_by_SomeD)
    define new' where "new' = new\<lparr>ob_object_id := ob_object_id row\<rparr>"
    have ins: "insert_object new' c = c" "ob_object_id new' = ob_object_id row"
      using row by (simp_all add: insert_object_def new'_def)
    have loc: "located_object ulid ob b c row c"
      using row by (simp add: located_object_def path_def)
    from ok Some have "observe_object codec ob time new' (ob_expected_blake3 row) c = Inr (c', out)"
      by (simp add: observe_path_def path_def new_def new'_def)
    then show thesis
      by (rule observe_object_cases) (rule that [OF loc], simp_all add: ins row)
  qed
qed

lemma observe_in_transaction_cases:
  assumes ok: "observe_in_transaction codec ulid ob c = Inr (c', out)"
    and fresh: "new_object_id ulid \<notin> set (object_ids c)"
  obtains b time row c1 c2 expected where
    "observation_path codec (obs_path ob) = Inr b"
    "sql_time (obs_time_utc_ms ob) = Inr time"
    "obs_accept_change ob \<longrightarrow> is_checksum (obs_result ob)"
    "scope_active (obs_collection_id ob) (obs_location_id ob) c"
    "require_observation_job codec ob c = Inr ()"
    "located_object ulid ob b c row c1" "schema_ok c1" "row \<in> set (ca_objects c1)"
    "\<forall>prior. prior_check (ob_object_id row) (obs_location_id ob) c1 = Some prior \<longrightarrow> prior \<le> time"
    "update_expected codec ob (ob_object_id row) time (ob_expected_blake3 row) c1
       = Inr (c2, expected, out_established_identity out, out_accepted_change out)"
    "out_object_id out = ob_object_id row"
    "out_result out = result_str (fst (snd (snd (classify expected (obs_result ob)))))"
    "store_outcome codec ob (ob_object_id row) time expected c2 = Inr c'"
proof -
  from ok obtain b time where pre:
    "observation_path codec (obs_path ob) = Inr b"
    "sql_time (obs_time_utc_ms ob) = Inr time"
    "obs_accept_change ob \<longrightarrow> is_checksum (obs_result ob)"
    "scope_active (obs_collection_id ob) (obs_location_id ob) c"
    "require_observation_job codec ob c = Inr ()"
    and run: "observe_path codec ulid ob b time c = Inr (c', out)"
    unfolding observe_in_transaction_def ebind_eq_Inr ensure_eq_Inr by auto
  show thesis
    by (rule observe_path_cases [OF run fresh]) (rule that [OF pre])
qed

text \<open>The three ways the expected checksum is treated.\<close>

lemma update_expected_cases:
  assumes "update_expected codec ob oid time expected c = Inr (c', expected', est, acc)"
  obtains
    (keep) "c' = c" "expected' = expected" "\<not> est" "\<not> acc"
      "\<And>d n. obs_result ob = Checksum d n \<Longrightarrow>
         expected \<noteq> None \<and> (obs_accept_change ob \<longrightarrow> expected = Some d)"
  | (establish) d n size where "obs_result ob = Checksum d size" "sql_time size = Inr n"
      "expected = None" "expected' = Some d" "est" "\<not> acc" "c' = set_expected oid d n c"
  | (accept) d n size d' h where "obs_result ob = Checksum d size" "sql_time size = Inr n"
      "obs_accept_change ob" "expected = Some d'" "d \<noteq> d'" "expected' = Some d" "\<not> est" "acc"
      "c' = set_expected oid d n (append_history_row h (invalidate_verifications oid c))"
      "hi_kind h = ''expected_checksum_changed''" "hi_object_id h = Some oid"
      "hi_expected_blake3 h = Some d'" "hi_observed_blake3 h = Some d"
proof (cases "obs_result ob")
  case (Checksum d size)
  show thesis
  proof (cases "expected = None \<or> obs_accept_change ob \<and> expected \<noteq> Some d")
    case True
    then show thesis
      using assms Checksum establish accept
      by (cases expected) (auto simp: update_expected_def ebind_eq_Inr exec_sql_eq_Inr)
  next
    case False
    then show thesis
      using assms Checksum keep by (auto simp: update_expected_def)
  qed
qed (use assms keep in \<open>simp_all add: update_expected_def\<close>)

section \<open>The abstract view of an object\<close>

text \<open>
  What the catalog promises about one logical object, without times, checks or history: the
  expected checksum, and for each location where a copy is known whether it is present and
  how far its content is trusted.
\<close>

type_synonym object_view = "digest option \<times> (bytes \<rightharpoonup> presence \<times> integrity)"

definition object_view :: "bytes \<Rightarrow> catalog \<Rightarrow> object_view" where
  "object_view object_id c =
     (expected_of object_id c,
      \<lambda>l. map_option (\<lambda>f. (fi_presence f, fi_integrity f)) (find_file object_id l c))"

text \<open>
  The specification of an observation. The first checksum fixes the identity; later only an
  accepted change replaces it, and it withdraws the trust in every copy. Metadata never
  creates trust and never clears damage; unreadable content never clears damage.
\<close>

fun spec_expected :: "observation_result \<Rightarrow> bool \<Rightarrow> digest option \<Rightarrow> digest option" where
  "spec_expected (Checksum d _) accept expected =
     (if accept \<or> expected = None then Some d else expected)"
| "spec_expected _ accept expected = expected"

fun spec_copy :: "digest option \<Rightarrow> observation_result \<Rightarrow> (presence \<times> integrity) option \<Rightarrow>
    presence \<times> integrity" where
  "spec_copy expected (Checksum d _) old =
     (Present, if expected = Some d then Verified else Damaged)"
| "spec_copy expected (RejectedChecksum d) old = (Present, Damaged)"
| "spec_copy expected MissingObserved old = (Missing, Unverified)"
| "spec_copy expected ReadError old =
     (Unknown, case old of Some (_, Damaged) \<Rightarrow> Damaged | _ \<Rightarrow> Unverified)"
| "spec_copy expected MetadataUnknown old =
     (case old of None \<Rightarrow> (Unknown, Unverified) | Some s \<Rightarrow> s)"
| "spec_copy expected MetadataPresent old =
     (Present, case old of
        Some (_, Damaged) \<Rightarrow> Damaged | Some (Present, i) \<Rightarrow> i | _ \<Rightarrow> Unverified)"

definition spec_observe ::
  "bytes \<Rightarrow> observation_result \<Rightarrow> bool \<Rightarrow> object_view \<Rightarrow> object_view" where
  "spec_observe location_id result accept v =
     (case v of (expected, copies) \<Rightarrow>
      let expected' = spec_expected result accept expected;
          trusted = (if expected \<noteq> None \<and> expected' \<noteq> expected
                     then (\<lambda>l. map_option (\<lambda>(p, _). (p, Unverified)) (copies l)) else copies)
      in (expected', trusted(location_id \<mapsto> spec_copy expected' result (trusted location_id))))"

subsection \<open>Views after each statement\<close>

lemma expected_of_simps [simp]:
  "expected_of i (append_history_row h c) = expected_of i c"
  "expected_of i (invalidate_verifications j c) = expected_of i c"
  "expected_of i (put_file j l t r out c) = expected_of i c"
  "expected_of i (mark_job job j c) = expected_of i c"
  "expected_of i (mark_seen k j c) = expected_of i c"
  "expected_of i (insert_operation op c) = expected_of i c"
  "expected_of i (bump_revision c) = expected_of i c"
  by (simp_all add: expected_of_def append_history_row_def invalidate_verifications_def put_file_def
      mark_job_def mark_item_def mark_seen_def insert_operation_def bump_revision_def
      split: prod.split option.split)

lemma find_file_simps [simp]:
  "find_file i l (append_history_row h c) = find_file i l c"
  "find_file i l (set_expected j d n c) = find_file i l c"
  "find_file i l (mark_job job j c) = find_file i l c"
  "find_file i l (mark_seen k j c) = find_file i l c"
  "find_file i l (insert_operation op c) = find_file i l c"
  "find_file i l (bump_revision c) = find_file i l c"
  by (simp_all add: find_file_def append_history_row_def set_expected_def mark_job_def mark_item_def
      mark_seen_def insert_operation_def bump_revision_def split: option.split)

lemma expected_of_set_expected:
  "expected_of i (set_expected j d n c) =
     (if i = j \<and> j \<in> set (object_ids c) then Some d else expected_of i c)"
proof -
  have "lookup_by ob_object_id j (ca_objects c) = None \<longleftrightarrow> j \<notin> set (object_ids c)"
    by (simp add: lookup_by_None)
  then show ?thesis
    by (cases "lookup_by ob_object_id i (ca_objects c)")
      (auto simp: expected_of_def set_expected_def lookup_by_update_where dest: lookup_by_SomeD)
qed

lemma find_file_invalidate:
  "find_file i l (invalidate_verifications j c) =
     map_option (\<lambda>f. if i = j
                     then f\<lparr>fi_integrity := Unverified, fi_last_success_time_utc_ms := None\<rparr> else f)
       (find_file i l c)"
  by (cases "lookup_by file_key (i, l) (ca_files c)")
    (auto simp: find_file_def invalidate_verifications_def lookup_by_update_where
      dest: lookup_by_SomeD)

lemma find_file_key: "find_file i l c = Some f \<Longrightarrow> fi_object_id f = i \<and> fi_location_id f = l"
  by (auto simp: find_file_def dest: lookup_by_SomeD)

definition next_file ::
  "bytes \<Rightarrow> bytes \<Rightarrow> int \<Rightarrow> digest option \<Rightarrow> observation_result \<Rightarrow> file_row option \<Rightarrow> file_row" where
  "next_file i l time expected result old =
     (case classify expected result of (p, q, res, observed) \<Rightarrow>
      case res of
        None \<Rightarrow> (if result = MetadataUnknown
                 then (case old of None \<Rightarrow> new_file i l Unknown Unverified | Some f \<Rightarrow> f)
                 else (case old of None \<Rightarrow> new_file i l Present Unverified
                       | Some f \<Rightarrow> observe_present f))
      | Some r \<Rightarrow> record_check time p q r observed
                   (case old of None \<Rightarrow> new_file i l p q | Some f \<Rightarrow> f))"

lemma file_key_updates [simp]:
  "file_key (new_file i l p q) = (i, l)"
  "file_key (observe_present f) = file_key f"
  "file_key (record_check t p q r d f) = file_key f"
  "file_key (to_missing t f) = file_key f"
  by (simp_all add: new_file_def observe_present_def record_check_def to_missing_def)

lemma find_file_put_file:
  "find_file i' l' (put_file i l time result (classify expected result) c) =
     (if (i', l') = (i, l) then Some (next_file i l time expected result (find_file i l c))
      else find_file i' l' c)"
proof (cases "classify expected result")
  case (fields p q res observed)
  show ?thesis
  proof (cases res)
    case None
    with fields show ?thesis
      by (auto simp: put_file_def find_file_def next_file_def lookup_by_insert_or_ignore
          lookup_by_upsert_by split: option.split)
  next
    case (Some r)
    with fields show ?thesis
      by (auto simp: put_file_def find_file_def next_file_def lookup_by_upsert_by
          split: option.split)
  qed
qed

lemma next_file_spec:
  "(fi_presence (next_file i l time expected result old),
    fi_integrity (next_file i l time expected result old)) =
     spec_copy expected result (map_option (\<lambda>f. (fi_presence f, fi_integrity f)) old)"
proof (cases result)
  case MetadataPresent
  show ?thesis
  proof (cases old)
    case (Some f)
    with MetadataPresent show ?thesis
      by (cases "fi_integrity f"; cases "fi_presence f")
        (simp_all add: next_file_def observe_present_def)
  qed (simp add: MetadataPresent next_file_def new_file_def)
next
  case ReadError
  show ?thesis
  proof (cases old)
    case (Some f)
    with ReadError show ?thesis
      by (cases "fi_integrity f") (simp_all add: next_file_def record_check_def)
  qed (simp add: ReadError next_file_def new_file_def record_check_def)
qed (simp_all add: next_file_def record_check_def new_file_def split: option.split)

subsection \<open>An observation implements its specification\<close>

lemma schema_ok_file_object:
  "schema_ok c \<Longrightarrow> f \<in> set (ca_files c) \<Longrightarrow> fi_object_id f \<in> set (object_ids c)"
  by (simp add: schema_ok_def content_schema_ok_def list_all_iff file_row_ok_def)

lemma unknown_object_view:
  assumes "schema_ok c" "i \<notin> set (object_ids c)"
  shows "expected_of i c = None" "find_file i l c = None"
proof -
  have "lookup_by ob_object_id i (ca_objects c) = None"
    using assms(2) by (simp add: lookup_by_None)
  then show "expected_of i c = None" by (simp add: expected_of_def)
  show "find_file i l c = None"
    using assms schema_ok_file_object [OF assms(1)]
    by (auto simp: find_file_def lookup_by_None)
qed

lemma object_view_located:
  assumes "located_object ulid ob b c row c1" "schema_ok c"
  shows "object_view i c1 = object_view i c"
proof (cases "c1 = c")
  case False
  with assms have c1: "c1 = c\<lparr>ca_objects := ca_objects c @ [row]\<rparr>"
    and row: "ob_expected_blake3 row = None" "ob_object_id row \<notin> set (object_ids c)"
    by (auto simp: located_object_def)
  have "expected_of i c1 = expected_of i c"
    using row by (auto simp: c1 expected_of_def lookup_by_append lookup_by_single
        split: option.split)
  moreover have "find_file i l c1 = find_file i l c" for l
    by (simp add: c1 find_file_def)
  ultimately show ?thesis by (simp add: object_view_def)
qed simp

lemma update_expected_spec:
  assumes "update_expected codec ob oid time expected c = Inr (c2, expected', est, acc)"
  shows "expected' = spec_expected (obs_result ob) (obs_accept_change ob) expected"
  using assms
proof (cases rule: update_expected_cases)
  case keep
  then show ?thesis by (cases "obs_result ob") auto
qed simp_all

lemma object_view_update_expected:
  assumes "update_expected codec ob oid time (expected_of oid c) c = Inr (c2, expected, est, acc)"
    and oid: "oid \<in> set (object_ids c)"
  shows "object_view i c2 =
      (if i = oid then
         (expected, if expected_of oid c \<noteq> None \<and> expected \<noteq> expected_of oid c
            then (\<lambda>l. map_option (\<lambda>(p, _). (p, Unverified)) (snd (object_view oid c) l))
            else snd (object_view oid c))
       else object_view i c)"
  using assms(1)
proof (cases rule: update_expected_cases)
  case keep
  then show ?thesis by (simp add: object_view_def)
next
  case (establish d n size)
  then show ?thesis using oid
    by (auto simp: object_view_def expected_of_set_expected)
next
  case (accept d n size d' h)
  have "oid \<in> set (object_ids (append_history_row h (invalidate_verifications oid c)))"
    using oid by (simp add: invalidate_verifications_def append_history_row_def)
  with accept show ?thesis
    by (auto simp: object_view_def expected_of_set_expected find_file_invalidate
        option.map_comp comp_def)
qed

lemma object_view_store_outcome:
  assumes "store_outcome codec ob oid time expected c = Inr c'"
  shows "object_view i c' =
    (if i = oid then
       (expected_of oid c, (snd (object_view oid c))(obs_location_id ob \<mapsto>
          spec_copy expected (obs_result ob) (snd (object_view oid c) (obs_location_id ob))))
     else object_view i c)"
proof -
  from store_outcome_eq_Inr [OF assms] show ?thesis
    by (auto simp: object_view_def find_file_put_file next_file_spec fun_eq_iff)
qed

lemma object_view_observe:
  assumes "observe_in_transaction codec ulid ob c = Inr (c', out)"
    and "schema_ok c" and "new_object_id ulid \<notin> set (object_ids c)"
  shows "object_view i c' =
    (if i = out_object_id out
     then spec_observe (obs_location_id ob) (obs_result ob) (obs_accept_change ob) (object_view i c)
     else object_view i c)"
proof (rule observe_in_transaction_cases [OF assms(1,3)])
  fix b time row c1 c2 expected
  assume loc: "located_object ulid ob b c row c1" and c1: "schema_ok c1" "row \<in> set (ca_objects c1)"
    and upd: "update_expected codec ob (ob_object_id row) time (ob_expected_blake3 row) c1
       = Inr (c2, expected, out_established_identity out, out_accepted_change out)"
    and out: "out_object_id out = ob_object_id row"
    and store: "store_outcome codec ob (ob_object_id row) time expected c2 = Inr c'"
  let ?i = "ob_object_id row"
  have exp: "expected_of ?i c1 = ob_expected_blake3 row" using c1 by (rule expected_of_row)
  have view1: "object_view i c1 = object_view i c" for i
    by (rule object_view_located [OF loc assms(2)])
  have exp1: "expected_of ?i c1 = fst (object_view ?i c)"
    unfolding view1 [symmetric] by (simp add: object_view_def)
  have spec: "expected = spec_expected (obs_result ob) (obs_accept_change ob) (fst (object_view ?i c))"
    using update_expected_spec [OF upd] unfolding exp [symmetric] exp1 .
  have "?i \<in> set (object_ids c1)" using c1(2) by simp
  then have view2: "object_view i c2 = (if i = ?i then
         (expected, if fst (object_view ?i c) \<noteq> None \<and> expected \<noteq> fst (object_view ?i c)
            then (\<lambda>l. map_option (\<lambda>(p, _). (p, Unverified)) (snd (object_view ?i c) l))
            else snd (object_view ?i c))
       else object_view i c)" for i
    using object_view_update_expected [OF upd [folded exp], of i] unfolding view1 exp1 by simp
  have "expected_of ?i c2 = expected"
    using view2 [of ?i] by (simp add: object_view_def)
  then show ?thesis
    unfolding object_view_store_outcome [OF store] view2 out
    by (simp add: spec_observe_def spec split_beta Let_def)
qed

section \<open>Verified copies rest on evidence\<close>

text \<open>
  A copy recorded as verified is present, its last check succeeded and is its last success,
  and the checksum observed by that check is the expected one.
\<close>

definition trusted_copy :: "digest option \<Rightarrow> file_row \<Rightarrow> bool" where
  "trusted_copy expected f \<longleftrightarrow>
     (fi_integrity f = Verified \<longrightarrow>
        fi_presence f = Present \<and> fi_last_check_result f = Some Ok
        \<and> expected \<noteq> None \<and> fi_observed_blake3 f = expected
        \<and> fi_last_success_time_utc_ms f = fi_last_check_time_utc_ms f)"

definition evidence_ok :: "catalog \<Rightarrow> bool" where
  "evidence_ok c \<longleftrightarrow>
     list_all (\<lambda>f. trusted_copy (expected_of (fi_object_id f) c) f) (ca_files c)"

lemma find_file_eq_Some:
  "schema_ok c \<Longrightarrow> find_file i l c = Some f \<longleftrightarrow> f \<in> set (ca_files c) \<and> file_key f = (i, l)"
  unfolding find_file_def by (rule lookup_by_eq_Some) (rule schema_ok_distinct_objects)

lemma evidence_ok_iff:
  assumes "schema_ok c"
  shows "evidence_ok c \<longleftrightarrow>
    (\<forall>i l f. find_file i l c = Some f \<longrightarrow> trusted_copy (expected_of i c) f)"
  by (auto simp: evidence_ok_def list_all_iff find_file_eq_Some [OF assms])

lemma trusted_copy_new_file: "q \<noteq> Verified \<Longrightarrow> trusted_copy expected (new_file i l p q)"
  by (simp add: trusted_copy_def new_file_def)

lemma trusted_copy_observe_present:
  "trusted_copy expected f \<Longrightarrow> trusted_copy expected (observe_present f)"
  by (simp add: trusted_copy_def observe_present_def)

lemma trusted_copy_record_check:
  "classify expected result = (p, q, Some r, observed) \<Longrightarrow>
     trusted_copy expected (record_check time p q r observed f)"
  by (cases result) (auto simp: trusted_copy_def record_check_def split: if_splits)

lemma trusted_copy_next_file:
  assumes "\<And>f. old = Some f \<Longrightarrow> trusted_copy expected f"
  shows "trusted_copy expected (next_file i l time expected result old)"
proof (cases "classify expected result")
  case (fields p q res observed)
  show ?thesis
  proof (cases res)
    case None
    with fields assms show ?thesis
      by (cases old)
        (simp_all add: next_file_def trusted_copy_new_file trusted_copy_observe_present)
  next
    case (Some r)
    with fields show ?thesis
      by (simp add: next_file_def trusted_copy_record_check)
  qed
qed

lemma evidence_update_expected:
  assumes "update_expected codec ob oid time (expected_of oid c) c = Inr (c2, expected, est, acc)"
    and "oid \<in> set (object_ids c)"
    and "\<forall>i l f. find_file i l c = Some f \<longrightarrow> trusted_copy (expected_of i c) f"
  shows "expected_of oid c2 = expected
    \<and> (\<forall>i l f. find_file i l c2 = Some f \<longrightarrow> trusted_copy (expected_of i c2) f)"
  using assms(1)
proof (cases rule: update_expected_cases)
  case (establish d n size)
  then have "\<forall>l f. find_file oid l c = Some f \<longrightarrow> trusted_copy None f"
    using assms(3) by metis
  then have "\<forall>l f. find_file oid l c = Some f \<longrightarrow> trusted_copy (Some d) f"
    by (simp add: trusted_copy_def)
  with establish assms(2,3) show ?thesis
    by (simp add: expected_of_set_expected)
next
  case (accept d n size d' h)
  have "oid \<in> set (object_ids (append_history_row h (invalidate_verifications oid c)))"
    using assms(2) by (simp add: invalidate_verifications_def append_history_row_def)
  with accept assms(3) show ?thesis
    by (auto simp: expected_of_set_expected find_file_invalidate trusted_copy_def)
qed (use assms in simp_all)

lemma evidence_ok_observe:
  assumes "observe_in_transaction codec ulid ob c = Inr (c', out)"
    and "new_object_id ulid \<notin> set (object_ids c)" and "schema_ok c" and "evidence_ok c"
  shows "evidence_ok c'"
proof (rule observe_in_transaction_cases [OF assms(1,2)])
  fix b time row c1 c2 expected
  assume loc: "located_object ulid ob b c row c1" and c1: "schema_ok c1" "row \<in> set (ca_objects c1)"
    and upd: "update_expected codec ob (ob_object_id row) time (ob_expected_blake3 row) c1
       = Inr (c2, expected, out_established_identity out, out_accepted_change out)"
    and store: "store_outcome codec ob (ob_object_id row) time expected c2 = Inr c'"
  let ?i = "ob_object_id row"
  have "expected_of i c1 = expected_of i c" for i
    using object_view_located [OF loc assms(3), of i] by (simp add: object_view_def)
  moreover have "find_file i l c1 = find_file i l c" for i l
    using loc by (auto simp: located_object_def find_file_def)
  ultimately have "\<forall>i l f. find_file i l c1 = Some f \<longrightarrow> trusted_copy (expected_of i c1) f"
    using assms(4) by (simp add: evidence_ok_iff [OF assms(3)])
  moreover have "?i \<in> set (object_ids c1)" using c1(2) by simp
  moreover note upd [folded expected_of_row [OF c1]]
  ultimately have c2: "expected_of ?i c2 = expected"
    "\<forall>i l f. find_file i l c2 = Some f \<longrightarrow> trusted_copy (expected_of i c2) f"
    using evidence_update_expected by blast+
  from store_outcome_eq_Inr [OF store] have c': "schema_ok c'"
    and "expected_of i c' = expected_of i c2"
    and "find_file i l c' = (if (i, l) = (?i, obs_location_id ob)
      then Some (next_file i l time expected (obs_result ob) (find_file i l c2))
      else find_file i l c2)" for i l
    by (auto simp: find_file_put_file)
  then show ?thesis
    using c2 trusted_copy_next_file by (auto simp: evidence_ok_iff [OF c'])
qed

section \<open>What recording leaves alone\<close>

lemma update_expected_frame:
  assumes "update_expected codec ob oid time expected c = Inr (c2, expected', est, acc)"
  obtains objects files hist where
    "c2 = c\<lparr>ca_objects := objects, ca_files := files, ca_history := ca_history c @ hist\<rparr>"
    "map ob_object_id objects = object_ids c"
    "map object_path objects = map object_path (ca_objects c)"
  using assms
proof (cases rule: update_expected_cases)
  case keep
  then show thesis using that [where objects = "ca_objects c" and files = "ca_files c" and hist = "[]"] by simp
next
  case (establish d n size)
  then show thesis
    using that [where objects = "ca_objects c2" and files = "ca_files c" and hist = "[]"]
    by (simp add: set_expected_def map_update_where)
next
  case (accept d n size d' h)
  then show thesis
    using that [where objects = "ca_objects c2" and files = "ca_files c2" and hist = "[h]"]
    by (simp add: set_expected_def invalidate_verifications_def append_history_row_def
        map_update_where)
qed

lemma observe_in_transaction_frame:
  assumes "observe_in_transaction codec ulid ob c = Inr (c', out)"
    and "new_object_id ulid \<notin> set (object_ids c)"
  obtains objects files hist seen items where
    "c' = c\<lparr>ca_objects := objects, ca_files := files, ca_history := ca_history c @ hist,
            ca_scan_seen := seen, ca_job_items := items\<rparr>"
    "set (ca_scan_seen c) \<subseteq> set seen" "\<forall>j. obs_job_id ob = Some j \<longrightarrow> (j, out_object_id out) \<in> set seen"
    "set (object_ids c') \<subseteq> insert (new_object_id ulid) (set (object_ids c))" "schema_ok c'"
    "require_observation_job codec ob c = Inr ()"
proof (rule observe_in_transaction_cases [OF assms])
  fix b time row c1 c2 expected
  assume loc: "located_object ulid ob b c row c1" and c1: "row \<in> set (ca_objects c1)"
    and job: "require_observation_job codec ob c = Inr ()"
    and upd: "update_expected codec ob (ob_object_id row) time (ob_expected_blake3 row) c1
       = Inr (c2, expected, out_established_identity out, out_accepted_change out)"
    and out: "out_object_id out = ob_object_id row"
    and store: "store_outcome codec ob (ob_object_id row) time expected c2 = Inr c'"
  from loc have ids: "set (object_ids c1) \<subseteq> insert (new_object_id ulid) (set (object_ids c))"
    by (auto simp: located_object_def)
  from loc obtain objs1 where c1_eq: "c1 = c\<lparr>ca_objects := objs1\<rparr>"
    by (auto simp: located_object_def intro: that [of "ca_objects c"])
  from upd obtain objects files hist where
    c2: "c2 = c1\<lparr>ca_objects := objects, ca_files := files, ca_history := ca_history c1 @ hist\<rparr>"
    and objs: "map ob_object_id objects = object_ids c1"
    by (rule update_expected_frame)
  note c' = store_outcome_eq_Inr [OF store]
  have eq: "c' = c\<lparr>ca_objects := objects, ca_files := ca_files c',
      ca_history := ca_history c @ (hist @ [observation_history codec ob (ob_object_id row) time expected]),
      ca_scan_seen := ca_scan_seen c', ca_job_items := ca_job_items c'\<rparr>"
    unfolding c' [THEN conjunct1] c2 c1_eq
    by (simp add: put_file_def append_history_row_def mark_job_def mark_item_def mark_seen_def
        split: option.split prod.split)
  have seen: "set (ca_scan_seen c) \<subseteq> set (ca_scan_seen c')"
    "\<forall>j. obs_job_id ob = Some j \<longrightarrow> (j, out_object_id out) \<in> set (ca_scan_seen c')"
    unfolding c' [THEN conjunct1] c2 out c1_eq
    by (auto simp: put_file_def append_history_row_def mark_job_def mark_item_def mark_seen_def
        set_insert_or_ignore split: option.split prod.split)
  have "set (object_ids c') \<subseteq> insert (new_object_id ulid) (set (object_ids c))"
  proof -
    have "object_ids c' = map ob_object_id objects" by (subst eq) simp
    then show ?thesis using ids objs by simp
  qed
  then show thesis using that eq seen c' job by blast
qed

end
