(* ===== verification/Sample_Catalog.thy ===== *)
theory Sample_Catalog
  imports Catalog_Writes
begin

text \<open>
  A concrete catalog and concrete instances of the third-party functions, on which the
  properties of the catalog operations are evaluated: the two-location fixture of the unit
  tests in \<open>src/src/sqlite_writes.rs\<close>, a printer of JSON values without escapes, and a
  length-prefixed coding of observation outcomes.
\<close>

fun print_json :: "json \<Rightarrow> bytes"
  and print_members :: "(bytes \<times> json) list \<Rightarrow> bytes"
  and print_elements :: "json list \<Rightarrow> bytes" where
  "print_json JNull = ''null''"
| "print_json (JBool b) = (if b then ''true'' else ''false'')"
| "print_json (JNum n) = (if n < 0 then ''-'' else []) @ replicate (nat \<bar>n\<bar>) (CHR ''1'')"
| "print_json (JStr s) = [CHR 0x22] @ s @ [CHR 0x22]"
| "print_json (JArr vs) = ''['' @ print_elements vs @ '']''"
| "print_json (JObj ms) = ''{'' @ print_members ms @ ''}''"
| "print_members [] = []"
| "print_members ((k, v) # ms) = [CHR 0x22] @ k @ [CHR 0x22] @ '':'' @ print_json v @ '','' @ print_members ms"
| "print_elements [] = []"
| "print_elements (v # vs) = print_json v @ '','' @ print_elements vs"

definition sample_scope :: json where
  "sample_scope = JObj [(''collection_id'', JStr ''c''), (''location_id'', JStr ''p'')]"

definition sample_outcome_to_string :: "observation_outcome \<Rightarrow> bytes" where
  "sample_outcome_to_string out =
     [if out_established_identity out then CHR ''1'' else CHR ''0'',
      if out_accepted_change out then CHR ''1'' else CHR ''0'']
     @ replicate (length (out_object_id out)) (CHR ''x'') @ ''|'' @ out_object_id out @ out_result out"

fun sample_outcome_from_str :: "bytes \<Rightarrow> observation_outcome option" where
  "sample_outcome_from_str (e # a # rest) =
     (let n = length (takeWhile (\<lambda>ch. ch = CHR ''x'') rest); t = drop (Suc n) rest in
      Some \<lparr>out_object_id = take n t, out_result = drop n t,
            out_established_identity = (e = CHR ''1''), out_accepted_change = (a = CHR ''1'')\<rparr>)"
| "sample_outcome_from_str _ = None"

lemma takeWhile_unary:
  "takeWhile (\<lambda>ch. ch = CHR ''x'') (replicate n (CHR ''x'') @ CHR ''|'' # rest) = replicate n (CHR ''x'')"
  by (induction n) simp_all

lemma sample_outcome_roundtrip:
  "sample_outcome_from_str (sample_outcome_to_string out) = Some out"
  by (cases out) (simp add: sample_outcome_to_string_def takeWhile_unary Let_def)

definition sample_codec :: catalog_codec where
  "sample_codec =
     \<lparr>observation_to_string = (\<lambda>ob. obs_location_id ob @ rp_display (obs_path ob)),
      outcome_to_string = sample_outcome_to_string,
      outcome_from_str = sample_outcome_from_str,
      value_to_string = print_json,
      value_from_str = (\<lambda>s. find (\<lambda>v. print_json v = s) [sample_scope, JObj []]),
      base64_decode = Some\<rparr>"

definition sample_ulid :: "nat \<Rightarrow> bytes" where
  "sample_ulid i = replicate i (CHR ''0'')"

definition sample_location :: "bytes \<Rightarrow> bytes \<Rightarrow> location_row" where
  "sample_location location_id availability =
     \<lparr>lr_location_id = location_id, lr_display_name = location_id, lr_kind = ''service'',
      lr_archive_root_id = None, lr_relative_path_bytes = None, lr_relative_path_encoding = None,
      lr_relative_path_display = None, lr_device_id = None, lr_site_id = Some ''s'',
      lr_encryption_state = None, lr_trust_level = None,
      lr_expected_availability = availability, lr_is_writable = True, lr_status = ACTIVE\<rparr>"

definition sample_catalog :: catalog where
  "sample_catalog =
     (empty_catalog ''a'' ''Archive'')
       \<lparr>ca_sites := [\<lparr>si_site_id = ''s'', si_display_name = ''Site'', si_site_kind = ''home'',
                     si_description = None, si_status = ACTIVE\<rparr>],
        ca_collections := [\<lparr>co_collection_id = ''c'', co_display_name = ''Files'',
                            co_description = None, co_home_site_id = None, co_policy_id = None,
                            co_status = ACTIVE\<rparr>],
        ca_locations := [sample_location ''p'' ''online'', sample_location ''b'' ''offline'']\<rparr>"

definition sample_observation ::
  "bytes \<Rightarrow> bytes \<Rightarrow> u64 \<Rightarrow> observation_result \<Rightarrow> bytes option \<Rightarrow> bytes option \<Rightarrow> catalog_observation" where
  "sample_observation path location_id time result key job =
     \<lparr>obs_collection_id = ''c'', obs_location_id = location_id,
      obs_path = registry_path_utf8 path, obs_time_utc_ms = time, obs_result = result,
      obs_accept_change = False, obs_operation_key = key, obs_job_id = job\<rparr>"

definition sample_batch :: "catalog_observation list" where
  "sample_batch =
     [sample_observation ''x'' ''p'' 1 (Checksum 1 42) (Some ''k1'') None,
      sample_observation ''x'' ''b'' 2 (Checksum 2 42) (Some ''k2'') None,
      sample_observation ''y'' ''p'' 3 MetadataPresent (Some ''k3'') None]"

text \<open>The state after a transaction that is known to succeed.\<close>

definition committed :: "'e + catalog \<times> 'a \<Rightarrow> catalog" where
  "committed r = (case r of Inr (c, _) \<Rightarrow> c | Inl _ \<Rightarrow> empty_catalog [] [])"

definition commits :: "'e + catalog \<times> 'a \<Rightarrow> 'a \<Rightarrow> bool" where
  "commits r x = (case r of Inr (_, y) \<Rightarrow> y = x | Inl _ \<Rightarrow> False)"

lemma committed_eq: "commits r x \<Longrightarrow> r = Inr (committed r, x)"
  by (auto simp: commits_def committed_def split: sum.splits)

definition sample_observed :: catalog where
  "sample_observed = committed (observe_batch sample_codec sample_ulid sample_batch sample_catalog)"

definition sample_outcomes :: "observation_outcome list" where
  "sample_outcomes =
     [\<lparr>out_object_id = ''obj_'', out_result = ''ok'', out_established_identity = True,
       out_accepted_change = False\<rparr>,
      \<lparr>out_object_id = ''obj_'', out_result = ''mismatch'', out_established_identity = False,
       out_accepted_change = False\<rparr>,
      \<lparr>out_object_id = ''obj_00'', out_result = ''observed'', out_established_identity = False,
       out_accepted_change = False\<rparr>]"

lemma sample_catalog_ok: "schema_ok sample_catalog"
  by code_simp

lemma sample_batch_runs:
  "observe_batch sample_codec sample_ulid sample_batch sample_catalog
     = Inr (sample_observed, sample_outcomes)"
  unfolding sample_observed_def by (rule committed_eq) code_simp

lemma sample_evidence: "evidence_ok sample_catalog"
  by code_simp

definition sample_first :: catalog_observation where
  "sample_first = hd sample_batch"

lemma sample_first_runs:
  "observe_in_transaction sample_codec ''0'' sample_first sample_catalog =
     Inr (committed (observe_in_transaction sample_codec ''0'' sample_first sample_catalog),
          \<lparr>out_object_id = ''obj_0'', out_result = ''ok'', out_established_identity = True,
           out_accepted_change = False\<rparr>)"
  by (rule committed_eq) code_simp

lemma sample_first_fresh: "new_object_id ''0'' \<notin> set (object_ids sample_catalog)"
  by code_simp

end
