(* ===== verification/Catalog_Batches.thy ===== *)
theory Catalog_Batches
  imports Sample_Catalog
begin

text \<open>
  Batches of observations: the loop of \<open>observe_batch\<close> (\<open>src/src/sqlite_writes.rs\<close>) keeps what
  recording one observation keeps, never replaces an expected checksum unless an observation
  accepts the change, only appends to the history, and returns the recorded outcomes without
  changing anything when a batch with operation keys is sent again.
\<close>

section \<open>The loop of a batch\<close>

text \<open>
  What a batch relies on: the ULIDs generated for it give object IDs that are pairwise
  different and unused.
\<close>

definition fresh_ulids :: "(nat \<Rightarrow> bytes) \<Rightarrow> nat set \<Rightarrow> catalog \<Rightarrow> bool" where
  "fresh_ulids new_ulid I c \<longleftrightarrow>
     inj_on (\<lambda>i. new_object_id (new_ulid i)) I
     \<and> (\<forall>i\<in>I. new_object_id (new_ulid i) \<notin> set (object_ids c))"

text \<open>One round either replays a recorded outcome or records the observation.\<close>

lemma observe_step_cases:
  assumes "observe_step codec new_ulid (k, ob) (c, outs, ch) = Inr (c', outs', ch')"
  obtains
    (replay) key row out where "obs_operation_key ob = Some key"
      "lookup_by op_operation_key key (ca_write_operations c) = Some row"
      "op_request_json row = observation_to_string codec ob"
      "outcome_from_str codec (op_outcome_json row) = Some out"
      "outs' = outs @ [out]" "ch' = ch" "obs_job_id ob = None" "c' = c"
  | (replay_seen) key row out job where "obs_operation_key ob = Some key"
      "lookup_by op_operation_key key (ca_write_operations c) = Some row"
      "op_request_json row = observation_to_string codec ob"
      "outcome_from_str codec (op_outcome_json row) = Some out"
      "outs' = outs @ [out]" "ch' = ch" "obs_job_id ob = Some job"
      "require_observation_job codec ob c = Inr ()"
      "c' = mark_seen job (out_object_id out) c" "schema_ok c'"
  | (record_it) c1 out where
      "\<And>key. obs_operation_key ob = Some key \<Longrightarrow>
         lookup_by op_operation_key key (ca_write_operations c) = None"
      "observe_in_transaction codec (new_ulid k) ob c = Inr (c1, out)"
      "outs' = outs @ [out]" "ch'"
      "c' = (case obs_operation_key ob of None \<Rightarrow> c1
             | Some key \<Rightarrow> insert_operation \<lparr>op_operation_key = key,
                  op_request_json = observation_to_string codec ob,
                  op_outcome_json = outcome_to_string codec out\<rparr> c1)"
      "obs_operation_key ob = None \<or> schema_ok c'"
proof (cases "Option.bind (obs_operation_key ob)
    (\<lambda>key. lookup_by op_operation_key key (ca_write_operations c))")
  case None
  with assms record_it show thesis
    by (cases "obs_operation_key ob") (auto simp: observe_step_def ebind_eq_Inr exec_sql_eq_Inr)
next
  case (Some row)
  then obtain key where "obs_operation_key ob = Some key"
    "lookup_by op_operation_key key (ca_write_operations c) = Some row"
    by (auto simp: bind_eq_Some_conv)
  with assms replay replay_seen show thesis
    by (cases "obs_job_id ob")
      (auto simp: observe_step_def ebind_eq_Inr exec_sql_eq_Inr ok_or_eq_Inr split: if_splits)
qed

lemma object_ids_simps [simp]:
  "ca_objects (mark_seen j i c) = ca_objects c"
  "ca_objects (insert_operation r c) = ca_objects c"
  "ca_objects (bump_revision c) = ca_objects c"
  by (simp_all add: mark_seen_def insert_operation_def bump_revision_def)

lemma fresh_ulids_Suc:
  assumes "fresh_ulids new_ulid {k..<k + Suc n} c"
    and "set (object_ids c') \<subseteq> insert (new_object_id (new_ulid k)) (set (object_ids c))"
  shows "fresh_ulids new_ulid {Suc k..<Suc k + n} c'"
proof -
  have inj: "inj_on (\<lambda>i. new_object_id (new_ulid i)) {k..<k + Suc n}"
    and dis: "\<forall>i\<in>{k..<k + Suc n}. new_object_id (new_ulid i) \<notin> set (object_ids c)"
    using assms(1) unfolding fresh_ulids_def by blast+
  have sub: "{Suc k..<Suc k + n} \<subseteq> {k..<k + Suc n}" by auto
  have "new_object_id (new_ulid i) \<noteq> new_object_id (new_ulid k)"
    if "i \<in> {Suc k..<Suc k + n}" for i
    using inj_onD [OF inj, of i k] that by auto
  with assms(2) dis sub
  have "\<forall>i\<in>{Suc k..<Suc k + n}. new_object_id (new_ulid i) \<notin> set (object_ids c')"
    by blast
  with inj_on_subset [OF inj sub] show ?thesis unfolding fresh_ulids_def by blast
qed

lemma fresh_ulids_first:
  "fresh_ulids new_ulid {k..<k + Suc n} c \<Longrightarrow> new_object_id (new_ulid k) \<notin> set (object_ids c)"
  unfolding fresh_ulids_def by (elim conjE, erule bspec) simp

lemma observe_step_fresh:
  assumes "observe_step codec new_ulid (k, ob) (c, outs, ch) = Inr (c', outs', ch')"
    and "schema_ok c" and "fresh_ulids new_ulid {k..<k + Suc n} c"
  shows "schema_ok c' \<and> fresh_ulids new_ulid {Suc k..<Suc k + n} c'"
  using assms(1)
proof (cases rule: observe_step_cases)
  case (record_it c2 out)
  from record_it(2) fresh_ulids_first [OF assms(3)] have "schema_ok c2"
    "set (object_ids c2) \<subseteq> insert (new_object_id (new_ulid k)) (set (object_ids c))"
    by (rule observe_in_transaction_frame, simp)+
  moreover have "set (object_ids c') = set (object_ids c2)"
    using record_it by (cases "obs_operation_key ob") simp_all
  ultimately show ?thesis
    using record_it(5,6) fresh_ulids_Suc [OF assms(3), of c']
    by (cases "obs_operation_key ob") simp_all
qed (use assms fresh_ulids_Suc [OF assms(3), of c'] in auto)

text \<open>The rule for invariants of a batch: what recording and bookkeeping keep, a batch keeps.\<close>

lemma observe_step_invariant:
  assumes "observe_step codec new_ulid (k, ob) (c, outs, ch) = Inr (c', outs', ch')"
    and "schema_ok c" and "new_object_id (new_ulid k) \<notin> set (object_ids c)" and "P c"
    and "\<And>ulid c1 c2 out. schema_ok c1 \<Longrightarrow> P c1 \<Longrightarrow>
      new_object_id ulid \<notin> set (object_ids c1) \<Longrightarrow>
      observe_in_transaction codec ulid ob c1 = Inr (c2, out) \<Longrightarrow> P c2"
    and "\<And>job oid c1. P c1 \<Longrightarrow> P (mark_seen job oid c1)"
    and "\<And>r c1. P c1 \<Longrightarrow> P (insert_operation r c1)"
  shows "P c'"
  using assms(1)
proof (cases rule: observe_step_cases)
  case (record_it c2 out)
  have "P c2" by (rule assms(5) [OF assms(2,4,3) record_it(2)])
  then show ?thesis using record_it(5) assms(7) by (cases "obs_operation_key ob") simp_all
qed (use assms(4,6) in auto)

lemma observe_loop_invariant:
  assumes "efold (observe_step codec new_ulid) (enumerate k obs) (c, outs, ch) = Inr (c', outs', ch')"
    and "schema_ok c" and "fresh_ulids new_ulid {k..<k + length obs} c" and "P c"
    and record_it: "\<And>ulid ob c1 c2 out. ob \<in> set obs \<Longrightarrow> schema_ok c1 \<Longrightarrow> P c1 \<Longrightarrow>
      new_object_id ulid \<notin> set (object_ids c1) \<Longrightarrow>
      observe_in_transaction codec ulid ob c1 = Inr (c2, out) \<Longrightarrow> P c2"
    and seen: "\<And>job oid c1. P c1 \<Longrightarrow> P (mark_seen job oid c1)"
    and oper: "\<And>r c1. P c1 \<Longrightarrow> P (insert_operation r c1)"
  shows "schema_ok c' \<and> P c'"
  using assms(1-5)
proof (induction obs arbitrary: k c outs ch)
  case (Cons ob obs)
  from Cons.prems(1) obtain c1 outs1 ch1 where
    step: "observe_step codec new_ulid (k, ob) (c, outs, ch) = Inr (c1, outs1, ch1)"
    and rest: "efold (observe_step codec new_ulid) (enumerate (Suc k) obs) (c1, outs1, ch1)
      = Inr (c', outs', ch')"
    by (auto simp: ebind_eq_Inr)
  have fresh: "fresh_ulids new_ulid {k..<k + Suc (length obs)} c" using Cons.prems(3) by simp
  have c1: "schema_ok c1" "fresh_ulids new_ulid {Suc k..<Suc k + length obs} c1"
    using observe_step_fresh [OF step Cons.prems(2) fresh] by blast+
  have ob: "P c2" if "schema_ok c1" "P c1" "new_object_id ulid \<notin> set (object_ids c1)"
    "observe_in_transaction codec ulid ob c1 = Inr (c2, out)" for ulid c1 c2 out
    by (rule Cons.prems(5) [OF _ that]) simp
  have P: "P c1"
    by (rule observe_step_invariant [OF step Cons.prems(2) fresh_ulids_first [OF fresh]
          Cons.prems(4) ob seen oper])
  show ?case
  proof (rule Cons.IH [OF rest c1 P])
    fix ulid ob' c1 c2 out
    assume "ob' \<in> set obs" and ob': "schema_ok c1" "P c1" "new_object_id ulid \<notin> set (object_ids c1)"
      "observe_in_transaction codec ulid ob' c1 = Inr (c2, out)"
    then have "ob' \<in> set (ob # obs)" by simp
    then show "P c2" using ob' by (rule Cons.prems(5))
  qed
qed simp

lemma observe_batch_invariant:
  assumes "observe_batch codec new_ulid obs c = Inr (c', outs)"
    and "schema_ok c" and "fresh_ulids new_ulid {0..<length obs} c" and "P c"
    and "\<And>ulid ob c1 c2 out. ob \<in> set obs \<Longrightarrow> schema_ok c1 \<Longrightarrow> P c1 \<Longrightarrow>
      new_object_id ulid \<notin> set (object_ids c1) \<Longrightarrow>
      observe_in_transaction codec ulid ob c1 = Inr (c2, out) \<Longrightarrow> P c2"
    and "\<And>job oid c1. P c1 \<Longrightarrow> P (mark_seen job oid c1)"
    and "\<And>r c1. P c1 \<Longrightarrow> P (insert_operation r c1)"
    and "\<And>c1. P c1 \<Longrightarrow> P (bump_revision c1)"
  shows "schema_ok c' \<and> P c'"
proof -
  from assms(1) obtain c1 ch where
    loop: "efold (observe_step codec new_ulid) (enumerate 0 obs) (c, [], False) = Inr (c1, outs, ch)"
    and fin: "(if ch then revision c1 else Inr c1) = Inr c'"
    by (auto simp: observe_batch_def ebind_eq_Inr)
  have "schema_ok c1 \<and> P c1"
    by (rule observe_loop_invariant [where P = P, OF loop assms(2)]) (use assms(3-7) in auto)
  with fin assms(8) show ?thesis
    by (auto simp: revision_def exec_sql_eq_Inr split: if_splits)
qed

lemma evidence_ok_bookkeeping [simp]:
  "evidence_ok (mark_seen job i c) = evidence_ok c"
  "evidence_ok (insert_operation r c) = evidence_ok c"
  "evidence_ok (bump_revision c) = evidence_ok c"
  by (simp_all add: evidence_ok_def)
    (simp_all add: mark_seen_def insert_operation_def bump_revision_def)

lemma observe_batch_keeps_evidence:
  assumes "observe_batch codec new_ulid obs c = Inr (c', outs)"
    and "schema_ok c" and "evidence_ok c" and "fresh_ulids new_ulid {0..<length obs} c"
  shows "schema_ok c' \<and> evidence_ok c'"
  by (rule observe_batch_invariant [OF assms(1,2,4), where P = evidence_ok])
    (use assms(3) evidence_ok_observe in auto)

lemma observe_batch_keeps_expected:
  assumes "observe_batch codec new_ulid obs c = Inr (c', outs)"
    and "schema_ok c" and "fresh_ulids new_ulid {0..<length obs} c"
    and "\<forall>ob\<in>set obs. \<not> obs_accept_change ob" and "expected_of i c = Some d"
  shows "expected_of i c' = Some d"
proof -
  have "schema_ok c' \<and> expected_of i c' = Some d"
  proof (rule observe_batch_invariant [OF assms(1,2,3), where P = "\<lambda>c. expected_of i c = Some d"])
    fix ulid ob c1 c2 out
    assume ob: "ob \<in> set obs" and c1: "schema_ok c1" "expected_of i c1 = Some d"
      "new_object_id ulid \<notin> set (object_ids c1)"
      and run: "observe_in_transaction codec ulid ob c1 = Inr (c2, out)"
    have "spec_expected (obs_result ob) False (Some d) = Some d" by (cases "obs_result ob") simp_all
    moreover have "\<not> obs_accept_change ob" using ob assms(4) by blast
    moreover have "fst (object_view i c2) =
        (if i = out_object_id out
         then spec_expected (obs_result ob) (obs_accept_change ob) (expected_of i c1)
         else expected_of i c1)"
      unfolding object_view_observe [OF run c1(1,3)]
      by (simp add: spec_observe_def object_view_def Let_def)
    ultimately show "expected_of i c2 = Some d"
      using c1(2) by (simp add: object_view_def split: if_splits)
  qed (use assms(5) in simp_all)
  then show ?thesis by blast
qed

subsection \<open>Replaying a batch\<close>

text \<open>A recorded observation: its operation row holds the request and the outcome.\<close>

definition recorded ::
  "catalog_codec \<Rightarrow> catalog_observation \<Rightarrow> observation_outcome \<Rightarrow> catalog \<Rightarrow> bool" where
  "recorded codec ob out c \<longleftrightarrow>
     (\<exists>key row. obs_operation_key ob = Some key
        \<and> lookup_by op_operation_key key (ca_write_operations c) = Some row
        \<and> op_request_json row = observation_to_string codec ob
        \<and> outcome_from_str codec (op_outcome_json row) = Some out)
     \<and> (\<forall>job. obs_job_id ob = Some job \<longrightarrow> (job, out_object_id out) \<in> set (ca_scan_seen c)
              \<and> require_observation_job codec ob c = Inr ())"

lemma require_observation_job_cong:
  "ca_jobs c = ca_jobs c' \<Longrightarrow> require_observation_job codec ob c = require_observation_job codec ob c'"
  by (simp add: require_observation_job_def require_running_job_def require_job_scope_def
      cong: option.case_cong)

lemma mark_seen_idem: "(job, i) \<in> set (ca_scan_seen c) \<Longrightarrow> mark_seen job i c = c"
  by (simp add: mark_seen_def insert_or_ignore_def)

text \<open>Every observation of a batch with operation keys ends up recorded, and stays so.\<close>

definition extends :: "catalog \<Rightarrow> catalog \<Rightarrow> bool" where
  "extends c c' \<longleftrightarrow> ca_jobs c' = ca_jobs c \<and> set (ca_scan_seen c) \<subseteq> set (ca_scan_seen c')
     \<and> prefix (ca_write_operations c) (ca_write_operations c')
     \<and> prefix (ca_history c) (ca_history c')"

lemma extends_refl [simp]: "extends c c" by (simp add: extends_def)

lemma extends_trans: "extends a b \<Longrightarrow> extends b c \<Longrightarrow> extends a c"
  by (auto simp: extends_def intro: prefix_order.trans)

lemma extends_bookkeeping:
  "extends c (mark_seen job i c)" "extends c (insert_operation r c)" "extends c (bump_revision c)"
  by (auto simp: extends_def mark_seen_def insert_operation_def bump_revision_def
      set_insert_or_ignore)

lemma extends_observe:
  assumes "observe_in_transaction codec ulid ob c = Inr (c', out)"
    and "new_object_id ulid \<notin> set (object_ids c)"
  shows "extends c c'"
  using assms by (rule observe_in_transaction_frame) (auto simp: extends_def)

lemma lookup_by_prefix:
  "prefix rows rows' \<Longrightarrow> lookup_by key k rows = Some r \<Longrightarrow> lookup_by key k rows' = Some r"
  by (auto simp: prefix_def lookup_by_append)

lemma recorded_extends:
  assumes "recorded codec ob out c" "extends c c'"
  shows "recorded codec ob out c'"
proof -
  have "lookup_by op_operation_key key (ca_write_operations c') = Some row"
    if "lookup_by op_operation_key key (ca_write_operations c) = Some row" for key row
    using assms(2) that by (auto simp: extends_def intro: lookup_by_prefix)
  moreover have "require_observation_job codec ob c' = require_observation_job codec ob c"
    using assms(2) by (intro require_observation_job_cong) (simp add: extends_def)
  moreover have "set (ca_scan_seen c) \<subseteq> set (ca_scan_seen c')"
    using assms(2) by (simp add: extends_def)
  ultimately show ?thesis using assms(1) unfolding recorded_def by fastforce
qed

lemma lookup_inserted_operation:
  "lookup_by op_operation_key (op_operation_key r) (ca_write_operations c) = None \<Longrightarrow>
     lookup_by op_operation_key (op_operation_key r) (ca_write_operations (insert_operation r c)) = Some r"
  by (simp add: insert_operation_def lookup_by_append lookup_by_single)

lemma observe_step_recorded:
  assumes "observe_step codec new_ulid (k, ob) (c, outs, ch) = Inr (c', outs', ch')"
    and "new_object_id (new_ulid k) \<notin> set (object_ids c)"
    and codec: "\<And>out. outcome_from_str codec (outcome_to_string codec out) = Some out"
    and "obs_operation_key ob \<noteq> None"
  shows "extends c c' \<and> (\<exists>out. outs' = outs @ [out] \<and> recorded codec ob out c')"
  using assms(1)
proof (cases rule: observe_step_cases)
  case (replay key row out)
  then show ?thesis by (auto simp: recorded_def)
next
  case (replay_seen key row out job)
  have "require_observation_job codec ob c' = require_observation_job codec ob c"
    by (rule require_observation_job_cong) (simp add: replay_seen mark_seen_def)
  moreover have "ca_write_operations c' = ca_write_operations c"
    "(job, out_object_id out) \<in> set (ca_scan_seen c')"
    by (simp_all add: replay_seen mark_seen_def set_insert_or_ignore)
  ultimately show ?thesis
    using replay_seen extends_bookkeeping(1) [of c job "out_object_id out"]
    by (auto simp: recorded_def)
next
  case (record_it c1 out)
  from assms(4) obtain key where key: "obs_operation_key ob = Some key" by auto
  let ?r = "\<lparr>op_operation_key = key, op_request_json = observation_to_string codec ob,
              op_outcome_json = outcome_to_string codec out\<rparr>"
  have c': "c' = insert_operation ?r c1" using record_it key by simp
  from record_it(2) assms(2) have ext: "extends c c1" by (rule extends_observe)
  from record_it(2) assms(2) have frame: "ca_write_operations c1 = ca_write_operations c"
    "\<forall>j. obs_job_id ob = Some j \<longrightarrow> (j, out_object_id out) \<in> set (ca_scan_seen c1)"
    "require_observation_job codec ob c = Inr ()"
    by (rule observe_in_transaction_frame, simp)+
  have "lookup_by op_operation_key key (ca_write_operations c') = Some ?r"
    using lookup_inserted_operation [of ?r c1] record_it(1) [OF key] frame(1) by (simp add: c')
  moreover have "require_observation_job codec ob c' = Inr ()"
    using frame(3) ext require_observation_job_cong [of c' c]
    by (simp add: c' insert_operation_def extends_def)
  moreover have "ca_scan_seen c' = ca_scan_seen c1" by (simp add: c' insert_operation_def)
  ultimately have "recorded codec ob out c'"
    using key frame(2) codec by (auto simp: recorded_def)
  moreover have "extends c c'"
    using extends_trans [OF ext extends_bookkeeping(2)] by (simp add: c')
  ultimately show ?thesis using record_it(3) by blast
qed

lemma observe_loop_recorded:
  assumes "efold (observe_step codec new_ulid) (enumerate k obs) (c, outs, ch) = Inr (c', outs', ch')"
    and "schema_ok c" and "fresh_ulids new_ulid {k..<k + length obs} c"
    and codec: "\<And>out. outcome_from_str codec (outcome_to_string codec out) = Some out"
    and "\<forall>ob\<in>set obs. obs_operation_key ob \<noteq> None"
  shows "extends c c'
    \<and> (\<exists>new. outs' = outs @ new \<and> list_all2 (\<lambda>ob out. recorded codec ob out c') obs new)"
  using assms(1-3,5)
proof (induction obs arbitrary: k c outs ch)
  case (Cons ob obs)
  from Cons.prems(1) obtain c1 outs1 ch1 where
    step: "observe_step codec new_ulid (k, ob) (c, outs, ch) = Inr (c1, outs1, ch1)"
    and rest: "efold (observe_step codec new_ulid) (enumerate (Suc k) obs) (c1, outs1, ch1)
      = Inr (c', outs', ch')"
    by (auto simp: ebind_eq_Inr)
  have fresh: "fresh_ulids new_ulid {k..<k + Suc (length obs)} c" using Cons.prems(3) by simp
  have c1: "schema_ok c1" "fresh_ulids new_ulid {Suc k..<Suc k + length obs} c1"
    using observe_step_fresh [OF step Cons.prems(2) fresh] by blast+
  have "obs_operation_key ob \<noteq> None" "\<forall>ob\<in>set obs. obs_operation_key ob \<noteq> None"
    using Cons.prems(4) by simp_all
  with observe_step_recorded [OF step fresh_ulids_first [OF fresh] codec]
    Cons.IH [OF rest c1] obtain out new where
    "extends c c1" "outs1 = outs @ [out]" "recorded codec ob out c1"
    "extends c1 c'" "outs' = outs1 @ new" "list_all2 (\<lambda>ob out. recorded codec ob out c') obs new"
    by blast
  then show ?case
    using extends_trans recorded_extends by (intro conjI exI [of _ "out # new"]) auto
qed simp

lemma observe_step_replay:
  assumes "recorded codec ob out c" "schema_ok c"
  shows "observe_step codec new_ulid (k, ob) (c, outs, ch) = Inr (c, outs @ [out], ch)"
proof (cases "obs_job_id ob")
  case None
  with assms show ?thesis by (auto simp: recorded_def observe_step_def)
next
  case (Some job)
  with assms have "mark_seen job (out_object_id out) c = c" by (simp add: recorded_def mark_seen_idem)
  with assms Some show ?thesis by (auto simp: recorded_def observe_step_def exec_sql_def)
qed

lemma observe_loop_replay:
  assumes "list_all2 (\<lambda>ob out. recorded codec ob out c) obs new" "schema_ok c"
  shows "efold (observe_step codec new_ulid) (enumerate k obs) (c, outs, ch) = Inr (c, outs @ new, ch)"
  using assms
proof (induction obs new arbitrary: k outs rule: list_all2_induct)
  case (Cons ob obs out new)
  then show ?case
    by (simp add: observe_step_replay [OF Cons.hyps(1) assms(2)])
qed simp

section \<open>Properties of recording\<close>

text \<open>
  C3. Recording one observation changes the catalog's knowledge exactly as the abstract
  specification says: the object at the observed path moves by \<open>spec_observe\<close>, and every
  other object keeps its expected checksum and the state of all of its copies.
\<close>

theorem observe_in_transaction_refines:
  assumes "observe_in_transaction codec ulid ob c = Inr (c', out)"
    and "schema_ok c" and "new_object_id ulid \<notin> set (object_ids c)"
  shows "object_view i c' =
    (if i = out_object_id out
     then spec_observe (obs_location_id ob) (obs_result ob) (obs_accept_change ob) (object_view i c)
     else object_view i c)"
  using assms by (rule object_view_observe)

theorem observe_in_transaction_refines_witness:
  "object_view ''obj_0'' (committed (observe_in_transaction sample_codec ''0'' sample_first sample_catalog))
     = spec_observe (obs_location_id sample_first) (obs_result sample_first)
         (obs_accept_change sample_first) (object_view ''obj_0'' sample_catalog)"
  using observe_in_transaction_refines [OF sample_first_runs sample_catalog_ok sample_first_fresh,
      of "''obj_0''"]
  by simp

lemma sample_batch_fresh: "fresh_ulids sample_ulid {0..<length sample_batch} sample_catalog"
  unfolding fresh_ulids_def
proof
  show "inj_on (\<lambda>i. new_object_id (sample_ulid i)) {0..<length sample_batch}"
  proof (rule inj_onI)
    fix i j assume "new_object_id (sample_ulid i) = new_object_id (sample_ulid j)"
    then have "length (new_object_id (sample_ulid i)) = length (new_object_id (sample_ulid j))" by simp
    then show "i = j"
      by (simp add: new_object_id_def to_ascii_lowercase_def sample_ulid_def)
  qed
qed (simp add: sample_catalog_def empty_catalog_def)

text \<open>
  C4. A batch keeps the catalog's constraints and its evidence: if every copy recorded as
  verified was present, with a successful last check that observed the expected checksum,
  then the same holds after any batch of observations that commits.
\<close>

theorem observe_batch_evidence:
  assumes "observe_batch codec new_ulid obs c = Inr (c', outs)"
    and "schema_ok c" and "evidence_ok c" and "fresh_ulids new_ulid {0..<length obs} c"
  shows "schema_ok c' \<and> evidence_ok c'"
  using assms by (rule observe_batch_keeps_evidence)

theorem observe_batch_evidence_witness:
  "schema_ok sample_observed \<and> evidence_ok sample_observed"
  by (rule observe_batch_evidence
      [OF sample_batch_runs sample_catalog_ok sample_evidence sample_batch_fresh])

text \<open>
  C25. The identity of a file is immutable: unless an observation of the batch explicitly
  accepts a change, no batch replaces an expected checksum, whatever it observed.
\<close>

theorem observe_batch_expected_immutable:
  assumes "observe_batch codec new_ulid obs c = Inr (c', outs)"
    and "schema_ok c" and "fresh_ulids new_ulid {0..<length obs} c"
    and "\<forall>ob\<in>set obs. \<not> obs_accept_change ob" and "expected_of i c = Some d"
  shows "expected_of i c' = Some d"
  using assms by (rule observe_batch_keeps_expected)

definition sample_conflict :: "catalog_observation list" where
  "sample_conflict = [sample_observation ''x'' ''p'' 9 (Checksum 7 43) None None]"

theorem observe_batch_expected_immutable_witness:
  "expected_of ''obj_'' sample_observed = Some 1
   \<and> expected_of ''obj_'' (committed (observe_batch sample_codec (\<lambda>_. ''7'') sample_conflict
       sample_observed)) = Some 1"
proof
  show one: "expected_of ''obj_'' sample_observed = Some 1" by code_simp
  show "expected_of ''obj_'' (committed (observe_batch sample_codec (\<lambda>_. ''7'') sample_conflict
       sample_observed)) = Some 1"
  proof (rule observe_batch_expected_immutable [OF committed_eq _ _ _ one])
    show "commits (observe_batch sample_codec (\<lambda>_. ''7'') sample_conflict sample_observed)
      [\<lparr>out_object_id = ''obj_'', out_result = ''mismatch'', out_established_identity = False,
        out_accepted_change = False\<rparr>]" by code_simp
    show "schema_ok sample_observed"
      using observe_batch_keeps_evidence
        [OF sample_batch_runs sample_catalog_ok sample_evidence sample_batch_fresh] by blast
    have "new_object_id ''7'' \<notin> set (object_ids sample_observed)" by code_simp
    then show "fresh_ulids (\<lambda>_. ''7'') {0..<length sample_conflict} sample_observed"
      by (simp add: fresh_ulids_def sample_conflict_def)
    show "\<forall>ob\<in>set sample_conflict. \<not> obs_accept_change ob" by code_simp
  qed
qed

text \<open>
  C26. A batch whose observations carry operation keys can be sent again after it committed:
  the second run returns the same outcomes and leaves the catalog, its revision included,
  exactly as it was.
\<close>

theorem observe_batch_replay:
  assumes "observe_batch codec new_ulid obs c = Inr (c', outs)"
    and "schema_ok c" and "fresh_ulids new_ulid {0..<length obs} c"
    and "\<forall>out. outcome_from_str codec (outcome_to_string codec out) = Some out"
    and "\<forall>ob\<in>set obs. obs_operation_key ob \<noteq> None"
  shows "observe_batch codec new_ulid' obs c' = Inr (c', outs)"
proof -
  from assms(1) obtain c1 ch where
    loop: "efold (observe_step codec new_ulid) (enumerate 0 obs) (c, [], False) = Inr (c1, outs, ch)"
    and fin: "(if ch then revision c1 else Inr c1) = Inr c'"
    by (auto simp: observe_batch_def ebind_eq_Inr)
  have "list_all2 (\<lambda>ob out. recorded codec ob out c1) obs outs"
    using observe_loop_recorded [OF loop assms(2)] assms(3-5) by auto
  moreover have "extends c1 c'"
    using fin extends_bookkeeping(3) by (auto simp: revision_def exec_sql_eq_Inr split: if_splits)
  ultimately have "list_all2 (\<lambda>ob out. recorded codec ob out c') obs outs"
    by (auto elim: list_all2_mono intro: recorded_extends)
  moreover have "schema_ok c'"
    using observe_batch_invariant [OF assms(1-3), where P = "\<lambda>_. True"] by simp
  ultimately show ?thesis
    by (simp add: observe_batch_def observe_loop_replay)
qed

theorem observe_batch_replay_witness:
  "observe_batch sample_codec (\<lambda>_. ''7'') sample_batch sample_observed
     = Inr (sample_observed, sample_outcomes)"
proof (rule observe_batch_replay [OF sample_batch_runs sample_catalog_ok sample_batch_fresh])
  show "\<forall>out. outcome_from_str sample_codec (outcome_to_string sample_codec out) = Some out"
    by (simp add: sample_codec_def sample_outcome_roundtrip)
  show "\<forall>ob\<in>set sample_batch. obs_operation_key ob \<noteq> None" by code_simp
qed

end
