(* ===== verification/Append_Only.thy ===== *)
theory Append_Only
  imports Ledger_Prelude "HOL-Library.Sublist"
begin

text \<open>
  The interface of a store with a growing record: transactions keep the state well formed and
  extend the record at its end. The catalog's writers (with the history table as the record)
  and the canonical event store (with the lines of the stream) provide it; their clients rely
  on positions in the record never changing.
\<close>

locale transactions =
  fixes transaction :: "'s \<Rightarrow> 's \<Rightarrow> bool"
    and valid :: "'s \<Rightarrow> bool"
    and entries :: "'s \<Rightarrow> 'h list"
  assumes keeps_valid: "transaction s s' \<Longrightarrow> valid s \<Longrightarrow> valid s'"
    and extends_entries: "transaction s s' \<Longrightarrow> valid s \<Longrightarrow> prefix (entries s) (entries s')"
begin

lemma run_extends:
  assumes "transaction\<^sup>*\<^sup>* s s'" and "valid s"
  shows "valid s' \<and> prefix (entries s) (entries s')"
  using assms
proof (induction rule: rtranclp_induct)
  case (step t t')
  then show ?case using keeps_valid extends_entries by (meson prefix_order.trans)
qed simp

lemma run_valid: "transaction\<^sup>*\<^sup>* s s' \<Longrightarrow> valid s \<Longrightarrow> valid s'"
  using run_extends by blast

text \<open>An entry that has been recorded stays at its position.\<close>

lemma recorded_entry_stays:
  assumes "transaction\<^sup>*\<^sup>* s s'" "valid s" "i < length (entries s)"
  shows "i < length (entries s') \<and> entries s' ! i = entries s ! i"
proof -
  have "prefix (entries s) (entries s')" using run_extends [OF assms(1,2)] by blast
  then show ?thesis using assms(3) by (auto simp: prefix_def nth_append)
qed

text \<open>The length of the record tells the states of one run apart.\<close>

lemma same_length_same_entries:
  assumes "transaction\<^sup>*\<^sup>* s s'" "valid s" "length (entries s) = length (entries s')"
  shows "entries s = entries s'"
  using run_extends [OF assms(1,2)] assms(3) by (auto simp: prefix_def)

end

text \<open>Two components that write to the same store.\<close>

locale two_writers =
  first: transactions transaction1 valid entries + second: transactions transaction2 valid entries
  for transaction1 :: "'s \<Rightarrow> 's \<Rightarrow> bool" and transaction2 :: "'s \<Rightarrow> 's \<Rightarrow> bool"
    and valid :: "'s \<Rightarrow> bool" and entries :: "'s \<Rightarrow> 'h list"
begin

definition either :: "'s \<Rightarrow> 's \<Rightarrow> bool" where
  "either s s' \<longleftrightarrow> transaction1 s s' \<or> transaction2 s s'"

end

sublocale two_writers \<subseteq> both: transactions either valid entries
  by unfold_locales
    (auto simp: either_def dest: first.keeps_valid second.keeps_valid first.extends_entries second.extends_entries)

end
