(* ===== verification/Catalog_Jobs.thy ===== *)
theory Catalog_Jobs
  imports Catalog_Batches Append_Only
begin

text \<open>
  The life of a scan job (\<open>src/src/sqlite_writes.rs\<close>): which statements keep the constraints
  of the schema, what a completed scan does to the files of its scope, and the step relation
  of all operations of that file with its invariants. A job that has ended never changes
  again, the inputs of a job never change, and the history only grows.
\<close>

section \<open>Constraints under the statements of a job\<close>

lemmas schema_defs = schema_ok_def topology_schema_ok_def storage_schema_ok_def
  content_schema_ok_def job_schema_ok_def device_fingerprint_keys_def root_path_keys_def
  root_fingerprint_keys_def

lemma schema_ok_history:
  "schema_ok c \<Longrightarrow> list_all (history_row_ok (object_ids c) (location_ids c)) hs \<Longrightarrow>
     schema_ok (c\<lparr>ca_history := ca_history c @ hs\<rparr>)"
  by (simp add: schema_defs)

lemma schema_ok_files:
  "schema_ok c \<Longrightarrow> distinct (map file_key fs) \<Longrightarrow>
     list_all (file_row_ok (object_ids c) (location_ids c)) fs \<Longrightarrow> schema_ok (c\<lparr>ca_files := fs\<rparr>)"
  by (simp add: schema_defs)

lemma schema_ok_jobs:
  "schema_ok c \<Longrightarrow> distinct (map jo_job_id js) \<Longrightarrow> set (job_ids c) \<subseteq> set (map jo_job_id js) \<Longrightarrow>
     list_all (\<lambda>j. job_status_ok (jo_status j)) js \<Longrightarrow> schema_ok (c\<lparr>ca_jobs := js\<rparr>)"
  by (simp add: schema_defs list_all_iff split_beta subset_iff)

lemma schema_ok_seen:
  "schema_ok c \<Longrightarrow> distinct seen \<Longrightarrow>
     list_all (\<lambda>(j, i). j \<in> set (job_ids c) \<and> i \<in> set (object_ids c)) seen \<Longrightarrow>
     schema_ok (c\<lparr>ca_scan_seen := seen\<rparr>)"
  by (simp add: schema_defs)

lemma schema_ok_items:
  "schema_ok c \<Longrightarrow> distinct items \<Longrightarrow>
     list_all (\<lambda>(j, i). j \<in> set (job_ids c) \<and> i \<in> set (object_ids c)) items \<Longrightarrow>
     schema_ok (c\<lparr>ca_job_items := items\<rparr>)"
  by (simp add: schema_defs)

lemma schema_ok_bump: "schema_ok c \<Longrightarrow> ca_revision c < i64_max \<Longrightarrow> schema_ok (bump_revision c)"
  by (simp add: schema_defs bump_revision_def)

lemma schema_ok_rows:
  assumes "schema_ok c"
  shows "list_all (file_row_ok (object_ids c) (location_ids c)) (ca_files c)"
    and "list_all (\<lambda>j. job_status_ok (jo_status j)) (ca_jobs c)"
    and "list_all (\<lambda>(j, i). j \<in> set (job_ids c) \<and> i \<in> set (object_ids c)) (ca_scan_seen c)"
    and "list_all (\<lambda>(j, i). j \<in> set (job_ids c) \<and> i \<in> set (object_ids c)) (ca_job_items c)"
    and "distinct (ca_scan_seen c)" and "distinct (ca_job_items c)"
  using assms by (simp_all add: schema_ok_def content_schema_ok_def job_schema_ok_def)

lemma schema_ok_job_history:
  "schema_ok c \<Longrightarrow> schema_ok (append_history_row (job_history t kind details) c)"
  unfolding append_history_row_def
  by (rule schema_ok_history) (simp_all add: history_row_ok_def job_history_def refers_def)

lemma schema_ok_update_job:
  assumes "schema_ok c" and "\<And>j. jo_job_id (f j) = jo_job_id j" and "\<And>j. job_status_ok (jo_status (f j))
    \<or> jo_status (f j) = jo_status j"
  shows "schema_ok (update_job job_id f c)"
  unfolding update_job_def
  by (rule schema_ok_jobs [OF assms(1)])
    (use assms schema_ok_distinct_objects(4) schema_ok_rows(2) in
      \<open>auto simp: map_update_where intro!: list_all_update_where, metis\<close>)

lemma schema_ok_delete_seen: "schema_ok c \<Longrightarrow> schema_ok (delete_seen job_id c)"
  unfolding delete_seen_def
  by (rule schema_ok_seen) (use schema_ok_rows [of c] in \<open>auto simp: list_all_iff\<close>)

lemma schema_ok_delete_items: "schema_ok c \<Longrightarrow> schema_ok (delete_items job_id c)"
  unfolding delete_items_def
  by (rule schema_ok_items) (use schema_ok_rows [of c] in \<open>auto simp: list_all_iff\<close>)

lemma schema_ok_scan_missing:
  assumes "schema_ok c"
  shows "schema_ok (append_scan_missing codec job_id collection_id location_id t c)"
  unfolding append_scan_missing_def
  by (rule schema_ok_history)
    (use assms schema_ok_rows(1) [OF assms] in
      \<open>auto simp: list_all_iff history_row_ok_def refers_def file_row_ok_def\<close>)

lemma file_row_ok_to_missing: "file_row_ok oids lids f \<Longrightarrow> file_row_ok oids lids (to_missing t f)"
  by (simp add: file_row_ok_def to_missing_def)

lemma schema_ok_mark_missing:
  assumes "schema_ok c"
  shows "schema_ok (mark_unseen_missing job_id collection_id location_id t c)"
  unfolding mark_unseen_missing_def
proof (rule schema_ok_files [OF assms])
  show "distinct (map file_key (update_where (unseen job_id collection_id location_id c)
      (to_missing t) (ca_files c)))"
    using schema_ok_distinct_objects(3) [OF assms] by (simp add: map_update_where)
  show "list_all (file_row_ok (object_ids c) (location_ids c))
      (update_where (unseen job_id collection_id location_id c) (to_missing t) (ca_files c))"
    using schema_ok_rows(1) [OF assms] by (rule list_all_update_where) (rule file_row_ok_to_missing)
qed

section \<open>Ending a job\<close>

definition ended_job :: "bytes \<Rightarrow> int \<Rightarrow> bytes \<Rightarrow> job_row \<Rightarrow> job_row" where
  "ended_job status t summary j =
     j\<lparr>jo_status := status, jo_finished_time_utc_ms := Some t, jo_progress_json := summary\<rparr>"

definition ended ::
  "catalog_codec \<Rightarrow> bytes \<Rightarrow> bytes \<Rightarrow> int \<Rightarrow> json \<Rightarrow> catalog \<Rightarrow> catalog" where
  "ended codec job_id status t summary c =
     delete_items job_id (delete_seen job_id (append_history_row
       (job_history t ''job_finished'' (value_to_string codec
         (JObj [(''job_id'', JStr job_id), (''status'', JStr status), (''summary'', summary)])))
       (update_job job_id (ended_job status t (value_to_string codec summary)) c)))"

lemma ended_tables [simp]:
  "ca_files (ended codec job_id status t summary c) = ca_files c"
  "ca_objects (ended codec job_id status t summary c) = ca_objects c"
  "ca_revision (ended codec job_id status t summary c) = ca_revision c"
  "ca_jobs (ended codec job_id status t summary c) =
     update_where (\<lambda>j. jo_job_id j = job_id) (ended_job status t (value_to_string codec summary)) (ca_jobs c)"
  by (simp_all add: ended_def delete_items_def delete_seen_def append_history_row_def update_job_def)

lemma prefix_history_ended:
  "prefix (ca_history c) (ca_history (bump_revision (ended codec job_id status t summary c)))"
  by (simp add: ended_def delete_items_def delete_seen_def append_history_row_def update_job_def
      bump_revision_def)

lemma finish_job_eq_Inr:
  "finish_job codec job_id status time summary c = Inr c' \<Longrightarrow>
     \<exists>t. sql_time time = Inr t \<and> c' = ended codec job_id status t summary c \<and> schema_ok c'"
  by (auto simp: finish_job_def ended_def ended_job_def [abs_def] ebind_eq_Inr exec_sql_eq_Inr)

lemma schema_ok_ended:
  "schema_ok c \<Longrightarrow> job_status_ok status \<Longrightarrow> schema_ok (ended codec job_id status t summary c)"
  unfolding ended_def
  by (intro schema_ok_delete_items schema_ok_delete_seen schema_ok_job_history schema_ok_update_job)
    (simp_all add: ended_job_def)

lemma finish_job_succeeds:
  assumes "schema_ok c" "job_status_ok status" "sql_time time = Inr t"
  shows "finish_job codec job_id status time summary c = Inr (ended codec job_id status t summary c)"
proof -
  have "schema_ok (update_job job_id (ended_job status t (value_to_string codec summary)) c)"
    using assms by (intro schema_ok_update_job) (simp_all add: ended_job_def)
  then show ?thesis
    using assms(3)
    by (simp add: finish_job_def ended_def schema_ok_delete_items schema_ok_delete_seen
        schema_ok_job_history ended_job_def [abs_def])
qed

lemma job_status_ok_words [simp]:
  "job_status_ok COMPLETE" "job_status_ok PARTIAL" "job_status_ok CANCELLED" "job_status_ok RUNNING"
  by (simp_all add: job_status_ok_def)

lemma unseen_append_scan_missing [simp]:
  "unseen job_id collection_id location_id (append_scan_missing codec j k l t c)
     = unseen job_id collection_id location_id c"
  by (simp add: unseen_def [abs_def] in_scope_def append_scan_missing_def)

definition newer_check :: "bytes \<Rightarrow> bytes \<Rightarrow> int \<Rightarrow> catalog \<Rightarrow> bool" where
  "newer_check collection_id location_id t c \<longleftrightarrow>
     (\<exists>f\<in>set (ca_files c). in_scope collection_id location_id c f
        \<and> (\<exists>u. fi_last_check_time_utc_ms f = Some u \<and> t < u))"

definition scanned ::
  "catalog_codec \<Rightarrow> bytes \<Rightarrow> bytes \<Rightarrow> bytes \<Rightarrow> int \<Rightarrow> catalog \<Rightarrow> catalog" where
  "scanned codec job_id collection_id location_id t c =
     mark_unseen_missing job_id collection_id location_id t
       (append_scan_missing codec job_id collection_id location_id t c)"

lemma finish_scan_complete_eq:
  assumes "schema_ok c" and "require_running_job job_id c = Inr ()"
    and "require_job_scope codec job_id collection_id location_id
           ''scan finalization scope differs from job inputs'' c = Inr ()"
    and "sql_time time = Inr t" and "\<not> newer_check collection_id location_id t c"
    and "ca_revision c < i64_max"
  shows "finish_catalog_scan codec job_id collection_id location_id True time summary c =
    Inr (bump_revision (ended codec job_id COMPLETE t summary
           (scanned codec job_id collection_id location_id t c)),
         length (filter (unseen job_id collection_id location_id c) (ca_files c)))"
proof -
  have ok: "schema_ok (append_scan_missing codec job_id collection_id location_id t c)"
    "schema_ok (scanned codec job_id collection_id location_id t c)"
    using assms(1) by (simp_all add: scanned_def schema_ok_scan_missing schema_ok_mark_missing)
  have "ca_revision (scanned codec job_id collection_id location_id t c) = ca_revision c"
    by (simp add: scanned_def mark_unseen_missing_def append_scan_missing_def)
  then have "schema_ok (bump_revision (ended codec job_id COMPLETE t summary
           (scanned codec job_id collection_id location_id t c)))"
    using ok assms(6) by (intro schema_ok_bump schema_ok_ended) simp_all
  then have rev: "revision (ended codec job_id COMPLETE t summary
           (scanned codec job_id collection_id location_id t c)) = Inr (bump_revision
      (ended codec job_id COMPLETE t summary (scanned codec job_id collection_id location_id t c)))"
    by (simp add: revision_def)
  have no_newer: "(\<not> list_ex (\<lambda>f. in_scope collection_id location_id c f
      \<and> (case fi_last_check_time_utc_ms f of None \<Rightarrow> False | Some u \<Rightarrow> t < u)) (ca_files c)) = True"
    using assms(5) by (auto simp: newer_check_def list_ex_iff split: option.splits)
  have files: "ca_files (append_scan_missing codec job_id collection_id location_id t c) = ca_files c"
    by (simp add: append_scan_missing_def)
  have run: "exec_sql WriteSqlite (append_scan_missing codec job_id collection_id location_id t) c
      = Inr (append_scan_missing codec job_id collection_id location_id t c)"
    "exec_sql WriteSqlite (mark_unseen_missing job_id collection_id location_id t)
      (append_scan_missing codec job_id collection_id location_id t c)
      = Inr (scanned codec job_id collection_id location_id t c)"
    using ok by (simp_all add: scanned_def)
  show ?thesis
    by (simp only: finish_catalog_scan_def assms(2-4) ebind_simps ebind_ensure if_True no_newer run
        prod.case finish_job_succeeds [OF ok(2) job_status_ok_words(1) assms(4)] rev files
        unseen_append_scan_missing)
qed

section \<open>What each job operation did\<close>

lemma require_running_job_Inr:
  assumes "require_running_job job_id c = Inr u" "schema_ok c"
  obtains j where "lookup_by jo_job_id job_id (ca_jobs c) = Some j" "jo_status j = RUNNING"
proof -
  from assms(1) obtain j where "j \<in> set (ca_jobs c)" "jo_job_id j = job_id" "jo_status j = RUNNING"
    by (auto simp: require_running_job_def list_ex_iff ensure_eq_Inr)
  then show thesis
    using that lookup_by_eq_Some [OF schema_ok_distinct_objects(4) [OF assms(2)]] by blast
qed

lemma begin_catalog_job_eq_Inr:
  assumes "begin_catalog_job codec job_id kind parameters time c = Inr (c', status)"
  obtains (existing) "c' = c"
  | (started) j h where "lookup_by jo_job_id job_id (ca_jobs c) = None" "jo_job_id j = job_id"
      "jo_status j = RUNNING" "c' = bump_revision (append_history_row h (insert_job j c))" "schema_ok c'"
proof (cases "lookup_by jo_job_id job_id (ca_jobs c)")
  case None
  with assms obtain t where "schema_ok c'" and c': "c' = bump_revision (append_history_row
      (job_history t ''job_started'' (value_to_string codec
        (JObj [(''job_id'', JStr job_id), (''kind'', JStr kind), (''params'', parameters)])))
      (insert_job \<lparr>jo_job_id = job_id, jo_kind = kind,
         jo_params_json = value_to_string codec parameters, jo_status = RUNNING,
         jo_started_time_utc_ms = t, jo_finished_time_utc_ms = None,
         jo_progress_json = ''{}''\<rparr> c))"
    by (auto simp: begin_catalog_job_def revision_def ebind_eq_Inr exec_sql_eq_Inr)
  then show thesis by (intro started [OF None _ _ c']) simp_all
next
  case (Some old)
  with assms existing show thesis
    by (simp add: begin_catalog_job_def split: if_splits)
qed

lemma reset_scan_coverage_eq_Inr:
  "reset_scan_coverage job_id c = Inr c' \<Longrightarrow> c' = delete_seen job_id c \<and> schema_ok c'"
  by (auto simp: reset_scan_coverage_def ebind_eq_Inr exec_sql_eq_Inr)

lemma checkpoint_catalog_job_eq_Inr:
  "checkpoint_catalog_job codec job_id progress c = Inr c' \<Longrightarrow>
     require_running_job job_id c = Inr () \<and> schema_ok c'
     \<and> c' = update_job job_id (\<lambda>j. j\<lparr>jo_progress_json := value_to_string codec progress\<rparr>) c"
  by (auto simp: checkpoint_catalog_job_def ebind_eq_Inr exec_sql_eq_Inr)

lemma finish_catalog_scan_eq_Inr:
  assumes "finish_catalog_scan codec job_id collection_id location_id complete_coverage time summary c
    = Inr (c', missing)"
  obtains t where "require_running_job job_id c = Inr ()" "sql_time time = Inr t" "schema_ok c'"
    "c' = bump_revision (ended codec job_id (if complete_coverage then COMPLETE else PARTIAL) t summary
       (if complete_coverage then scanned codec job_id collection_id location_id t c else c))"
    "missing = (if complete_coverage
       then length (filter (unseen job_id collection_id location_id c) (ca_files c)) else 0)"
proof -
  have files: "ca_files (append_scan_missing codec job_id collection_id location_id t c) = ca_files c"
    for t by (simp add: append_scan_missing_def)
  show thesis
  proof (cases complete_coverage)
    case True
    with assms obtain t c3 where "require_running_job job_id c = Inr ()" "sql_time time = Inr t"
      "finish_job codec job_id COMPLETE time summary
         (scanned codec job_id collection_id location_id t c) = Inr c3"
      "revision c3 = Inr c'"
      "missing = length (filter (unseen job_id collection_id location_id c) (ca_files c))"
      by (auto simp: finish_catalog_scan_def scanned_def ebind_eq_Inr exec_sql_eq_Inr files
          split: if_splits)
    with True that show thesis
      by (auto simp: revision_def exec_sql_eq_Inr dest!: finish_job_eq_Inr)
  next
    case False
    with assms obtain c3 where "require_running_job job_id c = Inr ()"
      "finish_job codec job_id PARTIAL time summary c = Inr c3"
      "revision c3 = Inr c'" "missing = 0"
      by (auto simp: finish_catalog_scan_def ebind_eq_Inr)
    with False that show thesis
      by (auto simp: revision_def exec_sql_eq_Inr dest!: finish_job_eq_Inr)
  qed
qed

lemma finish_catalog_job_eq_Inr:
  assumes "finish_catalog_job codec job_id status time summary c = Inr c'"
  obtains (same) "c' = c"
  | (finished) t where "require_running_job job_id c = Inr ()" "schema_ok c'"
      "c' = bump_revision (ended codec job_id status t summary c)"
proof (cases "map_option jo_status (lookup_by jo_job_id job_id (ca_jobs c)) = Some status")
  case True
  with assms have "c' = c" by (simp add: finish_catalog_job_def split: if_splits)
  then show thesis by (rule same)
next
  case False
  with assms obtain c1 where "require_running_job job_id c = Inr ()"
    "finish_job codec job_id status time summary c = Inr c1" "revision c1 = Inr c'"
    by (simp add: finish_catalog_job_def ebind_eq_Inr split: if_splits) blast
  then show thesis
    using finished by (auto simp: revision_def exec_sql_eq_Inr dest!: finish_job_eq_Inr)
qed

section \<open>Steps of the catalog writer\<close>

inductive writes_step :: "catalog_codec \<Rightarrow> catalog \<Rightarrow> catalog \<Rightarrow> bool" for codec where
  observe_batch_step: "observe_batch codec new_ulid obs c = Inr (c', outs) \<Longrightarrow>
    fresh_ulids new_ulid {0..<length obs} c \<Longrightarrow> writes_step codec c c'"
| begin_step: "begin_catalog_job codec job_id kind parameters time c = Inr (c', status) \<Longrightarrow>
    writes_step codec c c'"
| reset_step: "reset_scan_coverage job_id c = Inr c' \<Longrightarrow> writes_step codec c c'"
| checkpoint_step: "checkpoint_catalog_job codec job_id progress c = Inr c' \<Longrightarrow>
    writes_step codec c c'"
| finish_scan_step: "finish_catalog_scan codec job_id collection_id location_id complete_coverage
    time summary c = Inr (c', missing) \<Longrightarrow> writes_step codec c c'"
| finish_job_step: "finish_catalog_job codec job_id status time summary c = Inr c' \<Longrightarrow>
    writes_step codec c c'"

text \<open>Evidence depends on the tables of objects and files only.\<close>

lemma evidence_ok_cong:
  "ca_objects c' = ca_objects c \<Longrightarrow> ca_files c' = ca_files c \<Longrightarrow> evidence_ok c' = evidence_ok c"
  by (simp add: evidence_ok_def expected_of_def)

lemma trusted_copy_to_missing: "trusted_copy expected (to_missing t f)"
  by (simp add: trusted_copy_def to_missing_def)

lemma evidence_ok_scanned:
  assumes "evidence_ok c"
  shows "evidence_ok (scanned codec job_id collection_id location_id t c)"
proof -
  have "expected_of i (scanned codec job_id collection_id location_id t c) = expected_of i c" for i
    by (simp add: expected_of_def scanned_def mark_unseen_missing_def append_scan_missing_def)
  then show ?thesis
    using assms
    by (simp add: evidence_ok_def scanned_def mark_unseen_missing_def append_scan_missing_def
        list_all_update_where trusted_copy_to_missing)
qed

lemma writes_step_invariant:
  assumes "writes_step codec c c'" "schema_ok c" "evidence_ok c"
  shows "schema_ok c' \<and> evidence_ok c'"
  using assms
proof (cases rule: writes_step.cases)
  case (observe_batch_step new_ulid obs outs)
  then show ?thesis using assms(2,3) observe_batch_keeps_evidence by blast
next
  case (begin_step job_id kind parameters time status)
  then show ?thesis
  proof (cases rule: begin_catalog_job_eq_Inr)
    case (started j h)
    then have "evidence_ok c' = evidence_ok c"
      by (intro evidence_ok_cong) (simp_all add: bump_revision_def append_history_row_def insert_job_def)
    with started assms show ?thesis by simp
  qed (use assms in simp)
next
  case (reset_step job_id)
  then have "schema_ok c'" "c' = delete_seen job_id c" by (auto dest: reset_scan_coverage_eq_Inr)
  moreover have "evidence_ok (delete_seen job_id c) = evidence_ok c"
    by (rule evidence_ok_cong) (simp_all add: delete_seen_def)
  ultimately show ?thesis using assms by simp
next
  case (checkpoint_step job_id progress)
  then have "schema_ok c'" "ca_objects c' = ca_objects c" "ca_files c' = ca_files c"
    by (auto dest!: checkpoint_catalog_job_eq_Inr simp: update_job_def)
  then show ?thesis using assms evidence_ok_cong by blast
next
  case (finish_scan_step job_id collection_id location_id complete_coverage time summary missing)
  then obtain t where c': "schema_ok c'" "c' = bump_revision (ended codec job_id
      (if complete_coverage then COMPLETE else PARTIAL) t summary
      (if complete_coverage then scanned codec job_id collection_id location_id t c else c))"
    by (auto elim: finish_catalog_scan_eq_Inr)
  have "evidence_ok (if complete_coverage then scanned codec job_id collection_id location_id t c else c)"
    using assms(3) evidence_ok_scanned by simp
  then have "evidence_ok (ended codec job_id (if complete_coverage then COMPLETE else PARTIAL) t summary
      (if complete_coverage then scanned codec job_id collection_id location_id t c else c))"
    by (rule evidence_ok_cong [THEN iffD2, rotated 2]) simp_all
  with c' show ?thesis by simp
next
  case (finish_job_step job_id status time summary)
  then show ?thesis
  proof (cases rule: finish_catalog_job_eq_Inr)
    case (finished t)
    have "evidence_ok (ended codec job_id status t summary c)"
      using assms(3) by (rule evidence_ok_cong [THEN iffD2, rotated 2]) simp_all
    with finished show ?thesis by simp
  qed (use assms in simp)
qed

section \<open>How jobs evolve\<close>

text \<open>
  A job keeps its kind, parameters and start; once it has ended its whole row is final.
\<close>

definition same_inputs :: "job_row \<Rightarrow> job_row \<Rightarrow> bool" where
  "same_inputs j j' \<longleftrightarrow> jo_kind j' = jo_kind j \<and> jo_params_json j' = jo_params_json j
     \<and> jo_started_time_utc_ms j' = jo_started_time_utc_ms j"

definition jobs_evolve :: "catalog \<Rightarrow> catalog \<Rightarrow> bool" where
  "jobs_evolve c c' \<longleftrightarrow>
     (\<forall>i j. lookup_by jo_job_id i (ca_jobs c) = Some j \<longrightarrow>
        (\<exists>j'. lookup_by jo_job_id i (ca_jobs c') = Some j' \<and> same_inputs j j'
              \<and> (jo_status j \<noteq> RUNNING \<longrightarrow> j' = j)))"

lemma jobs_evolve_same: "ca_jobs c' = ca_jobs c \<Longrightarrow> jobs_evolve c c'"
  by (simp add: jobs_evolve_def same_inputs_def)

lemma jobs_evolve_trans: "jobs_evolve a b \<Longrightarrow> jobs_evolve b c \<Longrightarrow> jobs_evolve a c"
  unfolding jobs_evolve_def same_inputs_def by metis

lemma jobs_evolve_update:
  assumes "ca_jobs c' = update_where (\<lambda>j. jo_job_id j = job_id) f (ca_jobs c)"
    and "require_running_job job_id c = Inr ()" and "schema_ok c"
    and f: "\<And>j. jo_job_id (f j) = jo_job_id j" "\<And>j. same_inputs j (f j)"
  shows "jobs_evolve c c'"
  unfolding jobs_evolve_def
proof (intro allI impI)
  fix i j assume j: "lookup_by jo_job_id i (ca_jobs c) = Some j"
  then have "lookup_by jo_job_id i (ca_jobs c') = Some (if jo_job_id j = job_id then f j else j)"
    using f(1) by (simp add: assms(1) lookup_by_update_where)
  moreover have "jo_status j = RUNNING" if "jo_job_id j = job_id"
    using require_running_job_Inr [OF assms(2,3)] j that by (metis lookup_by_SomeD option.inject)
  ultimately show "\<exists>j'. lookup_by jo_job_id i (ca_jobs c') = Some j' \<and> same_inputs j j'
      \<and> (jo_status j \<noteq> RUNNING \<longrightarrow> j' = j)"
    using f(2) by (auto simp: same_inputs_def)
qed

lemma extends_observe_batch:
  assumes "observe_batch codec new_ulid obs c = Inr (c', outs)" "schema_ok c"
    "fresh_ulids new_ulid {0..<length obs} c"
  shows "extends c c'"
proof -
  have "schema_ok c' \<and> extends c c'"
    by (rule observe_batch_invariant [OF assms, where P = "extends c"])
      (blast intro: extends_refl extends_trans extends_observe extends_bookkeeping)+
  then show ?thesis ..
qed

lemma running_job_scanned [simp]: "ca_jobs (scanned codec job_id k l t c) = ca_jobs c"
  by (simp add: scanned_def mark_unseen_missing_def append_scan_missing_def)

lemma ended_job_keeps: "jo_job_id (ended_job status t x j) = jo_job_id j" "same_inputs j (ended_job status t x j)"
  by (simp_all add: ended_job_def same_inputs_def)

lemma writes_step_evolves:
  assumes "writes_step codec c c'" "schema_ok c"
  shows "jobs_evolve c c' \<and> prefix (ca_history c) (ca_history c')"
  using assms(1)
proof (cases rule: writes_step.cases)
  case (observe_batch_step new_ulid obs outs)
  then have "extends c c'" using assms(2) extends_observe_batch by blast
  then show ?thesis by (simp add: extends_def jobs_evolve_same)
next
  case (begin_step job_id kind parameters time status)
  then show ?thesis
  proof (cases rule: begin_catalog_job_eq_Inr)
    case (started j h)
    then show ?thesis
      by (auto simp: bump_revision_def append_history_row_def insert_job_def jobs_evolve_def
          lookup_by_append same_inputs_def)
  qed (simp add: jobs_evolve_same)
next
  case (reset_step job_id)
  then show ?thesis
    by (auto dest!: reset_scan_coverage_eq_Inr simp: delete_seen_def jobs_evolve_same)
next
  case (checkpoint_step job_id progress)
  then have c': "require_running_job job_id c = Inr ()"
    "c' = update_job job_id (\<lambda>j. j\<lparr>jo_progress_json := value_to_string codec progress\<rparr>) c"
    by (auto dest: checkpoint_catalog_job_eq_Inr)
  have "jobs_evolve c c'"
    by (rule jobs_evolve_update [OF _ c'(1) assms(2),
          of _ "\<lambda>j. j\<lparr>jo_progress_json := value_to_string codec progress\<rparr>"])
      (simp_all add: c'(2) update_job_def same_inputs_def)
  then show ?thesis by (simp add: c'(2) update_job_def)
next
  case (finish_scan_step job_id collection_id location_id complete_coverage time summary missing)
  then obtain t where run: "require_running_job job_id c = Inr ()" and c': "c' = bump_revision
      (ended codec job_id (if complete_coverage then COMPLETE else PARTIAL) t summary
      (if complete_coverage then scanned codec job_id collection_id location_id t c else c))"
    by (auto elim: finish_catalog_scan_eq_Inr)
  have "jobs_evolve c c'"
    by (rule jobs_evolve_update [OF _ run assms(2), of _
          "ended_job (if complete_coverage then COMPLETE else PARTIAL) t (value_to_string codec summary)"])
      (simp_all add: c' bump_revision_def ended_job_keeps)
  have "prefix (ca_history c)
      (ca_history (if complete_coverage then scanned codec job_id collection_id location_id t c else c))"
    by (simp add: scanned_def mark_unseen_missing_def append_scan_missing_def)
  then have "prefix (ca_history c) (ca_history c')"
    unfolding c' by (rule prefix_order.trans [OF _ prefix_history_ended])
  with \<open>jobs_evolve c c'\<close> show ?thesis ..
next
  case (finish_job_step job_id status time summary)
  then show ?thesis
  proof (cases rule: finish_catalog_job_eq_Inr)
    case (finished t)
    have "jobs_evolve c c'"
      by (rule jobs_evolve_update [OF _ finished(1) assms(2), of _
            "ended_job status t (value_to_string codec summary)"])
        (simp_all add: finished(3) bump_revision_def ended_job_keeps)
    moreover have "prefix (ca_history c) (ca_history c')"
      unfolding finished(3) by (rule prefix_history_ended)
    ultimately show ?thesis ..
  qed (simp add: jobs_evolve_same)
qed

section \<open>Properties of scan jobs\<close>


text \<open>The writer provides the interface of a store with a growing record.\<close>

definition catalog_valid :: "catalog \<Rightarrow> bool" where
  "catalog_valid c \<longleftrightarrow> schema_ok c \<and> evidence_ok c"

interpretation writes: transactions "writes_step codec" catalog_valid ca_history
  for codec
  by unfold_locales (auto simp: catalog_valid_def dest: writes_step_invariant writes_step_evolves)

text \<open>
  C34. Over any sequence of operations of the catalog writer, a job keeps the kind, the
  parameters and the start it was created with, a job that has ended is never touched again,
  and the history only grows at its end.
\<close>

theorem jobs_and_history_are_permanent:
  assumes "(writes_step codec)\<^sup>*\<^sup>* c c'" and "schema_ok c" and "evidence_ok c"
  shows "jobs_evolve c c' \<and> prefix (ca_history c) (ca_history c')"
proof -
  have v: "catalog_valid c" using assms(2,3) by (simp add: catalog_valid_def)
  from assms(1) have "jobs_evolve c c'"
  proof (induction rule: rtranclp_induct)
    case (step d d')
    then have "schema_ok d" using writes.run_valid [OF _ v] by (auto simp: catalog_valid_def)
    with step show ?case using writes_step_evolves jobs_evolve_trans by blast
  qed (simp add: jobs_evolve_same)
  with writes.run_extends [OF assms(1) v] show ?thesis by blast
qed

text \<open>
  A scan of the sample catalog in progress: of the two files known at the scanned location
  the job has seen the first.
\<close>

definition sample_file :: "bytes \<Rightarrow> file_row" where
  "sample_file i =
     \<lparr>fi_object_id = i, fi_location_id = ''p'', fi_presence = Present, fi_integrity = Verified,
      fi_last_check_time_utc_ms = Some 4, fi_last_check_result = Some Ok,
      fi_observed_blake3 = Some 1, fi_last_success_time_utc_ms = Some 4\<rparr>"

definition sample_object :: "bytes \<Rightarrow> object_row" where
  "sample_object i =
     \<lparr>ob_object_id = i, ob_collection_id = ''c'', ob_path_encoding = ''utf8'', ob_path_bytes = i,
      ob_path_display = i, ob_expected_blake3 = Some 1, ob_expected_size_bytes = Some 42\<rparr>"

definition sample_scanning :: catalog where
  "sample_scanning = sample_catalog
     \<lparr>ca_objects := [sample_object ''x'', sample_object ''y''],
      ca_files := [sample_file ''x'', sample_file ''y'', (sample_file ''y'')\<lparr>fi_location_id := ''b''\<rparr>],
      ca_jobs := [\<lparr>jo_job_id = ''job'', jo_kind = ''scan'', jo_params_json = print_json sample_scope,
                   jo_status = RUNNING, jo_started_time_utc_ms = 3, jo_finished_time_utc_ms = None,
                   jo_progress_json = ''{}''\<rparr>],
      ca_scan_seen := [(''job'', ''x'')]\<rparr>"

lemma sample_scanning_ok: "schema_ok sample_scanning" "evidence_ok sample_scanning"
  by code_simp+


definition sample_scanned :: catalog where
  "sample_scanned =
     committed (finish_catalog_scan sample_codec ''job'' ''c'' ''p'' True 7 JNull sample_scanning)"

theorem jobs_and_history_are_permanent_witness:
  "jobs_evolve sample_scanning sample_scanned
   \<and> prefix (ca_history sample_scanning) (ca_history sample_scanned)"
proof (rule jobs_and_history_are_permanent [OF _ sample_scanning_ok])
  have "finish_catalog_scan sample_codec ''job'' ''c'' ''p'' True 7 JNull sample_scanning
      = Inr (sample_scanned, 1)"
    unfolding sample_scanned_def by (rule committed_eq) code_simp
  then show "(writes_step sample_codec)\<^sup>*\<^sup>* sample_scanning sample_scanned"
    by (intro r_into_rtranclp finish_scan_step)
qed

end
