(* ===== verification/Catalog_Registry.thy ===== *)
theory Catalog_Registry
  imports Registry_Validation Catalog_Jobs "HOL-Library.Product_Lexorder"
begin

text \<open>
  Registry mutations committed with their audit history and revision
  (\<open>src/src/sqlite_registry.rs\<close>), and the listing of the registry
  (\<open>load_registry_entities\<close> of \<open>src/src/registry.rs\<close>). A batch validates and applies its
  changes one after the other, appends one history row per change and advances the revision
  once. The theory shows that a batch touches nothing but the registry tables, that it never
  removes an entity or alters the identity of an archive root, that what was recorded is
  what the registry lists, and that the stays of a device follow its current site.
\<close>

section \<open>Errors and commits\<close>

datatype sqlite_registry_error =
    SRRegistry registry_error
  | SRSqlite
  | SRJson
  | SRInvalid bytes

fun sqlite_registry_error_code :: "sqlite_registry_error \<Rightarrow> bytes" where
  "sqlite_registry_error_code (SRRegistry e) = registry_error_code e"
| "sqlite_registry_error_code SRSqlite = ''registry_sqlite''"
| "sqlite_registry_error_code SRJson = ''registry_invalid''"
| "sqlite_registry_error_code (SRInvalid _) = ''registry_invalid''"

record registry_commit =
  rc_revision :: u64
  rc_history_id :: int

record registry_batch_commit =
  rb_revision :: u64
  rb_history_ids :: "int list"

section \<open>Helpers\<close>

definition registry_integer :: "u64 \<Rightarrow> sqlite_registry_error + int" where
  "registry_integer v = (if uint v \<le> i64_max then Inr (uint v)
                         else Inl (SRInvalid ''integer exceeds SQLite range''))"

definition revision_from_row :: "int \<Rightarrow> sqlite_registry_error + u64" where
  "revision_from_row v = (if 0 \<le> v then Inr (of_int v) else Inl SRSqlite)"

text \<open>The row identifier of a history row is its position from 1.\<close>

definition append_history ::
  "registry_codec \<Rightarrow> bytes \<Rightarrow> bytes option \<Rightarrow> int \<Rightarrow> json \<Rightarrow> catalog \<Rightarrow>
   sqlite_registry_error + catalog \<times> int" where
  "append_history codec kind location time details c =
     ebind (exec_sql SRSqlite (append_history_row
       \<lparr>hi_object_id = None, hi_location_id = location, hi_time_utc_ms = time, hi_kind = kind,
        hi_check_result = None, hi_expected_blake3 = None, hi_observed_blake3 = None,
        hi_details_json = Some (registry_value_to_string codec details)\<rparr>) c) (\<lambda>c1.
     Inr (c1, int (length (ca_history c1))))"

definition advance_revision :: "catalog \<Rightarrow> sqlite_registry_error + catalog \<times> u64" where
  "advance_revision c =
     ebind (exec_sql SRSqlite bump_revision c) (\<lambda>c1.
     ebind (revision_from_row (ca_revision c1)) (\<lambda>r.
     Inr (c1, r)))"

definition registry_finish ::
  "registry_codec \<Rightarrow> bytes \<Rightarrow> bytes option \<Rightarrow> int \<Rightarrow> json \<Rightarrow> catalog \<Rightarrow>
   sqlite_registry_error + catalog \<times> registry_commit" where
  "registry_finish codec kind location time details c =
     ebind (append_history codec kind location time details c) (\<lambda>(c1, history_id).
     ebind (advance_revision c1) (\<lambda>(c2, r).
     Inr (c2, \<lparr>rc_revision = r, rc_history_id = history_id\<rparr>)))"

fun change_kind :: "bytes \<Rightarrow> registry_action \<Rightarrow> sqlite_registry_error + bytes" where
  "change_kind entity Register = Inr (entity @ ''_registered'')"
| "change_kind entity Update = Inr (entity @ ''_updated'')"
| "change_kind entity Retire = Inr (entity @ ''_retired'')"
| "change_kind entity Move =
     (if entity = ''device'' then Inr (entity @ ''_moved'')
      else Inl (SRInvalid ''only Devices can move''))"

section \<open>Applying a change\<close>

definition upsert_site :: "site_snapshot \<Rightarrow> catalog \<Rightarrow> catalog" where
  "upsert_site v c = c\<lparr>ca_sites := upsert_by si_site_id (\<lambda>_. v) v (ca_sites c)\<rparr>"

definition policy_row_of :: "registry_codec \<Rightarrow> policy_snapshot \<Rightarrow> int \<Rightarrow> policy_row" where
  "policy_row_of codec v version =
     \<lparr>pr_policy_id = po_policy_id v, pr_display_name = po_display_name v,
      pr_policy_version = version,
      pr_requirements_json = requirements_to_string codec (po_requirements v),
      pr_enabled = po_enabled v, pr_status = po_status v\<rparr>"

definition upsert_policy :: "policy_row \<Rightarrow> catalog \<Rightarrow> catalog" where
  "upsert_policy r c = c\<lparr>ca_policies := upsert_by pr_policy_id (\<lambda>_. r) r (ca_policies c)\<rparr>"

definition upsert_collection :: "collection_snapshot \<Rightarrow> catalog \<Rightarrow> catalog" where
  "upsert_collection v c =
     c\<lparr>ca_collections := upsert_by co_collection_id (\<lambda>_. v) v (ca_collections c)\<rparr>"

text \<open>A device row keeps its check-in columns when its snapshot is replaced.\<close>

definition device_row_of :: "device_snapshot \<Rightarrow> device_row" where
  "device_row_of v = device_snapshot.extend v (device_row.fields None None None)"

definition upsert_device :: "device_snapshot \<Rightarrow> catalog \<Rightarrow> catalog" where
  "upsert_device v c =
     c\<lparr>ca_devices := upsert_by de_device_id
         (\<lambda>r. device_snapshot.extend v (device_snapshot.more r)) (device_row_of v) (ca_devices c)\<rparr>"

definition depart_device :: "bytes \<Rightarrow> int \<Rightarrow> catalog \<Rightarrow> catalog" where
  "depart_device device_id time c =
     c\<lparr>ca_device_site_history :=
         update_where (\<lambda>h. ds_device_id h = device_id \<and> ds_departed_time_utc_ms h = None)
           (\<lambda>h. h\<lparr>ds_departed_time_utc_ms := Some time\<rparr>) (ca_device_site_history c)\<rparr>"

definition arrive_device :: "bytes \<Rightarrow> bytes \<Rightarrow> int \<Rightarrow> catalog \<Rightarrow> catalog" where
  "arrive_device device_id site_id time c =
     c\<lparr>ca_device_site_history := ca_device_site_history c @
         [\<lparr>ds_device_id = device_id, ds_site_id = site_id, ds_arrived_time_utc_ms = time,
           ds_departed_time_utc_ms = None\<rparr>]\<rparr>"

definition apply_device ::
  "registry_action \<Rightarrow> device_snapshot \<Rightarrow> int \<Rightarrow> catalog \<Rightarrow> sqlite_registry_error + catalog" where
  "apply_device action v time c =
     ebind (exec_sql SRSqlite (upsert_device v) c) (\<lambda>c1.
     ebind (if action = Move then exec_sql SRSqlite (depart_device (de_device_id v) time) c1
            else Inr c1) (\<lambda>c2.
     case (action = Register \<or> action = Move, de_current_site_id v) of
       (True, Some site_id) \<Rightarrow> exec_sql SRSqlite (arrive_device (de_device_id v) site_id time) c2
     | _ \<Rightarrow> Inr c2))"

definition root_row_of :: "archive_root_snapshot \<Rightarrow> bytes \<Rightarrow> int \<Rightarrow> archive_root_row" where
  "root_row_of v path_bytes time =
     \<lparr>rt_archive_root_id = ar_archive_root_id v, rt_device_id = ar_device_id v,
      rt_display_name = ar_display_name v,
      rt_filesystem_fingerprint = ar_filesystem_fingerprint v,
      rt_fingerprint_kind = ar_fingerprint_kind v, rt_identity_state = ar_identity_state v,
      rt_root_path_bytes = path_bytes, rt_root_path_encoding = rp_encoding (ar_root_path_on_device v),
      rt_root_path_display = rp_display (ar_root_path_on_device v), rt_status = ar_status v,
      rt_last_seen_time_utc_ms = Some time\<rparr>"

definition upsert_root :: "archive_root_row \<Rightarrow> catalog \<Rightarrow> catalog" where
  "upsert_root new c =
     c\<lparr>ca_archive_roots := upsert_by rt_archive_root_id
         (\<lambda>r. r\<lparr>rt_display_name := rt_display_name new, rt_status := rt_status new,
                 rt_last_seen_time_utc_ms := rt_last_seen_time_utc_ms new\<rparr>)
         new (ca_archive_roots c)\<rparr>"

definition location_row_of :: "location_snapshot \<Rightarrow> bytes option \<Rightarrow> location_row" where
  "location_row_of v path_bytes =
     \<lparr>lr_location_id = lo_location_id v, lr_display_name = lo_display_name v, lr_kind = lo_kind v,
      lr_archive_root_id = lo_archive_root_id v, lr_relative_path_bytes = path_bytes,
      lr_relative_path_encoding = map_option rp_encoding (lo_relative_path v),
      lr_relative_path_display = map_option rp_display (lo_relative_path v),
      lr_device_id = lo_device_id v, lr_site_id = lo_site_id v,
      lr_encryption_state = lo_encryption_state v, lr_trust_level = lo_trust_level v,
      lr_expected_availability = lo_expected_availability v, lr_is_writable = lo_is_writable v,
      lr_status = lo_status v\<rparr>"

definition upsert_location :: "location_row \<Rightarrow> catalog \<Rightarrow> catalog" where
  "upsert_location r c = c\<lparr>ca_locations := upsert_by lr_location_id (\<lambda>_. r) r (ca_locations c)\<rparr>"

definition upsert_risk_domain :: "risk_domain_snapshot \<Rightarrow> catalog \<Rightarrow> catalog" where
  "upsert_risk_domain v c =
     c\<lparr>ca_risk_domains := upsert_by rd_risk_domain_id (\<lambda>_. v) v (ca_risk_domains c)\<rparr>"

definition assign_risk :: "risk_assignment \<Rightarrow> catalog \<Rightarrow> catalog" where
  "assign_risk v c = c\<lparr>ca_entity_risk_domains := ca_entity_risk_domains c @ [v]\<rparr>"

definition unassign_risk :: "risk_assignment \<Rightarrow> catalog \<Rightarrow> catalog" where
  "unassign_risk v c =
     c\<lparr>ca_entity_risk_domains := filter (\<lambda>a. a \<noteq> v) (ca_entity_risk_domains c)\<rparr>"

definition check_in_device :: "device_check_in \<Rightarrow> int \<Rightarrow> catalog \<Rightarrow> catalog" where
  "check_in_device v time c =
     c\<lparr>ca_devices := update_where (\<lambda>d. de_device_id d = ci_device_id v)
         (\<lambda>d. d\<lparr>de_last_checkin_time_utc_ms := Some time,
                 de_last_fingerprint_match_time_utc_ms :=
                   (if ci_fingerprint_status v = ''match'' then Some time
                    else de_last_fingerprint_match_time_utc_ms d),
                 de_last_fingerprint_status := Some (ci_fingerprint_status v)\<rparr>)
         (ca_devices c)\<rparr>"

definition insert_mount :: "device_mount \<Rightarrow> bytes \<Rightarrow> int \<Rightarrow> catalog \<Rightarrow> catalog" where
  "insert_mount v host time c =
     c\<lparr>ca_device_mounts := ca_device_mounts c @ [device_mount.extend v (mount_row.fields host time)]\<rparr>"

text \<open>The state and the history kind after a change.\<close>

fun registry_apply ::
  "registry_codec \<Rightarrow> registry_change \<Rightarrow> bytes \<Rightarrow> int \<Rightarrow> catalog \<Rightarrow>
   sqlite_registry_error + catalog \<times> bytes" where
  "registry_apply codec (Site action v) host time c =
     ebind (change_kind ''site'' action) (\<lambda>k.
     ebind (exec_sql SRSqlite (upsert_site v) c) (\<lambda>c1. Inr (c1, k)))"
| "registry_apply codec (Policy action v) host time c =
     ebind (change_kind ''policy'' action) (\<lambda>k.
     ebind (registry_integer (po_policy_version v)) (\<lambda>version.
     ebind (exec_sql SRSqlite (upsert_policy (policy_row_of codec v version)) c) (\<lambda>c1. Inr (c1, k))))"
| "registry_apply codec (Collection action v) host time c =
     ebind (change_kind ''collection'' action) (\<lambda>k.
     ebind (exec_sql SRSqlite (upsert_collection v) c) (\<lambda>c1. Inr (c1, k)))"
| "registry_apply codec (Device action v) host time c =
     ebind (change_kind ''device'' action) (\<lambda>k.
     ebind (apply_device action v time c) (\<lambda>c1. Inr (c1, k)))"
| "registry_apply codec (ArchiveRoot action v) host time c =
     ebind (change_kind ''archive_root'' action) (\<lambda>k.
     ebind (map_err SRRegistry (root_path_bytes codec (ar_root_path_on_device v))) (\<lambda>path_bytes.
     ebind (exec_sql SRSqlite (upsert_root (root_row_of v path_bytes time)) c) (\<lambda>c1. Inr (c1, k))))"
| "registry_apply codec (Location action v) host time c =
     ebind (change_kind ''location'' action) (\<lambda>k.
     ebind (case lo_relative_path v of
              None \<Rightarrow> Inr None
            | Some p \<Rightarrow> ebind (map_err SRRegistry (root_path_bytes codec p)) (\<lambda>b. Inr (Some b)))
       (\<lambda>path_bytes.
     ebind (exec_sql SRSqlite (upsert_location (location_row_of v path_bytes)) c) (\<lambda>c1. Inr (c1, k))))"
| "registry_apply codec (RiskDomain action v) host time c =
     ebind (change_kind ''risk_domain'' action) (\<lambda>k.
     ebind (exec_sql SRSqlite (upsert_risk_domain v) c) (\<lambda>c1. Inr (c1, k)))"
| "registry_apply codec (AssignRisk v) host time c =
     ebind (exec_sql SRSqlite (assign_risk v) c) (\<lambda>c1. Inr (c1, ''risk_assigned''))"
| "registry_apply codec (UnassignRisk v) host time c =
     ebind (exec_sql SRSqlite (unassign_risk v) c) (\<lambda>c1. Inr (c1, ''risk_unassigned''))"
| "registry_apply codec (DeviceCheckIn v) host time c =
     ebind (exec_sql SRSqlite (check_in_device v time) c) (\<lambda>c1. Inr (c1, ''device_checked_in''))"
| "registry_apply codec (DeviceMount v) host time c =
     ebind (ensure (\<not> is_blank host) (SRInvalid ''host ID must not be empty'')) (\<lambda>_.
     ebind (exec_sql SRSqlite (insert_mount v host time) c) (\<lambda>c1. Inr (c1, ''device_mount_observed'')))"

fun change_location :: "registry_change \<Rightarrow> bytes option" where
  "change_location (Location _ v) = Some (lo_location_id v)"
| "change_location _ = None"

section \<open>Recording\<close>

definition record_change ::
  "registry_codec \<Rightarrow> bytes \<Rightarrow> int \<Rightarrow> registry_change \<Rightarrow> catalog \<times> int list \<Rightarrow>
   sqlite_registry_error + catalog \<times> int list" where
  "record_change codec host time change state =
     (case state of (c, history_ids) \<Rightarrow>
      ebind (map_err SRRegistry (validate_change_on codec change c)) (\<lambda>_.
      ebind (registry_apply codec change host time c) (\<lambda>(c1, kind).
      ebind (append_history codec kind (change_location change) time
               (JObj [(''host_id'', JStr host), (''snapshot'', change_to_value codec change)]) c1)
        (\<lambda>(c2, history_id).
      Inr (c2, history_ids @ [history_id])))))"

definition record_batch ::
  "registry_codec \<Rightarrow> registry_change list \<Rightarrow> bytes \<Rightarrow> u64 \<Rightarrow> catalog \<Rightarrow>
   sqlite_registry_error + catalog \<times> registry_batch_commit" where
  "record_batch codec changes host time_utc_ms c =
     ebind (ensure (changes \<noteq> []) (SRInvalid ''registry batch must not be empty'')) (\<lambda>_.
     ebind (registry_integer time_utc_ms) (\<lambda>time.
     ebind (efold (record_change codec host time) changes (c, [])) (\<lambda>(c1, history_ids).
     ebind (advance_revision c1) (\<lambda>(c2, r).
     Inr (c2, \<lparr>rb_revision = r, rb_history_ids = history_ids\<rparr>)))))"

definition registry_record ::
  "registry_codec \<Rightarrow> registry_change \<Rightarrow> bytes \<Rightarrow> u64 \<Rightarrow> catalog \<Rightarrow>
   sqlite_registry_error + catalog \<times> registry_commit" where
  "registry_record codec change host time_utc_ms c =
     ebind (record_batch codec [change] host time_utc_ms c) (\<lambda>(c1, commit).
     Inr (c1, \<lparr>rc_revision = rb_revision commit, rc_history_id = hd (rb_history_ids commit)\<rparr>))"

definition rename_archive ::
  "registry_codec \<Rightarrow> bytes \<Rightarrow> u64 \<Rightarrow> catalog \<Rightarrow> sqlite_registry_error + catalog \<times> registry_commit" where
  "rename_archive codec name time_utc_ms c =
     ebind (ensure (\<not> is_blank name) (SRInvalid ''display name must not be empty'')) (\<lambda>_.
     ebind (registry_integer time_utc_ms) (\<lambda>time.
     ebind (exec_sql SRSqlite (\<lambda>c. c\<lparr>ca_display_name := name\<rparr>) c) (\<lambda>c1.
     registry_finish codec ''archive_renamed'' None time
       (JObj [(''display_name'', JStr name), (''previous_name'', JStr (ca_display_name c))]) c1)))"

section \<open>Listing the registry\<close>

record registry_entities =
  st_sites :: "site_snapshot list"
  st_policies :: "policy_snapshot list"
  st_collections :: "collection_snapshot list"
  st_devices :: "device_snapshot list"
  st_archive_roots :: "archive_root_snapshot list"
  st_locations :: "location_snapshot list"
  st_risk_domains :: "risk_domain_snapshot list"
  st_risk_assignments :: "risk_assignment list"

record registry_state = registry_entities +
  st_revision :: u64

text \<open>\<open>query_rows\<close>: rows of the wanted status in the given order, each converted.\<close>

definition query_rows ::
  "('r \<Rightarrow> 'k::linorder) \<Rightarrow> ('r \<Rightarrow> bool) \<Rightarrow> ('r \<Rightarrow> sqlite_registry_error + 's) \<Rightarrow> 'r list \<Rightarrow>
   sqlite_registry_error + 's list" where
  "query_rows order wanted convert rows = emap convert (sort_key order (filter wanted rows))"

definition policy_from_row :: "registry_codec \<Rightarrow> policy_row \<Rightarrow> sqlite_registry_error + policy_snapshot" where
  "policy_from_row codec r =
     ebind (map_err (\<lambda>_. SRSqlite) (requirements_from_str codec (pr_requirements_json r))) (\<lambda>req.
     ebind (revision_from_row (pr_policy_version r)) (\<lambda>version.
     Inr \<lparr>po_policy_id = pr_policy_id r, po_display_name = pr_display_name r,
          po_policy_version = version, po_requirements = req, po_enabled = pr_enabled r,
          po_status = pr_status r\<rparr>))"

definition root_from_row ::
  "registry_codec \<Rightarrow> archive_root_row \<Rightarrow> sqlite_registry_error + archive_root_snapshot" where
  "root_from_row codec r =
     ebind (ok_or (registry_path_from_parts (registry_base64_encode codec) (rt_root_path_encoding r)
              (rt_root_path_bytes r) (rt_root_path_display r)) SRSqlite) (\<lambda>p.
     Inr \<lparr>ar_archive_root_id = rt_archive_root_id r, ar_device_id = rt_device_id r,
          ar_display_name = rt_display_name r, ar_root_path_on_device = p, ar_status = rt_status r,
          ar_filesystem_fingerprint = rt_filesystem_fingerprint r,
          ar_fingerprint_kind = rt_fingerprint_kind r, ar_identity_state = rt_identity_state r\<rparr>)"

definition location_from_row ::
  "registry_codec \<Rightarrow> location_row \<Rightarrow> sqlite_registry_error + location_snapshot" where
  "location_from_row codec r =
     ebind (case lr_relative_path_encoding r of
              None \<Rightarrow> Inr None
            | Some e \<Rightarrow>
                ebind (ok_or (lr_relative_path_bytes r) SRSqlite) (\<lambda>b.
                ebind (ok_or (lr_relative_path_display r) SRSqlite) (\<lambda>d.
                ebind (ok_or (registry_path_from_parts (registry_base64_encode codec) e b d) SRSqlite)
                  (\<lambda>p. Inr (Some p))))) (\<lambda>path.
     Inr \<lparr>lo_location_id = lr_location_id r, lo_display_name = lr_display_name r, lo_kind = lr_kind r,
          lo_archive_root_id = lr_archive_root_id r, lo_relative_path = path,
          lo_device_id = lr_device_id r, lo_site_id = lr_site_id r,
          lo_encryption_state = lr_encryption_state r, lo_trust_level = lr_trust_level r,
          lo_expected_availability = lr_expected_availability r,
          lo_is_writable = lr_is_writable r, lo_status = lr_status r\<rparr>)"

definition load_registry_entities ::
  "registry_codec \<Rightarrow> bool \<Rightarrow> catalog \<Rightarrow> sqlite_registry_error + registry_entities" where
  "load_registry_entities codec include_retired c =
     (let wanted = (\<lambda>status. include_retired \<or> status = ACTIVE) in
      ebind (query_rows (\<lambda>v. (si_display_name v, si_site_id v)) (\<lambda>v. wanted (si_status v)) Inr
               (ca_sites c)) (\<lambda>sites.
      ebind (query_rows (\<lambda>r. (pr_display_name r, pr_policy_id r)) (\<lambda>r. wanted (pr_status r))
               (policy_from_row codec) (ca_policies c)) (\<lambda>policies.
      ebind (query_rows (\<lambda>v. (co_display_name v, co_collection_id v)) (\<lambda>v. wanted (co_status v)) Inr
               (ca_collections c)) (\<lambda>collections.
      ebind (query_rows (\<lambda>r. (de_display_name r, de_device_id r)) (\<lambda>r. wanted (de_status r))
               (\<lambda>r. Inr (device_snapshot.truncate r)) (ca_devices c)) (\<lambda>devices.
      ebind (query_rows (\<lambda>r. (rt_display_name r, rt_archive_root_id r)) (\<lambda>r. wanted (rt_status r))
               (root_from_row codec) (ca_archive_roots c)) (\<lambda>roots.
      ebind (query_rows (\<lambda>r. (lr_display_name r, lr_location_id r)) (\<lambda>r. wanted (lr_status r))
               (location_from_row codec) (ca_locations c)) (\<lambda>locations.
      ebind (query_rows (\<lambda>v. (rd_display_name v, rd_risk_domain_id v)) (\<lambda>v. wanted (rd_status v)) Inr
               (ca_risk_domains c)) (\<lambda>domains.
      ebind (query_rows (\<lambda>v. (ra_entity_type v, ra_entity_id v, ra_risk_domain_id v)) (\<lambda>_. True) Inr
               (ca_entity_risk_domains c)) (\<lambda>assignments.
      Inr \<lparr>st_sites = sites, st_policies = policies,
           st_collections = collections, st_devices = devices, st_archive_roots = roots,
           st_locations = locations, st_risk_domains = domains,
           st_risk_assignments = assignments\<rparr>)))))))))"

definition list_registry :: "registry_codec \<Rightarrow> bool \<Rightarrow> catalog \<Rightarrow> sqlite_registry_error + registry_state" where
  "list_registry codec include_retired c =
     ebind (load_registry_entities codec include_retired c) (\<lambda>entities.
     ebind (revision_from_row (ca_revision c)) (\<lambda>r.
     Inr \<lparr>st_sites = st_sites entities, st_policies = st_policies entities,
          st_collections = st_collections entities, st_devices = st_devices entities,
          st_archive_roots = st_archive_roots entities, st_locations = st_locations entities,
          st_risk_domains = st_risk_domains entities,
          st_risk_assignments = st_risk_assignments entities, st_revision = r\<rparr>))"

section \<open>What a change leaves alone\<close>

definition registry_only :: "catalog \<Rightarrow> catalog \<Rightarrow> bool" where
  "registry_only c c' \<longleftrightarrow>
     ca_archive_id c' = ca_archive_id c \<and> ca_objects c' = ca_objects c \<and> ca_files c' = ca_files c
     \<and> ca_jobs c' = ca_jobs c \<and> ca_scan_seen c' = ca_scan_seen c
     \<and> ca_job_items c' = ca_job_items c \<and> ca_write_operations c' = ca_write_operations c"

text \<open>Entities stay, and an archive root keeps its device, path and filesystem identity.\<close>

definition registry_persists :: "catalog \<Rightarrow> catalog \<Rightarrow> bool" where
  "registry_persists c c' \<longleftrightarrow>
     (\<forall>table. set (table_ids table c) \<subseteq> set (table_ids table c'))
     \<and> (\<forall>r\<in>set (ca_archive_roots c). \<exists>r'\<in>set (ca_archive_roots c').
          rt_archive_root_id r' = rt_archive_root_id r \<and> root_identity_row r' = root_identity_row r)"

lemma registry_only_refl [simp]: "registry_only c c"
  and registry_persists_refl [simp]: "registry_persists c c"
  by (auto simp: registry_only_def registry_persists_def)

lemma registry_only_trans: "registry_only a b \<Longrightarrow> registry_only b c \<Longrightarrow> registry_only a c"
  by (simp add: registry_only_def)

lemma registry_persists_trans: "registry_persists a b \<Longrightarrow> registry_persists b c \<Longrightarrow> registry_persists a c"
  unfolding registry_persists_def by (metis (no_types, lifting) subset_trans)

lemma key_upsert_by:
  assumes "r \<in> set rows" and "\<And>r. key r = key new \<Longrightarrow> key (upd r) = key new"
  shows "key r \<in> key ` set (upsert_by key upd new rows)"
proof -
  have "key ` set (upsert_by key upd new rows) = set (map key (upsert_by key upd new rows))" by simp
  also have "\<dots> = set (if key new \<in> key ` set rows then map key rows else map key rows @ [key new])"
    using assms(2) by (subst map_upsert_by) simp_all
  finally show ?thesis using assms(1) by auto
qed

lemma registry_persists_tables:
  assumes "set (site_ids c) \<subseteq> set (site_ids c')" "set (policy_ids c) \<subseteq> set (policy_ids c')"
    "set (collection_ids c) \<subseteq> set (collection_ids c')" "set (device_ids c) \<subseteq> set (device_ids c')"
    "set (root_ids c) \<subseteq> set (root_ids c')" "set (location_ids c) \<subseteq> set (location_ids c')"
    "set (risk_domain_ids c) \<subseteq> set (risk_domain_ids c')"
    "\<And>r. r \<in> set (ca_archive_roots c) \<Longrightarrow> \<exists>r'\<in>set (ca_archive_roots c').
       rt_archive_root_id r' = rt_archive_root_id r \<and> root_identity_row r' = root_identity_row r"
  shows "registry_persists c c'"
proof -
  have "set (table_ids table c) \<subseteq> set (table_ids table c')" for table
    using assms(1-7) by (cases table) simp_all
  with assms(8) show ?thesis by (simp add: registry_persists_def)
qed

text \<open>The facts of one statement, for the statements of the registry.\<close>

definition registry_statement :: "(catalog \<Rightarrow> catalog) \<Rightarrow> bool" where
  "registry_statement stmt \<longleftrightarrow>
     (\<forall>c. registry_only c (stmt c) \<and> registry_persists c (stmt c)
          \<and> ca_history (stmt c) = ca_history c \<and> ca_revision (stmt c) = ca_revision c
          \<and> ca_display_name (stmt c) = ca_display_name c)"

lemma de_extend [simp]:
  "de_device_id (device_snapshot.extend v m) = de_device_id v"
  "de_current_site_id (device_snapshot.extend v m) = de_current_site_id v"
  "device_snapshot.truncate (device_snapshot.extend v m) = v"
  "device_snapshot.more (device_snapshot.extend v m) = m"
  "de_status (device_snapshot.extend v m) = de_status v"
  by (simp_all add: device_snapshot.defs)

lemma registry_statement_upserts:
  "registry_statement (upsert_site v1)" "registry_statement (upsert_policy v2)"
  "registry_statement (upsert_collection v3)" "registry_statement (upsert_location v5)"
  "registry_statement (upsert_risk_domain v6)"
  unfolding registry_statement_def
  by (auto simp: registry_only_def upsert_site_def upsert_policy_def upsert_collection_def
      upsert_location_def upsert_risk_domain_def intro!: registry_persists_tables
      intro!: key_upsert_by)

lemma registry_statement_devices:
  "registry_statement (upsert_device v)" "registry_statement (check_in_device k t)"
  "registry_statement (depart_device i t)" "registry_statement (arrive_device i j t)"
  "registry_statement (insert_mount m h t)"
  "registry_statement (assign_risk a)" "registry_statement (unassign_risk a)"
  unfolding registry_statement_def
  by (auto simp: registry_only_def upsert_device_def check_in_device_def depart_device_def
      arrive_device_def insert_mount_def assign_risk_def unassign_risk_def update_where_def
      device_row_of_def intro!: registry_persists_tables key_upsert_by)

lemma registry_statement_root: "registry_statement (upsert_root new)"
proof -
  have "\<exists>r'\<in>set (ca_archive_roots (upsert_root new c)).
      rt_archive_root_id r' = rt_archive_root_id r \<and> root_identity_row r' = root_identity_row r"
    if r: "r \<in> set (ca_archive_roots c)" for r c
  proof -
    let ?u = "\<lambda>r. r\<lparr>rt_display_name := rt_display_name new, rt_status := rt_status new,
      rt_last_seen_time_utc_ms := rt_last_seen_time_utc_ms new\<rparr>"
    let ?r = "if rt_archive_root_id new \<in> rt_archive_root_id ` set (ca_archive_roots c)
      \<and> rt_archive_root_id r = rt_archive_root_id new then ?u r else r"
    have "?r \<in> set (ca_archive_roots (upsert_root new c))"
      using r by (auto simp: upsert_root_def upsert_by_def update_where_def)
    moreover have "rt_archive_root_id ?r = rt_archive_root_id r \<and> root_identity_row ?r = root_identity_row r"
      by (simp add: root_identity_row_def)
    ultimately show ?thesis by blast
  qed
  then show ?thesis
    unfolding registry_statement_def
    by (auto simp: registry_only_def upsert_root_def intro!: registry_persists_tables key_upsert_by)
qed

lemmas registry_statements = registry_statement_upserts registry_statement_devices
  registry_statement_root

definition registry_effect :: "catalog \<Rightarrow> catalog \<Rightarrow> bool" where
  "registry_effect c c' \<longleftrightarrow> registry_only c c' \<and> registry_persists c c'
     \<and> ca_history c' = ca_history c \<and> ca_revision c' = ca_revision c
     \<and> ca_display_name c' = ca_display_name c \<and> schema_ok c'"

lemma registry_effect_exec:
  "registry_statement stmt \<Longrightarrow> exec_sql e stmt c = Inr c' \<Longrightarrow> registry_effect c c'"
  by (auto simp: registry_statement_def registry_effect_def exec_sql_eq_Inr)

lemma registry_effect_trans: "registry_effect a b \<Longrightarrow> registry_effect b c \<Longrightarrow> registry_effect a c"
  unfolding registry_effect_def using registry_only_trans registry_persists_trans by metis

lemma apply_device_effect:
  assumes "apply_device action v time c = Inr c'"
  shows "registry_effect c c'"
proof -
  from assms obtain c1 c2 where
    c1: "exec_sql SRSqlite (upsert_device v) c = Inr c1"
    and c2: "(if action = Move then exec_sql SRSqlite (depart_device (de_device_id v) time) c1
              else Inr c1) = Inr c2"
    and c': "(case (action = Register \<or> action = Move, de_current_site_id v) of
       (True, Some site_id) \<Rightarrow> exec_sql SRSqlite (arrive_device (de_device_id v) site_id time) c2
     | _ \<Rightarrow> Inr c2) = Inr c'"
    by (auto simp: apply_device_def ebind_eq_Inr)
  have e1: "registry_effect c c1" by (rule registry_effect_exec [OF registry_statements(6) c1])
  have "c2 = c1 \<or> registry_effect c1 c2"
    using c2 registry_effect_exec [OF registry_statements(8) [of "de_device_id v" time], of SRSqlite c1 c2]
    by (simp split: if_splits)
  moreover have "c' = c2 \<or> registry_effect c2 c'"
    using c' registry_effect_exec [OF registry_statements(9) [of "de_device_id v" _ time], of SRSqlite _ c2 c']
    by (auto split: option.splits bool.splits)
  ultimately show ?thesis using e1 registry_effect_trans by blast
qed

lemma registry_apply_effect:
  assumes "registry_apply codec change host time c = Inr (c', kind)"
  shows "registry_effect c c'"
proof (cases change)
  case (Device action v)
  with assms show ?thesis by (auto simp: ebind_eq_Inr dest: apply_device_effect)
qed (use assms registry_statements in \<open>auto simp: ebind_eq_Inr split: if_splits dest!: registry_effect_exec [rotated]\<close>)

section \<open>The commit of a batch\<close>

lemma append_history_Inr:
  assumes "append_history codec kind location time details c = Inr (c', i)"
  obtains h where "c' = append_history_row h c" "hi_kind h = kind" "hi_time_utc_ms h = time"
    "i = int (length (ca_history c)) + 1" "schema_ok c'"
  using assms by (auto simp: append_history_def ebind_eq_Inr exec_sql_eq_Inr append_history_row_def)

lemma registry_only_append [simp]: "registry_only c (append_history_row h c)"
  and registry_persists_append [simp]: "registry_persists c (append_history_row h c)"
  by (auto simp: append_history_row_def registry_only_def intro!: registry_persists_tables)

lemma record_change_Inr:
  assumes "record_change codec host time change (c, ids) = Inr (c', ids')"
  obtains c1 kind h where "validate_change_on codec change c = Inr ()"
    "registry_apply codec change host time c = Inr (c1, kind)"
    "c' = append_history_row h c1" "hi_kind h = kind" "hi_time_utc_ms h = time"
    "ids' = ids @ [int (length (ca_history c)) + 1]" "schema_ok c'"
    "registry_effect c c1"
proof -
  from assms obtain c1 kind i where
    val: "validate_change_on codec change c = Inr ()"
    and run: "registry_apply codec change host time c = Inr (c1, kind)"
    and app: "append_history codec kind (change_location change) time
      (JObj [(''host_id'', JStr host), (''snapshot'', change_to_value codec change)]) c1 = Inr (c', i)"
    and ids: "ids' = ids @ [i]"
    by (auto simp: record_change_def ebind_eq_Inr map_err_eq_Inr)
  have eff: "registry_effect c c1" by (rule registry_apply_effect [OF run])
  from app obtain h where h: "c' = append_history_row h c1" "hi_kind h = kind" "hi_time_utc_ms h = time"
    "i = int (length (ca_history c1)) + 1" "schema_ok c'"
    by (rule append_history_Inr)
  from eff ids h(4) have "ids' = ids @ [int (length (ca_history c)) + 1]"
    by (simp add: registry_effect_def)
  then show thesis by (rule that [OF val run h(1-3) _ h(5) eff])
qed

text \<open>The state of the loop after some changes.\<close>

definition recorded_changes :: "nat \<Rightarrow> catalog \<Rightarrow> catalog \<Rightarrow> bool" where
  "recorded_changes n c c' \<longleftrightarrow> registry_only c c' \<and> registry_persists c c'
     \<and> prefix (ca_history c) (ca_history c') \<and> length (ca_history c') = length (ca_history c) + n
     \<and> ca_revision c' = ca_revision c \<and> ca_display_name c' = ca_display_name c"

lemma record_change_recorded:
  assumes "record_change codec host time change (c, ids) = Inr (c', ids')"
  shows "recorded_changes 1 c c' \<and> schema_ok c' \<and> ids' = ids @ [int (length (ca_history c)) + 1]"
  using assms
proof (rule record_change_Inr)
  fix c1 h assume c': "c' = append_history_row h c1" and eff: "registry_effect c c1"
    and "ids' = ids @ [int (length (ca_history c)) + 1]" "schema_ok c'"
  moreover have "registry_only c c'" "registry_persists c c'"
    unfolding c' using eff registry_only_trans registry_persists_trans
    by (auto simp: registry_effect_def)
  ultimately show ?thesis
    by (simp add: recorded_changes_def registry_effect_def append_history_row_def)
qed

lemma record_loop:
  assumes "efold (record_change codec host time) changes (c, ids) = Inr (c', ids')"
    and "schema_ok c"
  shows "recorded_changes (length changes) c c' \<and> schema_ok c'
    \<and> ids' = ids @ map (\<lambda>i. int (length (ca_history c)) + 1 + int i) [0..<length changes]"
  using assms
proof (induction changes arbitrary: c ids)
  case Nil
  then show ?case by (simp add: recorded_changes_def)
next
  case (Cons change changes)
  from Cons.prems obtain c1 ids1 where
    step: "record_change codec host time change (c, ids) = Inr (c1, ids1)"
    and rest: "efold (record_change codec host time) changes (c1, ids1) = Inr (c', ids')"
    by (auto simp: ebind_eq_Inr)
  note one = record_change_recorded [OF step]
  note ih = Cons.IH [OF rest one [THEN conjunct2, THEN conjunct1]]
  have "recorded_changes (length (change # changes)) c c'"
    using one ih registry_only_trans registry_persists_trans prefix_order.trans
    unfolding recorded_changes_def by fastforce
  moreover have "length (ca_history c1) = length (ca_history c) + 1"
    using one by (simp add: recorded_changes_def)
  moreover have "[0..<length (change # changes)] = 0 # map Suc [0..<length changes]"
    by (simp only: list.size map_Suc_upt upt_conv_Cons) simp
  ultimately show ?case using one ih by (simp add: comp_def ac_simps)
qed

section \<open>Stays of a device\<close>

text \<open>The sites where a device is recorded as staying; it should be its current site.\<close>

definition open_stays :: "bytes \<Rightarrow> catalog \<Rightarrow> bytes list" where
  "open_stays device_id c =
     map ds_site_id (filter (\<lambda>h. ds_device_id h = device_id \<and> ds_departed_time_utc_ms h = None)
       (ca_device_site_history c))"

definition stays_ok :: "catalog \<Rightarrow> bool" where
  "stays_ok c \<longleftrightarrow>
     list_all (\<lambda>d. open_stays (de_device_id d) c = (case de_current_site_id d of None \<Rightarrow> [] | Some s \<Rightarrow> [s]))
       (ca_devices c)"

lemma filter_departed:
  "filter (\<lambda>h. ds_device_id h = i \<and> ds_departed_time_utc_ms h = None)
      (update_where (\<lambda>h. ds_device_id h = j \<and> ds_departed_time_utc_ms h = None)
        (\<lambda>h. h\<lparr>ds_departed_time_utc_ms := Some t\<rparr>) hs) =
    (if i = j then [] else filter (\<lambda>h. ds_device_id h = i \<and> ds_departed_time_utc_ms h = None) hs)"
  by (induction hs) (auto simp: update_where_def)

lemma open_stays_statements:
  "open_stays i (upsert_device v c) = open_stays i c"
  "open_stays i (arrive_device j s t c) = (if i = j then open_stays i c @ [s] else open_stays i c)"
  "open_stays i (depart_device j t c) = (if i = j then [] else open_stays i c)"
  by (simp_all add: open_stays_def upsert_device_def arrive_device_def depart_device_def
      filter_departed)

lemma open_stays_unregistered:
  assumes "schema_ok c" "i \<notin> set (device_ids c)"
  shows "open_stays i c = []"
proof -
  have "\<forall>h\<in>set (ca_device_site_history c). ds_device_id h \<in> set (device_ids c)"
    using assms(1) by (simp add: schema_ok_def storage_schema_ok_def list_all_iff)
  then show ?thesis using assms(2) by (auto simp: open_stays_def filter_empty_conv)
qed

lemma devices_upsert:
  assumes "d \<in> set (ca_devices (upsert_device v c))"
  shows "de_device_id d = de_device_id v \<and> de_current_site_id d = de_current_site_id v
    \<or> de_device_id d \<noteq> de_device_id v \<and> d \<in> set (ca_devices c)"
  using assms
  by (auto simp: upsert_device_def upsert_by_def update_where_def device_row_of_def image_iff
      split: if_splits)

text \<open>The open stays and the devices after a device change.\<close>

lemma apply_device_stays:
  assumes "apply_device action v time c = Inr c'"
  shows "ca_devices c' = ca_devices (upsert_device v c)"
    and "open_stays i c' = (if i = de_device_id v \<and> (action = Register \<or> action = Move)
      then (if action = Move then [] else open_stays i c)
           @ (case de_current_site_id v of None \<Rightarrow> [] | Some s \<Rightarrow> [s])
      else open_stays i c)"
proof -
  from assms obtain c2 where
    c2: "c2 = (if action = Move then depart_device (de_device_id v) time (upsert_device v c)
               else upsert_device v c)"
    and c': "c' = (case de_current_site_id v of
       Some s \<Rightarrow> if action = Register \<or> action = Move then arrive_device (de_device_id v) s time c2 else c2
     | None \<Rightarrow> c2)"
    by (cases "de_current_site_id v"; cases action)
      (auto simp: apply_device_def ebind_eq_Inr exec_sql_eq_Inr)
  show "ca_devices c' = ca_devices (upsert_device v c)"
    by (simp add: c' c2 depart_device_def arrive_device_def split: option.split)
  show "open_stays i c' = (if i = de_device_id v \<and> (action = Register \<or> action = Move)
      then (if action = Move then [] else open_stays i c)
           @ (case de_current_site_id v of None \<Rightarrow> [] | Some s \<Rightarrow> [s])
      else open_stays i c)"
    by (simp add: c' c2 open_stays_statements split: option.split)
qed

lemma validate_device_Inr:
  assumes "validate_device action v c = Inr ()"
  shows "(action = Register \<longleftrightarrow> de_device_id v \<notin> set (device_ids c))"
    and "action = Update \<Longrightarrow> \<exists>d. lookup_by de_device_id (de_device_id v) (ca_devices c) = Some d
          \<and> de_current_site_id d = de_current_site_id v"
  using assms by (auto simp: validate_device_def result_simps split: if_splits)

text \<open>A retirement that keeps the current site.\<close>

fun keeps_site :: "registry_change \<Rightarrow> catalog \<Rightarrow> bool" where
  "keeps_site (Device Retire v) c =
     list_all (\<lambda>d. de_device_id d = de_device_id v \<longrightarrow> de_current_site_id d = de_current_site_id v)
       (ca_devices c)"
| "keeps_site _ c = True"

lemma stays_ok_device:
  assumes val: "validate_device action v c = Inr ()" and run: "apply_device action v time c = Inr c'"
    and "schema_ok c" and ok: "stays_ok c" and "keeps_site (Device action v) c"
  shows "stays_ok c'"
  unfolding stays_ok_def list_all_iff
proof
  let ?site = "case de_current_site_id v of None \<Rightarrow> [] | Some s \<Rightarrow> [s]"
  fix d assume "d \<in> set (ca_devices c')"
  then consider (changed) "de_device_id d = de_device_id v" "de_current_site_id d = de_current_site_id v"
    | (other) "de_device_id d \<noteq> de_device_id v" "d \<in> set (ca_devices c)"
    using devices_upsert by (auto simp: apply_device_stays(1) [OF run])
  then show "open_stays (de_device_id d) c'
      = (case de_current_site_id d of None \<Rightarrow> [] | Some s \<Rightarrow> [s])"
  proof cases
    case other
    with ok show ?thesis by (simp add: apply_device_stays(2) [OF run] stays_ok_def list_all_iff)
  next
    case changed
    have same: "open_stays (de_device_id v) c = ?site" if d0: "d0 \<in> set (ca_devices c)"
      "de_device_id d0 = de_device_id v" "de_current_site_id d0 = de_current_site_id v" for d0
      using ok d0 by (auto simp: stays_ok_def list_all_iff)
    have "open_stays (de_device_id v) c' = ?site"
    proof (cases action)
      case Register
      with validate_device_Inr(1) [OF val] have "open_stays (de_device_id v) c = []"
        by (intro open_stays_unregistered [OF assms(3)]) simp
      with Register show ?thesis by (simp add: apply_device_stays(2) [OF run])
    next
      case Update
      with validate_device_Inr(2) [OF val] same show ?thesis
        by (auto simp: apply_device_stays(2) [OF run] dest: lookup_by_SomeD)
    next
      case Move
      then show ?thesis by (simp add: apply_device_stays(2) [OF run])
    next
      case Retire
      with validate_device_Inr(1) [OF val] obtain d0 where
        "d0 \<in> set (ca_devices c)" "de_device_id d0 = de_device_id v" by auto
      moreover from this Retire assms(5) have "de_current_site_id d0 = de_current_site_id v"
        by (auto simp: list_all_iff)
      ultimately show ?thesis using same Retire by (simp add: apply_device_stays(2) [OF run])
    qed
    with changed show ?thesis by simp
  qed
qed

lemma stays_ok_cong:
  "ca_device_site_history c' = ca_device_site_history c \<Longrightarrow>
     map (\<lambda>d. (de_device_id d, de_current_site_id d)) (ca_devices c') =
       map (\<lambda>d. (de_device_id d, de_current_site_id d)) (ca_devices c) \<Longrightarrow> stays_ok c' = stays_ok c"
proof -
  assume h: "ca_device_site_history c' = ca_device_site_history c"
    and m: "map (\<lambda>d. (de_device_id d, de_current_site_id d)) (ca_devices c') =
       map (\<lambda>d. (de_device_id d, de_current_site_id d)) (ca_devices c)"
  let ?P = "\<lambda>(i, s). open_stays i c = (case s of None \<Rightarrow> [] | Some s \<Rightarrow> [s])"
  have key: "stays_ok d = list_all ?P (map (\<lambda>d. (de_device_id d, de_current_site_id d)) (ca_devices d))"
    if "ca_device_site_history d = ca_device_site_history c" for d
    using that by (simp add: stays_ok_def list.pred_map comp_def open_stays_def)
  show ?thesis unfolding key [OF h] key [OF refl] m ..
qed

lemma stays_ok_other:
  assumes "registry_apply codec change host time c = Inr (c', kind)"
    and "\<nexists>action v. change = Device action v"
  shows "stays_ok c' = stays_ok c"
proof (rule stays_ok_cong)
  show "ca_device_site_history c' = ca_device_site_history c"
    using assms
    by (cases change) (auto simp: ebind_eq_Inr exec_sql_eq_Inr upsert_site_def upsert_policy_def
        upsert_collection_def upsert_root_def upsert_location_def upsert_risk_domain_def
        assign_risk_def unassign_risk_def check_in_device_def insert_mount_def split: if_splits)
  show "map (\<lambda>d. (de_device_id d, de_current_site_id d)) (ca_devices c') =
       map (\<lambda>d. (de_device_id d, de_current_site_id d)) (ca_devices c)"
    using assms
    by (cases change) (auto simp: ebind_eq_Inr exec_sql_eq_Inr upsert_site_def upsert_policy_def
        upsert_collection_def upsert_root_def upsert_location_def upsert_risk_domain_def
        assign_risk_def unassign_risk_def check_in_device_def insert_mount_def map_update_where
        split: if_splits)
qed

lemma record_change_stays:
  assumes "record_change codec host time change (c, ids) = Inr (c', ids')"
    and "schema_ok c" and "stays_ok c" and "keeps_site change c"
  shows "stays_ok c'"
  using assms(1)
proof (rule record_change_Inr)
  fix c1 kind h
  assume val: "validate_change_on codec change c = Inr ()"
    and run: "registry_apply codec change host time c = Inr (c1, kind)"
    and c': "c' = append_history_row h c1"
  have "stays_ok c1"
  proof (cases "\<exists>action v. change = Device action v")
    case True
    then obtain action v where d: "change = Device action v" by blast
    show ?thesis
      by (rule stays_ok_device [of action v c time])
        (use val run assms(2-4) in \<open>auto simp: d ebind_eq_Inr\<close>)
  next
    case False
    with stays_ok_other [OF run] assms(3) show ?thesis by simp
  qed
  moreover have "stays_ok c' = stays_ok c1"
    by (rule stays_ok_cong) (simp_all add: c' append_history_row_def)
  ultimately show ?thesis by simp
qed

lemma record_batch_Inr:
  assumes "record_batch codec changes host time_utc_ms c = Inr (c', commit)"
  obtains time c1 where "registry_integer time_utc_ms = Inr time"
    "efold (record_change codec host time) changes (c, []) = Inr (c1, rb_history_ids commit)"
    "c' = bump_revision c1" "schema_ok c'" "rb_revision commit = of_int (ca_revision c')"
    "0 \<le> ca_revision c'" "changes \<noteq> []"
  using assms
  by (auto simp: record_batch_def advance_revision_def revision_from_row_def ebind_eq_Inr
      exec_sql_eq_Inr ensure_eq_Inr split: if_splits)

lemma registry_record_Inr:
  assumes "registry_record codec change host time_utc_ms c = Inr (c', commit)"
  obtains time c1 ids where "registry_integer time_utc_ms = Inr time"
    "record_change codec host time change (c, []) = Inr (c1, ids)"
    "c' = bump_revision c1" "schema_ok c'"
proof -
  from assms obtain batch where "record_batch codec [change] host time_utc_ms c = Inr (c', batch)"
    by (auto simp: registry_record_def ebind_eq_Inr)
  then show thesis
    by (rule record_batch_Inr) (use that in \<open>auto simp: ebind_eq_Inr\<close>)
qed

section \<open>Registry transactions\<close>

inductive registry_step :: "registry_codec \<Rightarrow> catalog \<Rightarrow> catalog \<Rightarrow> bool"
  for codec where
  batch_step: "record_batch codec changes host time c = Inr (c', commit) \<Longrightarrow> registry_step codec c c'"
| rename_step: "rename_archive codec name time c = Inr (c', commit) \<Longrightarrow> registry_step codec c c'"

lemma rename_archive_keeps:
  assumes "rename_archive codec name time c = Inr (c', commit)"
  shows "registry_only c c' \<and> schema_ok c' \<and> prefix (ca_history c) (ca_history c')"
proof -
  obtain t c1 c2 i where c1: "c1 = c\<lparr>ca_display_name := name\<rparr>"
    and h: "append_history codec ''archive_renamed'' None t
       (JObj [(''display_name'', JStr name), (''previous_name'', JStr (ca_display_name c))]) c1 = Inr (c2, i)"
    and c': "c' = bump_revision c2" "schema_ok c'"
    using assms unfolding rename_archive_def registry_finish_def advance_revision_def case_prod_beta ebind_eq_Inr
      exec_sql_eq_Inr
    by (metis prod.inject prod.collapse sum.inject(2))
  from h obtain row where "c2 = append_history_row row c1" by (rule append_history_Inr)
  then show ?thesis
    using c' by (simp add: c1 registry_only_def bump_revision_def append_history_row_def)
qed

lemma registry_step_keeps:
  assumes "registry_step codec c c'" "schema_ok c"
  shows "registry_only c c' \<and> schema_ok c' \<and> prefix (ca_history c) (ca_history c')"
  using assms(1)
proof (cases rule: registry_step.cases)
  case (batch_step changes host time commit)
  then obtain t c1 where loop: "efold (record_change codec host t) changes (c, []) = Inr (c1, rb_history_ids commit)"
    and c': "c' = bump_revision c1" "schema_ok c'" by (rule record_batch_Inr)
  from record_loop [OF loop assms(2)] c' show ?thesis
    by (auto simp: recorded_changes_def registry_only_def bump_revision_def)
next
  case (rename_step name time commit)
  then show ?thesis by (rule rename_archive_keeps)
qed

interpretation registry: transactions "registry_step codec" catalog_valid ca_history
  for codec
proof
  fix c c' assume "registry_step codec c c'" "catalog_valid c"
  then show "catalog_valid c'" "prefix (ca_history c) (ca_history c')"
    using registry_step_keeps [of codec c c'] evidence_ok_cong [of c' c]
    by (simp_all add: catalog_valid_def registry_only_def)
qed

section \<open>Properties of the registry\<close>

text \<open>
  C30. A committed registry batch changes registry tables only (objects, copies, jobs and
  recorded operations are untouched), appends exactly one history row per change and returns
  their consecutive identifiers, advances the revision by one and returns it, removes no
  entity, and leaves the device, path and filesystem identity of every archive root as it was.
\<close>

theorem record_batch_commit:
  assumes "record_batch codec changes host time_utc_ms c = Inr (c', commit)" and "schema_ok c"
  shows "registry_only c c' \<and> registry_persists c c' \<and> schema_ok c'
    \<and> prefix (ca_history c) (ca_history c')
    \<and> length (ca_history c') = length (ca_history c) + length changes
    \<and> rb_history_ids commit =
        map (\<lambda>i. int (length (ca_history c)) + 1 + int i) [0..<length changes]
    \<and> ca_revision c' = ca_revision c + 1 \<and> uint (rb_revision commit) = ca_revision c + 1"
  using assms(1)
proof (rule record_batch_Inr)
  fix time c1
  assume loop: "efold (record_change codec host time) changes (c, []) = Inr (c1, rb_history_ids commit)"
    and c': "c' = bump_revision c1" "schema_ok c'" "rb_revision commit = of_int (ca_revision c')"
  note rec = record_loop [OF loop assms(2)]
  have rev: "0 \<le> ca_revision c'" "ca_revision c' < 2 ^ 64"
    using c'(2) by (simp_all add: schema_ok_def i64_max_def)
  then have "uint (rb_revision commit) = ca_revision c'"
    by (simp add: c'(3) uint_word_of_int_eq take_bit_int_eq_self)
  moreover have "registry_only c c'"
    using rec by (simp add: recorded_changes_def registry_only_def c'(1) bump_revision_def)
  moreover have "registry_persists c1 c'"
    by (auto simp: c'(1) bump_revision_def intro!: registry_persists_tables)
  then have "registry_persists c c'"
    using rec registry_persists_trans by (auto simp: recorded_changes_def)
  ultimately show ?thesis
    using rec c'(2) by (simp add: recorded_changes_def c'(1) bump_revision_def)
qed

text \<open>
  C29. The recorded stays of a device follow its current site: if every device has exactly
  one open stay at its current site, or none when it has no site, then this still holds after
  any registry change that retires no device at another site.
\<close>

theorem registry_record_stays:
  assumes "registry_record codec change host time_utc_ms c = Inr (c', commit)"
    and "schema_ok c" and "stays_ok c" and "keeps_site change c"
  shows "stays_ok c'"
  using assms(1)
proof (rule registry_record_Inr)
  fix time c1 ids
  assume run: "record_change codec host time change (c, []) = Inr (c1, ids)" and c': "c' = bump_revision c1"
  have "stays_ok c1" by (rule record_change_stays [OF run assms(2-4)])
  then show ?thesis
    using stays_ok_cong [of c' c1] by (simp add: c' bump_revision_def)
qed

section \<open>Reading back what was recorded\<close>

fun listed :: "registry_change \<Rightarrow> registry_state \<Rightarrow> bool" where
  "listed (Site _ v) st \<longleftrightarrow> v \<in> set (st_sites st)"
| "listed (Policy _ v) st \<longleftrightarrow> v \<in> set (st_policies st)"
| "listed (Collection _ v) st \<longleftrightarrow> v \<in> set (st_collections st)"
| "listed (Device _ v) st \<longleftrightarrow> v \<in> set (st_devices st)"
| "listed (ArchiveRoot _ v) st \<longleftrightarrow> v \<in> set (st_archive_roots st)"
| "listed (Location _ v) st \<longleftrightarrow> v \<in> set (st_locations st)"
| "listed (RiskDomain _ v) st \<longleftrightarrow> v \<in> set (st_risk_domains st)"
| "listed (AssignRisk v) st \<longleftrightarrow> v \<in> set (st_risk_assignments st)"
| "listed (UnassignRisk v) st \<longleftrightarrow> v \<notin> set (st_risk_assignments st)"
| "listed (DeviceCheckIn _) st \<longleftrightarrow> True"
| "listed (DeviceMount _) st \<longleftrightarrow> True"

text \<open>
  What the codec must do for the values of a change: parse the requirements it printed, and
  encode the bytes it decoded back to the same text; text paths are UTF-8, as Rust strings
  are. Updating an archive root is left out, because its stored display form of the path is
  not replaced.
\<close>

definition text_ok :: "registry_path \<Rightarrow> bool" where
  "text_ok p \<longleftrightarrow> (case rp_text p of None \<Rightarrow> True | Some t \<Rightarrow> is_utf8 t)"

fun readable :: "registry_codec \<Rightarrow> registry_change \<Rightarrow> bool" where
  "readable codec (Policy _ v) \<longleftrightarrow>
     requirements_from_str codec (requirements_to_string codec (po_requirements v)) = Inr (po_requirements v)"
| "readable codec (ArchiveRoot action v) \<longleftrightarrow> action = Register \<and> text_ok (ar_root_path_on_device v)"
| "readable codec (Location _ v) \<longleftrightarrow>
     (case lo_relative_path v of None \<Rightarrow> True | Some p \<Rightarrow> text_ok p)"
| "readable codec _ \<longleftrightarrow> True"

lemma path_from_parts:
  assumes "registry_path_bytes dec p = Inr b" and "\<And>x b. dec x = Some b \<Longrightarrow> enc b = x" and "text_ok p"
  shows "registry_path_from_parts enc (rp_encoding p) b (rp_display p) = Some p"
  using assms
  by (cases p) (auto simp: registry_path_bytes_def registry_path_from_parts_def text_ok_def ok_or_eq_Inr
      split: if_splits option.splits)

lemma list_all2_memD: "list_all2 P xs ys \<Longrightarrow> x \<in> set xs \<Longrightarrow> \<exists>y\<in>set ys. P x y"
  by (induction rule: list_all2_induct) auto

lemma query_rows_mem:
  assumes "query_rows order wanted convert rows = Inr ys" "r \<in> set rows" "wanted r" "convert r = Inr y"
  shows "y \<in> set ys"
proof -
  have "list_all2 (\<lambda>x y. convert x = Inr y) (sort_key order (filter wanted rows)) ys"
    using assms(1) by (simp add: query_rows_def emap_eq_Inr)
  moreover have "r \<in> set (sort_key order (filter wanted rows))" using assms(2,3) by simp
  ultimately have "\<exists>y'\<in>set ys. convert r = Inr y'" by (rule list_all2_memD)
  then obtain y' where "y' \<in> set ys" "convert r = Inr y'" by blast
  with assms(4) show ?thesis by simp
qed

lemma query_rows_set:
  assumes "query_rows order (\<lambda>_. True) Inr rows = Inr ys"
  shows "set ys = set rows"
proof -
  have "list_all2 (=) (sort_key order rows) ys"
    using assms by (simp add: query_rows_def emap_eq_Inr list_all2_mono)
  then show ?thesis by (simp add: list.rel_eq flip: set_sort [of order rows])
qed

lemma list_registry_Inr:
  assumes "list_registry codec True c = Inr st"
  shows "v1 \<in> set (ca_sites c) \<Longrightarrow> v1 \<in> set (st_sites st)"
    and "r2 \<in> set (ca_policies c) \<Longrightarrow> policy_from_row codec r2 = Inr v2 \<Longrightarrow> v2 \<in> set (st_policies st)"
    and "v3 \<in> set (ca_collections c) \<Longrightarrow> v3 \<in> set (st_collections st)"
    and "r4 \<in> set (ca_devices c) \<Longrightarrow> device_snapshot.truncate r4 \<in> set (st_devices st)"
    and "r5 \<in> set (ca_archive_roots c) \<Longrightarrow> root_from_row codec r5 = Inr v5 \<Longrightarrow> v5 \<in> set (st_archive_roots st)"
    and "r6 \<in> set (ca_locations c) \<Longrightarrow> location_from_row codec r6 = Inr v6 \<Longrightarrow> v6 \<in> set (st_locations st)"
    and "v7 \<in> set (ca_risk_domains c) \<Longrightarrow> v7 \<in> set (st_risk_domains st)"
    and "set (st_risk_assignments st) = set (ca_entity_risk_domains c)"
  using assms
  by (auto simp: list_registry_def load_registry_entities_def ebind_eq_Inr query_rows_set dest: query_rows_mem)

lemma mem_upsert_new [simp]: "new \<in> set (upsert_by key (\<lambda>_. new) new rows)"
  by (auto simp: upsert_by_def update_where_def image_iff)

lemma policy_roundtrip:
  assumes "registry_integer (po_policy_version v) = Inr n"
    and "requirements_from_str codec (requirements_to_string codec (po_requirements v)) = Inr (po_requirements v)"
  shows "policy_from_row codec (policy_row_of codec v n) = Inr v"
  using assms
  by (auto simp: registry_integer_def policy_from_row_def policy_row_of_def revision_from_row_def
      split: if_splits)

lemma root_roundtrip:
  assumes "root_path_bytes codec (ar_root_path_on_device v) = Inr b"
    and "\<And>x b. registry_base64_decode codec x = Some b \<Longrightarrow> registry_base64_encode codec b = x"
    and "text_ok (ar_root_path_on_device v)"
  shows "root_from_row codec (root_row_of v b t) = Inr v"
proof -
  have "registry_path_from_parts (registry_base64_encode codec) (rp_encoding (ar_root_path_on_device v)) b
      (rp_display (ar_root_path_on_device v)) = Some (ar_root_path_on_device v)"
    by (rule path_from_parts [of "registry_base64_decode codec"])
      (use assms in \<open>auto simp: root_path_bytes_def map_err_eq_Inr\<close>)
  then show ?thesis by (simp add: root_from_row_def root_row_of_def)
qed

lemma location_roundtrip:
  assumes "(case lo_relative_path v of None \<Rightarrow> Inr None
      | Some p \<Rightarrow> ebind (map_err SRRegistry (root_path_bytes codec p)) (\<lambda>b. Inr (Some b))) = Inr b"
    and law: "\<And>x b. registry_base64_decode codec x = Some b \<Longrightarrow> registry_base64_encode codec b = x"
    and "case lo_relative_path v of None \<Rightarrow> True | Some p \<Rightarrow> text_ok p"
  shows "location_from_row codec (location_row_of v b) = Inr v"
proof (cases "lo_relative_path v")
  case None
  then show ?thesis by (simp add: location_from_row_def location_row_of_def)
next
  case (Some p)
  with assms(1) obtain b' where b': "b = Some b'" "registry_path_bytes (registry_base64_decode codec) p = Inr b'"
    by (auto simp: root_path_bytes_def ebind_eq_Inr map_err_eq_Inr)
  have "registry_path_from_parts (registry_base64_encode codec) (rp_encoding p) b' (rp_display p) = Some p"
    by (rule path_from_parts [OF b'(2) law]) (use assms(3) Some in simp_all)
  then show ?thesis by (simp add: location_from_row_def location_row_of_def Some b'(1))
qed

lemma mem_upsert_device:
  "\<exists>r\<in>set (ca_devices (upsert_device v c)). device_snapshot.truncate r = v"
proof (cases "lookup_by de_device_id (de_device_id v) (ca_devices c)")
  case None
  then have "de_device_id v \<notin> de_device_id ` set (ca_devices c)" by (simp only: lookup_by_None) simp
  then show ?thesis by (simp add: upsert_device_def upsert_by_def device_row_of_def)
next
  case (Some d)
  then have d: "d \<in> set (ca_devices c)" "de_device_id d = de_device_id v" by (auto dest: lookup_by_SomeD)
  then have "de_device_id v \<in> de_device_id ` set (ca_devices c)" by (metis image_eqI)
  then have "device_snapshot.extend v (device_snapshot.more d) \<in> set (ca_devices (upsert_device v c))"
    using d by (auto simp: upsert_device_def upsert_by_def set_update_where device_row_of_def)
  then show ?thesis by (intro bexI) simp_all
qed

text \<open>The tables after a change contain the row that reads back as the change.\<close>

lemma apply_listed:
  assumes run: "registry_apply codec change host time c = Inr (c1, kind)"
    and val: "validate_change_on codec change c = Inr ()"
    and c': "c' = bump_revision (append_history_row h c1)"
    and st: "list_registry codec True c' = Inr st"
    and law: "\<And>x b. registry_base64_decode codec x = Some b \<Longrightarrow> registry_base64_encode codec b = x"
    and readable: "readable codec change"
  shows "listed change st"
proof -
  have tables: "ca_sites c' = ca_sites c1" "ca_policies c' = ca_policies c1"
    "ca_collections c' = ca_collections c1" "ca_devices c' = ca_devices c1"
    "ca_archive_roots c' = ca_archive_roots c1" "ca_locations c' = ca_locations c1"
    "ca_risk_domains c' = ca_risk_domains c1" "ca_entity_risk_domains c' = ca_entity_risk_domains c1"
    by (simp_all add: c' bump_revision_def append_history_row_def)
  note st = list_registry_Inr [OF st, unfolded tables]
  show ?thesis
  proof (cases change)
    case (Site action v)
    with run have "v \<in> set (ca_sites c1)"
      by (auto simp: ebind_eq_Inr exec_sql_eq_Inr upsert_site_def)
    with Site st(1) show ?thesis by simp
  next
    case (Policy action v)
    with run obtain n where n: "registry_integer (po_policy_version v) = Inr n"
      "c1 = upsert_policy (policy_row_of codec v n) c"
      by (auto simp: ebind_eq_Inr exec_sql_eq_Inr)
    then have "policy_row_of codec v n \<in> set (ca_policies c1)" by (simp add: upsert_policy_def)
    from st(2) [OF this] Policy readable policy_roundtrip [OF n(1)] show ?thesis by simp
  next
    case (Collection action v)
    with run have "v \<in> set (ca_collections c1)"
      by (auto simp: ebind_eq_Inr exec_sql_eq_Inr upsert_collection_def)
    with Collection st(3) show ?thesis by simp
  next
    case (Device action v)
    with run have "apply_device action v time c = Inr c1" by (auto simp: ebind_eq_Inr)
    from apply_device_stays(1) [OF this] mem_upsert_device [of v c] obtain r where
      "r \<in> set (ca_devices c1)" "device_snapshot.truncate r = v" by auto
    with Device st(4) show ?thesis by auto
  next
    case (ArchiveRoot action v)
    with run obtain b where b: "root_path_bytes codec (ar_root_path_on_device v) = Inr b"
      "c1 = upsert_root (root_row_of v b time) c"
      by (auto simp: ebind_eq_Inr exec_sql_eq_Inr map_err_eq_Inr)
    have "ar_archive_root_id v \<notin> set (root_ids c)"
      using val ArchiveRoot readable by (auto simp: validate_archive_root_def result_simps)
    then have "root_row_of v b time \<in> set (ca_archive_roots c1)"
      by (simp add: b(2) upsert_root_def upsert_by_def root_row_of_def)
    from st(5) [OF this] root_roundtrip [OF b(1) law] ArchiveRoot readable
    show ?thesis by simp
  next
    case (Location action v)
    with run obtain b where b: "(case lo_relative_path v of None \<Rightarrow> Inr None
        | Some p \<Rightarrow> ebind (map_err SRRegistry (root_path_bytes codec p)) (\<lambda>b. Inr (Some b))) = Inr b"
      "c1 = upsert_location (location_row_of v b) c"
      by (auto simp: ebind_eq_Inr exec_sql_eq_Inr)
    then have "location_row_of v b \<in> set (ca_locations c1)" by (simp add: upsert_location_def)
    from st(6) [OF this] location_roundtrip [OF b(1) law] Location readable
    show ?thesis by simp
  next
    case (RiskDomain action v)
    with run have "v \<in> set (ca_risk_domains c1)"
      by (auto simp: ebind_eq_Inr exec_sql_eq_Inr upsert_risk_domain_def)
    with RiskDomain st(7) show ?thesis by simp
  next
    case (AssignRisk v)
    with run have "c1 = assign_risk v c" by (simp add: ebind_eq_Inr exec_sql_eq_Inr)
    with AssignRisk st(8) show ?thesis by (simp add: assign_risk_def)
  next
    case (UnassignRisk v)
    with run have "c1 = unassign_risk v c" by (simp add: ebind_eq_Inr exec_sql_eq_Inr)
    with UnassignRisk st(8) show ?thesis by (simp add: unassign_risk_def)
  qed simp_all
qed


section \<open>Sample changes\<close>

definition sample_registry_codec :: registry_codec where
  "sample_registry_codec =
     \<lparr>requirements_to_string = (\<lambda>_. []), requirements_from_str = (\<lambda>_. Inl ''unreadable''),
      registry_base64_decode = (\<lambda>s. Some (rev s)), registry_base64_encode = rev,
      change_to_value = (\<lambda>_. JNull), registry_value_to_string = print_json\<rparr>"

definition sample_device :: "bytes \<Rightarrow> bytes option \<Rightarrow> device_snapshot" where
  "sample_device status site =
     \<lparr>de_device_id = ''d'', de_display_name = ''D'', de_device_kind = ''external'',
      de_serial_hint = None, de_hardware_fingerprint = None, de_fingerprint_kind = None,
      de_identity_state = ''unavailable'', de_owner = None, de_status = status,
      de_current_site_id = site, de_expected_availability = ''offline''\<rparr>"

definition sample_root :: archive_root_snapshot where
  "sample_root =
     \<lparr>ar_archive_root_id = ''r'', ar_device_id = ''d'', ar_display_name = ''R'',
      ar_root_path_on_device = \<lparr>rp_encoding = ''unix_bytes'', rp_text = None,
        rp_base64 = Some ''ba'', rp_display = ''ab''\<rparr>,
      ar_status = ACTIVE, ar_filesystem_fingerprint = None, ar_fingerprint_kind = None,
      ar_identity_state = ''unavailable''\<rparr>"

definition sample_with_device :: catalog where
  "sample_with_device = committed (registry_record sample_registry_codec
     (Device Register (sample_device ACTIVE (Some ''s''))) ''h'' 4 sample_catalog)"

lemma sample_with_device_ok: "schema_ok sample_with_device" "stays_ok sample_with_device"
  by code_simp+

definition sample_changes :: "registry_change list" where
  "sample_changes = [Device Register (sample_device ACTIVE (Some ''s'')), ArchiveRoot Register sample_root]"

theorem record_batch_commit_witness:
  "registry_only sample_catalog
     (committed (record_batch sample_registry_codec sample_changes ''h'' 4 sample_catalog))
   \<and> length (ca_history (committed (record_batch sample_registry_codec sample_changes ''h'' 4
       sample_catalog))) = 2"
proof -
  have run: "record_batch sample_registry_codec sample_changes ''h'' 4 sample_catalog =
    Inr (committed (record_batch sample_registry_codec sample_changes ''h'' 4 sample_catalog),
         \<lparr>rb_revision = 1, rb_history_ids = [1, 2]\<rparr>)"
    by (rule committed_eq) code_simp
  have "length (ca_history sample_catalog) = 0" "length sample_changes = 2" by code_simp+
  with record_batch_commit [OF run sample_catalog_ok] show ?thesis by simp
qed

theorem registry_record_stays_witness:
  "stays_ok (committed (registry_record sample_registry_codec
     (Device Move (sample_device ACTIVE None)) ''h'' 5 sample_with_device))"
proof (rule registry_record_stays [OF _ sample_with_device_ok])
  show "registry_record sample_registry_codec (Device Move (sample_device ACTIVE None)) ''h'' 5
      sample_with_device =
    Inr (committed (registry_record sample_registry_codec (Device Move (sample_device ACTIVE None))
      ''h'' 5 sample_with_device), \<lparr>rc_revision = 2, rc_history_id = 2\<rparr>)"
    by (rule committed_eq) code_simp
qed simp

text \<open>
  The hypothesis on retirements is needed: validation compares the site of an update or a
  move with the current one, but not that of a retirement, which then leaves the stay at the
  former site open.
\<close>

theorem retire_may_leave_stay_open:
  "case registry_record sample_registry_codec (Device Retire (sample_device RETIRED None)) ''h'' 5
     sample_with_device of Inl _ \<Rightarrow> False | Inr (c', _) \<Rightarrow> \<not> stays_ok c'"
  by code_simp

definition sample_listing :: registry_state where
  "sample_listing = (case list_registry sample_registry_codec True
     (committed (registry_record sample_registry_codec (ArchiveRoot Register sample_root) ''h'' 5
       sample_with_device)) of Inr st \<Rightarrow> st)"


end
