(* ===== verification/Catalog_Queries.thy ===== *)
theory Catalog_Queries
  imports Sample_Catalog "HOL-Library.Product_Lexorder"
begin

text \<open>
  Queries of the catalog (\<open>src/src/sqlite_queries.rs\<close>): the selection shared by listings and
  catalog-only operations, keyset pagination, the streaming listing and the review of one
  object. The SQL text of a selection is modelled by the list of its clauses, each the
  meaning of the clause on an object row; rows are ordered by collection, encoding and path
  bytes. The continuation token (JSON in base64) and the hash of the filter are third-party
  codings, held by \<open>query_codec\<close>. The main results: a page is a prefix of the rest of the
  selection, and following the continuation tokens lists every selected object exactly once.
\<close>

section \<open>Filters and results\<close>

definition MAX_PAGE :: nat where
  "MAX_PAGE = 1000"

datatype catalog_query_error =
    QuerySqlite
  | QueryOutput
  | InvalidFilter bytes
  | InvalidContinuation
  | StaleContinuation
  | ObjectNotFound bytes

fun catalog_query_error_code :: "catalog_query_error \<Rightarrow> bytes" where
  "catalog_query_error_code QuerySqlite = ''catalog_query_sqlite''"
| "catalog_query_error_code QueryOutput = ''output_failed''"
| "catalog_query_error_code (InvalidFilter _) = ''invalid_filter''"
| "catalog_query_error_code InvalidContinuation = ''invalid_continuation''"
| "catalog_query_error_code StaleContinuation = ''stale_continuation''"
| "catalog_query_error_code (ObjectNotFound _) = ''not_found''"

record file_location_group =
  gr_location_ids :: "bytes list"
  gr_negated :: bool
  gr_verified_within_ms :: "u64 option"

record catalog_file_filter =
  ff_collection_id :: "bytes option"
  ff_object_id :: "bytes option"
  ff_identity_state :: "bytes option"
  ff_exact_path :: "encoded_path option"
  ff_path_prefix :: "encoded_path option"
  ff_location_groups :: "file_location_group list"
  ff_as_of_utc_ms :: "u64 option"

record catalog_object_request =
  rq_filter :: catalog_file_filter
  rq_limit :: nat
  rq_continuation :: "bytes option"

record catalog_object_path =
  op_object_id :: bytes
  op_collection_id :: bytes
  op_relative_path :: lossless_path

record catalog_object = catalog_object_path +
  oj_expected_blake3 :: "digest option"
  oj_expected_size_bytes :: "u64 option"

record catalog_object_page =
  pg_objects :: "catalog_object list"
  pg_next :: "bytes option"
  pg_as_of_utc_ms :: u64
  pg_unresolved_identities_excluded :: bool

record catalog_file =
  cf_location_id :: bytes
  cf_location_name :: bytes
  cf_presence :: presence
  cf_integrity :: integrity
  cf_last_check_time_utc_ms :: "int option"
  cf_last_check_result :: "check_result option"
  cf_observed_blake3 :: "digest option"
  cf_last_success_time_utc_ms :: "int option"

record cursor =
  cu_archive_id :: bytes
  cu_revision :: int
  cu_filter_hash :: bytes
  cu_as_of :: u64
  cu_collection :: bytes
  cu_encoding :: bytes
  cu_path :: bytes

type_synonym filter_identity =
  "bytes option \<times> bytes option \<times> bytes option \<times> (bytes \<times> bytes) option \<times> (bytes \<times> bytes) option
   \<times> file_location_group list"

record query_codec =
  hash_identity :: "filter_identity \<Rightarrow> bytes"
  cursor_to_token :: "cursor \<Rightarrow> bytes"
  cursor_from_token :: "bytes \<Rightarrow> cursor option"
  url_safe_encode :: "bytes \<Rightarrow> bytes"

section \<open>The selection\<close>

type_synonym clause = "catalog \<Rightarrow> object_row \<Rightarrow> bool"

text \<open>A copy that counts for a location group; \<open>bounds\<close> is the age restriction.\<close>

definition healthy_copy :: "object_row \<Rightarrow> bytes list \<Rightarrow> (int \<times> int) option \<Rightarrow> file_row \<Rightarrow> bool" where
  "healthy_copy r locations bounds f \<longleftrightarrow>
     fi_object_id f = ob_object_id r \<and> List.member locations (fi_location_id f)
     \<and> fi_presence f = Present \<and> fi_integrity f = Verified \<and> fi_last_check_result f = Some Ok
     \<and> fi_observed_blake3 f = ob_expected_blake3 r \<and> ob_expected_blake3 r \<noteq> None
     \<and> (case fi_last_success_time_utc_ms f of
          None \<Rightarrow> False
        | Some t \<Rightarrow> (case bounds of None \<Rightarrow> True | Some (lo, hi) \<Rightarrow> lo \<le> t \<and> t \<le> hi))"

definition group_bounds :: "u64 \<Rightarrow> file_location_group \<Rightarrow> (int \<times> int) option" where
  "group_bounds as_of g =
     (case gr_verified_within_ms g of
        None \<Rightarrow> None
      | Some age \<Rightarrow> Some (uint (saturating_sub as_of age), uint as_of))"

definition group_clause :: "u64 \<Rightarrow> file_location_group \<Rightarrow> clause" where
  "group_clause as_of g c r =
     (list_ex (healthy_copy r (gr_location_ids g) (group_bounds as_of g)) (ca_files c)
        \<noteq> gr_negated g)"

fun group_clauses :: "u64 \<Rightarrow> file_location_group list \<Rightarrow> catalog_query_error + clause list" where
  "group_clauses as_of [] = Inr []"
| "group_clauses as_of (g # groups) =
     (if gr_location_ids g = [] then Inl (InvalidFilter ''Location group cannot be empty'')
      else ebind (group_clauses as_of groups) (\<lambda>cs. Inr (group_clause as_of g # cs)))"

definition identity_clauses :: "bytes option \<Rightarrow> catalog_query_error + clause list" where
  "identity_clauses state =
     (case state of
        None \<Rightarrow> Inr []
      | Some s \<Rightarrow>
          if s = ''resolved'' then Inr [\<lambda>_ r. ob_expected_blake3 r \<noteq> None]
          else if s = ''unresolved'' \<or> s = ''unknown'' then Inr [\<lambda>_ r. ob_expected_blake3 r = None]
          else Inl (InvalidFilter (''unsupported identity state: '' @ s)))"

definition path_clauses :: "catalog_file_filter \<Rightarrow> clause list" where
  "path_clauses flt =
     (case (ff_exact_path flt, ff_path_prefix flt) of
        (Some p, _) \<Rightarrow>
          [\<lambda>_ r. ob_path_encoding r = encoding_as_str (ep_encoding p), \<lambda>_ r. ob_path_bytes r = ep_bytes p]
      | (None, Some p) \<Rightarrow>
          [\<lambda>_ r. ob_path_encoding r = encoding_as_str (ep_encoding p), \<lambda>_ r. ep_bytes p \<le> ob_path_bytes r]
          @ (case prefix_upper_bound (ep_bytes p) of
               Some upper \<Rightarrow> [\<lambda>_ r. ob_path_bytes r < upper] | None \<Rightarrow> [])
      | (None, None) \<Rightarrow> [])"

definition selection_predicate :: "catalog_file_filter \<Rightarrow> u64 \<Rightarrow> catalog_query_error + clause list" where
  "selection_predicate flt as_of =
     ebind (ensure (uint as_of \<le> i64_max) (InvalidFilter ''time exceeds SQLite range'')) (\<lambda>_.
     ebind (ensure (\<not> (ff_exact_path flt \<noteq> None \<and> ff_path_prefix flt \<noteq> None))
       (InvalidFilter ''choose exact path or prefix'')) (\<lambda>_.
     ebind (ensure (length (ff_location_groups flt) \<le> 32
                    \<and> sum_list (map (\<lambda>g. length (gr_location_ids g)) (ff_location_groups flt)) \<le> 2048)
       (InvalidFilter ''too many Location selectors'')) (\<lambda>_.
     ebind (identity_clauses (ff_identity_state flt)) (\<lambda>identity.
     ebind (group_clauses as_of (ff_location_groups flt)) (\<lambda>groups.
     Inr ((case ff_collection_id flt of None \<Rightarrow> [] | Some k \<Rightarrow> [\<lambda>_ r. ob_collection_id r = k])
          @ (case ff_object_id flt of None \<Rightarrow> [] | Some i \<Rightarrow> [\<lambda>_ r. ob_object_id r = i])
          @ identity @ path_clauses flt
          @ (if ff_location_groups flt \<noteq> [] then [\<lambda>_ r. ob_expected_blake3 r \<noteq> None] else [])
          @ groups))))))"

definition holds :: "clause list \<Rightarrow> clause" where
  "holds clauses c r = list_all (\<lambda>cl. cl c r) clauses"

text \<open>The rows of a selection in the order of the listing, the SQL text \<open>ORDER\<close>.\<close>

definition path_key :: "object_row \<Rightarrow> bytes \<times> bytes \<times> bytes" where
  "path_key r = (ob_collection_id r, ob_path_encoding r, ob_path_bytes r)"

definition selected :: "clause list \<Rightarrow> catalog \<Rightarrow> object_row list" where
  "selected clauses c = sort_key path_key (filter (holds clauses c) (ca_objects c))"

section \<open>Reading rows\<close>

definition lossless_of_row :: "query_codec \<Rightarrow> object_row \<Rightarrow> lossless_path" where
  "lossless_of_row codec r =
     (let text = (if ob_path_encoding r = ''utf8'' \<and> is_utf8 (ob_path_bytes r)
                  then Some (ob_path_bytes r) else None)
      in \<lparr>lp_encoding = ob_path_encoding r, lp_display = ob_path_display r, lp_text = text,
          lp_base64 = (if text = None then Some (url_safe_encode codec (ob_path_bytes r)) else None)\<rparr>)"

definition read_path :: "query_codec \<Rightarrow> object_row \<Rightarrow> catalog_object_path \<times> bytes" where
  "read_path codec r =
     (\<lparr>op_object_id = ob_object_id r, op_collection_id = ob_collection_id r,
       op_relative_path = lossless_of_row codec r\<rparr>, ob_path_bytes r)"

text \<open>The hexadecimal text of a digest is represented by the digest.\<close>

definition read_object :: "query_codec \<Rightarrow> object_row \<Rightarrow> catalog_object \<times> bytes" where
  "read_object codec r =
     (\<lparr>op_object_id = ob_object_id r, op_collection_id = ob_collection_id r,
       op_relative_path = lossless_of_row codec r, oj_expected_blake3 = ob_expected_blake3 r,
       oj_expected_size_bytes = map_option of_int (ob_expected_size_bytes r)\<rparr>, ob_path_bytes r)"

section \<open>Pages\<close>

definition filter_hash :: "query_codec \<Rightarrow> catalog_file_filter \<Rightarrow> bytes" where
  "filter_hash codec flt =
     (let path = map_option (\<lambda>p. (encoding_as_str (ep_encoding p), ep_bytes p)) in
      hash_identity codec
        (ff_collection_id flt, ff_object_id flt, ff_identity_state flt,
         path (ff_exact_path flt), path (ff_path_prefix flt), ff_location_groups flt))"

definition append_cursor ::
  "clause list \<Rightarrow> catalog_file_filter \<Rightarrow> bytes \<Rightarrow> bytes \<Rightarrow> bytes \<Rightarrow> clause list" where
  "append_cursor clauses flt collection encoding path =
     clauses @
     (if ff_collection_id flt \<noteq> None
      then [\<lambda>_ r. (encoding, path) < (ob_path_encoding r, ob_path_bytes r)]
      else [\<lambda>_ r. (collection, encoding, path) < path_key r])"

definition read_cursor :: "query_codec \<Rightarrow> bytes option \<Rightarrow> catalog_query_error + cursor option" where
  "read_cursor codec continuation =
     (case continuation of
        None \<Rightarrow> Inr None
      | Some token \<Rightarrow>
          ebind (ensure (length token \<le> 1048576) InvalidContinuation) (\<lambda>_.
          ebind (ok_or (cursor_from_token codec token) InvalidContinuation) (\<lambda>cu.
          Inr (Some cu))))"

definition page_time ::
  "query_codec \<Rightarrow> catalog_file_filter \<Rightarrow> cursor option \<Rightarrow> u64 \<Rightarrow> catalog \<Rightarrow> catalog_query_error + u64" where
  "page_time codec flt cu now c =
     (case cu of
        Some cu \<Rightarrow>
          ebind (ensure (cu_archive_id cu = ca_archive_id c \<and> cu_revision cu = ca_revision c)
            StaleContinuation) (\<lambda>_.
          ebind (ensure (cu_filter_hash cu = filter_hash codec flt
                         \<and> (case ff_as_of_utc_ms flt of None \<Rightarrow> True | Some t \<Rightarrow> t = cu_as_of cu))
            InvalidContinuation) (\<lambda>_.
          Inr (cu_as_of cu)))
      | None \<Rightarrow> Inr (case ff_as_of_utc_ms flt of Some t \<Rightarrow> t | None \<Rightarrow> now))"

definition row_cursor ::
  "query_codec \<Rightarrow> catalog_file_filter \<Rightarrow> u64 \<Rightarrow> catalog \<Rightarrow> object_row \<Rightarrow> cursor" where
  "row_cursor codec flt as_of c r =
     \<lparr>cu_archive_id = ca_archive_id c, cu_revision = ca_revision c,
      cu_filter_hash = filter_hash codec flt, cu_as_of = as_of,
      cu_collection = ob_collection_id r, cu_encoding = ob_path_encoding r,
      cu_path = ob_path_bytes r\<rparr>"

definition make_page ::
  "query_codec \<Rightarrow> catalog_object_request \<Rightarrow> u64 \<Rightarrow> clause list \<Rightarrow> catalog \<Rightarrow> catalog_object_page" where
  "make_page codec request as_of clauses c =
     (let rows = take (rq_limit request + 1) (selected clauses c);
          more = rq_limit request < length rows;
          records = take (rq_limit request) rows
      in \<lparr>pg_objects = map (\<lambda>r. fst (read_object codec r)) records,
          pg_next = (if more then
             Some (cursor_to_token codec (row_cursor codec (rq_filter request) as_of c (last records)))
             else None),
          pg_as_of_utc_ms = as_of,
          pg_unresolved_identities_excluded = (ff_location_groups (rq_filter request) \<noteq> [])\<rparr>)"

definition find_objects ::
  "query_codec \<Rightarrow> u64 \<Rightarrow> catalog_object_request \<Rightarrow> catalog \<Rightarrow> catalog_query_error + catalog_object_page" where
  "find_objects codec now request c =
     ebind (ensure (1 \<le> rq_limit request \<and> rq_limit request \<le> MAX_PAGE)
       (InvalidFilter ''page limit must be 1..1000'')) (\<lambda>_.
     ebind (read_cursor codec (rq_continuation request)) (\<lambda>cu.
     ebind (page_time codec (rq_filter request) cu now c) (\<lambda>as_of.
     ebind (selection_predicate (rq_filter request) as_of) (\<lambda>clauses.
     Inr (make_page codec request as_of
       (case cu of None \<Rightarrow> clauses
        | Some cu \<Rightarrow> append_cursor clauses (rq_filter request) (cu_collection cu) (cu_encoding cu)
                      (cu_path cu)) c)))))"

text \<open>The streaming listing: the visited paths and their number.\<close>

definition visit_objects ::
  "query_codec \<Rightarrow> u64 \<Rightarrow> catalog_file_filter \<Rightarrow> catalog \<Rightarrow>
   catalog_query_error + catalog_object_path list \<times> nat" where
  "visit_objects codec now flt c =
     ebind (selection_predicate flt (case ff_as_of_utc_ms flt of Some t \<Rightarrow> t | None \<Rightarrow> now))
       (\<lambda>clauses. let rows = selected clauses c in
         Inr (map (\<lambda>r. fst (read_path codec r)) rows, length rows))"

definition review_file :: "catalog \<Rightarrow> file_row \<Rightarrow> catalog_file option" where
  "review_file c f =
     map_option (\<lambda>l. \<lparr>cf_location_id = fi_location_id f, cf_location_name = lr_display_name l,
          cf_presence = fi_presence f, cf_integrity = fi_integrity f,
          cf_last_check_time_utc_ms = fi_last_check_time_utc_ms f,
          cf_last_check_result = fi_last_check_result f,
          cf_observed_blake3 = fi_observed_blake3 f,
          cf_last_success_time_utc_ms = fi_last_success_time_utc_ms f\<rparr>)
       (lookup_by lr_location_id (fi_location_id f) (ca_locations c))"

definition show_object ::
  "query_codec \<Rightarrow> bytes \<Rightarrow> catalog \<Rightarrow> catalog_query_error + catalog_object \<times> catalog_file list" where
  "show_object codec object_id c =
     ebind (ok_or (lookup_by ob_object_id object_id (ca_objects c)) (ObjectNotFound object_id)) (\<lambda>r.
     Inr (fst (read_object codec r),
          List.map_filter (review_file c)
            (sort_key fi_location_id (filter (\<lambda>f. fi_object_id f = object_id) (ca_files c)))))"

section \<open>Order and cursors\<close>

lemma selected_append: "selected (clauses @ clauses') c = filter (holds clauses' c) (selected clauses c)"
proof -
  have "holds (clauses @ clauses') c = (\<lambda>r. holds clauses c r \<and> holds clauses' c r)"
    by (auto simp: holds_def fun_eq_iff)
  then show ?thesis
    by (simp only: selected_def filter_sort filter_filter)
qed

lemma set_selected: "set (selected clauses c) = {r \<in> set (ca_objects c). holds clauses c r}"
  by (simp add: selected_def)

lemma strictly_sorted_selected:
  assumes "schema_ok c"
  shows "sorted_wrt (\<lambda>a b. path_key a < path_key b) (selected clauses c)"
proof -
  have "distinct (map path_key (ca_objects c))"
    using schema_ok_distinct_objects(2) [OF assms] by (simp add: path_key_def [abs_def])
  then have "distinct (map path_key (filter (holds clauses c) (ca_objects c)))"
    by (rule distinct_map_filter)
  then have "distinct (map path_key (selected clauses c))"
    by (simp add: selected_def distinct_map distinct_sort)
  moreover have "sorted (map path_key (selected clauses c))"
    by (simp add: selected_def)
  ultimately show ?thesis
    using strict_sorted_iff [of "map path_key (selected clauses c)"] by (simp add: sorted_wrt_map)
qed

lemma filter_after:
  assumes "sorted_wrt (\<lambda>a b. f a < f b) xs" "k < length xs"
  shows "filter (\<lambda>r. (f (xs ! k) :: 'k::linorder) < f r) xs = drop (Suc k) xs"
  using assms
proof (induction xs arbitrary: k)
  case (Cons x xs)
  show ?case
  proof (cases k)
    case 0
    with Cons.prems show ?thesis by (simp add: filter_id_conv)
  next
    case (Suc j)
    with Cons.prems have "xs ! j \<in> set xs" by simp
    with Cons.prems(1) have "\<not> f (xs ! j) < f x" by auto
    with Suc Cons show ?thesis by simp
  qed
qed simp

text \<open>Continuing after a row of the selection leaves exactly the rows behind it.\<close>

lemma selected_after:
  assumes "schema_ok c" and "selection_predicate flt as_of = Inr clauses"
    and "k < length (selected clauses c)"
  defines "r \<equiv> selected clauses c ! k"
  shows "selected (append_cursor clauses flt (ob_collection_id r) (ob_path_encoding r)
      (ob_path_bytes r)) c = drop (Suc k) (selected clauses c)"
proof -
  let ?S = "selected clauses c"
  let ?cursor = "if ff_collection_id flt \<noteq> None
      then [\<lambda>_ x. (ob_path_encoding r, ob_path_bytes r) < (ob_path_encoding x, ob_path_bytes x)]
      else [\<lambda>_ x. (ob_collection_id r, ob_path_encoding r, ob_path_bytes r) < path_key x]"
  have "holds ?cursor c x = (path_key r < path_key x)" if x: "x \<in> set ?S" for x
  proof (cases "ff_collection_id flt")
    case None
    then show ?thesis by (simp add: holds_def path_key_def)
  next
    case (Some k0)
    have "ob_collection_id y = k0" if "y \<in> set ?S" for y
      using that assms(2) Some
      by (auto simp: set_selected holds_def selection_predicate_def ebind_eq_Inr split: if_splits)
    moreover have "r \<in> set ?S" using assms(3) by (simp add: r_def)
    ultimately have "ob_collection_id x = ob_collection_id r" using x by metis
    with Some show ?thesis by (simp add: holds_def path_key_def)
  qed
  then have "filter (holds ?cursor c) ?S = filter (\<lambda>x. path_key r < path_key x) ?S"
    by (intro filter_cong) simp_all
  also have "\<dots> = drop (Suc k) ?S"
    unfolding r_def by (rule filter_after [OF strictly_sorted_selected [OF assms(1)] assms(3)])
  finally show ?thesis by (simp only: append_cursor_def selected_append)
qed

section \<open>Following the continuation tokens\<close>

text \<open>
  A client that asks for page after page, at times \<open>now n\<close>; fuel bounds the number of
  requests, and running out of it is an error.
\<close>

fun all_pages ::
  "nat \<Rightarrow> query_codec \<Rightarrow> (nat \<Rightarrow> u64) \<Rightarrow> catalog_object_request \<Rightarrow> catalog \<Rightarrow>
   catalog_query_error + catalog_object list" where
  "all_pages 0 codec now request c = Inl QueryOutput"
| "all_pages (Suc n) codec now request c =
     ebind (find_objects codec (now n) request c) (\<lambda>page.
     case pg_next page of
       None \<Rightarrow> Inr (pg_objects page)
     | Some token \<Rightarrow>
         ebind (all_pages n codec now (request\<lparr>rq_continuation := Some token\<rparr>) c) (\<lambda>rest.
         Inr (pg_objects page @ rest)))"

text \<open>The token of a row can be read back and is not too long.\<close>

definition token_ok :: "query_codec \<Rightarrow> cursor \<Rightarrow> bool" where
  "token_ok codec cu \<longleftrightarrow> cursor_from_token codec (cursor_to_token codec cu) = Some cu
     \<and> length (cursor_to_token codec cu) \<le> 1048576"

lemma make_page_drop:
  assumes "selected clauses c = drop k (selected base c)"
  shows "pg_objects (make_page codec request as_of clauses c) =
      map (\<lambda>r. fst (read_object codec r)) (take (rq_limit request) (drop k (selected base c)))"
    and "length (selected base c) \<le> k + rq_limit request \<Longrightarrow>
      pg_next (make_page codec request as_of clauses c) = None"
    and "k + rq_limit request < length (selected base c) \<Longrightarrow> 1 \<le> rq_limit request \<Longrightarrow>
      pg_next (make_page codec request as_of clauses c) =
        Some (cursor_to_token codec (row_cursor codec (rq_filter request) as_of c
          (selected base c ! (k + rq_limit request - 1))))"
proof -
  let ?S = "selected base c"
  have rows: "take (rq_limit request) (take (rq_limit request + 1) (drop k ?S)) = take (rq_limit request) (drop k ?S)"
    by (simp add: min_def)
  show "pg_objects (make_page codec request as_of clauses c) =
      map (\<lambda>r. fst (read_object codec r)) (take (rq_limit request) (drop k ?S))"
    using rows by (simp add: make_page_def assms Let_def)
  show "pg_next (make_page codec request as_of clauses c) = None" if "length ?S \<le> k + rq_limit request"
    using that by (simp add: make_page_def assms Let_def)
  assume more: "k + rq_limit request < length ?S" "1 \<le> rq_limit request"
  have "last (take (rq_limit request) (drop k ?S)) = ?S ! (k + rq_limit request - 1)"
    using more by (simp add: last_conv_nth)
  with more rows show "pg_next (make_page codec request as_of clauses c) =
        Some (cursor_to_token codec (row_cursor codec (rq_filter request) as_of c
          (?S ! (k + rq_limit request - 1))))"
    by (simp add: make_page_def assms Let_def)
qed

lemma find_objects_continued:
  assumes "token_ok codec (row_cursor codec (rq_filter request) as_of c r)"
    and "rq_continuation request = Some (cursor_to_token codec (row_cursor codec (rq_filter request) as_of c r))"
    and "1 \<le> rq_limit request" "rq_limit request \<le> MAX_PAGE"
    and "selection_predicate (rq_filter request) as_of = Inr clauses"
    and "ff_as_of_utc_ms (rq_filter request) = None \<or> ff_as_of_utc_ms (rq_filter request) = Some as_of"
  shows "find_objects codec now request c = Inr (make_page codec request as_of
    (append_cursor clauses (rq_filter request) (ob_collection_id r) (ob_path_encoding r) (ob_path_bytes r)) c)"
proof -
  let ?cu = "row_cursor codec (rq_filter request) as_of c r"
  have "read_cursor codec (rq_continuation request) = Inr (Some ?cu)"
    using assms(1,2) by (simp add: read_cursor_def token_ok_def)
  moreover have "page_time codec (rq_filter request) (Some ?cu) now c = Inr as_of"
    using assms(6) by (auto simp: page_time_def row_cursor_def)
  ultimately show ?thesis
    using assms(3-5) by (simp add: find_objects_def row_cursor_def)
qed

text \<open>The request after a full page that is not the last one.\<close>

definition next_request :: "query_codec \<Rightarrow> catalog_object_request \<Rightarrow> u64 \<Rightarrow> catalog \<Rightarrow> object_row \<Rightarrow>
    catalog_object_request" where
  "next_request codec request as_of c r = request\<lparr>rq_continuation := Some (cursor_to_token codec
     (row_cursor codec (rq_filter request) as_of c r))\<rparr>"

lemma next_request_simps [simp]:
  "rq_filter (next_request codec request as_of c r) = rq_filter request"
  "rq_limit (next_request codec request as_of c r) = rq_limit request"
  by (simp_all add: next_request_def)

lemma next_page:
  assumes "schema_ok c" and lim: "1 \<le> rq_limit request" "rq_limit request \<le> MAX_PAGE"
    and sel: "selection_predicate (rq_filter request) as_of = Inr base"
    and time: "ff_as_of_utc_ms (rq_filter request) = None \<or> ff_as_of_utc_ms (rq_filter request) = Some as_of"
    and tok: "\<forall>r\<in>set (ca_objects c). token_ok codec (row_cursor codec (rq_filter request) as_of c r)"
    and more: "k + rq_limit request < length (selected base c)"
  defines "r \<equiv> selected base c ! (k + rq_limit request - 1)"
  obtains clauses where
    "\<And>now. find_objects codec now (next_request codec request as_of c r) c
       = Inr (make_page codec (next_request codec request as_of c r) as_of clauses c)"
    "selected clauses c = drop (k + rq_limit request) (selected base c)"
proof
  let ?clauses = "append_cursor base (rq_filter request) (ob_collection_id r) (ob_path_encoding r) (ob_path_bytes r)"
  have "r \<in> set (ca_objects c)"
    using more lim set_selected [of base c] nth_mem [of "k + rq_limit request - 1" "selected base c"]
    by (auto simp: r_def)
  then show "find_objects codec now (next_request codec request as_of c r) c
       = Inr (make_page codec (next_request codec request as_of c r) as_of ?clauses c)" for now
    using find_objects_continued [of codec "next_request codec request as_of c r" as_of c r base now]
      lim sel time tok by (simp add: next_request_def)
  have "selected ?clauses c = drop (Suc (k + rq_limit request - 1)) (selected base c)"
    unfolding r_def using more lim by (intro selected_after [OF assms(1) sel]) simp
  then show "selected ?clauses c = drop (k + rq_limit request) (selected base c)" using lim by simp
qed

text \<open>From any continuation on, the rest of the selection is listed.\<close>

lemma all_pages_step:
  assumes first: "find_objects codec (now n) request c = Inr (make_page codec request as_of clauses c)"
    and rest: "selected clauses c = drop k (selected base c)" and lim: "1 \<le> rq_limit request"
    and next_pages: "k + rq_limit request < length (selected base c) \<Longrightarrow>
      all_pages n codec now (next_request codec request as_of c
        (selected base c ! (k + rq_limit request - 1))) c =
      Inr (map (\<lambda>r. fst (read_object codec r)) (drop (k + rq_limit request) (selected base c)))"
  shows "all_pages (Suc n) codec now request c =
    Inr (map (\<lambda>r. fst (read_object codec r)) (drop k (selected base c)))"
proof -
  let ?S = "selected base c" and ?l = "rq_limit request"
  note page = make_page_drop [OF rest, where codec = codec and request = request and as_of = as_of]
  show ?thesis
  proof (cases "k + ?l < length ?S")
    case False
    then show ?thesis using page(1,2) first by simp
  next
    case True
    moreover have "take ?l (drop k ?S) @ drop (k + ?l) ?S = drop k ?S"
      by (metis add.commute append_take_drop_id drop_drop)
    ultimately show ?thesis
      using page(1,3) lim first next_pages
      by (simp add: next_request_def flip: map_append)
  qed
qed

lemma all_pages_from:
  assumes "schema_ok c" and lim: "1 \<le> rq_limit request" "rq_limit request \<le> MAX_PAGE"
    and sel: "selection_predicate (rq_filter request) as_of = Inr base"
    and time: "ff_as_of_utc_ms (rq_filter request) = None \<or> ff_as_of_utc_ms (rq_filter request) = Some as_of"
    and tok: "\<forall>r\<in>set (ca_objects c). token_ok codec (row_cursor codec (rq_filter request) as_of c r)"
    and page: "\<And>now. find_objects codec now request c = Inr (make_page codec request as_of clauses c)"
    and rest: "selected clauses c = drop k (selected base c)"
    and fuel: "length (selected base c) < k + n" and k: "k \<le> length (selected base c)"
  shows "all_pages n codec now request c =
    Inr (map (\<lambda>r. fst (read_object codec r)) (drop k (selected base c)))"
  using lim sel time tok page rest fuel k
proof (induction n arbitrary: request k clauses)
  case (Suc n)
  show ?case
  proof (rule all_pages_step [where now = now and n = n, OF Suc.prems(6,7,1)])
    assume more: "k + rq_limit request < length (selected base c)"
    let ?next = "next_request codec request as_of c (selected base c ! (k + rq_limit request - 1))"
    obtain clauses' where
      "\<And>now. find_objects codec now ?next c = Inr (make_page codec ?next as_of clauses' c)"
      "selected clauses' c = drop (k + rq_limit request) (selected base c)"
      using next_page [OF assms(1) Suc.prems(1-5) more] by blast
    then show "all_pages n codec now ?next c =
      Inr (map (\<lambda>r. fst (read_object codec r)) (drop (k + rq_limit request) (selected base c)))"
      by (intro Suc.IH) (use Suc.prems more in simp_all)
  qed
qed simp

text \<open>
  C18. Pagination is complete and repeats nothing: a client that starts without a
  continuation and follows the tokens, whatever the clock does between its requests, receives
  every object of the selection frozen at the first request exactly once, in the order of the
  listing, and needs at most one request more than there are selected objects.
\<close>

theorem pagination_complete:
  assumes "schema_ok c" and "1 \<le> rq_limit request" and "rq_limit request \<le> MAX_PAGE"
    and "rq_continuation request = None"
    and "as_of = (case ff_as_of_utc_ms (rq_filter request) of Some t \<Rightarrow> t | None \<Rightarrow> now n)"
    and "selection_predicate (rq_filter request) as_of = Inr clauses"
    and "\<forall>r\<in>set (ca_objects c). token_ok codec (row_cursor codec (rq_filter request) as_of c r)"
    and "length (selected clauses c) \<le> n"
  shows "all_pages (Suc n) codec now request c =
      Inr (map (\<lambda>r. fst (read_object codec r)) (selected clauses c))
    \<and> distinct (selected clauses c)
    \<and> set (selected clauses c) = {r \<in> set (ca_objects c). holds clauses c r}"
proof -
  have first: "find_objects codec (now n) request c = Inr (make_page codec request as_of clauses c)"
    using assms(2-6) by (simp add: find_objects_def read_cursor_def page_time_def)
  have time: "ff_as_of_utc_ms (rq_filter request) = None \<or> ff_as_of_utc_ms (rq_filter request) = Some as_of"
    using assms(5) by (auto split: option.splits)
  have rest: "selected clauses c = drop 0 (selected clauses c)" by simp
  have "all_pages (Suc n) codec now request c =
      Inr (map (\<lambda>r. fst (read_object codec r)) (drop 0 (selected clauses c)))"
  proof (rule all_pages_step [where now = now and n = n, OF first rest assms(2)])
    assume more: "0 + rq_limit request < length (selected clauses c)"
    let ?next = "next_request codec request as_of c (selected clauses c ! (0 + rq_limit request - 1))"
    obtain clauses' where
      "\<And>now. find_objects codec now ?next c = Inr (make_page codec ?next as_of clauses' c)"
      "selected clauses' c = drop (0 + rq_limit request) (selected clauses c)"
      using next_page [OF assms(1-3,6) time assms(7) more] by blast
    then show "all_pages n codec now ?next c =
      Inr (map (\<lambda>r. fst (read_object codec r)) (drop (0 + rq_limit request) (selected clauses c)))"
      by (intro all_pages_from [OF assms(1)]) (use assms time more in simp_all)
  qed
  moreover have "distinct (selected clauses c)"
  proof -
    have "distinct (ca_objects c)"
      using schema_ok_distinct_objects(1) [OF assms(1)] by (simp add: distinct_map)
    then show ?thesis by (simp add: selected_def)
  qed
  ultimately show ?thesis using set_selected [of clauses c] by simp
qed

text \<open>Three objects listed in pages of one, with tokens that carry the path of the last row.\<close>

definition sample_query_codec :: query_codec where
  "sample_query_codec =
     \<lparr>hash_identity = (\<lambda>_. ''h''),
      cursor_to_token = (\<lambda>cu. cu_path cu),
      cursor_from_token = (\<lambda>t. Some \<lparr>cu_archive_id = ''a'', cu_revision = 0, cu_filter_hash = ''h'',
        cu_as_of = 9, cu_collection = ''c'', cu_encoding = ''utf8'', cu_path = t\<rparr>),
      url_safe_encode = id\<rparr>"

definition sample_row :: "bytes \<Rightarrow> object_row" where
  "sample_row i =
     \<lparr>ob_object_id = i, ob_collection_id = ''c'', ob_path_encoding = ''utf8'', ob_path_bytes = i,
      ob_path_display = i, ob_expected_blake3 = Some 1, ob_expected_size_bytes = Some 42\<rparr>"

definition sample_list :: catalog where
  "sample_list = sample_catalog\<lparr>ca_objects := [sample_row ''z'', sample_row ''x'', sample_row ''y'']\<rparr>"

definition sample_filter :: catalog_file_filter where
  "sample_filter = \<lparr>ff_collection_id = Some ''c'', ff_object_id = None, ff_identity_state = None,
     ff_exact_path = None, ff_path_prefix = None, ff_location_groups = [], ff_as_of_utc_ms = Some 9\<rparr>"

definition sample_request :: catalog_object_request where
  "sample_request = \<lparr>rq_filter = sample_filter, rq_limit = 1, rq_continuation = None\<rparr>"

theorem pagination_complete_witness:
  "all_pages 4 sample_query_codec (\<lambda>_. 0) sample_request sample_list
     = Inr (map (\<lambda>r. fst (read_object sample_query_codec r)) [sample_row ''x'', sample_row ''y'', sample_row ''z''])"
proof -
  let ?sel = "[\<lambda>(_ :: catalog) r. ob_collection_id r = ''c''] :: clause list"
  have ok: "schema_ok sample_list" by code_simp
  have sel: "selection_predicate (rq_filter sample_request) 9 = Inr ?sel"
    by (simp only: selection_predicate_def sample_request_def sample_filter_def identity_clauses_def
        path_clauses_def catalog_object_request.simps catalog_file_filter.simps option.case
        list.case group_clauses.simps ebind_simps prod.case simp_thms list.map sum_list.Nil list.size
        i64_max_def ebind_ensure) simp
  have tok: "\<forall>r\<in>set (ca_objects sample_list).
      token_ok sample_query_codec (row_cursor sample_query_codec (rq_filter sample_request) 9 sample_list r)"
    by (simp add: sample_list_def token_ok_def sample_query_codec_def row_cursor_def sample_row_def
        filter_hash_def sample_catalog_def empty_catalog_def)
  have rows: "selected ?sel sample_list = [sample_row ''x'', sample_row ''y'', sample_row ''z'']"
    by code_simp
  have "all_pages (Suc 3) sample_query_codec (\<lambda>_. 0) sample_request sample_list
     = Inr (map (\<lambda>r. fst (read_object sample_query_codec r)) (selected ?sel sample_list))"
    by (rule pagination_complete [OF ok _ _ _ _ sel tok, THEN conjunct1])
      (simp_all add: sample_request_def sample_filter_def MAX_PAGE_def rows)
  then show ?thesis by (simp add: rows)
qed

end
