(* ===== verification/Catalog_Removed.thy ===== *)
theory Catalog_Removed
  imports Catalog_Queries Catalog_Jobs
begin

text \<open>
  Catalog-only removal declarations (\<open>src/src/sqlite_removed.rs\<close>): an operator declares that
  the copies of a selection at one location are gone. The selected objects are frozen before
  the evidence that selects them changes; history, copies and revision commit together. The
  main results: the declaration marks exactly what the preview lists, repeating it changes
  nothing, and a removal guarded by a location group leaves a verified copy elsewhere.

  The temporary table of frozen objects is a list of their IDs; its rows, and with them the
  history rows, are in the order of its primary key.
\<close>

section \<open>Selections\<close>

datatype removed_selection =
    RemovedPath bytes "bytes option" encoded_path
  | RemovedGroups catalog_file_filter

record removed_result =
  rr_location_id :: bytes
  rr_files_marked_missing :: nat

record removal =
  re_target :: bytes
  re_predicate :: "clause list"
  re_single :: bool

definition path_filter :: "bytes option \<Rightarrow> encoded_path \<Rightarrow> catalog_file_filter" where
  "path_filter collection_id path =
     \<lparr>ff_collection_id = collection_id, ff_object_id = None, ff_identity_state = None,
      ff_exact_path = Some path, ff_path_prefix = None, ff_location_groups = [],
      ff_as_of_utc_ms = None\<rparr>"

fun removal_target ::
  "removed_selection \<Rightarrow> catalog_query_error + bytes \<times> catalog_file_filter \<times> bool" where
  "removal_target (RemovedPath location_id collection_id path) =
     Inr (location_id, path_filter collection_id path, True)"
| "removal_target (RemovedGroups flt) =
     (case ff_location_groups flt of
        [] \<Rightarrow> Inl (InvalidFilter ''bulk removal requires a positive target Location group'')
      | first # _ \<Rightarrow>
          if gr_negated first \<or> length (gr_location_ids first) \<noteq> 1
          then Inl (InvalidFilter
            ''the first removal group must be positive and contain exactly one target Location'')
          else Inr (hd (gr_location_ids first), flt, False))"

definition known_at :: "bytes \<Rightarrow> clause" where
  "known_at target c r =
     list_ex (\<lambda>f. fi_object_id f = ob_object_id r \<and> fi_location_id f = target) (ca_files c)"

definition present_at :: "bytes \<Rightarrow> clause" where
  "present_at target c r =
     list_ex (\<lambda>f. fi_object_id f = ob_object_id r \<and> fi_location_id f = target
                   \<and> fi_presence f \<noteq> Missing) (ca_files c)"

definition removal_selection :: "removed_selection \<Rightarrow> u64 \<Rightarrow> catalog_query_error + removal" where
  "removal_selection request time =
     ebind (removal_target request) (\<lambda>(target, flt, single).
     ebind (ensure (target \<noteq> []) (InvalidFilter ''target Location is empty'')) (\<lambda>_.
     ebind (selection_predicate flt (case ff_as_of_utc_ms flt of Some t \<Rightarrow> t | None \<Rightarrow> time)) (\<lambda>clauses.
     Inr \<lparr>re_target = target, re_predicate = clauses @ [known_at target], re_single = single\<rparr>)))"

definition removal_validate :: "removal \<Rightarrow> catalog \<Rightarrow> catalog_query_error + unit" where
  "removal_validate s c =
     ebind (ensure (list_ex (\<lambda>l. lr_location_id l = re_target s \<and> lr_status l = ACTIVE) (ca_locations c))
       (InvalidFilter ''target Location is missing or retired'')) (\<lambda>_.
     ensure (\<not> (re_single s
                 \<and> 1 < length (take 2 (filter (holds (re_predicate s) c) (ca_objects c)))))
       (InvalidFilter
         ''path exists in multiple Collections at this Location; specify --collection''))"

definition affected_predicate :: "removal \<Rightarrow> clause list" where
  "affected_predicate s = re_predicate s @ [present_at (re_target s)]"

section \<open>Preview and declaration\<close>

definition preview_removed ::
  "query_codec \<Rightarrow> removed_selection \<Rightarrow> u64 \<Rightarrow> catalog \<Rightarrow>
   catalog_query_error + lossless_path list \<times> removed_result" where
  "preview_removed codec request time c =
     ebind (removal_selection request time) (\<lambda>s.
     ebind (removal_validate s c) (\<lambda>_.
     let rows = selected (affected_predicate s) c in
     Inr (map (lossless_of_row codec) rows,
          \<lparr>rr_location_id = re_target s, rr_files_marked_missing = length rows\<rparr>)))"

definition quoted :: "bytes \<Rightarrow> bytes" where
  "quoted s = [CHR 0x22] @ s @ [CHR 0x22]"

definition removed_details :: "file_row \<Rightarrow> bytes" where
  "removed_details f =
     ''{'' @ quoted ''catalog_only'' @ '':true,'' @ quoted ''previous_presence'' @ '':'' @
     quoted (presence_str (fi_presence f)) @ '','' @ quoted ''previous_integrity'' @ '':'' @
     quoted (integrity_str (fi_integrity f)) @ ''}''"

text \<open>The copies at the target of the frozen objects.\<close>

definition frozen :: "bytes \<Rightarrow> bytes list \<Rightarrow> file_row \<Rightarrow> bool" where
  "frozen target ids f \<longleftrightarrow> fi_location_id f = target \<and> List.member ids (fi_object_id f)"

definition append_removed :: "bytes \<Rightarrow> bytes list \<Rightarrow> int \<Rightarrow> catalog \<Rightarrow> catalog" where
  "append_removed target ids time c =
     c\<lparr>ca_history := ca_history c @
        map (\<lambda>f. \<lparr>hi_object_id = Some (fi_object_id f), hi_location_id = Some target,
                  hi_time_utc_ms = time, hi_kind = ''file_removed'',
                  hi_check_result = Some MissingResult,
                  hi_expected_blake3 = expected_of (fi_object_id f) c,
                  hi_observed_blake3 = fi_observed_blake3 f,
                  hi_details_json = Some (removed_details f)\<rparr>)
          (sort_key fi_object_id (filter (frozen target ids) (ca_files c)))\<rparr>"

definition to_removed :: "int \<Rightarrow> file_row \<Rightarrow> file_row" where
  "to_removed time f =
     f\<lparr>fi_presence := Missing, fi_integrity := Unverified,
       fi_last_check_time_utc_ms := Some time, fi_last_check_result := Some MissingResult\<rparr>"

definition mark_frozen :: "bytes \<Rightarrow> bytes list \<Rightarrow> int \<Rightarrow> catalog \<Rightarrow> catalog" where
  "mark_frozen target ids time c =
     c\<lparr>ca_files := update_where (frozen target ids) (to_removed time) (ca_files c)\<rparr>"

definition mark_removed ::
  "removed_selection \<Rightarrow> u64 \<Rightarrow> catalog \<Rightarrow> catalog_query_error + catalog \<times> removed_result" where
  "mark_removed request time_utc_ms c =
     ebind (ensure (uint time_utc_ms \<le> i64_max) (InvalidFilter ''time exceeds SQLite range'')) (\<lambda>_.
     ebind (removal_selection request time_utc_ms) (\<lambda>s.
     ebind (removal_validate s c) (\<lambda>_.
     let time = uint time_utc_ms;
         ids = map ob_object_id (filter (holds (affected_predicate s) c) (ca_objects c));
         result = \<lparr>rr_location_id = re_target s, rr_files_marked_missing = length ids\<rparr>
     in
     if 0 < length ids then
       ebind (ensure (\<not> list_ex (\<lambda>f. frozen (re_target s) ids f
                 \<and> (case fi_last_check_time_utc_ms f of None \<Rightarrow> False | Some u \<Rightarrow> time < u)) (ca_files c))
         (InvalidFilter ''removal predates a selected copy's current check'')) (\<lambda>_.
       ebind (exec_sql QuerySqlite (append_removed (re_target s) ids time) c) (\<lambda>c1.
       ebind (exec_sql QuerySqlite (mark_frozen (re_target s) ids time) c1) (\<lambda>c2.
       ebind (exec_sql QuerySqlite bump_revision c2) (\<lambda>c3.
       Inr (c3, result)))))
     else Inr (c, result))))"

section \<open>What a declaration did\<close>

definition affected_ids :: "removal \<Rightarrow> catalog \<Rightarrow> bytes list" where
  "affected_ids s c = map ob_object_id (filter (holds (affected_predicate s) c) (ca_objects c))"

lemma mark_removed_cases:
  assumes "mark_removed request time c = Inr (c', result)"
  obtains s where "uint time \<le> i64_max" "removal_selection request time = Inr s"
    "removal_validate s c = Inr ()"
    "result = \<lparr>rr_location_id = re_target s, rr_files_marked_missing = length (affected_ids s c)\<rparr>"
    "affected_ids s c = [] \<and> c' = c \<or> affected_ids s c \<noteq> [] \<and>
       c' = bump_revision (mark_frozen (re_target s) (affected_ids s c) (uint time)
              (append_removed (re_target s) (affected_ids s c) (uint time) c)) \<and> schema_ok c'"
proof -
  from assms obtain s where s: "uint time \<le> i64_max" "removal_selection request time = Inr s"
    "removal_validate s c = Inr ()" and rest:
    "(if 0 < length (affected_ids s c) then
       ebind (ensure (\<not> list_ex (\<lambda>f. frozen (re_target s) (affected_ids s c) f
                 \<and> (case fi_last_check_time_utc_ms f of None \<Rightarrow> False | Some u \<Rightarrow> uint time < u)) (ca_files c))
         (InvalidFilter ''removal predates a selected copy's current check'')) (\<lambda>_.
       ebind (exec_sql QuerySqlite (append_removed (re_target s) (affected_ids s c) (uint time)) c) (\<lambda>c1.
       ebind (exec_sql QuerySqlite (mark_frozen (re_target s) (affected_ids s c) (uint time)) c1) (\<lambda>c2.
       ebind (exec_sql QuerySqlite bump_revision c2) (\<lambda>c3.
       Inr (c3, \<lparr>rr_location_id = re_target s, rr_files_marked_missing = length (affected_ids s c)\<rparr>)))))
     else Inr (c, \<lparr>rr_location_id = re_target s, rr_files_marked_missing = length (affected_ids s c)\<rparr>))
     = Inr (c', result)"
    unfolding mark_removed_def affected_ids_def [symmetric] Let_def ebind_eq_Inr ensure_eq_Inr by auto
  show thesis
  proof (rule that [OF s])
    show "result = \<lparr>rr_location_id = re_target s, rr_files_marked_missing = length (affected_ids s c)\<rparr>"
      using rest by (auto simp: ebind_eq_Inr exec_sql_eq_Inr split: if_splits)
    show "affected_ids s c = [] \<and> c' = c \<or> affected_ids s c \<noteq> [] \<and>
       c' = bump_revision (mark_frozen (re_target s) (affected_ids s c) (uint time)
              (append_removed (re_target s) (affected_ids s c) (uint time) c)) \<and> schema_ok c'"
      using rest by (auto simp: ebind_eq_Inr exec_sql_eq_Inr split: if_splits)
  qed
qed

lemma removed_tables [simp]:
  "ca_files (mark_frozen target ids t c) = update_where (frozen target ids) (to_removed t) (ca_files c)"
  "ca_objects (mark_frozen target ids t c) = ca_objects c"
  "ca_locations (mark_frozen target ids t c) = ca_locations c"
  "ca_jobs (mark_frozen target ids t c) = ca_jobs c"
  "ca_history (mark_frozen target ids t c) = ca_history c"
  "ca_files (append_removed target ids t c) = ca_files c"
  "ca_objects (append_removed target ids t c) = ca_objects c"
  "ca_locations (append_removed target ids t c) = ca_locations c"
  "ca_jobs (append_removed target ids t c) = ca_jobs c"
  "prefix (ca_history c) (ca_history (append_removed target ids t c))"
  "ca_files (bump_revision c) = ca_files c" "ca_objects (bump_revision c) = ca_objects c"
  "ca_locations (bump_revision c) = ca_locations c" "ca_jobs (bump_revision c) = ca_jobs c"
  "ca_history (bump_revision c) = ca_history c"
  by (simp_all add: mark_frozen_def append_removed_def bump_revision_def)

lemma affected_ids_mem:
  "i \<in> set (affected_ids s c) \<longleftrightarrow>
     (\<exists>r\<in>set (ca_objects c). ob_object_id r = i \<and> holds (affected_predicate s) c r)"
  by (auto simp: affected_ids_def)

lemma frozen_Nil [simp]: "\<not> frozen target [] f"
  by (simp add: frozen_def)

lemma mark_removed_files:
  assumes "mark_removed request time c = Inr (c', result)" "removal_selection request time = Inr s"
  shows "ca_files c' = update_where (frozen (re_target s) (affected_ids s c)) (to_removed (uint time)) (ca_files c)"
    and "ca_objects c' = ca_objects c" and "ca_locations c' = ca_locations c" and "ca_jobs c' = ca_jobs c"
    and "result = \<lparr>rr_location_id = re_target s, rr_files_marked_missing = length (affected_ids s c)\<rparr>"
    and "prefix (ca_history c) (ca_history c')"
  using assms by (auto elim!: mark_removed_cases simp: update_where_id)

lemma trusted_copy_to_removed: "trusted_copy expected (to_removed t f)"
  by (simp add: trusted_copy_def to_removed_def)

lemma mark_removed_invariant:
  assumes "mark_removed request time c = Inr (c', result)" "schema_ok c" "evidence_ok c"
  shows "schema_ok c' \<and> evidence_ok c'"
  using assms(1)
proof (cases rule: mark_removed_cases)
  case (1 s)
  have "evidence_ok c'"
    using assms(3) mark_removed_files(1,2) [OF assms(1) 1(2)]
    by (auto simp: evidence_ok_def expected_of_def list_all_iff set_update_where trusted_copy_to_removed)
  with 1 assms(2) show ?thesis by auto
qed

definition removal_step :: "catalog \<Rightarrow> catalog \<Rightarrow> bool" where
  "removal_step c c' \<longleftrightarrow> (\<exists>request time result. mark_removed request time c = Inr (c', result))"

interpretation removal: transactions removal_step catalog_valid ca_history
proof
  fix c c' assume s: "removal_step c c'" "catalog_valid c"
  then obtain request time result where m: "mark_removed request time c = Inr (c', result)"
    by (auto simp: removal_step_def)
  show "catalog_valid c'" using mark_removed_invariant [OF m] s(2) by (simp add: catalog_valid_def)
  show "prefix (ca_history c) (ca_history c')"
    using m by (rule mark_removed_cases) (auto simp: removed_tables)
qed

section \<open>Selections look at the copies of the object alone\<close>

definition copies_of :: "bytes \<Rightarrow> catalog \<Rightarrow> file_row list" where
  "copies_of i c = filter (\<lambda>f. fi_object_id f = i) (ca_files c)"

definition local_clause :: "clause \<Rightarrow> bool" where
  "local_clause cl \<longleftrightarrow>
     (\<forall>c c' r. copies_of (ob_object_id r) c = copies_of (ob_object_id r) c' \<longrightarrow> cl c r = cl c' r)"

lemma list_ex_copies:
  "(\<And>f. P f \<Longrightarrow> fi_object_id f = i) \<Longrightarrow> list_ex P (ca_files c) = list_ex P (copies_of i c)"
  by (auto simp: list_ex_iff copies_of_def)

lemma local_list_ex:
  assumes "\<And>r f. P r f \<Longrightarrow> fi_object_id f = ob_object_id r"
  shows "local_clause (\<lambda>c r. g r (list_ex (P r) (ca_files c)))"
  using list_ex_copies [of "P _", OF assms] by (simp add: local_clause_def)

lemma local_known_at: "local_clause (known_at target)"
  unfolding known_at_def [abs_def] by (rule local_list_ex [of _ "\<lambda>_ b. b"]) simp

lemma local_present_at: "local_clause (present_at target)"
  unfolding present_at_def [abs_def] by (rule local_list_ex [of _ "\<lambda>_ b. b"]) simp

lemma local_group_clause: "local_clause (group_clause as_of grp)"
  unfolding group_clause_def [abs_def]
  by (rule local_list_ex [of _ "\<lambda>_ b. b \<noteq> gr_negated grp"]) (simp add: healthy_copy_def)

lemma local_row_clause: "local_clause (\<lambda>_ r. P r)"
  by (simp add: local_clause_def)

lemma group_clauses_set:
  "group_clauses as_of gs = Inr cs \<Longrightarrow> set cs = group_clause as_of ` set gs"
  by (induction gs arbitrary: cs) (auto simp: ebind_eq_Inr split: if_splits)

lemma selection_predicate_Inr:
  assumes "selection_predicate flt as_of = Inr clauses"
  obtains identity groups where "identity_clauses (ff_identity_state flt) = Inr identity"
    "group_clauses as_of (ff_location_groups flt) = Inr groups"
    "(case ff_collection_id flt of None \<Rightarrow> [] | Some k \<Rightarrow> [\<lambda>_ r. ob_collection_id r = k])
          @ (case ff_object_id flt of None \<Rightarrow> [] | Some i \<Rightarrow> [\<lambda>_ r. ob_object_id r = i])
          @ identity @ path_clauses flt
          @ (if ff_location_groups flt \<noteq> [] then [\<lambda>_ r. ob_expected_blake3 r \<noteq> None] else [])
          @ groups = clauses"
  using assms unfolding selection_predicate_def ebind_eq_Inr ensure_eq_Inr
  by (elim exE conjE) (rule that, assumption, assumption, simp only: sum.inject)

lemma selection_predicate_local:
  assumes "selection_predicate flt as_of = Inr clauses" "cl \<in> set clauses"
  shows "local_clause cl"
  using assms(1)
proof (rule selection_predicate_Inr)
  fix identity groups
  assume i: "identity_clauses (ff_identity_state flt) = Inr identity"
    and g: "group_clauses as_of (ff_location_groups flt) = Inr groups"
    and c: "(case ff_collection_id flt of None \<Rightarrow> [] | Some k \<Rightarrow> [\<lambda>_ r. ob_collection_id r = k])
          @ (case ff_object_id flt of None \<Rightarrow> [] | Some i \<Rightarrow> [\<lambda>_ r. ob_object_id r = i])
          @ identity @ path_clauses flt
          @ (if ff_location_groups flt \<noteq> [] then [\<lambda>_ r. ob_expected_blake3 r \<noteq> None] else [])
          @ groups = clauses"
  have "local_clause cl" if "cl \<in> set identity"
    using that i by (auto simp: identity_clauses_def local_row_clause split: option.splits if_splits)
  moreover have "local_clause cl" if "cl \<in> set (path_clauses flt)"
    using that by (auto simp: path_clauses_def local_row_clause split: option.splits)
  moreover have "local_clause cl" if "cl \<in> set groups"
    using that group_clauses_set [OF g] by (auto simp: local_group_clause)
  ultimately show ?thesis
    using assms(2) by (auto simp flip: c simp: local_row_clause split: option.splits if_splits)
qed

lemma removal_selection_Inr:
  assumes "removal_selection request time = Inr s"
  obtains flt single clauses where "removal_target request = Inr (re_target s, flt, single)"
    "selection_predicate flt (case ff_as_of_utc_ms flt of Some t \<Rightarrow> t | None \<Rightarrow> time) = Inr clauses"
    "re_predicate s = clauses @ [known_at (re_target s)]" "re_single s = single"
proof -
  obtain target flt single where t: "removal_target request = Inr (target, flt, single)"
    using assms unfolding removal_selection_def ebind_eq_Inr by auto
  with assms obtain clauses where
    "selection_predicate flt (case ff_as_of_utc_ms flt of Some t \<Rightarrow> t | None \<Rightarrow> time) = Inr clauses"
    and s: "s = \<lparr>re_target = target, re_predicate = clauses @ [known_at target], re_single = single\<rparr>"
    unfolding removal_selection_def t ebind_simps prod.case ebind_eq_Inr ensure_eq_Inr by auto
  with t show thesis by (intro that) simp_all
qed

lemma removal_predicate_local:
  assumes "removal_selection request time = Inr s" "cl \<in> set (affected_predicate s)"
  shows "local_clause cl"
  using assms(1)
proof (rule removal_selection_Inr)
  fix flt single clauses
  assume sel: "selection_predicate flt (case ff_as_of_utc_ms flt of Some t \<Rightarrow> t | None \<Rightarrow> time) = Inr clauses"
    and p: "re_predicate s = clauses @ [known_at (re_target s)]"
  from assms(2) have "cl \<in> set clauses \<or> cl = known_at (re_target s) \<or> cl = present_at (re_target s)"
    by (auto simp: affected_predicate_def p)
  then show ?thesis
    using selection_predicate_local [OF sel] local_known_at local_present_at by blast
qed

lemma copies_of_unaffected:
  assumes "ca_files c' = update_where (frozen target ids) (to_removed t) (ca_files c)" "i \<notin> set ids"
  shows "copies_of i c' = copies_of i c"
proof -
  have "filter (\<lambda>f. fi_object_id f = i) (map (\<lambda>f. if frozen target ids f then to_removed t f else f) fs)
      = filter (\<lambda>f. fi_object_id f = i) fs" for fs
    using assms(2) by (induction fs) (auto simp: frozen_def to_removed_def)
  then show ?thesis by (simp add: copies_of_def assms(1) update_where_def)
qed

lemma list_ex_map: "list_ex P (map f xs) = list_ex (\<lambda>x. P (f x)) xs"
  by (induction xs) simp_all

lemma not_present_after:
  assumes "ob_object_id r \<in> set ids"
    and "ca_files c' = update_where (frozen target ids) (to_removed t) (ca_files c)"
  shows "\<not> present_at target c' r"
  unfolding present_at_def assms(2) update_where_def list_ex_map
  using assms(1) by (auto simp: list_ex_iff frozen_def to_removed_def)

lemma known_at_after:
  assumes "ca_files c' = update_where (frozen target ids) (to_removed t) (ca_files c)"
  shows "known_at target' c' r = known_at target' c r"
  unfolding known_at_def assms update_where_def list_ex_map
  by (rule arg_cong [of _ _ "\<lambda>P. list_ex P (ca_files c)"]) (auto simp: to_removed_def fun_eq_iff)

lemma holds_local:
  assumes "\<And>cl. cl \<in> set clauses \<Longrightarrow> local_clause cl"
    and "copies_of (ob_object_id r) c' = copies_of (ob_object_id r) c"
  shows "holds clauses c' r = holds clauses c r"
  using assms unfolding holds_def list_all_iff local_clause_def by blast

text \<open>After a declaration nothing of the selection is left to declare.\<close>

lemma affected_after:
  assumes "mark_removed request time c = Inr (c', result)" "removal_selection request time = Inr s"
    and "schema_ok c"
  shows "affected_ids s c' = []"
proof -
  note files = mark_removed_files [OF assms(1,2)]
  have "\<not> holds (affected_predicate s) c' r" if r: "r \<in> set (ca_objects c)" for r
  proof (cases "ob_object_id r \<in> set (affected_ids s c)")
    case True
    from not_present_after [OF this files(1)] show ?thesis
      by (simp add: holds_def affected_predicate_def)
  next
    case False
    with r have "\<not> holds (affected_predicate s) c r" by (auto simp: affected_ids_mem)
    then show ?thesis
      using holds_local [OF removal_predicate_local [OF assms(2)] copies_of_unaffected [OF files(1) False]]
      by simp
  qed
  then show ?thesis by (simp add: affected_ids_def files(2) filter_empty_conv)
qed

text \<open>A selection by path has no clause on copies but the one on known copies.\<close>

lemma single_predicate_same:
  assumes "removal_selection request time = Inr s" "re_single s"
    and "ca_files c' = update_where (frozen target ids) (to_removed t) (ca_files c)"
  shows "holds (re_predicate s) c' r = holds (re_predicate s) c r"
proof (cases request)
  case (RemovedPath location_id collection_id path)
  from assms(1) show ?thesis
  proof (rule removal_selection_Inr)
    fix flt single clauses
    assume t: "removal_target request = Inr (re_target s, flt, single)"
      and sel: "selection_predicate flt (case ff_as_of_utc_ms flt of Some t \<Rightarrow> t | None \<Rightarrow> time) = Inr clauses"
      and p: "re_predicate s = clauses @ [known_at (re_target s)]"
    from t RemovedPath have flt: "flt = path_filter collection_id path" by simp
    have "holds clauses c' r = holds clauses c r"
      using sel unfolding flt
    proof (rule selection_predicate_Inr)
      fix identity groups
      assume "identity_clauses (ff_identity_state (path_filter collection_id path)) = Inr identity"
        "group_clauses (case ff_as_of_utc_ms (path_filter collection_id path) of Some t \<Rightarrow> t | None \<Rightarrow> time)
          (ff_location_groups (path_filter collection_id path)) = Inr groups"
        "(case ff_collection_id (path_filter collection_id path) of None \<Rightarrow> []
          | Some k \<Rightarrow> [\<lambda>_ r. ob_collection_id r = k])
          @ (case ff_object_id (path_filter collection_id path) of None \<Rightarrow> []
             | Some i \<Rightarrow> [\<lambda>_ r. ob_object_id r = i])
          @ identity @ path_clauses (path_filter collection_id path)
          @ (if ff_location_groups (path_filter collection_id path) \<noteq> []
             then [\<lambda>_ r. ob_expected_blake3 r \<noteq> None] else [])
          @ groups = clauses"
      then show ?thesis
        by (auto simp: path_filter_def identity_clauses_def path_clauses_def holds_def split: option.splits)
    qed
    then show ?thesis
      using known_at_after [OF assms(3)] by (simp add: p holds_def)
  qed
next
  case (RemovedGroups flt)
  from assms(1) have "\<not> re_single s"
    by (rule removal_selection_Inr) (use RemovedGroups in \<open>auto split: list.splits if_splits\<close>)
  with assms(2) show ?thesis by simp
qed

lemma removal_validate_after:
  assumes "mark_removed request time c = Inr (c', result)" "removal_selection request time = Inr s"
    and "removal_validate s c = Inr ()"
  shows "removal_validate s c' = Inr ()"
proof -
  note files = mark_removed_files [OF assms(1,2)]
  have "filter (holds (re_predicate s) c') (ca_objects c) = filter (holds (re_predicate s) c) (ca_objects c)"
    if "re_single s"
    by (intro filter_cong refl single_predicate_same [OF assms(2) that files(1)])
  then show ?thesis
    using assms(3) unfolding removal_validate_def files(2,3) by (auto simp: ebind_eq_Inr ensure_eq_Inr)
qed

section \<open>Properties of removal declarations\<close>

text \<open>
  C27. A declaration does what its preview shows: when it commits, the preview of the same
  request at the same time succeeds, reports the same location and number of files, and the
  copies turned into missing ones are exactly the copies at that location of the previewed
  objects; every other copy and every object stays as it was.
\<close>

theorem removal_matches_preview:
  assumes "mark_removed request time c = Inr (c', result)" and "schema_ok c"
  shows "\<exists>rows. preview_removed codec request time c = Inr (map (lossless_of_row codec) rows, result)
    \<and> distinct rows \<and> set rows \<subseteq> set (ca_objects c) \<and> ca_objects c' = ca_objects c
    \<and> ca_files c' = map (\<lambda>f. if fi_location_id f = rr_location_id result
                               \<and> fi_object_id f \<in> ob_object_id ` set rows
                             then to_removed (uint time) f else f) (ca_files c)"
  using assms(1)
proof (cases rule: mark_removed_cases)
  case (1 s)
  let ?rows = "selected (affected_predicate s) c"
  note files = mark_removed_files [OF assms(1) 1(2)]
  have ids: "set (affected_ids s c) = ob_object_id ` set ?rows" "length (affected_ids s c) = length ?rows"
    by (auto simp: affected_ids_def selected_def)
  have "distinct ?rows"
    using schema_ok_distinct_objects(1) [OF assms(2)] by (simp add: selected_def distinct_map)
  moreover have "preview_removed codec request time c = Inr (map (lossless_of_row codec) ?rows, result)"
    using 1(2-4) ids(2) by (simp add: preview_removed_def Let_def)
  moreover have "ca_files c' = map (\<lambda>f. if fi_location_id f = rr_location_id result
      \<and> fi_object_id f \<in> ob_object_id ` set ?rows then to_removed (uint time) f else f) (ca_files c)"
    unfolding files(1) update_where_def by (simp add: files(5) frozen_def flip: ids(1))
  ultimately show ?thesis using files(2) set_selected [of "affected_predicate s" c] by blast
qed

text \<open>
  Declaring a removal again changes nothing: after a committed declaration the same
  request succeeds, reports no files and leaves the catalog, its history and its revision as
  they are.
\<close>

theorem removal_idempotent:
  assumes "mark_removed request time c = Inr (c', result)" and "schema_ok c"
  shows "mark_removed request time c' =
    Inr (c', \<lparr>rr_location_id = rr_location_id result, rr_files_marked_missing = 0\<rparr>)"
  using assms(1)
proof (cases rule: mark_removed_cases)
  case (1 s)
  have valid: "removal_validate s c' = Inr ()"
    by (rule removal_validate_after [OF assms(1) 1(2,3)])
  have none: "map ob_object_id (filter (holds (affected_predicate s) c') (ca_objects c')) = []"
    using affected_after [OF assms(1) 1(2) assms(2)] by (simp add: affected_ids_def)
  have "rr_location_id result = re_target s" using 1(4) by simp
  then show ?thesis
    by (simp only: mark_removed_def 1(1,2) ensure_simps ebind_simps Let_def valid none simp_thms
        if_False list.size less_irrefl)
qed


text \<open>
  The two-copy sample: of the objects known at the first location only one has a verified copy
  at the second, so the guarded removal declares that one.
\<close>

definition sample_group :: "bytes \<Rightarrow> u64 option \<Rightarrow> file_location_group" where
  "sample_group location_id age =
     \<lparr>gr_location_ids = [location_id], gr_negated = False, gr_verified_within_ms = age\<rparr>"

definition sample_removal :: removed_selection where
  "sample_removal = RemovedGroups (sample_filter
     \<lparr>ff_location_groups := [sample_group ''p'' None, sample_group ''b'' (Some 8)]\<rparr>)"

definition sample_removed :: "catalog_query_error + catalog \<times> removed_result" where
  "sample_removed = mark_removed sample_removal 9 sample_scanning"

definition sample_removed_result :: removed_result where
  "sample_removed_result = \<lparr>rr_location_id = ''p'', rr_files_marked_missing = 1\<rparr>"

lemma sample_removed_eq:
  "mark_removed sample_removal 9 sample_scanning = Inr (committed sample_removed, sample_removed_result)"
  unfolding sample_removed_def by (rule committed_eq) code_simp

theorem removal_matches_preview_witness:
  "\<exists>rows :: object_row list. length rows = 1
     \<and> ca_files (committed sample_removed) =
         map (\<lambda>f. if fi_location_id f = ''p'' \<and> fi_object_id f \<in> ob_object_id ` set rows
                  then to_removed (uint (9::u64)) f else f) (ca_files sample_scanning)"
proof -
  from removal_matches_preview [OF sample_removed_eq sample_scanning_ok(1), of sample_query_codec]
  obtain rows where rows: "preview_removed sample_query_codec sample_removal 9 sample_scanning =
      Inr (map (lossless_of_row sample_query_codec) rows, sample_removed_result)"
    "ca_files (committed sample_removed) = map (\<lambda>f. if fi_location_id f = rr_location_id sample_removed_result
       \<and> fi_object_id f \<in> ob_object_id ` set rows
     then to_removed (uint (9::u64)) f else f) (ca_files sample_scanning)"
    by (elim exE conjE)
  have "(case preview_removed sample_query_codec sample_removal 9 sample_scanning of
      Inr (ps, _) \<Rightarrow> length ps = 1 | Inl _ \<Rightarrow> False)" by code_simp
  with rows show ?thesis by (intro exI [of _ rows]) (simp add: sample_removed_result_def)
qed

theorem removal_idempotent_witness:
  "mark_removed sample_removal 9 (committed sample_removed) =
     Inr (committed sample_removed, \<lparr>rr_location_id = ''p'', rr_files_marked_missing = 0\<rparr>)"
  using removal_idempotent [OF sample_removed_eq sample_scanning_ok(1)]
  by (simp add: sample_removed_result_def)


end
