(* ===== verification/Catalog_Runs.thy ===== *)
theory Catalog_Runs
  imports Catalog_Registry Catalog_Removed Append_Only
begin

text \<open>
  The writers of the catalog together: the catalog writer, the registry and the removal
  declarations work on one database, in any order, each in transactions of its own.
\<close>

interpretation writes_registry: two_writers "writes_step wcodec" "registry_step rcodec" catalog_valid ca_history
  for wcodec rcodec
  by unfold_locales

interpretation catalog_writers: two_writers "two_writers.either (writes_step wcodec) (registry_step rcodec)"
    removal_step catalog_valid ca_history
  for wcodec rcodec
  by unfold_locales

inductive catalog_step :: "catalog_codec \<Rightarrow> registry_codec \<Rightarrow> catalog \<Rightarrow> catalog \<Rightarrow> bool"
  for wcodec rcodec where
  "writes_step wcodec c c' \<Longrightarrow> catalog_step wcodec rcodec c c'"
| "registry_step rcodec c c' \<Longrightarrow> catalog_step wcodec rcodec c c'"
| "removal_step c c' \<Longrightarrow> catalog_step wcodec rcodec c c'"

inductive_simps catalog_step_iff: "catalog_step wcodec rcodec c c'"

lemma catalog_step_writers: "catalog_step wcodec rcodec = catalog_writers.either wcodec rcodec"
  by (intro ext) (auto simp: catalog_step_iff catalog_writers.either_def writes_registry.either_def)


definition sample_renamed :: catalog where
  "sample_renamed = committed (rename_archive sample_registry_codec ''n'' 8 sample_scanned)"


end
