(* ===== verification/Policy_Evaluation.thy ===== *)
theory Policy_Evaluation
  imports Policy_Requirements Catalog_State
begin

text \<open>
  The rules of a preservation policy (\<open>src/src/policy.rs\<close>): which copies of a file qualify,
  when a file satisfies the requirements, which single losses it would not survive, and until
  when the answer holds. The JSON objects the code builds for reasons and scenarios are records
  with the same members; a \<open>BTreeSet<String>\<close> is a sorted list without repetitions.
\<close>

section \<open>Facts about files and copies\<close>

record copy_fact =
  cp_copy_claim_id :: bytes
  cp_state :: bytes
  cp_object_id :: "bytes option"
  cp_last_seen_time_utc_ms :: "u64 option"
  cp_last_verified_time_utc_ms :: "u64 option"
  cp_last_verification_result :: "bytes option"
  cp_location_id :: bytes
  cp_location_name :: bytes
  cp_location_kind :: bytes
  cp_location_status :: bytes
  cp_archive_root_id :: "bytes option"
  cp_archive_root_status :: "bytes option"
  cp_archive_root_device_id :: "bytes option"
  cp_device_id :: "bytes option"
  cp_device_name :: "bytes option"
  cp_device_status :: "bytes option"
  cp_device_identity_state :: "bytes option"
  cp_device_expected_availability :: "bytes option"
  cp_last_checkin_time_utc_ms :: "u64 option"
  cp_last_fingerprint_match_time_utc_ms :: "u64 option"
  cp_last_fingerprint_status :: "bytes option"
  cp_site_id :: "bytes option"
  cp_site_name :: "bytes option"
  cp_site_status :: "bytes option"
  cp_encryption_state :: "bytes option"
  cp_trust_level :: "bytes option"
  cp_location_expected_availability :: bytes

record file_fact =
  fa_file_ref_id :: bytes
  fa_object_id :: "bytes option"
  fa_identity_state :: bytes
  fa_logical_path_display :: bytes
  fa_size_bytes :: "u64 option"
  fa_hash_algo :: "bytes option"
  fa_policy_id :: bytes
  fa_collection_id :: bytes
  fa_collection_name :: bytes
  fa_home_site_id :: bytes
  fa_copies :: "copy_fact list"

record qualified_copy =
  qc_copy_claim_id :: bytes
  qc_location_id :: bytes
  qc_location_name :: bytes
  qc_device_id :: "bytes option"
  qc_device_name :: "bytes option"
  qc_site_id :: bytes
  qc_site_name :: bytes
  qc_offsite :: bool
  qc_offline :: bool
  qc_encrypted :: bool
  qc_domains :: "bytes list"

text \<open>A missing key of \<open>assignments\<close> is the empty set.\<close>

record domain_topology =
  dt_names :: "bytes \<Rightarrow> bytes option"
  dt_assignments :: "bytes \<times> bytes \<Rightarrow> bytes list"

record copy_assessment =
  ca_qualified :: "qualified_copy option"
  ca_reasons :: "bytes list"
  ca_uncertain :: bool

section \<open>Ordered sets\<close>

definition btree_set :: "bytes list \<Rightarrow> bytes list" where
  "btree_set xs = sort (remdups xs)"

lemma btree_set_simps [simp]:
  "set (btree_set xs) = set xs" "distinct (btree_set xs)" "sorted (btree_set xs)"
  by (simp_all add: btree_set_def)

lemma length_btree_set: "length (btree_set xs) = card (set xs)"
  by (simp add: btree_set_def length_remdups_card_conv)

section \<open>Assessing one copy\<close>

text \<open>The three variables the assessment updates.\<close>

record assessing =
  as_reasons :: "bytes list"
  as_uncertain :: bool
  as_valid_until :: "u64 option"

fun minimum_time :: "u64 option \<Rightarrow> u64 option \<Rightarrow> u64 option" where
  "minimum_time (Some left) (Some right) = Some (min left right)"
| "minimum_time (Some value) None = Some value"
| "minimum_time None (Some value) = Some value"
| "minimum_time None None = None"

definition push_reason :: "bytes \<Rightarrow> assessing \<Rightarrow> assessing" where
  "push_reason reason s = s\<lparr>as_reasons := as_reasons s @ [reason]\<rparr>"

definition mark_uncertain :: "bytes \<Rightarrow> assessing \<Rightarrow> assessing" where
  "mark_uncertain reason s = (push_reason reason s)\<lparr>as_uncertain := True\<rparr>"

definition check_freshness ::
  "u64 option \<Rightarrow> u64 \<Rightarrow> u64 \<Rightarrow> bytes \<Rightarrow> assessing \<Rightarrow> policy_error + assessing" where
  "check_freshness timestamp max_age_days now_utc_ms label s =
     (case timestamp of
        None \<Rightarrow> Inr (mark_uncertain (label @ ''_time_missing'') s)
      | Some t \<Rightarrow>
          if now_utc_ms < t then Inr (mark_uncertain (label @ ''_time_in_future'') s)
          else
            ebind (ok_or (checked_mul max_age_days DAY_MS)
              (InvalidState (label @ '' age limit overflows''))) (\<lambda>age_ms.
            ebind (ok_or (checked_add t age_ms) (InvalidState (label @ '' expiry overflows''))) (\<lambda>expiry.
            if expiry \<le> now_utc_ms then Inr (mark_uncertain (label @ ''_stale'') s)
            else Inr (s\<lparr>as_valid_until := minimum_time (as_valid_until s) (Some expiry)\<rparr>))))"

definition add_custom_domains ::
  "domain_topology \<Rightarrow> bytes \<Rightarrow> bytes option \<Rightarrow> bytes list \<Rightarrow> bytes list" where
  "add_custom_domains topology entity_type entity_id domains =
     (case entity_id of
        None \<Rightarrow> domains
      | Some i \<Rightarrow> btree_set (domains @ map (\<lambda>d. ''risk:'' @ d) (dt_assignments topology (entity_type, i))))"

definition check_claim :: "copy_fact \<Rightarrow> file_fact \<Rightarrow> assessing \<Rightarrow> assessing" where
  "check_claim copy file s =
     (let s = (if cp_object_id copy \<noteq> fa_object_id file then push_reason ''object_identity_mismatch'' s else s);
          s = (if cp_state copy \<noteq> ''present'' then push_reason (''copy_state_'' @ cp_state copy) s else s)
      in (case cp_last_verification_result copy of
            Some result \<Rightarrow> if result = ''ok'' then s else push_reason (''verification_'' @ result) s
          | None \<Rightarrow> mark_uncertain ''verification_missing'' s))"

definition check_location :: "copy_fact \<Rightarrow> assessing \<Rightarrow> assessing" where
  "check_location copy s =
     (let s = (if cp_location_status copy \<noteq> ACTIVE then push_reason ''location_inactive'' s else s)
      in if cp_trust_level copy = Some ''trusted'' then s
         else if cp_trust_level copy = Some ''untrusted'' then push_reason ''location_untrusted'' s
         else mark_uncertain ''location_trust_unknown'' s)"

definition check_site :: "copy_fact \<Rightarrow> assessing \<Rightarrow> bytes \<times> assessing" where
  "check_site copy s =
     (case cp_site_id copy of
        Some site_id \<Rightarrow>
          if cp_site_status copy = Some ACTIVE then (site_id, s)
          else ([], push_reason ''site_inactive'' s)
      | None \<Rightarrow> ([], mark_uncertain ''site_unknown'' s))"

definition check_device :: "copy_fact \<Rightarrow> assessing \<Rightarrow> assessing" where
  "check_device copy s =
     (let s = (if cp_archive_root_status copy \<noteq> Some ACTIVE then push_reason ''archive_root_inactive'' s else s);
          s = (if cp_archive_root_device_id copy \<noteq> cp_device_id copy
               then mark_uncertain ''archive_root_device_mismatch'' s else s);
          s = (if cp_device_status copy \<noteq> Some ACTIVE then push_reason ''device_inactive'' s else s);
          s = (if cp_device_identity_state copy \<noteq> Some CONFIRMED
               then mark_uncertain ''device_identity_unconfirmed'' s else s)
      in if cp_last_fingerprint_status copy \<noteq> Some ''match''
         then mark_uncertain ''device_fingerprint_not_matched'' s else s)"

definition check_storage ::
  "copy_fact \<Rightarrow> policy_requirements \<Rightarrow> u64 \<Rightarrow> assessing \<Rightarrow> policy_error + assessing" where
  "check_storage copy requirements now_utc_ms s =
     (if cp_location_kind copy = ''filesystem'' then
        ebind (check_freshness (cp_last_checkin_time_utc_ms copy) (max_device_checkin_age_days requirements)
                 now_utc_ms ''device_checkin'' (check_device copy s)) (\<lambda>s.
        check_freshness (cp_last_fingerprint_match_time_utc_ms copy) (max_device_checkin_age_days requirements)
          now_utc_ms ''device_fingerprint'' s)
      else if cp_location_kind copy \<noteq> ''service'' then Inr (mark_uncertain ''location_kind_unknown'' s)
      else Inr s)"

definition check_encryption ::
  "copy_fact \<Rightarrow> file_fact \<Rightarrow> policy_requirements \<Rightarrow> bytes \<Rightarrow> assessing \<Rightarrow> assessing" where
  "check_encryption copy file requirements site_id s =
     (if require_encrypted_offsite requirements \<and> site_id \<noteq> fa_home_site_id file
         \<and> cp_encryption_state copy \<noteq> Some ''encrypted''
      then if cp_encryption_state copy = Some ''unencrypted'' then push_reason ''offsite_copy_unencrypted'' s
           else mark_uncertain ''offsite_encryption_unknown'' s
      else s)"

definition copy_domains :: "copy_fact \<Rightarrow> domain_topology \<Rightarrow> bytes \<Rightarrow> bytes list" where
  "copy_domains copy topology site_id =
     add_custom_domains topology ''site'' (Some site_id)
       (add_custom_domains topology ''device'' (cp_device_id copy)
         (add_custom_domains topology ''archive_root'' (cp_archive_root_id copy)
           (add_custom_domains topology ''location'' (Some (cp_location_id copy))
             (btree_set
               [case cp_device_id copy of Some device_id \<Rightarrow> ''device:'' @ device_id
                | None \<Rightarrow> ''service:'' @ cp_location_id copy,
                ''site:'' @ site_id]))))"

definition qualified_of :: "copy_fact \<Rightarrow> file_fact \<Rightarrow> domain_topology \<Rightarrow> bytes \<Rightarrow> qualified_copy" where
  "qualified_of copy file topology site_id =
     \<lparr>qc_copy_claim_id = cp_copy_claim_id copy, qc_location_id = cp_location_id copy,
      qc_location_name = cp_location_name copy, qc_device_id = cp_device_id copy,
      qc_device_name = cp_device_name copy, qc_site_id = site_id,
      qc_site_name = (case cp_site_name copy of Some n \<Rightarrow> n | None \<Rightarrow> site_id),
      qc_offsite = (site_id \<noteq> fa_home_site_id file),
      qc_offline = (cp_location_expected_availability copy = ''offline''
                    \<or> cp_device_expected_availability copy = Some ''offline''),
      qc_encrypted = (cp_encryption_state copy = Some ''encrypted''),
      qc_domains = copy_domains copy topology site_id\<rparr>"

definition assess_copy ::
  "copy_fact \<Rightarrow> file_fact \<Rightarrow> policy_requirements \<Rightarrow> domain_topology \<Rightarrow> u64 \<Rightarrow> u64 option \<Rightarrow>
   policy_error + copy_assessment \<times> u64 option" where
  "assess_copy copy file requirements topology now_utc_ms valid_until =
     ebind (check_freshness (cp_last_verified_time_utc_ms copy) (max_verification_age_days requirements)
              now_utc_ms ''verification''
              (check_claim copy file
                 \<lparr>as_reasons = [], as_uncertain = False, as_valid_until = valid_until\<rparr>)) (\<lambda>s.
     ebind (check_freshness (cp_last_seen_time_utc_ms copy) (max_observation_age_days requirements)
              now_utc_ms ''observation'' s) (\<lambda>s.
     case check_site copy (check_location copy s) of (site_id, s) \<Rightarrow>
     ebind (check_storage copy requirements now_utc_ms s) (\<lambda>s.
     let s = check_encryption copy file requirements site_id s in
     Inr (\<lparr>ca_qualified = (if as_reasons s = [] then Some (qualified_of copy file topology site_id) else None),
           ca_reasons = as_reasons s, ca_uncertain = as_uncertain s\<rparr>, as_valid_until s))))"

section \<open>Single losses\<close>

record loss_scenario =
  ls_domain_kind :: bytes
  ls_domain_id :: bytes
  ls_domain_name :: bytes
  ls_affected_copies :: "(bytes \<times> bytes \<times> bytes) list"
  ls_remaining_qualifying_copies :: nat
  ls_permanent_loss :: bool

definition domain_name :: "qualified_copy list \<Rightarrow> domain_topology \<Rightarrow> bytes \<Rightarrow> bytes \<Rightarrow> bytes" where
  "domain_name copies topology kind i =
     (if kind = ''risk'' then (case dt_names topology i of Some n \<Rightarrow> n | None \<Rightarrow> i)
      else if kind = ''device'' then
        (case Option.bind (find (\<lambda>q. qc_device_id q = Some i) copies) qc_device_name of
           Some n \<Rightarrow> n | None \<Rightarrow> i)
      else if kind = ''site'' then
        (case find (\<lambda>q. qc_site_id q = i) copies of Some q \<Rightarrow> qc_site_name q | None \<Rightarrow> i)
      else if kind = ''service'' then
        (case find (\<lambda>q. qc_location_id q = i) copies of Some q \<Rightarrow> qc_location_name q | None \<Rightarrow> i)
      else i)"

definition loss_of :: "qualified_copy list \<Rightarrow> domain_topology \<Rightarrow> bytes \<Rightarrow> loss_scenario" where
  "loss_of copies topology domain =
     (case (case split_once '':'' domain of Some (k, i) \<Rightarrow> (k, i) | None \<Rightarrow> (''unknown'', domain)) of
       (kind, i) \<Rightarrow>
         let affected = map (\<lambda>q. (qc_copy_claim_id q, qc_location_id q, qc_location_name q))
               (filter (\<lambda>q. List.member (qc_domains q) domain) copies);
             remaining = length copies - length affected
         in \<lparr>ls_domain_kind = kind, ls_domain_id = i, ls_domain_name = domain_name copies topology kind i,
             ls_affected_copies = affected, ls_remaining_qualifying_copies = remaining,
             ls_permanent_loss = (copies \<noteq> [] \<and> remaining = 0)\<rparr>)"

definition loss_scenarios :: "qualified_copy list \<Rightarrow> domain_topology \<Rightarrow> loss_scenario list" where
  "loss_scenarios copies topology =
     map (loss_of copies topology) (btree_set (concat (map qc_domains copies)))"

section \<open>Evaluating one file\<close>

datatype failed_requirement =
    FailedCount bytes u64 nat
  | FailedFlag bytes

record nonqualifying_copy =
  nq_copy_claim_id :: bytes
  nq_location_id :: bytes
  nq_location_name :: bytes
  nq_reasons :: "bytes list"
  nq_uncertain :: bool

record evaluation_reasons =
  er_logical_path :: bytes
  er_collection_id :: bytes
  er_collection_name :: bytes
  er_identity_state :: bytes
  er_hash_algo :: "bytes option"
  er_qualifying_copy_count :: nat
  er_qualifying_device_ids :: "bytes list"
  er_qualifying_site_ids :: "bytes list"
  er_failed_requirements :: "failed_requirement list"
  er_loss_scenarios :: "loss_scenario list"
  er_nonqualifying_copies :: "nonqualifying_copy list"

record qualifying_copy_review =
  qr_copy_claim_id :: bytes
  qr_location_id :: bytes
  qr_location_name :: bytes
  qr_device_id :: "bytes option"
  qr_site_id :: bytes
  qr_offsite :: bool
  qr_offline :: bool
  qr_encrypted :: bool

record file_evaluation =
  fe_status :: "bytes option"
  fe_reasons :: evaluation_reasons
  fe_actions :: "bytes list"
  fe_valid_until_utc_ms :: "u64 option"
  fe_qualifying_copies :: "qualifying_copy_review list"

definition VIOLATED :: bytes where "VIOLATED = ''violated''"
definition UNCERTAIN :: bytes where "UNCERTAIN = ''uncertain''"

text \<open>The loop over the copies: qualified copies, the others, uncertainty and expiry.\<close>

type_synonym assess_state = "qualified_copy list \<times> nonqualifying_copy list \<times> bool \<times> u64 option"

definition assess_step ::
  "file_fact \<Rightarrow> policy_requirements \<Rightarrow> domain_topology \<Rightarrow> u64 \<Rightarrow> copy_fact \<Rightarrow> assess_state \<Rightarrow>
   policy_error + assess_state" where
  "assess_step file requirements topology now_utc_ms copy st =
     (case st of (qualified, nonqualifying, uncertain, valid_until) \<Rightarrow>
      ebind (assess_copy copy file requirements topology now_utc_ms valid_until) (\<lambda>(a, valid_until).
      Inr (case ca_qualified a of
             Some q \<Rightarrow> (qualified @ [q], nonqualifying, uncertain, valid_until)
           | None \<Rightarrow>
               (qualified,
                nonqualifying @ [\<lparr>nq_copy_claim_id = cp_copy_claim_id copy,
                  nq_location_id = cp_location_id copy, nq_location_name = cp_location_name copy,
                  nq_reasons = ca_reasons a, nq_uncertain = ca_uncertain a\<rparr>],
                uncertain \<or> ca_uncertain a, valid_until))))"

definition unresolved_copy :: "copy_fact \<Rightarrow> nonqualifying_copy" where
  "unresolved_copy copy =
     \<lparr>nq_copy_claim_id = cp_copy_claim_id copy, nq_location_id = cp_location_id copy,
      nq_location_name = cp_location_name copy,
      nq_reasons = [''file_identity_not_resolved_to_blake3''], nq_uncertain = True\<rparr>"

text \<open>\<open>usize\<close> has 64 bits, so \<open>usize_from_u64\<close> is exact.\<close>

definition failed_requirements ::
  "policy_requirements \<Rightarrow> qualified_copy list \<Rightarrow> nat \<Rightarrow> nat \<Rightarrow> failed_requirement list" where
  "failed_requirements requirements qualified devices sites =
     (if length qualified < unat (min_qualifying_copies requirements)
      then [FailedCount ''min_qualifying_copies'' (min_qualifying_copies requirements) (length qualified)] else [])
     @ (if devices < unat (min_devices requirements)
        then [FailedCount ''min_devices'' (min_devices requirements) devices] else [])
     @ (if sites < unat (min_sites requirements)
        then [FailedCount ''min_sites'' (min_sites requirements) sites] else [])
     @ (if require_offsite_copy requirements \<and> \<not> list_ex qc_offsite qualified
        then [FailedFlag ''require_offsite_copy''] else [])
     @ (if require_offline_copy requirements \<and> \<not> list_ex qc_offline qualified
        then [FailedFlag ''require_offline_copy''] else [])
     @ (if require_encrypted_offsite requirements
           \<and> \<not> list_ex (\<lambda>q. qc_offsite q \<and> qc_encrypted q) qualified
        then [FailedFlag ''require_encrypted_offsite''] else [])"

definition reason_actions :: "bytes \<Rightarrow> bytes list" where
  "reason_actions reason =
     (if str_contains reason ''verification'' then [''verify the copy again''] else [])
     @ (if str_contains reason ''observation'' then [''scan the location again''] else [])
     @ (if str_contains reason ''device'' \<or> str_contains reason ''fingerprint''
        then [''connect and check in the expected device''] else [])
     @ (if str_contains reason ''unknown'' \<or> str_contains reason ''mismatch''
        then [''review and classify the location topology''] else [])"

definition recommended_actions ::
  "bool \<Rightarrow> failed_requirement list \<Rightarrow> nonqualifying_copy list \<Rightarrow> bool \<Rightarrow> bytes list" where
  "recommended_actions identity_usable failed nonqualifying permanent_loss =
     btree_set
       ((if \<not> identity_usable then [''resolve the file identity to BLAKE3''] else [])
        @ concat (map (\<lambda>n. concat (map reason_actions (nq_reasons n))) nonqualifying)
        @ (if failed \<noteq> [] \<or> permanent_loss then [''create and verify an independent copy''] else []))"

definition identity_usable :: "file_fact \<Rightarrow> bool" where
  "identity_usable file \<longleftrightarrow>
     fa_identity_state file = ''resolved'' \<and> fa_object_id file \<noteq> None
     \<and> fa_hash_algo file = Some ''blake3''"

definition review_copy :: "qualified_copy \<Rightarrow> qualifying_copy_review" where
  "review_copy q =
     \<lparr>qr_copy_claim_id = qc_copy_claim_id q, qr_location_id = qc_location_id q,
      qr_location_name = qc_location_name q, qr_device_id = qc_device_id q,
      qr_site_id = qc_site_id q, qr_offsite = qc_offsite q, qr_offline = qc_offline q,
      qr_encrypted = qc_encrypted q\<rparr>"

definition assess_copies ::
  "file_fact \<Rightarrow> policy_requirements \<Rightarrow> domain_topology \<Rightarrow> u64 \<Rightarrow> policy_error + assess_state" where
  "assess_copies file requirements topology now_utc_ms =
     (if identity_usable file
      then efold (assess_step file requirements topology now_utc_ms) (fa_copies file) ([], [], False, None)
      else Inr ([], map unresolved_copy (fa_copies file), True, None))"

definition file_status :: "file_fact \<Rightarrow> failed_requirement list \<Rightarrow> bool \<Rightarrow> bool \<Rightarrow> bytes option" where
  "file_status file failed permanent_loss has_uncertain_material =
     (if failed \<noteq> [] \<or> permanent_loss \<or> \<not> identity_usable file
      then Some (if has_uncertain_material \<or> \<not> identity_usable file then UNCERTAIN else VIOLATED)
      else None)"

definition evaluation_of ::
  "file_fact \<Rightarrow> policy_requirements \<Rightarrow> domain_topology \<Rightarrow> assess_state \<Rightarrow> file_evaluation" where
  "evaluation_of file requirements topology st =
     (case st of (qualified, nonqualifying, uncertain, valid_until) \<Rightarrow>
      let device_ids = btree_set (List.map_filter qc_device_id qualified);
          sites = btree_set (map qc_site_id qualified);
          failed = failed_requirements requirements qualified (length device_ids) (length sites);
          scenarios = loss_scenarios qualified topology;
          permanent_loss = list_ex ls_permanent_loss scenarios
      in \<lparr>fe_status = file_status file failed permanent_loss uncertain,
          fe_reasons =
            \<lparr>er_logical_path = fa_logical_path_display file, er_collection_id = fa_collection_id file,
             er_collection_name = fa_collection_name file, er_identity_state = fa_identity_state file,
             er_hash_algo = fa_hash_algo file, er_qualifying_copy_count = length qualified,
             er_qualifying_device_ids = device_ids, er_qualifying_site_ids = sites,
             er_failed_requirements = failed, er_loss_scenarios = scenarios,
             er_nonqualifying_copies = nonqualifying\<rparr>,
          fe_actions = recommended_actions (identity_usable file) failed nonqualifying permanent_loss,
          fe_valid_until_utc_ms = valid_until,
          fe_qualifying_copies = map review_copy qualified\<rparr>)"

definition evaluate_file ::
  "file_fact \<Rightarrow> policy_requirements \<Rightarrow> domain_topology \<Rightarrow> u64 \<Rightarrow> policy_error + file_evaluation" where
  "evaluate_file file requirements topology now_utc_ms =
     ebind (assess_copies file requirements topology now_utc_ms) (\<lambda>st.
     Inr (evaluation_of file requirements topology st))"

end
