(* ===== verification/Policy_Rules.thy ===== *)
theory Policy_Rules
  imports Policy_Evaluation
begin

text \<open>
  Correctness of the policy rules of \<open>Policy_Evaluation\<close>: the assessment of a copy decides a
  declarative predicate, a file is reported satisfied exactly when an abstract specification
  holds that speaks about hazards instead of domain strings, the evaluation is total for
  validated requirements, and a result stays the same until the expiry it reports.
\<close>

section \<open>Freshness\<close>

text \<open>A timestamp is fresh if it is not in the future and younger than the age limit.\<close>

definition fresh :: "u64 \<Rightarrow> u64 \<Rightarrow> u64 option \<Rightarrow> bool" where
  "fresh now days timestamp \<longleftrightarrow>
     (case timestamp of None \<Rightarrow> False
      | Some t \<Rightarrow> t \<le> now \<and> unat now < unat t + unat days * unat DAY_MS)"

lemma reason_simps [simp]:
  "as_reasons (push_reason r s) = as_reasons s @ [r]"
  "as_reasons (mark_uncertain r s) = as_reasons s @ [r]"
  "as_valid_until (push_reason r s) = as_valid_until s"
  "as_valid_until (mark_uncertain r s) = as_valid_until s"
  by (simp_all add: push_reason_def mark_uncertain_def)

lemma check_freshness_cases:
  assumes "check_freshness ts days now label s = Inr s'"
  obtains (is_fresh) t expiry where "ts = Some t" "t \<le> now" "now < expiry"
      "unat expiry = unat t + unat days * unat DAY_MS" "fresh now days ts"
      "s' = s\<lparr>as_valid_until := minimum_time (as_valid_until s) (Some expiry)\<rparr>"
  | (not_fresh) reason where "\<not> fresh now days ts" "s' = mark_uncertain reason s"
proof (cases ts)
  case None
  with assms not_fresh show thesis by (auto simp: check_freshness_def fresh_def)
next
  case (Some t)
  show thesis
  proof (cases "now < t")
    case True
    then have "\<not> t \<le> now" by simp
    with True assms Some show thesis by (intro not_fresh [of "label @ ''_time_in_future''"]) (simp_all add: check_freshness_def fresh_def)
  next
    case False
    with assms Some have "\<exists>age :: u64. unat age = unat days * unat DAY_MS \<and>
      (\<exists>expiry :: u64. unat expiry = unat t + unat age \<and>
        (if expiry \<le> now then Inr (mark_uncertain (label @ ''_stale'') s)
         else Inr (s\<lparr>as_valid_until := minimum_time (as_valid_until s) (Some expiry)\<rparr>)) =
        (Inr s' :: policy_error + assessing))"
      by (simp add: check_freshness_def ebind_eq_Inr ok_or_eq_Inr checked_mul_eq_Some checked_add_eq_Some
          split del: if_split)
    then obtain age expiry :: u64 where e: "unat age = unat days * unat DAY_MS" "unat expiry = unat t + unat age"
      "(if expiry \<le> now then Inr (mark_uncertain (label @ ''_stale'') s)
        else Inr (s\<lparr>as_valid_until := minimum_time (as_valid_until s) (Some expiry)\<rparr>)) =
       (Inr s' :: policy_error + assessing)" by blast
    have iff: "fresh now days ts \<longleftrightarrow> now < expiry"
      using False Some e(1,2) by (simp add: fresh_def word_less_nat_alt word_le_nat_alt)
    show thesis
    proof (cases "now < expiry")
      case True
      then have "\<not> expiry \<le> now" by simp
      with True e False Some iff show thesis by (intro is_fresh) (auto simp: not_less)
    next
      case late: False
      then have "expiry \<le> now" by simp
      with late e(3) iff show thesis by (intro not_fresh) (auto simp: not_less)
    qed
  qed
qed

lemma check_freshness_Inr:
  assumes "check_freshness ts days now label s = Inr s'"
  shows "as_reasons s' = [] \<longleftrightarrow> as_reasons s = [] \<and> fresh now days ts"
  using assms by (cases rule: check_freshness_cases) simp_all

lemma check_freshness_total:
  assumes "unat now + unat days * unat DAY_MS < 2 ^ 64"
  shows "\<exists>s'. check_freshness ts days now label s = Inr s'"
proof (cases ts)
  case (Some t)
  show ?thesis
  proof (cases "now < t")
    case False
    then have "unat t \<le> unat now" by (simp add: word_le_nat_alt word_less_nat_alt)
    moreover from assms have "checked_mul days DAY_MS = Some (days * DAY_MS)"
      "unat (days * DAY_MS) = unat days * unat DAY_MS"
      by (auto simp: checked_mul_def intro: checked_mul_eq_Some [THEN iffD1])
    ultimately show ?thesis
      using assms False Some by (simp add: check_freshness_def checked_add_def)
  qed (simp add: Some check_freshness_def)
qed (simp add: check_freshness_def)

section \<open>Which copies qualify\<close>

definition claim_ok :: "copy_fact \<Rightarrow> file_fact \<Rightarrow> bool" where
  "claim_ok copy file \<longleftrightarrow>
     cp_object_id copy = fa_object_id file \<and> cp_state copy = ''present''
     \<and> cp_last_verification_result copy = Some ''ok''"

definition place_ok :: "copy_fact \<Rightarrow> bool" where
  "place_ok copy \<longleftrightarrow>
     cp_location_status copy = ACTIVE \<and> cp_trust_level copy = Some ''trusted''
     \<and> cp_site_id copy \<noteq> None \<and> cp_site_status copy = Some ACTIVE"

definition device_ok :: "copy_fact \<Rightarrow> bool" where
  "device_ok copy \<longleftrightarrow>
     cp_archive_root_status copy = Some ACTIVE \<and> cp_archive_root_device_id copy = cp_device_id copy
     \<and> cp_device_status copy = Some ACTIVE \<and> cp_device_identity_state copy = Some CONFIRMED
     \<and> cp_last_fingerprint_status copy = Some ''match''"

definition storage_ok :: "copy_fact \<Rightarrow> policy_requirements \<Rightarrow> u64 \<Rightarrow> bool" where
  "storage_ok copy req now \<longleftrightarrow>
     cp_location_kind copy = ''service''
     \<or> cp_location_kind copy = ''filesystem'' \<and> device_ok copy
       \<and> fresh now (max_device_checkin_age_days req) (cp_last_checkin_time_utc_ms copy)
       \<and> fresh now (max_device_checkin_age_days req) (cp_last_fingerprint_match_time_utc_ms copy)"

definition encryption_ok :: "copy_fact \<Rightarrow> file_fact \<Rightarrow> policy_requirements \<Rightarrow> bool" where
  "encryption_ok copy file req \<longleftrightarrow>
     (require_encrypted_offsite req \<longrightarrow> cp_site_id copy = Some (fa_home_site_id file)
        \<or> cp_encryption_state copy = Some ''encrypted'')"

definition qualifies :: "copy_fact \<Rightarrow> file_fact \<Rightarrow> policy_requirements \<Rightarrow> u64 \<Rightarrow> bool" where
  "qualifies copy file req now \<longleftrightarrow>
     claim_ok copy file
     \<and> fresh now (max_verification_age_days req) (cp_last_verified_time_utc_ms copy)
     \<and> fresh now (max_observation_age_days req) (cp_last_seen_time_utc_ms copy)
     \<and> place_ok copy \<and> storage_ok copy req now \<and> encryption_ok copy file req"

lemma check_claim_iff: "as_reasons (check_claim copy file s) = [] \<longleftrightarrow> as_reasons s = [] \<and> claim_ok copy file"
  by (auto simp: check_claim_def claim_ok_def Let_def split: option.splits)

lemma check_site_iff:
  assumes "check_site copy (check_location copy s) = (site_id, s')"
  shows "as_reasons s' = [] \<longleftrightarrow> as_reasons s = [] \<and> place_ok copy"
    and "place_ok copy \<Longrightarrow> cp_site_id copy = Some site_id"
  using assms by (auto simp: check_site_def check_location_def place_ok_def Let_def split: option.splits if_splits)

lemma check_device_iff: "as_reasons (check_device copy s) = [] \<longleftrightarrow> as_reasons s = [] \<and> device_ok copy"
  by (simp add: check_device_def device_ok_def Let_def)

lemma check_storage_iff:
  assumes "check_storage copy req now s = Inr s'"
  shows "as_reasons s' = [] \<longleftrightarrow> as_reasons s = [] \<and> storage_ok copy req now"
proof (cases "cp_location_kind copy = ''filesystem''")
  case True
  with assms obtain s1 where
    "check_freshness (cp_last_checkin_time_utc_ms copy) (max_device_checkin_age_days req) now
       ''device_checkin'' (check_device copy s) = Inr s1"
    "check_freshness (cp_last_fingerprint_match_time_utc_ms copy) (max_device_checkin_age_days req) now
       ''device_fingerprint'' s1 = Inr s'"
    by (auto simp: check_storage_def ebind_eq_Inr)
  from this [THEN check_freshness_Inr] True show ?thesis
    by (auto simp: storage_ok_def check_device_iff)
next
  case False
  with assms show ?thesis by (auto simp: check_storage_def storage_ok_def split: if_splits)
qed

lemma check_encryption_iff:
  assumes "cp_site_id copy = Some site_id"
  shows "as_reasons (check_encryption copy file req site_id s) = [] \<longleftrightarrow>
    as_reasons s = [] \<and> encryption_ok copy file req"
  using assms by (auto simp: check_encryption_def encryption_ok_def)

lemma check_encryption_mono:
  "as_reasons (check_encryption copy file req site_id s) = [] \<Longrightarrow> as_reasons s = []"
  by (auto simp: check_encryption_def split: if_splits)

lemma assess_copy_Inr:
  assumes "assess_copy copy file req topology now vu = Inr (a, vu')"
  obtains s1 s2 site_id s3 s4 where
    "check_freshness (cp_last_verified_time_utc_ms copy) (max_verification_age_days req) now ''verification''
       (check_claim copy file \<lparr>as_reasons = [], as_uncertain = False, as_valid_until = vu\<rparr>) = Inr s1"
    "check_freshness (cp_last_seen_time_utc_ms copy) (max_observation_age_days req) now ''observation'' s1 = Inr s2"
    "check_site copy (check_location copy s2) = (site_id, s3)"
    "check_storage copy req now s3 = Inr s4"
    "a = \<lparr>ca_qualified = (if as_reasons (check_encryption copy file req site_id s4) = []
            then Some (qualified_of copy file topology site_id) else None),
          ca_reasons = as_reasons (check_encryption copy file req site_id s4),
          ca_uncertain = as_uncertain (check_encryption copy file req site_id s4)\<rparr>"
    "vu' = as_valid_until (check_encryption copy file req site_id s4)"
proof -
  from assms obtain s1 s2 where s: "check_freshness (cp_last_verified_time_utc_ms copy)
      (max_verification_age_days req) now ''verification''
       (check_claim copy file \<lparr>as_reasons = [], as_uncertain = False, as_valid_until = vu\<rparr>) = Inr s1"
    "check_freshness (cp_last_seen_time_utc_ms copy) (max_observation_age_days req) now ''observation'' s1 = Inr s2"
    and rest: "(case check_site copy (check_location copy s2) of (site_id, s) \<Rightarrow>
     ebind (check_storage copy req now s) (\<lambda>s.
     let s = check_encryption copy file req site_id s in
     Inr (\<lparr>ca_qualified = (if as_reasons s = [] then Some (qualified_of copy file topology site_id) else None),
           ca_reasons = as_reasons s, ca_uncertain = as_uncertain s\<rparr>, as_valid_until s))) = Inr (a, vu')"
    unfolding assess_copy_def ebind_eq_Inr by (elim exE conjE) (rule that)
  obtain site_id s3 where site: "check_site copy (check_location copy s2) = (site_id, s3)"
    by (cases "check_site copy (check_location copy s2)")
  from rest obtain s4 where "check_storage copy req now s3 = Inr s4" and
    "a = \<lparr>ca_qualified = (if as_reasons (check_encryption copy file req site_id s4) = []
            then Some (qualified_of copy file topology site_id) else None),
          ca_reasons = as_reasons (check_encryption copy file req site_id s4),
          ca_uncertain = as_uncertain (check_encryption copy file req site_id s4)\<rparr>"
    "vu' = as_valid_until (check_encryption copy file req site_id s4)"
    unfolding site prod.case ebind_eq_Inr Let_def by (elim exE conjE) (simp only: sum.inject prod.inject that)
  with s site show thesis by (rule that)
qed

lemma assess_copy_qualified:
  assumes "assess_copy copy file req topology now vu = Inr (a, vu')"
  shows "ca_qualified a = (if qualifies copy file req now
    then Some (qualified_of copy file topology (the (cp_site_id copy))) else None)"
  using assms
proof (cases rule: assess_copy_Inr)
  case (1 s1 s2 site_id s3 s4)
  note checks = check_freshness_Inr [OF 1(1)] check_freshness_Inr [OF 1(2)] check_site_iff(1) [OF 1(3)]
    check_storage_iff [OF 1(4)] check_claim_iff
  have site: "cp_site_id copy = Some site_id" if "place_ok copy" using check_site_iff(2) [OF 1(3) that] .
  have "as_reasons (check_encryption copy file req site_id s4) = [] \<longleftrightarrow> qualifies copy file req now"
  proof (cases "place_ok copy")
    case True
    from check_encryption_iff [OF site [OF True]] True checks show ?thesis
      by (simp add: qualifies_def)
  next
    case False
    with checks show ?thesis by (auto simp: qualifies_def dest: check_encryption_mono)
  qed
  with 1(5) site show ?thesis by (auto simp: qualifies_def)
qed

section \<open>The loop over the copies\<close>

definition qualified_copies ::
  "file_fact \<Rightarrow> policy_requirements \<Rightarrow> domain_topology \<Rightarrow> u64 \<Rightarrow> copy_fact list \<Rightarrow> qualified_copy list" where
  "qualified_copies file req topology now copies =
     map (\<lambda>c. qualified_of c file topology (the (cp_site_id c)))
       (filter (\<lambda>c. qualifies c file req now) copies)"

lemma assess_step_Inr:
  assumes "assess_step file req topology now copy (q, n, u, vu) = Inr (q', n', u', vu')"
  shows "q' = q @ qualified_copies file req topology now [copy]"
proof -
  from assms obtain a where a: "assess_copy copy file req topology now vu = Inr (a, vu')"
    and q: "q' = (case ca_qualified a of Some x \<Rightarrow> q @ [x] | None \<Rightarrow> q)"
    by (auto simp: assess_step_def ebind_eq_Inr split: option.splits)
  show ?thesis
    using q assess_copy_qualified [OF a] by (simp add: qualified_copies_def)
qed

lemma assess_loop_qualified:
  assumes "efold (assess_step file req topology now) copies (q, n, u, vu) = Inr (q', n', u', vu')"
  shows "q' = q @ qualified_copies file req topology now copies"
  using assms
proof (induction copies arbitrary: q n u vu)
  case Nil
  then show ?case by (simp add: qualified_copies_def)
next
  case (Cons copy copies)
  from Cons.prems obtain q1 n1 u1 vu1 where
    first: "assess_step file req topology now copy (q, n, u, vu) = Inr (q1, n1, u1, vu1)"
    and rest: "efold (assess_step file req topology now) copies (q1, n1, u1, vu1) = Inr (q', n', u', vu')"
    by (auto simp: ebind_eq_Inr)
  from Cons.IH [OF rest] assess_step_Inr [OF first] show ?case
    by (simp add: qualified_copies_def)
qed

lemma assess_copies_qualified:
  assumes "assess_copies file req topology now = Inr (q, n, u, vu)"
  shows "q = (if identity_usable file then qualified_copies file req topology now (fa_copies file) else [])"
  using assms by (auto simp: assess_copies_def dest: assess_loop_qualified split: if_splits)

section \<open>Hazards\<close>

text \<open>
  What may be lost at once: a device, a service location, a site, or everything exposed to a
  risk domain. The code names them by strings with a kind and a colon.
\<close>

datatype hazard = DeviceLoss bytes | ServiceLoss bytes | SiteLoss bytes | RiskEvent bytes

fun hazard_str :: "hazard \<Rightarrow> bytes" where
  "hazard_str (DeviceLoss d) = ''device:'' @ d"
| "hazard_str (ServiceLoss l) = ''service:'' @ l"
| "hazard_str (SiteLoss s) = ''site:'' @ s"
| "hazard_str (RiskEvent r) = ''risk:'' @ r"

lemma hazard_str_inj: "hazard_str h = hazard_str h' \<longleftrightarrow> h = h'"
  by (cases h; cases h') simp_all

declare hazard_str.simps [simp del]

text \<open>A copy is exposed to its device (or itself as a service), its site and every risk domain
  assigned to its location, archive root, device or site.\<close>

fun exposed :: "domain_topology \<Rightarrow> copy_fact \<Rightarrow> hazard \<Rightarrow> bool" where
  "exposed topology c (DeviceLoss d) = (cp_device_id c = Some d)"
| "exposed topology c (ServiceLoss l) = (cp_device_id c = None \<and> cp_location_id c = l)"
| "exposed topology c (SiteLoss s) = (cp_site_id c = Some s)"
| "exposed topology c (RiskEvent r) =
     (r \<in> set (dt_assignments topology (''location'', cp_location_id c))
      \<or> (\<exists>a. cp_archive_root_id c = Some a \<and> r \<in> set (dt_assignments topology (''archive_root'', a)))
      \<or> (\<exists>d. cp_device_id c = Some d \<and> r \<in> set (dt_assignments topology (''device'', d)))
      \<or> (\<exists>s. cp_site_id c = Some s \<and> r \<in> set (dt_assignments topology (''site'', s))))"

lemma set_add_custom_domains:
  "set (add_custom_domains topology k i ds) =
     set ds \<union> (case i of None \<Rightarrow> {} | Some x \<Rightarrow>
       (\<lambda>d. hazard_str (RiskEvent d)) ` set (dt_assignments topology (k, x)))"
  by (auto simp: add_custom_domains_def hazard_str.simps split: option.splits)

lemma base_domains:
  "set (btree_set [case cp_device_id c of Some d \<Rightarrow> ''device:'' @ d | None \<Rightarrow> ''service:'' @ cp_location_id c,
     ''site:'' @ s]) =
   {hazard_str (case cp_device_id c of Some d \<Rightarrow> DeviceLoss d | None \<Rightarrow> ServiceLoss (cp_location_id c)),
    hazard_str (SiteLoss s)}"
  by (simp add: hazard_str.simps split: option.split)

lemma copy_domains_iff:
  assumes "cp_site_id c = Some s"
  shows "set (copy_domains c topology s) = hazard_str ` {h. exposed topology c h}"
proof -
  have "set (copy_domains c topology s) =
      {hazard_str (case cp_device_id c of Some d \<Rightarrow> DeviceLoss d | None \<Rightarrow> ServiceLoss (cp_location_id c)),
       hazard_str (SiteLoss s)}
      \<union> (\<lambda>r. hazard_str (RiskEvent r)) ` {r. exposed topology c (RiskEvent r)}"
    using assms unfolding copy_domains_def set_add_custom_domains base_domains
    by (cases "cp_device_id c"; cases "cp_archive_root_id c") auto
  moreover have "{h. exposed topology c h} =
      {case cp_device_id c of Some d \<Rightarrow> DeviceLoss d | None \<Rightarrow> ServiceLoss (cp_location_id c), SiteLoss s}
      \<union> RiskEvent ` {r. exposed topology c (RiskEvent r)}"
    using assms by (intro set_eqI, rename_tac h, case_tac h) (auto split: option.splits)
  ultimately show ?thesis by (simp add: image_Un image_image)
qed

lemma qualified_domains:
  assumes "qualifies c file req now"
  shows "hazard_str h \<in> set (qc_domains (qualified_of c file topology (the (cp_site_id c))))
    \<longleftrightarrow> exposed topology c h"
    and "x \<in> set (qc_domains (qualified_of c file topology (the (cp_site_id c)))) \<Longrightarrow> \<exists>h. x = hazard_str h"
proof -
  from assms obtain s where "cp_site_id c = Some s" by (auto simp: qualifies_def place_ok_def)
  then have "set (qc_domains (qualified_of c file topology (the (cp_site_id c))))
      = hazard_str ` {h. exposed topology c h}"
    using copy_domains_iff by (simp add: qualified_of_def)
  then show "hazard_str h \<in> set (qc_domains (qualified_of c file topology (the (cp_site_id c))))
      \<longleftrightarrow> exposed topology c h"
    "x \<in> set (qc_domains (qualified_of c file topology (the (cp_site_id c)))) \<Longrightarrow> \<exists>h. x = hazard_str h"
    by (auto simp: hazard_str_inj)
qed

text \<open>A permanent loss is a domain that contains every qualifying copy.\<close>

lemma permanent_loss_iff:
  "list_ex ls_permanent_loss (loss_scenarios qs topology) \<longleftrightarrow>
     qs \<noteq> [] \<and> (\<exists>d. \<forall>q\<in>set qs. d \<in> set (qc_domains q))"
proof -
  have all: "length (filter P qs) = length qs \<longleftrightarrow> (\<forall>q\<in>set qs. P q)" for P
    by (metis filter_True length_filter_less less_irrefl)
  have one: "ls_permanent_loss (loss_of qs topology d) \<longleftrightarrow> qs \<noteq> [] \<and> (\<forall>q\<in>set qs. d \<in> set (qc_domains q))" for d
    using all [of "\<lambda>q. d \<in> set (qc_domains q)"] length_filter_le [of "\<lambda>q. d \<in> set (qc_domains q)" qs]
    by (cases "split_once '':'' d") (auto simp: loss_of_def Let_def diff_is_0_eq le_antisym)
  have "list_ex ls_permanent_loss (loss_scenarios qs topology) \<longleftrightarrow>
      (\<exists>d. (\<exists>q\<in>set qs. d \<in> set (qc_domains q)) \<and> ls_permanent_loss (loss_of qs topology d))"
    by (auto simp: loss_scenarios_def list_ex_iff)
  then show ?thesis unfolding one by (cases qs) auto
qed

section \<open>When a file is satisfied\<close>

definition good_copies :: "file_fact \<Rightarrow> policy_requirements \<Rightarrow> u64 \<Rightarrow> copy_fact list" where
  "good_copies file req now = filter (\<lambda>c. qualifies c file req now) (fa_copies file)"

text \<open>
  The specification: enough qualifying copies on enough devices and sites, the demanded
  off-site, offline and encrypted copies, and no single hazard that takes every copy.
\<close>

definition policy_satisfied ::
  "file_fact \<Rightarrow> policy_requirements \<Rightarrow> domain_topology \<Rightarrow> u64 \<Rightarrow> bool" where
  "policy_satisfied file req topology now \<longleftrightarrow>
     identity_usable file
     \<and> unat (min_qualifying_copies req) \<le> length (good_copies file req now)
     \<and> unat (min_devices req) \<le> card {d. \<exists>c\<in>set (good_copies file req now). cp_device_id c = Some d}
     \<and> unat (min_sites req) \<le> card {s. \<exists>c\<in>set (good_copies file req now). cp_site_id c = Some s}
     \<and> (require_offsite_copy req \<longrightarrow>
          (\<exists>c\<in>set (good_copies file req now). cp_site_id c \<noteq> Some (fa_home_site_id file)))
     \<and> (require_offline_copy req \<longrightarrow>
          (\<exists>c\<in>set (good_copies file req now). cp_location_expected_availability c = ''offline''
             \<or> cp_device_expected_availability c = Some ''offline''))
     \<and> (require_encrypted_offsite req \<longrightarrow>
          (\<exists>c\<in>set (good_copies file req now). cp_site_id c \<noteq> Some (fa_home_site_id file)
             \<and> cp_encryption_state c = Some ''encrypted''))
     \<and> (\<forall>h. \<exists>c\<in>set (good_copies file req now). \<not> exposed topology c h)"

lemma good_copies_site:
  "c \<in> set (good_copies file req now) \<Longrightarrow> \<exists>s. cp_site_id c = Some s"
  by (auto simp: good_copies_def qualifies_def place_ok_def)

lemma qualified_copies_eq:
  "qualified_copies file req topology now (fa_copies file) =
     map (\<lambda>c. qualified_of c file topology (the (cp_site_id c))) (good_copies file req now)"
  by (simp add: qualified_copies_def good_copies_def)

lemma qualified_devices:
  "set (List.map_filter qc_device_id (map (\<lambda>c. qualified_of c file topology (the (cp_site_id c))) cs)) =
     {d. \<exists>c\<in>set cs. cp_device_id c = Some d}"
  by (force simp: List.map_filter_def qualified_of_def)

lemma qualified_sites:
  assumes "\<And>c. c \<in> set cs \<Longrightarrow> \<exists>s. cp_site_id c = Some s"
  shows "qc_site_id ` (\<lambda>c. qualified_of c file topology (the (cp_site_id c))) ` set cs =
     {s. \<exists>c\<in>set cs. cp_site_id c = Some s}"
proof -
  have "s = the (cp_site_id c) \<longleftrightarrow> cp_site_id c = Some s" if "c \<in> set cs" for c s
    using assms [OF that] by auto
  then show ?thesis by (simp add: qualified_of_def set_eq_iff image_iff cong: bex_cong)
qed

lemma no_common_hazard:
  assumes "\<And>c. c \<in> set cs \<Longrightarrow> qualifies c file req now" "cs \<noteq> []"
  shows "(\<exists>d. \<forall>c\<in>set cs. d \<in> set (qc_domains (qualified_of c file topology (the (cp_site_id c)))))
    \<longleftrightarrow> (\<exists>h. \<forall>c\<in>set cs. exposed topology c h)"
proof
  assume "\<exists>d. \<forall>c\<in>set cs. d \<in> set (qc_domains (qualified_of c file topology (the (cp_site_id c))))"
  then obtain d where d: "\<forall>c\<in>set cs. d \<in> set (qc_domains (qualified_of c file topology (the (cp_site_id c))))" ..
  moreover have "hd cs \<in> set cs" using assms(2) by simp
  ultimately obtain h where "d = hazard_str h" using qualified_domains(2) [OF assms(1)] by blast
  with d show "\<exists>h. \<forall>c\<in>set cs. exposed topology c h" using qualified_domains(1) [OF assms(1)] by blast
next
  assume "\<exists>h. \<forall>c\<in>set cs. exposed topology c h"
  then show "\<exists>d. \<forall>c\<in>set cs. d \<in> set (qc_domains (qualified_of c file topology (the (cp_site_id c))))"
    using qualified_domains(1) [OF assms(1)] by blast
qed

lemma failed_requirements_Nil:
  "failed_requirements req qs d s = [] \<longleftrightarrow>
     unat (min_qualifying_copies req) \<le> length qs \<and> unat (min_devices req) \<le> d \<and> unat (min_sites req) \<le> s
     \<and> (require_offsite_copy req \<longrightarrow> list_ex qc_offsite qs)
     \<and> (require_offline_copy req \<longrightarrow> list_ex qc_offline qs)
     \<and> (require_encrypted_offsite req \<longrightarrow> list_ex (\<lambda>q. qc_offsite q \<and> qc_encrypted q) qs)"
  by (simp add: failed_requirements_def not_less)

lemma evaluate_file_satisfied:
  assumes "evaluate_file file req topology now = Inr e" and "0 < min_qualifying_copies req"
  shows "fe_status e = None \<longleftrightarrow> policy_satisfied file req topology now"
proof (cases "identity_usable file")
  case False
  with assms(1) show ?thesis
    by (auto simp: evaluate_file_def evaluation_of_def ebind_eq_Inr file_status_def policy_satisfied_def Let_def)
next
  case True
  let ?cs = "good_copies file req now"
  let ?q = "\<lambda>c. qualified_of c file topology (the (cp_site_id c))"
  let ?qs = "map ?q ?cs"
  have good: "qualifies c file req now" if "c \<in> set ?cs" for c
    using that by (simp add: good_copies_def)
  from assms(1) obtain n u vu where "assess_copies file req topology now = Inr (?qs, n, u, vu)"
    "e = evaluation_of file req topology (?qs, n, u, vu)"
    using True by (force simp: evaluate_file_def ebind_eq_Inr qualified_copies_eq dest: assess_copies_qualified)
  then have status: "fe_status e = None \<longleftrightarrow>
      failed_requirements req ?qs (card {d. \<exists>c\<in>set ?cs. cp_device_id c = Some d})
        (card {s. \<exists>c\<in>set ?cs. cp_site_id c = Some s}) = []
      \<and> \<not> list_ex ls_permanent_loss (loss_scenarios ?qs topology)"
    using True qualified_devices [where cs = ?cs]
      qualified_sites [where cs = ?cs, OF good_copies_site]
    by (simp add: evaluation_of_def Let_def file_status_def length_btree_set)
  have home: "the (cp_site_id c) = h \<longleftrightarrow> cp_site_id c = Some h" if "c \<in> set ?cs" for c h
    using good_copies_site [OF that] by auto
  have flags: "list_ex qc_offsite ?qs \<longleftrightarrow> (\<exists>c\<in>set ?cs. cp_site_id c \<noteq> Some (fa_home_site_id file))"
    "list_ex qc_offline ?qs \<longleftrightarrow> (\<exists>c\<in>set ?cs. cp_location_expected_availability c = ''offline''
        \<or> cp_device_expected_availability c = Some ''offline'')"
    "list_ex (\<lambda>q. qc_offsite q \<and> qc_encrypted q) ?qs \<longleftrightarrow> (\<exists>c\<in>set ?cs.
        cp_site_id c \<noteq> Some (fa_home_site_id file) \<and> cp_encryption_state c = Some ''encrypted'')"
    by (simp_all add: list_ex_iff qualified_of_def home cong: bex_cong)
  have loss: "list_ex ls_permanent_loss (loss_scenarios ?qs topology) \<longleftrightarrow>
      (\<exists>h. \<forall>c\<in>set ?cs. exposed topology c h)" if "?cs \<noteq> []"
    using that no_common_hazard [of ?cs "file" req now topology, OF good that] by (simp add: permanent_loss_iff)
  show ?thesis
  proof (cases "?cs = []")
    case True
    with assms(2) have "\<not> policy_satisfied file req topology now" by (simp add: policy_satisfied_def)
    moreover from True assms(2) have "0 < unat (min_qualifying_copies req)"
      by (simp add: word_less_nat_alt)
    ultimately show ?thesis using status True by (simp add: failed_requirements_Nil)
  next
    case False
    with True show ?thesis
      unfolding status failed_requirements_Nil flags loss [OF False] policy_satisfied_def by auto
  qed
qed

text \<open>
  C6. A file is reported satisfied exactly when the abstract specification of its policy
  holds: its identity is resolved, enough copies qualify on enough devices and sites, the
  demanded off-site, offline and encrypted copies exist, and for every device, service, site
  and risk domain a qualifying copy is not exposed to its loss.
\<close>

theorem evaluate_file_refines:
  assumes "evaluate_file file req topology now = Inr e" and "wf_requirements req"
  shows "fe_status e = None \<longleftrightarrow> policy_satisfied file req topology now"
  using assms by (intro evaluate_file_satisfied) (simp_all add: wf_requirements_def)

section \<open>The evaluation never fails on validated requirements\<close>

definition no_overflow :: "policy_requirements \<Rightarrow> u64 \<Rightarrow> bool" where
  "no_overflow req now \<longleftrightarrow>
     list_all (\<lambda>days. unat now + unat days * unat DAY_MS < 2 ^ 64)
       [max_verification_age_days req, max_observation_age_days req, max_device_checkin_age_days req]"

lemma check_storage_total:
  assumes "no_overflow req now"
  shows "\<exists>s'. check_storage copy req now s = Inr s'"
proof -
  have "\<exists>s'. check_freshness ts (max_device_checkin_age_days req) now label s = Inr s'" for ts label s
    using assms by (intro check_freshness_total) (simp add: no_overflow_def)
  then show ?thesis unfolding check_storage_def by (metis ebind_simps(2))
qed

lemma assess_copy_total:
  assumes "no_overflow req now"
  shows "\<exists>r. assess_copy copy file req topology now vu = Inr r"
proof -
  have "\<exists>s'. check_freshness ts (max_verification_age_days req) now label s = Inr s'"
    "\<exists>s'. check_freshness ts (max_observation_age_days req) now label s = Inr s'" for ts label s
    using assms by (intro check_freshness_total; simp add: no_overflow_def)+
  then obtain s1 s2 where s: "check_freshness (cp_last_verified_time_utc_ms copy)
      (max_verification_age_days req) now ''verification''
       (check_claim copy file \<lparr>as_reasons = [], as_uncertain = False, as_valid_until = vu\<rparr>) = Inr s1"
    "check_freshness (cp_last_seen_time_utc_ms copy) (max_observation_age_days req) now ''observation'' s1 = Inr s2"
    by blast
  obtain site_id s3 where site: "check_site copy (check_location copy s2) = (site_id, s3)"
    by (cases "check_site copy (check_location copy s2)")
  obtain s4 where "check_storage copy req now s3 = Inr s4"
    using check_storage_total [OF assms] by blast
  then show ?thesis by (simp add: assess_copy_def s site Let_def)
qed

lemma efold_total:
  assumes "\<And>x s. \<exists>s'. f x s = Inr s'"
  shows "\<exists>s'. efold f xs s = Inr s'"
proof (induction xs arbitrary: s)
  case (Cons x xs)
  from assms [of x s] Cons.IH show ?case by auto
qed simp

text \<open>
  C32. With validated requirements the evaluation of a file always gives an answer: it fails
  for no combination of copies, timestamps and topology, as long as the age limits counted
  from now stay in the 64-bit range.
\<close>

theorem evaluate_file_total:
  assumes "no_overflow req now"
  shows "\<exists>e. evaluate_file file req topology now = Inr e"
proof -
  have "\<exists>st'. assess_step file req topology now copy st = Inr st'" for copy st
  proof (cases st)
    case (fields q n u vu)
    obtain a v where a: "assess_copy copy file req topology now vu = Inr (a, v)"
      using assess_copy_total [OF assms] by fastforce
    show ?thesis unfolding assess_step_def fields prod.case a ebind_simps by blast
  qed
  then have "\<exists>st. assess_copies file req topology now = Inr st"
    unfolding assess_copies_def using efold_total [of "assess_step file req topology now"] by auto
  then show ?thesis by (auto simp: evaluate_file_def)
qed

section \<open>Until when a result holds\<close>

definition lives :: "u64 \<Rightarrow> u64 option \<Rightarrow> bool" where
  "lives now vu \<longleftrightarrow> (case vu of None \<Rightarrow> True | Some u \<Rightarrow> now < u)"

definition past :: "u64 \<Rightarrow> u64 option \<Rightarrow> bool" where
  "past now timestamp \<longleftrightarrow> (case timestamp of None \<Rightarrow> True | Some t \<Rightarrow> t \<le> now)"

text \<open>No timestamp of a copy lies in the future.\<close>

definition past_copy :: "u64 \<Rightarrow> copy_fact \<Rightarrow> bool" where
  "past_copy now copy \<longleftrightarrow>
     past now (cp_last_seen_time_utc_ms copy) \<and> past now (cp_last_verified_time_utc_ms copy)
     \<and> past now (cp_last_checkin_time_utc_ms copy) \<and> past now (cp_last_fingerprint_match_time_utc_ms copy)"

lemma lives_minimum: "lives now (minimum_time vu (Some e)) \<longleftrightarrow> lives now vu \<and> now < e"
  by (cases vu) (auto simp: lives_def)

lemma check_freshness_lives:
  assumes "check_freshness ts days now label s = Inr s'" "lives now' (as_valid_until s')"
  shows "lives now' (as_valid_until s)"
  using assms by (cases rule: check_freshness_cases) (simp_all add: lives_minimum)

lemma check_freshness_later:
  assumes "check_freshness ts days now label s = Inr s'" "lives now' (as_valid_until s')"
    and "now \<le> now'" "past now ts"
  shows "check_freshness ts days now' label s = Inr s'"
proof (cases ts)
  case None
  with assms(1) show ?thesis by (simp add: check_freshness_def)
next
  case (Some t)
  with assms(3,4) have t: "\<not> now < t" "\<not> now' < t" by (auto simp: past_def)
  with assms(1) Some obtain age expiry where e: "checked_mul days DAY_MS = Some age"
    "checked_add t age = Some expiry"
    by (auto simp: check_freshness_def ebind_eq_Inr ok_or_eq_Inr)
  from assms(1) have s': "s' = (if expiry \<le> now then mark_uncertain (label @ ''_stale'') s
      else s\<lparr>as_valid_until := minimum_time (as_valid_until s) (Some expiry)\<rparr>)"
    using t e Some by (simp add: check_freshness_def split: if_splits)
  have "expiry \<le> now \<longleftrightarrow> expiry \<le> now'"
    using assms(2,3) by (auto simp: s' lives_minimum split: if_splits)
  then show ?thesis using t e s' Some by (simp add: check_freshness_def)
qed

lemma check_keeps_valid_until [simp]:
  "as_valid_until (check_claim copy file s) = as_valid_until s"
  "as_valid_until (check_location copy s) = as_valid_until s"
  "as_valid_until (check_device copy s) = as_valid_until s"
  "as_valid_until (check_encryption copy file req site_id s) = as_valid_until s"
  "check_site copy s = (site_id, s') \<Longrightarrow> as_valid_until s' = as_valid_until s"
  by (auto simp: check_claim_def check_location_def check_device_def check_encryption_def check_site_def Let_def
      split: option.splits if_splits)

lemma check_storage_later:
  assumes "check_storage copy req now s = Inr s'" "lives now' (as_valid_until s')"
    and "now \<le> now'" "past_copy now copy"
  shows "check_storage copy req now' s = Inr s' \<and> lives now' (as_valid_until s)"
proof (cases "cp_location_kind copy = ''filesystem''")
  case True
  with assms(1) obtain s1 where s1:
    "check_freshness (cp_last_checkin_time_utc_ms copy) (max_device_checkin_age_days req) now
       ''device_checkin'' (check_device copy s) = Inr s1"
    "check_freshness (cp_last_fingerprint_match_time_utc_ms copy) (max_device_checkin_age_days req) now
       ''device_fingerprint'' s1 = Inr s'"
    by (auto simp: check_storage_def ebind_eq_Inr)
  have l: "lives now' (as_valid_until s1)" by (rule check_freshness_lives [OF s1(2) assms(2)])
  show ?thesis
    using check_freshness_later [OF s1(1) l assms(3)] check_freshness_later [OF s1(2) assms(2,3)]
      check_freshness_lives [OF s1(1) l] assms(4) True
    by (simp add: check_storage_def past_copy_def)
next
  case False
  with assms(1,2) show ?thesis by (auto simp: check_storage_def split: if_splits)
qed

lemma assess_copy_later:
  assumes "assess_copy copy file req topology now vu = Inr (a, vu')" "lives now' vu'"
    and "now \<le> now'" "past_copy now copy"
  shows "assess_copy copy file req topology now' vu = Inr (a, vu') \<and> lives now' vu"
  using assms(1)
proof (cases rule: assess_copy_Inr)
  case (1 s1 s2 site_id s3 s4)
  have "lives now' (as_valid_until s4)" using assms(2) 1(6) by simp
  then have storage: "check_storage copy req now' s3 = Inr s4" "lives now' (as_valid_until s3)"
    using check_storage_later [OF 1(4) _ assms(3,4)] by blast+
  then have l2: "lives now' (as_valid_until s2)" using check_keeps_valid_until(5) [OF 1(3)] by simp
  have l1: "lives now' (as_valid_until s1)" by (rule check_freshness_lives [OF 1(2) l2])
  have "check_freshness (cp_last_seen_time_utc_ms copy) (max_observation_age_days req) now' ''observation'' s1 = Inr s2"
    using check_freshness_later [OF 1(2) l2 assms(3)] assms(4) by (simp add: past_copy_def)
  moreover have "check_freshness (cp_last_verified_time_utc_ms copy) (max_verification_age_days req) now'
      ''verification'' (check_claim copy file \<lparr>as_reasons = [], as_uncertain = False, as_valid_until = vu\<rparr>) = Inr s1"
    using check_freshness_later [OF 1(1) l1 assms(3)] assms(4) by (simp add: past_copy_def)
  moreover have "lives now' vu" using check_freshness_lives [OF 1(1) l1] by simp
  ultimately show ?thesis using storage(1) 1(3,5,6) by (simp add: assess_copy_def Let_def)
qed

lemma assess_step_later:
  assumes "assess_step file req topology now copy (q, n, u, vu) = Inr (q', n', u', vu')" "lives now' vu'"
    and "now \<le> now'" "past_copy now copy"
  shows "assess_step file req topology now' copy (q, n, u, vu) = Inr (q', n', u', vu') \<and> lives now' vu"
proof -
  from assms(1) obtain a where a: "assess_copy copy file req topology now vu = Inr (a, vu')"
    by (auto simp: assess_step_def ebind_eq_Inr split: option.splits)
  from assess_copy_later [OF this assms(2-4)] show ?thesis
    using assms(1) by (simp add: assess_step_def a)
qed

lemma assess_loop_later:
  assumes "efold (assess_step file req topology now) copies (q, n, u, vu) = Inr (q', n', u', vu')"
    and "lives now' vu'" "now \<le> now'" "list_all (past_copy now) copies"
  shows "efold (assess_step file req topology now') copies (q, n, u, vu) = Inr (q', n', u', vu')
    \<and> lives now' vu"
  using assms
proof (induction copies arbitrary: q n u vu)
  case (Cons copy copies)
  from Cons.prems obtain q1 n1 u1 vu1 where
    first: "assess_step file req topology now copy (q, n, u, vu) = Inr (q1, n1, u1, vu1)"
    and rest: "efold (assess_step file req topology now) copies (q1, n1, u1, vu1) = Inr (q', n', u', vu')"
    by (auto simp: ebind_eq_Inr)
  have "efold (assess_step file req topology now') copies (q1, n1, u1, vu1) = Inr (q', n', u', vu')
    \<and> lives now' vu1"
    using Cons.IH [OF rest] Cons.prems by simp
  with assess_step_later [OF first _ Cons.prems(3)] Cons.prems show ?case by simp
qed simp

text \<open>
  C33. A result may be cached: if no timestamp of the file's copies lies in the future, then
  evaluating the same facts at any later moment before the reported expiry gives the same
  status, reasons, actions, qualifying copies and expiry.
\<close>

theorem evaluation_valid_until:
  assumes "evaluate_file file req topology now = Inr e" and "now \<le> now'"
    and "case fe_valid_until_utc_ms e of None \<Rightarrow> True | Some u \<Rightarrow> now' < u"
    and "list_all (past_copy now) (fa_copies file)"
  shows "evaluate_file file req topology now' = Inr e"
proof -
  from assms(1) obtain q n u vu where st: "assess_copies file req topology now = Inr (q, n, u, vu)"
    "e = evaluation_of file req topology (q, n, u, vu)"
    by (force simp: evaluate_file_def ebind_eq_Inr)
  have "lives now' vu" using assms(3) by (simp add: st(2) evaluation_of_def Let_def lives_def)
  then have "assess_copies file req topology now' = Inr (q, n, u, vu)"
    using st(1) assess_loop_later [OF _ _ assms(2,4)]
    by (auto simp: assess_copies_def split: if_splits)
  then show ?thesis by (simp add: evaluate_file_def st(2))
qed

section \<open>A concrete file\<close>

text \<open>Two copies on two devices and sites, from the fixture of the unit tests.\<close>

definition sample_requirements :: policy_requirements where
  "sample_requirements =
     \<lparr>min_qualifying_copies = 2, min_devices = 2, min_sites = 2, require_offsite_copy = True,
      require_offline_copy = True, require_encrypted_offsite = True,
      max_verification_age_days = 30, max_observation_age_days = 30, max_device_checkin_age_days = 30\<rparr>"

definition sample_copy :: "bytes \<Rightarrow> bytes \<Rightarrow> copy_fact" where
  "sample_copy i site =
     \<lparr>cp_copy_claim_id = i, cp_state = ''present'', cp_object_id = Some ''o'',
      cp_last_seen_time_utc_ms = Some 90, cp_last_verified_time_utc_ms = Some 80,
      cp_last_verification_result = Some ''ok'', cp_location_id = i, cp_location_name = i,
      cp_location_kind = ''filesystem'', cp_location_status = ACTIVE, cp_archive_root_id = Some i,
      cp_archive_root_status = Some ACTIVE, cp_archive_root_device_id = Some i, cp_device_id = Some i,
      cp_device_name = Some i, cp_device_status = Some ACTIVE, cp_device_identity_state = Some CONFIRMED,
      cp_device_expected_availability = Some ''offline'', cp_last_checkin_time_utc_ms = Some 70,
      cp_last_fingerprint_match_time_utc_ms = Some 70, cp_last_fingerprint_status = Some ''match'',
      cp_site_id = Some site, cp_site_name = None, cp_site_status = Some ACTIVE,
      cp_encryption_state = Some ''encrypted'', cp_trust_level = Some ''trusted'',
      cp_location_expected_availability = ''offline''\<rparr>"

definition sample_fact :: "bytes \<Rightarrow> file_fact" where
  "sample_fact site =
     \<lparr>fa_file_ref_id = ''f'', fa_object_id = Some ''o'', fa_identity_state = ''resolved'',
      fa_logical_path_display = ''x'', fa_size_bytes = Some 42, fa_hash_algo = Some ''blake3'',
      fa_policy_id = ''p'', fa_collection_id = ''c'', fa_collection_name = ''Files'',
      fa_home_site_id = ''h'', fa_copies = [sample_copy ''a'' ''h'', sample_copy ''b'' site]\<rparr>"

definition sample_topology :: domain_topology where
  "sample_topology = \<lparr>dt_names = (\<lambda>_. None), dt_assignments = (\<lambda>_. [])\<rparr>"

definition sample_evaluation :: "bytes \<Rightarrow> file_evaluation" where
  "sample_evaluation site =
     (case evaluate_file (sample_fact site) sample_requirements sample_topology 100 of Inr e \<Rightarrow> e)"

definition answered :: "'e + 'a \<Rightarrow> ('a \<Rightarrow> bool) \<Rightarrow> bool" where
  "answered r P = (case r of Inl _ \<Rightarrow> False | Inr x \<Rightarrow> P x)"

lemma sample_satisfied:
  "answered (evaluate_file (sample_fact ''r'') sample_requirements sample_topology 100)
     (\<lambda>e. fe_status e = None \<and> fe_valid_until_utc_ms e = Some 2592000070)"
  by code_simp

lemma sample_violated:
  "answered (evaluate_file (sample_fact ''h'') sample_requirements sample_topology 100)
     (\<lambda>e. fe_status e = Some VIOLATED)"
  by code_simp

lemma sample_requirements_ok: "wf_requirements sample_requirements" "no_overflow sample_requirements 100"
  by (simp_all add: wf_requirements_def no_overflow_def sample_requirements_def DAY_MS_def)

lemma answered_eq: "answered r P \<Longrightarrow> r = Inr (case r of Inr e \<Rightarrow> e) \<and> P (case r of Inr e \<Rightarrow> e)"
  by (cases r) (simp_all add: answered_def)

lemmas sample_evaluated =
  answered_eq [OF sample_satisfied, folded sample_evaluation_def]
  answered_eq [OF sample_violated, folded sample_evaluation_def]

theorem evaluate_file_refines_witness:
  "policy_satisfied (sample_fact ''r'') sample_requirements sample_topology 100
   \<and> \<not> policy_satisfied (sample_fact ''h'') sample_requirements sample_topology 100"
  using evaluate_file_refines [OF sample_evaluated(1) [THEN conjunct1] sample_requirements_ok(1)]
    evaluate_file_refines [OF sample_evaluated(2) [THEN conjunct1] sample_requirements_ok(1)]
    sample_evaluated by simp

theorem evaluate_file_total_witness:
  "\<exists>e. evaluate_file (sample_fact ''r'') sample_requirements sample_topology 100 = Inr e"
  by (rule evaluate_file_total [OF sample_requirements_ok(2)])

theorem evaluation_valid_until_witness:
  "evaluate_file (sample_fact ''r'') sample_requirements sample_topology 2592000069
     = Inr (sample_evaluation ''r'')"
proof (rule evaluation_valid_until [OF sample_evaluated(1) [THEN conjunct1]])
  show "list_all (past_copy 100) (fa_copies (sample_fact ''r''))" by code_simp
qed (use sample_evaluated(1) in simp_all)


end
