(* ===== verification/Event_Segments.thy ===== *)
theory Event_Segments
  imports Byte_Strings Json_Values
begin

text \<open>
  Segments of the canonical event stream (\<open>src/src/event_store.rs\<close>): file names, envelopes,
  the check of one event against its position in the hash chain, the scan of a segment file
  and the manifest of a closed segment. A file is its bytes. JSON, BLAKE3 and ULIDs are
  third-party code, held by \<open>event_codec\<close>. An error carries the file it is about by its path
  below the store's root.
\<close>

section \<open>Records\<close>

definition ENVELOPE_VERSION :: u32 where "ENVELOPE_VERSION = 1"
definition MANIFEST_VERSION :: u32 where "MANIFEST_VERSION = 1"
definition CHECKPOINT_VERSION :: u32 where "CHECKPOINT_VERSION = 1"
definition STREAM_ID :: bytes where "STREAM_ID = ''stream_primary''"

datatype chain_fault =
    WrongSequence u64 u64
  | WrongPreviousHash "bytes option" "bytes option"
  | CursorHash bytes

datatype event_store_error =
    EsIo bytes bytes
  | EsInvalidLayout bytes
  | EsInvalidEvent bytes u64 bytes
  | EsHashChain bytes u64 chain_fault
  | EsInvalidManifest bytes bytes
  | EsInvalidCheckpoint bytes bytes
  | EsInvalidInput bytes
  | EsClock

fun event_store_error_code :: "event_store_error \<Rightarrow> bytes" where
  "event_store_error_code (EsIo _ _) = ''event_store_io''"
| "event_store_error_code (EsInvalidLayout _) = ''invalid_event_layout''"
| "event_store_error_code (EsInvalidEvent _ _ _) = ''invalid_event''"
| "event_store_error_code (EsHashChain _ _ _) = ''event_hash_chain_failure''"
| "event_store_error_code (EsInvalidManifest _ _) = ''invalid_segment_manifest''"
| "event_store_error_code (EsInvalidCheckpoint _ _) = ''invalid_checkpoint''"
| "event_store_error_code (EsInvalidInput _) = ''invalid_input''"
| "event_store_error_code EsClock = ''invalid_system_clock''"

record event_store_config =
  cfg_rollover_events :: u64
  cfg_max_event_bytes :: nat
  cfg_actor_id :: bytes
  cfg_host_id :: bytes

definition config_validate :: "event_store_config \<Rightarrow> event_store_error + unit" where
  "config_validate cfg =
     ebind (ensure (cfg_rollover_events cfg \<noteq> 0)
       (EsInvalidInput ''rollover_events must be greater than zero'')) (\<lambda>_.
     ebind (ensure (cfg_max_event_bytes cfg \<noteq> 0)
       (EsInvalidInput ''max_event_bytes must be greater than zero'')) (\<lambda>_.
     ensure (cfg_actor_id cfg \<noteq> [] \<and> cfg_host_id cfg \<noteq> [])
       (EsInvalidInput ''actor_id and host_id must be non-empty'')))"

record event_references =
  rf_job_id :: "bytes option"
  rf_object_id :: "bytes option"
  rf_file_ref_id :: "bytes option"
  rf_copy_claim_id :: "bytes option"
  rf_location_id :: "bytes option"
  rf_device_id :: "bytes option"
  rf_site_id :: "bytes option"

record event_request =
  rq_event_type :: bytes
  rq_payload :: json
  rq_references :: event_references

text \<open>The seven reference members of an envelope are kept together as one record.\<close>

record event_envelope =
  en_v :: u32
  en_stream_id :: bytes
  en_seq :: u64
  en_event_id :: bytes
  en_event_type :: bytes
  en_time_utc_ms :: u64
  en_actor_id :: bytes
  en_host_id :: bytes
  en_references :: event_references
  en_previous_event_hash :: "bytes option"
  en_payload :: json

record event_record =
  er_envelope :: event_envelope
  er_event_hash :: bytes

record segment_manifest =
  sm_manifest_v :: u32
  sm_stream_id :: bytes
  sm_segment_file :: bytes
  sm_first_seq :: u64
  sm_last_seq :: u64
  sm_first_event_id :: bytes
  sm_last_event_id :: bytes
  sm_last_event_hash :: bytes
  sm_event_count :: u64
  sm_segment_size_bytes :: u64
  sm_segment_blake3 :: bytes

record checkpoint_segment =
  cs_file :: bytes
  cs_manifest :: bytes
  cs_segment_blake3 :: bytes

record checkpoint =
  ck_checkpoint_v :: u32
  ck_checkpoint_id :: bytes
  ck_created_time_utc_ms :: u64
  ck_stream_id :: bytes
  ck_event_first_seq :: u64
  ck_event_last_seq :: u64
  ck_event_last_hash :: bytes
  ck_segments :: "checkpoint_segment list"

record checkpoint_event_payload =
  cpl_checkpoint_id :: bytes
  cpl_checkpoint_path :: bytes
  cpl_event_last_seq :: u64

text \<open>A parser gives the parsed value or its error message.\<close>

record event_codec =
  envelope_to_vec :: "event_envelope \<Rightarrow> bytes"
  envelope_from_slice :: "bytes \<Rightarrow> bytes + event_envelope"
  value_from_slice :: "bytes \<Rightarrow> bytes + json"
  envelope_from_value :: "json \<Rightarrow> bytes + event_envelope"
  manifest_to_vec :: "segment_manifest \<Rightarrow> bytes"
  manifest_from_slice :: "bytes \<Rightarrow> bytes + segment_manifest"
  checkpoint_to_vec :: "checkpoint \<Rightarrow> bytes"
  checkpoint_from_slice :: "bytes \<Rightarrow> bytes + checkpoint"
  payload_from_value :: "json \<Rightarrow> bytes + checkpoint_event_payload"
  blake3_hex :: "bytes \<Rightarrow> bytes"
  ulid_ok :: "bytes \<Rightarrow> bool"

section \<open>Decimal numbers and file names\<close>

definition digit :: "nat \<Rightarrow> char" where
  "digit n = char_of (48 + n)"

fun decimal :: "nat \<Rightarrow> bytes" where
  "decimal n = (if n < 10 then [digit n] else decimal (n div 10) @ [digit (n mod 10)])"

declare decimal.simps [simp del]

text \<open>\<open>{:012}\<close>: padded with zeros to at least twelve digits.\<close>

definition zero_padded :: "nat \<Rightarrow> nat \<Rightarrow> bytes" where
  "zero_padded width n = (let d = decimal n in replicate (width - length d) (CHR ''0'') @ d)"

definition digits_value :: "bytes \<Rightarrow> nat" where
  "digits_value ds = foldl (\<lambda>v ch. 10 * v + (of_char ch - 48)) 0 ds"

definition segment_filename :: "u64 \<Rightarrow> bytes" where
  "segment_filename first_seq = ''seg-'' @ zero_padded 12 (unat first_seq) @ ''.jsonl''"

definition manifest_filename :: "u64 \<Rightarrow> bytes" where
  "manifest_filename first_seq = ''seg-'' @ zero_padded 12 (unat first_seq) @ ''.manifest.json''"

text \<open>Twelve digits always fit \<open>u64\<close>, so parsing them does not fail.\<close>

definition parse_numbered :: "bytes \<Rightarrow> bytes \<Rightarrow> u64 option" where
  "parse_numbered suffix name =
     Option.bind (strip_prefix ''seg-'' name) (\<lambda>rest.
     Option.bind (strip_suffix suffix rest) (\<lambda>digits.
     if length digits \<noteq> 12 \<or> \<not> list_all is_ascii_digit digits then None
     else Some (of_nat (digits_value digits))))"

definition parse_segment_filename :: "bytes \<Rightarrow> u64 option" where
  "parse_segment_filename name = parse_numbered ''.jsonl'' name"

definition parse_manifest_filename :: "bytes \<Rightarrow> u64 option" where
  "parse_manifest_filename name = parse_numbered ''.manifest.json'' name"

definition relative_segment_path :: "u64 \<Rightarrow> bytes" where
  "relative_segment_path first_seq = ''events/'' @ STREAM_ID @ ''/'' @ segment_filename first_seq"

definition relative_manifest_path :: "u64 \<Rightarrow> bytes" where
  "relative_manifest_path first_seq = ''manifests/'' @ STREAM_ID @ ''/'' @ manifest_filename first_seq"

definition relative_checkpoint_path :: "bytes \<Rightarrow> bytes" where
  "relative_checkpoint_path checkpoint_id = ''checkpoints/'' @ checkpoint_id @ ''.json''"

section \<open>Events\<close>

definition event_hash :: "event_codec \<Rightarrow> bytes \<Rightarrow> bytes" where
  "event_hash codec line = ''blake3:'' @ blake3_hex codec line"

definition parse_event_line ::
  "event_codec \<Rightarrow> bytes \<Rightarrow> u64 \<Rightarrow> bytes \<Rightarrow> event_store_error + event_envelope" where
  "parse_event_line codec path line_number line =
     map_err (EsInvalidEvent path line_number) (envelope_from_slice codec line)"

definition validate_event ::
  "event_codec \<Rightarrow> bytes \<Rightarrow> u64 \<Rightarrow> event_envelope \<Rightarrow> u64 \<Rightarrow> bytes option \<Rightarrow> event_store_error + unit" where
  "validate_event codec path line_number e expected_seq expected_previous_hash =
     ebind (ensure (en_v e = ENVELOPE_VERSION)
       (EsInvalidEvent path line_number (''unsupported envelope version '' @ decimal (unat (en_v e))))) (\<lambda>_.
     ebind (ensure (en_stream_id e = STREAM_ID)
       (EsInvalidEvent path line_number (''unexpected stream_id '' @ en_stream_id e))) (\<lambda>_.
     ebind (ensure (en_seq e = expected_seq)
       (EsHashChain path line_number (WrongSequence expected_seq (en_seq e)))) (\<lambda>_.
     ebind (ensure (en_previous_event_hash e = expected_previous_hash)
       (EsHashChain path line_number
         (WrongPreviousHash expected_previous_hash (en_previous_event_hash e)))) (\<lambda>_.
     ebind (ensure (en_event_type e \<noteq> [] \<and> en_actor_id e \<noteq> [] \<and> en_host_id e \<noteq> []
                    \<and> json_is_object (en_payload e))
       (EsInvalidEvent path line_number
         ''event_type, actor_id, and host_id must be non-empty and payload must be an object'')) (\<lambda>_.
     ensure (is_prefixed_lowercase_ulid (ulid_ok codec) (en_event_id e) ''evt_'')
       (EsInvalidEvent path line_number ''event_id must be evt_ plus a lowercase ULID''))))))"

section \<open>Scanning a segment\<close>

definition NL :: char where "NL = CHR 0x0A"

text \<open>The lines \<open>read_until\<close> delivers: each with its newline, the last one possibly without.\<close>

function raw_lines :: "bytes \<Rightarrow> bytes list" where
  "raw_lines s =
     (if s = [] then []
      else case dropWhile (\<lambda>ch. ch \<noteq> NL) s of
             [] \<Rightarrow> [s]
           | _ # rest \<Rightarrow> (takeWhile (\<lambda>ch. ch \<noteq> NL) s @ [NL]) # raw_lines rest)"
  by auto
termination
proof (relation "measure length")
  fix s :: bytes and x rest
  assume "dropWhile (\<lambda>ch. ch \<noteq> NL) s = x # rest"
  then have "length rest < length (x # rest)" "length (x # rest) \<le> length s"
    by (simp, metis length_dropWhile_le)
  then show "(rest, s) \<in> measure length" by simp
qed simp

declare raw_lines.simps [simp del]

record segment_scan =
  sc_first_seq :: u64
  sc_last_seq :: "u64 option"
  sc_first_event_id :: "bytes option"
  sc_last_event_id :: "bytes option"
  sc_last_event_hash :: "bytes option"
  sc_event_count :: u64
  sc_segment_size_bytes :: u64
  sc_segment_blake3 :: bytes
  sc_checkpoint_events :: "event_record list"

text \<open>The variables of the loop; the bytes fed to the file hasher are kept as a list.\<close>

record scan_state =
  ss_line_number :: u64
  ss_expected_seq :: u64
  ss_previous_hash :: "bytes option"
  ss_hashed :: bytes
  ss_size_bytes :: u64
  ss_first_event_id :: "bytes option"
  ss_last_event_id :: "bytes option"
  ss_checkpoint_events :: "event_record list"

definition CHECKPOINT_CREATED :: bytes where "CHECKPOINT_CREATED = ''checkpoint_created''"

definition scan_line ::
  "event_codec \<Rightarrow> bytes \<Rightarrow> nat \<Rightarrow> bytes \<Rightarrow> scan_state \<Rightarrow> event_store_error + scan_state" where
  "scan_line codec path max_event_bytes raw_line st =
     (let line_number = ss_line_number st + 1; line = butlast raw_line in
      ebind (ensure (last raw_line = NL)
        (EsInvalidEvent path line_number ''event line is not newline terminated'')) (\<lambda>_.
      ebind (ensure (length line \<le> max_event_bytes)
        (EsInvalidEvent path line_number (''event exceeds '' @ decimal max_event_bytes @ '' bytes''))) (\<lambda>_.
      ebind (parse_event_line codec path line_number line) (\<lambda>e.
      ebind (validate_event codec path line_number e (ss_expected_seq st) (ss_previous_hash st)) (\<lambda>_.
      Inr \<lparr>ss_line_number = line_number, ss_expected_seq = ss_expected_seq st + 1,
           ss_previous_hash = Some (event_hash codec line), ss_hashed = ss_hashed st @ raw_line,
           ss_size_bytes = ss_size_bytes st + of_nat (length raw_line),
           ss_first_event_id = (case ss_first_event_id st of None \<Rightarrow> Some (en_event_id e) | Some i \<Rightarrow> Some i),
           ss_last_event_id = Some (en_event_id e),
           ss_checkpoint_events = ss_checkpoint_events st @
             (if en_event_type e = CHECKPOINT_CREATED
              then [\<lparr>er_envelope = e, er_event_hash = event_hash codec line\<rparr>] else [])\<rparr>)))))"

definition scan_start :: "u64 \<Rightarrow> bytes option \<Rightarrow> scan_state" where
  "scan_start first_seq previous_hash =
     \<lparr>ss_line_number = 0, ss_expected_seq = first_seq, ss_previous_hash = previous_hash, ss_hashed = [],
      ss_size_bytes = 0, ss_first_event_id = None, ss_last_event_id = None, ss_checkpoint_events = []\<rparr>"

definition scan_result :: "event_codec \<Rightarrow> u64 \<Rightarrow> scan_state \<Rightarrow> segment_scan" where
  "scan_result codec first_seq st =
     (let event_count = ss_expected_seq st - first_seq in
      \<lparr>sc_first_seq = first_seq,
       sc_last_seq = (if 0 < event_count then Some (ss_expected_seq st - 1) else None),
       sc_first_event_id = ss_first_event_id st, sc_last_event_id = ss_last_event_id st,
       sc_last_event_hash = (if 0 < event_count then ss_previous_hash st else None),
       sc_event_count = event_count, sc_segment_size_bytes = ss_size_bytes st,
       sc_segment_blake3 = event_hash codec (ss_hashed st),
       sc_checkpoint_events = ss_checkpoint_events st\<rparr>)"

definition scan_segment ::
  "event_codec \<Rightarrow> bytes \<Rightarrow> bytes \<Rightarrow> u64 \<Rightarrow> bytes option \<Rightarrow> nat \<Rightarrow> bool \<Rightarrow> event_store_error + segment_scan" where
  "scan_segment codec path content first_seq expected_previous_hash max_event_bytes allow_empty =
     ebind (efold (scan_line codec path max_event_bytes) (raw_lines content)
              (scan_start first_seq expected_previous_hash)) (\<lambda>st.
     let event_count = ss_expected_seq st - first_seq in
     ebind (ensure (\<not> (event_count = 0 \<and> \<not> allow_empty))
       (EsInvalidLayout (''closed segment '' @ path @ '' is empty''))) (\<lambda>_.
     Inr (scan_result codec first_seq st)))"

section \<open>Manifests\<close>

definition EMPTY_SEGMENT :: event_store_error where
  "EMPTY_SEGMENT = EsInvalidLayout ''cannot manifest an empty segment''"

definition manifest_from_scan :: "segment_scan \<Rightarrow> event_store_error + segment_manifest" where
  "manifest_from_scan scan =
     ebind (ok_or (sc_last_seq scan) EMPTY_SEGMENT) (\<lambda>last_seq.
     ebind (ok_or (sc_first_event_id scan) EMPTY_SEGMENT) (\<lambda>first_event_id.
     ebind (ok_or (sc_last_event_id scan) EMPTY_SEGMENT) (\<lambda>last_event_id.
     ebind (ok_or (sc_last_event_hash scan) EMPTY_SEGMENT) (\<lambda>last_event_hash.
     Inr \<lparr>sm_manifest_v = MANIFEST_VERSION, sm_stream_id = STREAM_ID,
          sm_segment_file = relative_segment_path (sc_first_seq scan), sm_first_seq = sc_first_seq scan,
          sm_last_seq = last_seq, sm_first_event_id = first_event_id, sm_last_event_id = last_event_id,
          sm_last_event_hash = last_event_hash, sm_event_count = sc_event_count scan,
          sm_segment_size_bytes = sc_segment_size_bytes scan,
          sm_segment_blake3 = sc_segment_blake3 scan\<rparr>))))"

definition manifest_difference :: "segment_manifest \<Rightarrow> segment_manifest \<Rightarrow> bytes" where
  "manifest_difference actual expected =
     (if sm_first_event_id actual \<noteq> sm_first_event_id expected then ''first_event_id does not match segment''
      else if sm_last_event_id actual \<noteq> sm_last_event_id expected then ''last_event_id does not match segment''
      else if sm_last_event_hash actual \<noteq> sm_last_event_hash expected
        then ''last_event_hash does not match segment''
      else if sm_segment_blake3 actual \<noteq> sm_segment_blake3 expected
        then ''segment_blake3 does not match segment bytes''
      else ''manifest fields do not match segment'')"

text \<open>\<open>content\<close> is the segment file, of which the check reads the length.\<close>

definition validate_manifest_shape ::
  "event_codec \<Rightarrow> segment_manifest \<Rightarrow> bytes \<Rightarrow> u64 \<Rightarrow> event_store_error + unit" where
  "validate_manifest_shape codec m content first_seq =
     (let invalid = EsInvalidManifest (relative_manifest_path first_seq) in
      ebind (ensure (sm_manifest_v m = MANIFEST_VERSION)
        (invalid (''unsupported manifest version '' @ decimal (unat (sm_manifest_v m))))) (\<lambda>_.
      ebind (ensure (sm_stream_id m = STREAM_ID)
        (invalid (''unexpected stream_id '' @ sm_stream_id m))) (\<lambda>_.
      ebind (ensure (sm_segment_file m = relative_segment_path first_seq)
        (invalid (''segment_file must be '' @ relative_segment_path first_seq))) (\<lambda>_.
      ebind (ensure (\<not> (sm_first_seq m \<noteq> first_seq \<or> sm_event_count m = 0))
        (invalid ''first sequence/count does not match filename'')) (\<lambda>_.
      ebind (ok_or (checked_add first_seq (sm_event_count m - 1))
        (invalid ''manifest range overflows u64'')) (\<lambda>expected_last.
      ebind (ensure (sm_last_seq m = expected_last)
        (invalid (''last_seq '' @ decimal (unat (sm_last_seq m)) @ '' does not equal computed ''
                  @ decimal (unat expected_last)))) (\<lambda>_.
      ebind (ensure (is_prefixed_lowercase_ulid (ulid_ok codec) (sm_first_event_id m) ''evt_''
                     \<and> is_prefixed_lowercase_ulid (ulid_ok codec) (sm_last_event_id m) ''evt_'')
        (invalid ''first_event_id and last_event_id must be evt_ plus lowercase ULIDs'')) (\<lambda>_.
      ebind (ensure (is_blake3_identifier (sm_last_event_hash m) \<and> is_blake3_identifier (sm_segment_blake3 m))
        (invalid ''last_event_hash and segment_blake3 must be lowercase BLAKE3 identifiers'')) (\<lambda>_.
      ensure (length content = unat (sm_segment_size_bytes m))
        (invalid (''segment size is '' @ decimal (length content) @ '', manifest says ''
                  @ decimal (unat (sm_segment_size_bytes m)))))))))))))"

section \<open>The last line of a segment\<close>

text \<open>
  \<open>read_last_line\<close> reads the file backwards in chunks of at most 8192 bytes, not further than
  one byte more than an event may have; the size of a chunk is an argument, the code's is
  \<open>READ_CHUNK\<close>. \<open>rposition\<close> is the last index of a newline.
\<close>

definition READ_CHUNK :: nat where "READ_CHUNK = 8192"

definition rposition :: "bytes \<Rightarrow> nat option" where
  "rposition chunk =
     (case dropWhile (\<lambda>ch. ch \<noteq> NL) (rev chunk) of [] \<Rightarrow> None | _ # rest \<Rightarrow> Some (length rest))"

function last_line_start :: "bytes \<Rightarrow> nat \<Rightarrow> nat \<Rightarrow> nat \<Rightarrow> nat" where
  "last_line_start content buffer lower_bound cursor =
     (if buffer = 0 \<or> cursor \<le> lower_bound then 0
      else
        let chunk_start = max (cursor - buffer) lower_bound;
            chunk = take (cursor - chunk_start) (drop chunk_start content)
        in case rposition chunk of
             Some index \<Rightarrow> chunk_start + index + 1
           | None \<Rightarrow> last_line_start content buffer lower_bound chunk_start)"
  by auto
termination by (relation "measure (\<lambda>(_, _, _, cursor). cursor)") auto

declare last_line_start.simps [simp del]

definition read_last_line :: "nat \<Rightarrow> bytes \<Rightarrow> bytes \<Rightarrow> nat \<Rightarrow> event_store_error + bytes" where
  "read_last_line buffer path content max_event_bytes =
     ebind (ensure (content \<noteq> []) (EsInvalidLayout (''segment '' @ path @ '' is empty''))) (\<lambda>_.
     ebind (ensure (last content = NL)
       (EsInvalidEvent path 0 ''segment does not end with a newline'')) (\<lambda>_.
     let line_end = length content - 1;
         line_start = last_line_start content buffer (line_end - (max_event_bytes + 1)) line_end
     in
     ebind (ensure (line_end - line_start \<le> max_event_bytes)
       (EsInvalidEvent path 0 (''event exceeds '' @ decimal max_event_bytes @ '' bytes''))) (\<lambda>_.
     Inr (take (line_end - line_start) (drop line_start content)))))"

definition read_manifest_last_event ::
  "event_codec \<Rightarrow> nat \<Rightarrow> bytes \<Rightarrow> bytes \<Rightarrow> segment_manifest \<Rightarrow> nat \<Rightarrow> event_store_error + event_record" where
  "read_manifest_last_event codec buffer path content m max_event_bytes =
     ebind (read_last_line buffer path content max_event_bytes) (\<lambda>line.
     ebind (parse_event_line codec path (sm_event_count m) line) (\<lambda>e.
     ebind (ensure (\<not> (en_seq e \<noteq> sm_last_seq m \<or> en_event_id e \<noteq> sm_last_event_id m))
       (EsInvalidManifest path ''last event does not match manifest'')) (\<lambda>_.
     ebind (ensure (event_hash codec line = sm_last_event_hash m)
       (EsInvalidManifest path ''last event hash does not match manifest'')) (\<lambda>_.
     Inr \<lparr>er_envelope = e, er_event_hash = event_hash codec line\<rparr>))))"

end
