(* ===== verification/Hash_Chains.thy ===== *)
theory Hash_Chains
  imports Ledger_Prelude
begin

text \<open>
  The interface of a hash chain: lines that each name the hash of the line before them. The
  canonical event stream and the journal of every origin provide it; a client relies on the
  last hash of a chain committing to all of its lines.
\<close>

locale hash_chain =
  fixes hash :: "'l \<Rightarrow> 'h"
    and follows :: "'i \<Rightarrow> 'h option \<Rightarrow> 'l \<Rightarrow> bool"
    and after :: "'i \<Rightarrow> 'i"
  assumes names_one_hash: "follows i p l \<Longrightarrow> follows j q l \<Longrightarrow> p = q"
begin

text \<open>A line at position \<open>i\<close> after the hash \<open>p\<close>, and so on.\<close>

primrec linked :: "'l list \<Rightarrow> 'i \<Rightarrow> 'h option \<Rightarrow> bool" where
  "linked [] i p \<longleftrightarrow> True"
| "linked (l # ls) i p \<longleftrightarrow> follows i p l \<and> linked ls (after i) (Some (hash l))"

primrec last_hash :: "'l list \<Rightarrow> 'h option \<Rightarrow> 'h option" where
  "last_hash [] p = p"
| "last_hash (l # ls) p = last_hash ls (Some (hash l))"

lemma last_hash_append: "last_hash (ls @ ls') p = last_hash ls' (last_hash ls p)"
  by (induction ls arbitrary: p) simp_all

lemma last_hash_last: "ls \<noteq> [] \<Longrightarrow> last_hash ls p = Some (hash (last ls))"
  by (induction ls arbitrary: p) auto

lemma linked_split:
  "linked (ls @ ls') i p \<longleftrightarrow> linked ls i p \<and> linked ls' ((after ^^ length ls) i) (last_hash ls p)"
  by (induction ls arbitrary: i p) (simp_all add: funpow_swap1)

text \<open>Chains of one length with the same last hash are the same chain.\<close>

lemma last_hash_commits:
  assumes "linked ls i p" "linked ls' j p" "length ls = length ls'"
    and "last_hash ls p = last_hash ls' p" "inj_on hash (set ls \<union> set ls')"
  shows "ls = ls'"
  using assms(3,1,2,4,5)
proof (induction ls ls' rule: rev_induct2)
  case (4 l ls l' ls')
  note c = "4.prems"(2) [unfolded linked_split] and c' = "4.prems"(3) [unfolded linked_split]
  have "hash l = hash l'" using "4.prems"(4) by (simp add: last_hash_append)
  then have l: "l = l'" by (rule inj_onD [OF "4.prems"(5)]) simp_all
  have "last_hash ls p = last_hash ls' p" using c c' names_one_hash by (auto simp: l)
  then have "ls = ls'"
    using "4.IH" c c' "4.prems"(1) inj_on_subset [OF "4.prems"(5), of "set ls \<union> set ls'"] by auto
  with l show ?case by simp
qed auto

end

end
