(* ===== verification/Event_Chain.thy ===== *)
theory Event_Chain
  imports Event_Segments Hash_Chains
begin

text \<open>
  Correctness of the segment operations of \<open>Event_Segments\<close>: segment file names and their
  numbers correspond, the backward search for the last line agrees with a reference
  definition, and a scan accepts exactly the files that are a piece of a hash chain. The last
  hash of a chain commits to every event before it.
\<close>

section \<open>Decimal numbers\<close>

lemma is_ascii_digit_iff: "is_ascii_digit ch \<longleftrightarrow> 48 \<le> (of_char ch :: nat) \<and> of_char ch \<le> (57 :: nat)"
  by (simp add: is_ascii_digit_def less_eq_char_def)

lemma digit_simps:
  assumes "n < 10"
  shows "is_ascii_digit (digit n)" "of_char (digit n) - 48 = n"
  using assms by (auto simp: digit_def is_ascii_digit_iff of_char_of)

lemma digits_value_snoc: "digits_value (ds @ [ch]) = 10 * digits_value ds + (of_char ch - 48)"
  by (simp add: digits_value_def)

lemma decimal_digits: "list_all is_ascii_digit (decimal n)" "digits_value (decimal n) = n" "decimal n \<noteq> []"
proof (induction n rule: less_induct)
  case (less n)
  {
    case 1
    show ?case
      using less(1) [of "n div 10"] by (subst decimal.simps) (auto simp: digit_simps)
  next
    case 2
    show ?case
      using less(2) [of "n div 10"]
      by (subst decimal.simps) (auto simp: digits_value_snoc digit_simps digits_value_def)
  next
    case 3
    show ?case by (subst decimal.simps) simp
  }
qed

lemma length_decimal: "0 < k \<Longrightarrow> length (decimal n) \<le> k \<longleftrightarrow> n < 10 ^ k"
proof (induction n arbitrary: k rule: less_induct)
  case (less n)
  show ?case
  proof (cases "n < 10")
    case True
    then have "length (decimal n) = 1" by (simp add: decimal.simps)
    moreover have "(10 :: nat) \<le> 10 ^ k" using less.prems by (cases k) simp_all
    ultimately show ?thesis using True less.prems by auto
  next
    case False
    then have len: "length (decimal n) = Suc (length (decimal (n div 10)))" by (subst decimal.simps) simp
    show ?thesis
    proof (cases "k = 1")
      case True
      with False len decimal_digits(3) [of "n div 10"] show ?thesis by simp
    next
      case k: False
      with less.prems obtain j where j: "k = Suc j" "0 < j" by (cases k) auto
      have "length (decimal (n div 10)) \<le> j \<longleftrightarrow> n div 10 < 10 ^ j"
        using False by (intro less.IH j) simp
      then show ?thesis using j len by (simp add: less_mult_imp_div_less div_less_iff_less_mult mult.commute)
    qed
  qed
qed

lemma digits_value_bound: "list_all is_ascii_digit ds \<Longrightarrow> digits_value ds < 10 ^ length ds"
proof (induction ds rule: rev_induct)
  case (snoc ch ds)
  then have "of_char ch - 48 < (10 :: nat)" by (auto simp: is_ascii_digit_iff)
  with snoc show ?case by (simp add: digits_value_snoc)
qed (simp add: digits_value_def)

text \<open>A string of digits is determined by its length and its value.\<close>

lemma digits_value_inj:
  assumes "list_all is_ascii_digit ds" "list_all is_ascii_digit ds'" "length ds = length ds'"
    and "digits_value ds = digits_value ds'"
  shows "ds = ds'"
  using assms(3,1,2,4)
proof (induction ds ds' rule: rev_induct2)
  case (4 ch ds ch' ds')
  then have d: "of_char ch - 48 < (10 :: nat)" "of_char ch' - 48 < (10 :: nat)"
    "48 \<le> (of_char ch :: nat)" "48 \<le> (of_char ch' :: nat)"
    by (auto simp: is_ascii_digit_iff)
  from 4 have "10 * digits_value ds + (of_char ch - 48) = 10 * digits_value ds' + (of_char ch' - 48)"
    by (simp add: digits_value_snoc)
  then have "(10 * digits_value ds + (of_char ch - 48)) div 10 = (10 * digits_value ds' + (of_char ch' - 48)) div 10"
    "(10 * digits_value ds + (of_char ch - 48)) mod 10 = (10 * digits_value ds' + (of_char ch' - 48)) mod 10"
    by simp_all
  then have "digits_value ds = digits_value ds'" "of_char ch - 48 = of_char ch' - (48 :: nat)"
    using d(1,2) by (simp_all del: of_char_of)
  moreover from this(2) d(3,4) have "of_char ch = (of_char ch' :: nat)" by (simp add: eq_diff_iff)
  ultimately show ?case using 4 by auto
qed simp_all

section \<open>File names\<close>

lemma zero_padded_digits:
  "list_all is_ascii_digit (zero_padded k n)" "digits_value (zero_padded k n) = n"
proof -
  have zeros: "digits_value (replicate j (CHR ''0'') @ ds) = digits_value ds" for j ds
    by (induction j) (simp_all add: digits_value_def)
  have "is_ascii_digit (CHR ''0'')" by (simp add: is_ascii_digit_iff)
  then show "list_all is_ascii_digit (zero_padded k n)"
    using decimal_digits(1) [of n] by (auto simp: zero_padded_def Let_def list_all_iff)
  show "digits_value (zero_padded k n) = n"
    by (simp add: zero_padded_def Let_def zeros decimal_digits(2))
qed

lemma length_zero_padded: "0 < k \<Longrightarrow> length (zero_padded k n) = k \<longleftrightarrow> n < 10 ^ k"
  using length_decimal [of k n] by (auto simp: zero_padded_def Let_def)

lemma parse_numbered_iff:
  "parse_numbered suffix name = Some n \<longleftrightarrow>
     name = ''seg-'' @ zero_padded 12 (unat n) @ suffix \<and> unat n < 10 ^ 12"
proof
  assume "parse_numbered suffix name = Some n"
  then obtain rest digits where "strip_prefix ''seg-'' name = Some rest" "strip_suffix suffix rest = Some digits"
    and d0: "(if length digits \<noteq> 12 \<or> \<not> list_all is_ascii_digit digits then None
      else Some (of_nat (digits_value digits))) = Some n"
    unfolding parse_numbered_def bind_eq_Some_conv by blast
  then have d1: "name = ''seg-'' @ digits @ suffix"
    by (simp only: strip_prefix_eq_Some strip_suffix_eq_Some append_assoc)
  from d0 have "length digits = 12 \<and> list_all is_ascii_digit digits \<and> n = of_nat (digits_value digits)"
    by (simp split: if_splits)
  with d1 have d: "name = ''seg-'' @ digits @ suffix" "length digits = 12"
    "list_all is_ascii_digit digits" "n = of_nat (digits_value digits)"
    by blast+
  have v: "digits_value digits < 10 ^ 12" using digits_value_bound [OF d(3)] d(2) by simp
  then have n: "unat n = digits_value digits"
    unfolding d(4) by (intro unat_of_nat_u64 less_trans [OF v]) simp
  have z: "digits = zero_padded 12 (unat n)"
    using v n d(2,3) zero_padded_digits length_zero_padded by (intro digits_value_inj) simp_all
  show "name = ''seg-'' @ zero_padded 12 (unat n) @ suffix \<and> unat n < 10 ^ 12"
    unfolding z [symmetric] using d1 v n by (intro conjI) simp_all
next
  assume r: "name = ''seg-'' @ zero_padded 12 (unat n) @ suffix \<and> unat n < 10 ^ 12"
  have "strip_prefix ''seg-'' name = Some (zero_padded 12 (unat n) @ suffix)"
    "strip_suffix suffix (zero_padded 12 (unat n) @ suffix) = Some (zero_padded 12 (unat n))"
    using r by (simp_all add: strip_prefix_eq_Some strip_suffix_eq_Some)
  then show "parse_numbered suffix name = Some n"
    using r length_zero_padded [of 12 "unat n"] zero_padded_digits [of 12 "unat n"]
    by (simp add: parse_numbered_def)
qed

text \<open>
  C38. Segment and manifest file names are faithful up to twelve digits: a file name parses to
  a sequence number exactly if it is the name the store gives to that number, and no number
  of more than twelve digits is ever parsed back from its name.
\<close>

theorem segment_filename_roundtrip:
  "(parse_segment_filename name = Some n \<longleftrightarrow> name = segment_filename n \<and> unat n < 10 ^ 12)
   \<and> (parse_manifest_filename name = Some n \<longleftrightarrow> name = manifest_filename n \<and> unat n < 10 ^ 12)"
  by (simp only: parse_segment_filename_def parse_manifest_filename_def parse_numbered_iff
      segment_filename_def manifest_filename_def)

section \<open>The last line\<close>

lemma rposition_None: "NL \<notin> set chunk \<Longrightarrow> rposition chunk = None"
proof -
  assume "NL \<notin> set chunk"
  then have "dropWhile (\<lambda>ch. ch \<noteq> NL) (rev chunk) = []" by (auto simp: dropWhile_eq_Nil_conv)
  then show ?thesis by (simp only: rposition_def list.case)
qed

lemma rposition_Some: "NL \<notin> set b \<Longrightarrow> rposition (a @ NL # b) = Some (length a)"
proof -
  assume "NL \<notin> set b"
  then have "ch \<noteq> NL" if "ch \<in> set (rev b)" for ch using that by auto
  then have "dropWhile (\<lambda>ch. ch \<noteq> NL) (rev b @ NL # rev a) = NL # rev a"
    by (subst dropWhile_append2) simp_all
  then show ?thesis by (simp add: rposition_def)
qed

lemma last_line_start_eq:
  assumes "content = pre @ line @ [NL]" "NL \<notin> set line" "pre = [] \<or> last pre = NL" "0 < buffer"
    and "length pre \<le> cursor" "cursor \<le> length pre + length line"
  shows "last_line_start content buffer lower_bound cursor = (if lower_bound < length pre then length pre else 0)"
  using assms(5,6)
proof (induction cursor rule: less_induct)
  case (less cursor)
  let ?start = "max (cursor - buffer) lower_bound"
  let ?chunk = "take (cursor - ?start) (drop ?start content)"
  show ?case
  proof (cases "cursor \<le> lower_bound")
    case True
    with less.prems show ?thesis by (auto simp: last_line_start.simps)
  next
    case False
    then have start: "?start < cursor" using assms(4) by auto
    show ?thesis
    proof (cases "?start < length pre")
      case True
      then have "pre \<noteq> []" by auto
      with assms(3) obtain p where p: "pre = p @ [NL]" by (metis append_butlast_last_id)
      have chunk: "take (cursor - k) (drop k content) = drop k p @ NL # take (cursor - length pre) line"
        if "k < length pre" "k < cursor" for k
        using that less.prems by (simp add: assms(1) p take_Cons')
      have "?chunk = drop ?start p @ NL # take (cursor - length pre) line"
        by (rule chunk [OF True start])
      moreover have "NL \<notin> set (take (cursor - length pre) line)"
        using assms(2) by (auto dest: in_set_takeD)
      ultimately have "rposition ?chunk = Some (length (drop ?start p))"
        by (simp add: rposition_Some)
      moreover have "length (drop ?start p) + ?start + 1 = length pre" using True p by simp
      ultimately show ?thesis
        using False assms(4) True by (subst last_line_start.simps) (simp add: Let_def)
    next
      case inside: False
      have chunk: "take (cursor - k) (drop k content) = take (cursor - k) (drop (k - length pre) line)"
        if "length pre \<le> k" for k
        using that less.prems by (simp add: assms(1))
      have "?chunk = take (cursor - ?start) (drop (?start - length pre) line)"
        by (rule chunk [OF leI [OF inside]])
      then have "NL \<notin> set ?chunk"
        using assms(2) by (auto dest!: in_set_takeD in_set_dropD)
      then have "last_line_start content buffer lower_bound cursor
          = last_line_start content buffer lower_bound ?start"
        using False assms(4) by (subst last_line_start.simps) (simp add: Let_def rposition_None)
      also have "\<dots> = (if lower_bound < length pre then length pre else 0)"
        by (rule less.IH [OF start leI [OF inside]]) (use start less.prems in simp)
      finally show ?thesis .
    qed
  qed
qed

text \<open>
  Reading the last event backwards is exact and ends: whatever the size of the chunks, for
  a file whose last line is \<open>line\<close> the result is that line if it is not longer than an event
  may be, and the error about an oversized event otherwise.
\<close>

theorem read_last_line_exact:
  assumes "0 < buffer" and "NL \<notin> set line" and "pre = [] \<or> last pre = NL"
  shows "read_last_line buffer path (pre @ line @ [NL]) max_event_bytes =
    (if length line \<le> max_event_bytes then Inr line
     else Inl (EsInvalidEvent path 0 (''event exceeds '' @ decimal max_event_bytes @ '' bytes'')))"
proof -
  let ?content = "pre @ line @ [NL]" and ?stop = "length pre + length line"
  have "last_line_start ?content buffer (?stop - (max_event_bytes + 1)) ?stop
      = (if ?stop - (max_event_bytes + 1) < length pre then length pre else 0)"
    by (rule last_line_start_eq [OF refl assms(2,3,1)]) simp_all
  then have start: "last_line_start ?content buffer (length ?content - 1 - (max_event_bytes + 1))
      (length ?content - 1) = (if ?stop - (max_event_bytes + 1) < length pre then length pre else 0)"
    by simp
  show ?thesis
  proof (cases "length line \<le> max_event_bytes")
    case True
    then have "?stop - (max_event_bytes + 1) < length pre \<or> length pre = 0" by arith
    then have "(if ?stop - (max_event_bytes + 1) < length pre then length pre else 0) = length pre" by auto
    with start have start': "last_line_start ?content buffer (length ?content - 1 - (max_event_bytes + 1))
        (length ?content - 1) = length pre" by (simp only:)
    have "take (length ?content - 1 - length pre) (drop (length pre) ?content) = line" by simp
    moreover have "length ?content - 1 - length pre \<le> max_event_bytes" using True by simp
    ultimately show ?thesis
      unfolding read_last_line_def Let_def start' ebind_ensure using True by simp
  next
    case False
    then have "\<not> ?stop - (if ?stop - (max_event_bytes + 1) < length pre then length pre else 0) \<le> max_event_bytes"
      by auto
    then have "\<not> length ?content - 1 - (if ?stop - (max_event_bytes + 1) < length pre then length pre else 0)
        \<le> max_event_bytes" by (simp only: length_append list.size)
    moreover have "?content \<noteq> []" "last ?content = NL" by simp_all
    ultimately show ?thesis
      unfolding read_last_line_def Let_def start ebind_ensure using False
      by (simp only: if_True if_False simp_thms)
  qed
qed

theorem read_last_line_exact_witness:
  "read_last_line 2 ''s'' (''ab'' @ [NL] @ ''cdefg'' @ [NL]) 5 = Inr ''cdefg''"
  using read_last_line_exact [of 2 "''cdefg''" "''ab'' @ [NL]" "''s''" 5] by (simp add: NL_def)

section \<open>Lines of a file\<close>

text \<open>A file that is a sequence of newline-terminated lines.\<close>

definition file_of :: "bytes list \<Rightarrow> bytes" where
  "file_of ls = concat (map (\<lambda>l. l @ [NL]) ls)"

lemma file_of_simps [simp]:
  "file_of [] = []" "file_of (l # ls) = l @ NL # file_of ls" "file_of (ls @ ls') = file_of ls @ file_of ls'"
  by (simp_all add: file_of_def)

lemma raw_lines_Nil [simp]: "raw_lines [] = []"
  by (simp add: raw_lines.simps)

lemma raw_lines_line: "NL \<notin> set l \<Longrightarrow> raw_lines (l @ NL # s) = (l @ [NL]) # raw_lines s"
proof -
  assume "NL \<notin> set l"
  then have "ch \<noteq> NL" if "ch \<in> set l" for ch using that by auto
  then have "dropWhile (\<lambda>ch. ch \<noteq> NL) (l @ NL # s) = NL # s" "takeWhile (\<lambda>ch. ch \<noteq> NL) (l @ NL # s) = l"
    by (simp_all add: takeWhile_tail)
  then show ?thesis by (subst raw_lines.simps) simp
qed

lemma raw_lines_partial: "NL \<notin> set l \<Longrightarrow> l \<noteq> [] \<Longrightarrow> raw_lines l = [l]"
proof -
  assume "NL \<notin> set l" and l: "l \<noteq> []"
  then have "dropWhile (\<lambda>ch. ch \<noteq> NL) l = []" by (auto simp: dropWhile_eq_Nil_conv)
  with l show ?thesis by (simp only: raw_lines.simps [of l] list.case if_False)
qed

lemma raw_lines_file:
  "list_all (\<lambda>l. NL \<notin> set l) ls \<Longrightarrow> raw_lines (file_of ls @ s) = map (\<lambda>l. l @ [NL]) ls @ raw_lines s"
  by (induction ls) (simp_all add: raw_lines_line)

text \<open>Every file is complete lines followed by a piece without a newline.\<close>

lemma file_split:
  obtains ls t where "s = file_of ls @ t" "list_all (\<lambda>l. NL \<notin> set l) ls" "NL \<notin> set t"
proof (induction s arbitrary: thesis rule: length_induct)
  case (1 s)
  show ?case
  proof (cases "NL \<in> set s")
    case False
    then show ?thesis using 1(2) [of "[]" s] by simp
  next
    case True
    then obtain l r where s: "s = l @ NL # r" "NL \<notin> set l" by (meson split_list_first)
    with 1(1) obtain ls t where "r = file_of ls @ t" "list_all (\<lambda>l. NL \<notin> set l) ls" "NL \<notin> set t"
      by (metis length_append length_Cons less_Suc_eq trans_less_add2)
    with s show ?thesis using 1(2) [of "l # ls" t] by simp
  qed
qed

section \<open>Hash chains\<close>

definition event_ok :: "event_codec \<Rightarrow> event_envelope \<Rightarrow> u64 \<Rightarrow> bytes option \<Rightarrow> bool" where
  "event_ok codec e expected_seq previous_hash \<longleftrightarrow>
     en_v e = ENVELOPE_VERSION \<and> en_stream_id e = STREAM_ID \<and> en_seq e = expected_seq
     \<and> en_previous_event_hash e = previous_hash \<and> en_event_type e \<noteq> [] \<and> en_actor_id e \<noteq> []
     \<and> en_host_id e \<noteq> [] \<and> json_is_object (en_payload e)
     \<and> is_prefixed_lowercase_ulid (ulid_ok codec) (en_event_id e) ''evt_''"

lemma validate_event_iff:
  "validate_event codec path n e seq prev = Inr () \<longleftrightarrow> event_ok codec e seq prev"
  unfolding validate_event_def event_ok_def ebind_eq_Inr ensure_eq_Inr by blast

text \<open>
  A piece of the stream: the lines of consecutive events, each naming the hash of the line
  before it. The envelopes are what the parser reads from the lines.
\<close>

fun chain :: "event_codec \<Rightarrow> nat \<Rightarrow> u64 \<Rightarrow> bytes option \<Rightarrow> bytes list \<Rightarrow> event_envelope list \<Rightarrow> bool" where
  "chain codec mx seq prev [] es \<longleftrightarrow> es = []"
| "chain codec mx seq prev (l # ls) es \<longleftrightarrow>
     (case es of [] \<Rightarrow> False
      | e # es' \<Rightarrow> NL \<notin> set l \<and> length l \<le> mx \<and> envelope_from_slice codec l = Inr e
          \<and> event_ok codec e seq prev \<and> chain codec mx (seq + 1) (Some (event_hash codec l)) ls es')"

text \<open>The hash after some lines.\<close>

fun tail_hash :: "event_codec \<Rightarrow> bytes option \<Rightarrow> bytes list \<Rightarrow> bytes option" where
  "tail_hash codec prev [] = prev"
| "tail_hash codec prev (l # ls) = tail_hash codec (Some (event_hash codec l)) ls"

lemma tail_hash_append [simp]: "tail_hash codec prev (ls @ ls') = tail_hash codec (tail_hash codec prev ls) ls'"
  by (induction ls arbitrary: prev) simp_all

lemma tail_hash_last: "ls \<noteq> [] \<Longrightarrow> tail_hash codec prev ls = Some (event_hash codec (last ls))"
  by (induction ls arbitrary: prev) auto

lemma chain_length: "chain codec mx seq prev ls es \<Longrightarrow> length ls = length es"
  by (induction ls arbitrary: seq prev es) (auto split: list.splits)

lemma chain_append:
  "length ls = length es \<Longrightarrow> chain codec mx seq prev (ls @ ls') (es @ es') \<longleftrightarrow>
     chain codec mx seq prev ls es
     \<and> chain codec mx (seq + of_nat (length ls)) (tail_hash codec prev ls) ls' es'"
proof (induction ls arbitrary: seq prev es)
  case (Cons l ls)
  then obtain e es0 where "es = e # es0" "length ls = length es0" by (cases es) auto
  with Cons.IH show ?case by (auto simp: add.assoc)
qed simp

lemma chain_no_newline: "chain codec mx seq prev ls es \<Longrightarrow> list_all (\<lambda>l. NL \<notin> set l) ls"
  by (induction ls arbitrary: seq prev es) (auto split: list.splits)

lemma chain_nth_seq:
  "chain codec mx seq prev ls es \<Longrightarrow> i < length ls \<Longrightarrow> en_seq (es ! i) = seq + of_nat i"
proof (induction ls arbitrary: seq prev es i)
  case (Cons l ls)
  then show ?case
    by (cases i) (auto simp: event_ok_def algebra_simps split: list.splits)
qed simp

text \<open>The stream of events is a hash chain.\<close>

definition event_follows :: "event_codec \<Rightarrow> u64 \<Rightarrow> bytes option \<Rightarrow> bytes \<Rightarrow> bool" where
  "event_follows codec seq prev l \<longleftrightarrow> (\<exists>e. envelope_from_slice codec l = Inr e \<and> event_ok codec e seq prev)"

interpretation event_stream: hash_chain "event_hash codec" "event_follows codec" "\<lambda>seq. seq + 1"
  by unfold_locales (auto simp: event_follows_def event_ok_def)

lemma chain_linked: "chain codec mx seq prev ls es \<Longrightarrow> event_stream.linked codec ls seq prev"
proof (induction ls arbitrary: seq prev es)
  case (Cons l ls)
  from Cons.prems obtain e es' where "envelope_from_slice codec l = Inr e \<and> event_ok codec e seq prev"
    and "chain codec mx (seq + 1) (Some (event_hash codec l)) ls es'"
    by (auto split: list.splits)
  moreover from this(1) have "event_follows codec seq prev l" unfolding event_follows_def by (rule exI)
  ultimately show ?case using Cons.IH by simp
qed simp

lemma tail_hash_last_hash: "tail_hash codec prev ls = event_stream.last_hash codec ls prev"
  by (induction ls arbitrary: prev) simp_all


section \<open>Scanning is checking the chain\<close>

definition checkpoint_records :: "event_codec \<Rightarrow> bytes list \<Rightarrow> event_envelope list \<Rightarrow> event_record list" where
  "checkpoint_records codec ls es =
     map (\<lambda>(l, e). \<lparr>er_envelope = e, er_event_hash = event_hash codec l\<rparr>)
       (filter (\<lambda>(l, e). en_event_type e = CHECKPOINT_CREATED) (zip ls es))"

definition scanned_lines :: "event_codec \<Rightarrow> bytes list \<Rightarrow> event_envelope list \<Rightarrow> scan_state \<Rightarrow> scan_state" where
  "scanned_lines codec ls es st =
     \<lparr>ss_line_number = ss_line_number st + of_nat (length ls),
      ss_expected_seq = ss_expected_seq st + of_nat (length ls),
      ss_previous_hash = tail_hash codec (ss_previous_hash st) ls,
      ss_hashed = ss_hashed st @ file_of ls,
      ss_size_bytes = ss_size_bytes st + of_nat (length (file_of ls)),
      ss_first_event_id = (case ss_first_event_id st of Some i \<Rightarrow> Some i
         | None \<Rightarrow> if es = [] then None else Some (en_event_id (hd es))),
      ss_last_event_id = (if es = [] then ss_last_event_id st else Some (en_event_id (last es))),
      ss_checkpoint_events = ss_checkpoint_events st @ checkpoint_records codec ls es\<rparr>"

lemma scan_line_iff:
  assumes "NL \<notin> set l"
  shows "scan_line codec path mx (l @ [NL]) st = Inr st' \<longleftrightarrow>
    (\<exists>e. chain codec mx (ss_expected_seq st) (ss_previous_hash st) [l] [e]
       \<and> st' = scanned_lines codec [l] [e] st)"
proof -
  have "scan_line codec path mx (l @ [NL]) st = Inr st' \<longleftrightarrow>
      length l \<le> mx \<and> (\<exists>e. envelope_from_slice codec l = Inr e
        \<and> event_ok codec e (ss_expected_seq st) (ss_previous_hash st) \<and> st' = scanned_lines codec [l] [e] st)"
    by (auto simp: scan_line_def Let_def ebind_eq_Inr parse_event_line_def map_err_eq_Inr validate_event_iff
        scanned_lines_def checkpoint_records_def split: option.splits if_splits)
  then show ?thesis using assms by auto
qed

lemma scanned_lines_Cons:
  "length ls = length es \<Longrightarrow>
     scanned_lines codec ls es (scanned_lines codec [l] [e] st) = scanned_lines codec (l # ls) (e # es) st"
  by (auto simp: scanned_lines_def checkpoint_records_def split: option.splits)

lemma scanned_lines_Nil: "scanned_lines codec [] [] st = st"
  by (cases st) (simp add: scanned_lines_def checkpoint_records_def split: option.splits)

lemma scan_lines_iff:
  assumes "list_all (\<lambda>l. NL \<notin> set l) ls"
  shows "efold (scan_line codec path mx) (map (\<lambda>l. l @ [NL]) ls) st = Inr st' \<longleftrightarrow>
    (\<exists>es. chain codec mx (ss_expected_seq st) (ss_previous_hash st) ls es \<and> st' = scanned_lines codec ls es st)"
  using assms
proof (induction ls arbitrary: st)
  case Nil
  then show ?case by (auto simp: scanned_lines_Nil)
next
  case (Cons l ls)
  have next_state: "ss_expected_seq (scanned_lines codec [l] [e] st) = ss_expected_seq st + 1"
    "ss_previous_hash (scanned_lines codec [l] [e] st) = Some (event_hash codec l)" for e
    by (simp_all add: scanned_lines_def)
  have "efold (scan_line codec path mx) (map (\<lambda>l. l @ [NL]) (l # ls)) st = Inr st' \<longleftrightarrow>
      (\<exists>e es. chain codec mx (ss_expected_seq st) (ss_previous_hash st) [l] [e]
        \<and> chain codec mx (ss_expected_seq st + 1) (Some (event_hash codec l)) ls es
        \<and> st' = scanned_lines codec ls es (scanned_lines codec [l] [e] st))"
  proof -
    have l: "NL \<notin> set l" and rest: "list_all (\<lambda>l. NL \<notin> set l) ls" using Cons.prems by simp_all
    show ?thesis
      unfolding list.map efold.simps ebind_eq_Inr scan_line_iff [OF l] Cons.IH [OF rest]
      using next_state by metis
  qed
  also have "\<dots> \<longleftrightarrow> (\<exists>es. chain codec mx (ss_expected_seq st) (ss_previous_hash st) (l # ls) es
      \<and> st' = scanned_lines codec (l # ls) es st)"
    (is "?L \<longleftrightarrow> ?R")
  proof
    assume ?L
    then obtain e es where c: "chain codec mx (ss_expected_seq st) (ss_previous_hash st) [l] [e]"
        "chain codec mx (ss_expected_seq st + 1) (Some (event_hash codec l)) ls es"
        "st' = scanned_lines codec ls es (scanned_lines codec [l] [e] st)" by blast
    have "chain codec mx (ss_expected_seq st) (ss_previous_hash st) (l # ls) (e # es)"
      using c(1,2) by simp
    then show ?R using c(3) scanned_lines_Cons [OF chain_length [OF c(2)]] by metis
  next
    assume ?R
    then obtain es0 where c: "chain codec mx (ss_expected_seq st) (ss_previous_hash st) (l # ls) es0"
      "st' = scanned_lines codec (l # ls) es0 st" by blast
    obtain e es where es0: "es0 = e # es" using chain_length [OF c(1)] by (cases es0) auto
    have c2: "chain codec mx (ss_expected_seq st) (ss_previous_hash st) [l] [e]"
      "chain codec mx (ss_expected_seq st + 1) (Some (event_hash codec l)) ls es"
      using c(1) unfolding es0 by simp_all
    then show ?L using c(2) scanned_lines_Cons [OF chain_length [OF c2(2)]] unfolding es0 by metis
  qed
  finally show ?case .
qed

definition scan_of :: "event_codec \<Rightarrow> u64 \<Rightarrow> bytes option \<Rightarrow> bytes list \<Rightarrow> event_envelope list \<Rightarrow> segment_scan" where
  "scan_of codec first_seq prev ls es =
     \<lparr>sc_first_seq = first_seq,
      sc_last_seq = (if ls = [] then None else Some (first_seq + of_nat (length ls) - 1)),
      sc_first_event_id = (if es = [] then None else Some (en_event_id (hd es))),
      sc_last_event_id = (if es = [] then None else Some (en_event_id (last es))),
      sc_last_event_hash = (if ls = [] then None else tail_hash codec prev ls),
      sc_event_count = of_nat (length ls), sc_segment_size_bytes = of_nat (length (file_of ls)),
      sc_segment_blake3 = event_hash codec (file_of ls),
      sc_checkpoint_events = checkpoint_records codec ls es\<rparr>"

lemma length_file_of: "length ls \<le> length (file_of ls)"
  by (induction ls) simp_all

lemma of_nat_zero_iff: "n < 2 ^ 64 \<Longrightarrow> (of_nat n :: u64) = 0 \<longleftrightarrow> n = 0"
  using unat_of_nat_u64 [of n] unat_eq_zero [of "of_nat n :: u64"] by simp

lemma file_of_inj:
  assumes "file_of ls = file_of ls'" "list_all (\<lambda>l. NL \<notin> set l) ls" "list_all (\<lambda>l. NL \<notin> set l) ls'"
  shows "ls' = ls"
proof -
  have "map (\<lambda>l. l @ [NL]) ls = map (\<lambda>l. l @ [NL]) ls'"
    using assms(1) raw_lines_file [OF assms(2), of "[]"] raw_lines_file [OF assms(3), of "[]"] by simp
  moreover have "inj (\<lambda>l. l @ [NL])" by (simp add: inj_def)
  ultimately show ?thesis by (simp add: inj_map_eq_map)
qed

lemma scanned_from_start:
  assumes "chain codec mx first_seq prev ls es"
  shows "ss_expected_seq (scanned_lines codec ls es (scan_start first_seq prev)) = first_seq + of_nat (length ls)"
    and "ss_previous_hash (scanned_lines codec ls es (scan_start first_seq prev)) = tail_hash codec prev ls"
    and "ss_hashed (scanned_lines codec ls es (scan_start first_seq prev)) = file_of ls"
    and "ss_size_bytes (scanned_lines codec ls es (scan_start first_seq prev)) = of_nat (length (file_of ls))"
    and "ss_first_event_id (scanned_lines codec ls es (scan_start first_seq prev)) =
      (if es = [] then None else Some (en_event_id (hd es)))"
    and "ss_last_event_id (scanned_lines codec ls es (scan_start first_seq prev)) =
      (if es = [] then None else Some (en_event_id (last es)))"
    and "ss_checkpoint_events (scanned_lines codec ls es (scan_start first_seq prev)) = checkpoint_records codec ls es"
  by (simp_all add: scanned_lines_def scan_start_def)

lemma scan_result_of_chain:
  assumes "chain codec mx first_seq prev ls es" and len: "length ls < 2 ^ 64"
  shows "scan_result codec first_seq (scanned_lines codec ls es (scan_start first_seq prev)) =
    scan_of codec first_seq prev ls es"
proof -
  have diff: "first_seq + of_nat (length ls) - first_seq = (of_nat (length ls) :: u64)" by simp
  have pos: "(0 :: u64) < of_nat (length ls) \<longleftrightarrow> ls \<noteq> []"
    using of_nat_zero_iff [OF len] by (simp add: word_gt_0)
  show ?thesis
    unfolding scan_result_def Let_def scanned_from_start [OF assms(1)] diff pos scan_of_def by simp
qed

lemma scan_segment_of_chain:
  assumes ls: "list_all (\<lambda>l. NL \<notin> set l) ls" and len: "length ls < 2 ^ 64"
  shows "scan_segment codec path (file_of ls) first_seq prev mx allow_empty = Inr scan \<longleftrightarrow>
    (\<exists>es. chain codec mx first_seq prev ls es \<and> (ls = [] \<longrightarrow> allow_empty)
       \<and> scan = scan_of codec first_seq prev ls es)"
proof -
  have raw: "raw_lines (file_of ls) = map (\<lambda>l. l @ [NL]) ls"
    using raw_lines_file [OF ls, of "[]"] by (simp add: raw_lines.simps)
  note zero = of_nat_zero_iff [OF len]
  have start: "ss_expected_seq (scan_start first_seq prev) = first_seq"
    "ss_previous_hash (scan_start first_seq prev) = prev" by (simp_all add: scan_start_def)
  have diff: "first_seq + of_nat (length ls) - first_seq = (of_nat (length ls) :: u64)" by simp
  have "scan_segment codec path (file_of ls) first_seq prev mx allow_empty = Inr scan \<longleftrightarrow>
      (\<exists>es. chain codec mx first_seq prev ls es \<and> \<not> (ls = [] \<and> \<not> allow_empty)
         \<and> scan_of codec first_seq prev ls es = scan)"
    (is "_ \<longleftrightarrow> ?R")
  proof -
    have "scan_segment codec path (file_of ls) first_seq prev mx allow_empty = Inr scan \<longleftrightarrow>
      (\<exists>st es. (chain codec mx first_seq prev ls es \<and> st = scanned_lines codec ls es (scan_start first_seq prev))
        \<and> \<not> (ss_expected_seq st - first_seq = 0 \<and> \<not> allow_empty) \<and> scan_result codec first_seq st = scan)"
      unfolding scan_segment_def Let_def raw ebind_eq_Inr ensure_eq_Inr scan_lines_iff [OF ls] start sum.inject
      by blast
    also have "\<dots> \<longleftrightarrow> ?R"
      by (metis (no_types, lifting) scanned_from_start(1) diff zero length_0_conv scan_result_of_chain [OF _ len])
    finally show ?thesis .
  qed
  then show ?thesis by blast
qed

lemma scan_segment_chains:
  assumes "length content < 2 ^ 64"
  shows "scan_segment codec path content first_seq prev mx allow_empty = Inr scan \<longleftrightarrow>
    (\<exists>ls es. content = file_of ls \<and> chain codec mx first_seq prev ls es \<and> (ls = [] \<longrightarrow> allow_empty)
       \<and> scan = scan_of codec first_seq prev ls es)"
proof -
  obtain ls t where s: "content = file_of ls @ t" "list_all (\<lambda>l. NL \<notin> set l) ls" "NL \<notin> set t"
    by (rule file_split)
  have len: "length ls < 2 ^ 64" using assms s(1) length_file_of [of ls] by simp
  note raw = raw_lines_file [OF s(2), of t]
  show ?thesis
  proof (cases "t = []")
    case True
    have "scan_segment codec path content first_seq prev mx allow_empty = Inr scan \<longleftrightarrow>
        (\<exists>es. chain codec mx first_seq prev ls es \<and> (ls = [] \<longrightarrow> allow_empty)
           \<and> scan = scan_of codec first_seq prev ls es)"
      using scan_segment_of_chain [OF s(2) len] s(1) True by simp
    moreover have "ls' = ls" if "file_of ls = file_of ls'" "chain codec mx first_seq prev ls' es" for ls' es
      using file_of_inj [OF that(1) s(2) chain_no_newline [OF that(2)]] .
    ultimately show ?thesis using True s(1) by auto
  next
    case False
    have "last t \<noteq> NL" using s(3) False by (metis last_in_set)
    have "efold (scan_line codec path mx) (raw_lines content) st \<noteq> Inr st'" for st st'
      using raw raw_lines_partial [OF s(3) False] \<open>last t \<noteq> NL\<close>
      by (auto simp: s(1) efold_append ebind_eq_Inr scan_line_def Let_def)
    moreover have "content \<noteq> file_of ls'" for ls'
    proof
      assume "content = file_of ls'"
      then have "last content = NL"
        using False s(1) by (cases ls' rule: rev_cases) (auto simp: file_of_def)
      then show False using \<open>last t \<noteq> NL\<close> False s(1) by simp
    qed
    ultimately show ?thesis by (simp add: scan_segment_def ebind_eq_Inr)
  qed
qed

text \<open>
  C31. Scanning a segment file accepts exactly the pieces of a hash chain: it succeeds if and
  only if the file is a sequence of newline-terminated lines which are consecutive events from
  the expected sequence number and previous hash on, within the size limit, and then reports
  their number, range, identifiers, last hash, size, digest and checkpoint events.
\<close>

theorem scan_segment_accepts_chains:
  assumes "length content < 2 ^ 64"
  shows "scan_segment codec path content first_seq prev mx allow_empty = Inr scan \<longleftrightarrow>
    (\<exists>ls es. content = file_of ls \<and> chain codec mx first_seq prev ls es \<and> (ls = [] \<longrightarrow> allow_empty)
       \<and> scan = scan_of codec first_seq prev ls es)"
  using assms by (rule scan_segment_chains)

section \<open>A sample stream\<close>

text \<open>
  A codec on which the theorems are exercised: the line of event \<open>n\<close> is the letter \<open>e\<close> and
  the number, the hash of a text its hexadecimal digits padded to 64.
\<close>

definition sample_hash :: "bytes \<Rightarrow> bytes" where
  "sample_hash s = take 64 (filter (\<lambda>b. is_ascii_digit b \<or> CHR ''a'' \<le> b \<and> b \<le> CHR ''f'') s
     @ replicate 64 (CHR ''0''))"

definition sample_line :: "nat \<Rightarrow> bytes" where
  "sample_line n = CHR ''e'' # decimal n"

definition no_references :: event_references where
  "no_references = \<lparr>rf_job_id = None, rf_object_id = None, rf_file_ref_id = None, rf_copy_claim_id = None,
     rf_location_id = None, rf_device_id = None, rf_site_id = None\<rparr>"

definition sample_envelope :: "nat \<Rightarrow> event_envelope" where
  "sample_envelope n = \<lparr>en_v = ENVELOPE_VERSION, en_stream_id = STREAM_ID, en_seq = of_nat n,
     en_event_id = ''evt_00000000000000000000000001'', en_event_type = ''note'', en_time_utc_ms = 5,
     en_actor_id = ''a'', en_host_id = ''h'', en_references = no_references,
     en_previous_event_hash =
       (if n \<le> 1 then None else Some (''blake3:'' @ sample_hash (sample_line (n - 1)))),
     en_payload = JObj []\<rparr>"

definition sample_parse :: "bytes \<Rightarrow> bytes + event_envelope" where
  "sample_parse l =
     (if l \<noteq> [] \<and> hd l = CHR ''e'' \<and> tl l \<noteq> [] \<and> list_all is_ascii_digit (tl l)
      then Inr (sample_envelope (digits_value (tl l))) else Inl ''expected value'')"

definition sample_event_codec :: event_codec where
  "sample_event_codec = \<lparr>envelope_to_vec = (\<lambda>e. sample_line (unat (en_seq e))), envelope_from_slice = sample_parse,
     value_from_slice = (\<lambda>_. Inl ''expected value''), envelope_from_value = (\<lambda>_. Inl ''expected value''),
     manifest_to_vec = (\<lambda>_. []), manifest_from_slice = (\<lambda>_. Inl ''expected value''),
     checkpoint_to_vec = (\<lambda>_. []), checkpoint_from_slice = (\<lambda>_. Inl ''expected value''),
     payload_from_value = (\<lambda>_. Inl ''expected value''), blake3_hex = sample_hash,
     ulid_ok = (\<lambda>u. length u = 26)\<rparr>"

definition sample_lines :: "bytes list" where
  "sample_lines = map sample_line [1, 2, 3]"

lemma sample_chain: "chain sample_event_codec 64 1 None sample_lines (map sample_envelope [1, 2, 3])"
  by code_simp


theorem scan_segment_accepts_chains_witness:
  "scan_segment sample_event_codec ''s'' (file_of sample_lines) 1 None 64 False =
     Inr (scan_of sample_event_codec 1 None sample_lines (map sample_envelope [1, 2, 3]))
   \<and> chain sample_event_codec 64 1 None sample_lines (map sample_envelope [1, 2, 3])"
proof -
  have "length (file_of sample_lines) = 9" by code_simp
  then have "length (file_of sample_lines) < 2 ^ 64" by simp
  moreover have "sample_lines \<noteq> []" by code_simp
  ultimately show ?thesis using scan_segment_accepts_chains [of "file_of sample_lines" sample_event_codec "''s''" 1 None 64 False] sample_chain
    by blast
qed

end
