(* ===== verification/Event_Store.thy ===== *)
theory Event_Store
  imports Event_Chain
begin

text \<open>
  The event store itself (\<open>src/src/event_store.rs\<close>): its three directories, the writer's
  state, recovery of the open segment, appending with rollover, publication of manifests,
  verification, and checkpoints. An operation that writes is a function of the files that
  gives its result together with the files it leaves, also when it fails. Every operation of
  the code runs under the writer lock, so operations do not interleave. Input and output
  succeed, except that opening a file that is missing or creating one that exists fails, and
  synchronisation has no effect. Names are text: a name that is not UTF-8, which the code
  refuses, does not occur.
\<close>

section \<open>Directories\<close>

datatype dir_entry = RegularFile bytes | OtherEntry

type_synonym directory = "(bytes \<times> dir_entry) list"

record store_files =
  sf_events :: directory
  sf_manifests :: directory
  sf_checkpoints :: directory

fun is_file :: "dir_entry \<Rightarrow> bool" where
  "is_file (RegularFile _) = True"
| "is_file OtherEntry = False"

definition file_content :: "directory \<Rightarrow> bytes \<Rightarrow> bytes option" where
  "file_content dir name = (case map_of dir name of Some (RegularFile content) \<Rightarrow> Some content | _ \<Rightarrow> None)"

definition dir_put :: "directory \<Rightarrow> bytes \<Rightarrow> bytes \<Rightarrow> directory" where
  "dir_put dir name content =
     (if name \<in> fst ` set dir
      then map (\<lambda>(n, e). if n = name then (n, RegularFile content) else (n, e)) dir
      else dir @ [(name, RegularFile content)])"

definition event_dir_path :: bytes where "event_dir_path = ''events/'' @ STREAM_ID @ ''/''"
definition manifest_dir_path :: bytes where "manifest_dir_path = ''manifests/'' @ STREAM_ID @ ''/''"
definition checkpoint_dir_path :: bytes where "checkpoint_dir_path = ''checkpoints/''"

definition read_file :: "bytes \<Rightarrow> directory \<Rightarrow> bytes \<Rightarrow> event_store_error + bytes" where
  "read_file path dir name = ok_or (file_content dir name) (EsIo ''open'' (path @ name))"

text \<open>Insertion into a \<open>BTreeMap\<close>, kept as its entries in key order.\<close>

fun btree_insert :: "'k :: linorder \<Rightarrow> 'v \<Rightarrow> ('k \<times> 'v) list \<Rightarrow> ('k \<times> 'v) list" where
  "btree_insert k v [] = [(k, v)]"
| "btree_insert k v ((k', v') # m) =
     (if k < k' then (k, v) # (k', v') # m
      else if k = k' then (k, v) # m
      else (k', v') # btree_insert k v m)"

definition is_temporary :: "bytes \<Rightarrow> bool" where
  "is_temporary name \<longleftrightarrow> starts_with name ''.'' \<and> ends_with name ''.tmp''"

definition list_entry ::
  "bytes \<Rightarrow> (bytes \<Rightarrow> u64 option) \<Rightarrow> bytes \<Rightarrow> bytes \<times> dir_entry \<Rightarrow> (u64 \<times> bytes) list
   \<Rightarrow> event_store_error + (u64 \<times> bytes) list" where
  "list_entry path parser kind entry files =
     (let name = fst entry in
      if is_temporary name then Inr files
      else
        ebind (ensure (is_file (snd entry))
          (EsInvalidLayout (''unexpected non-file entry in '' @ kind @ '' directory: '' @ path @ name))) (\<lambda>_.
        ebind (ok_or (parser name)
          (EsInvalidLayout (''unexpected file in '' @ kind @ '' directory: '' @ path @ name))) (\<lambda>first_seq.
        ebind (ensure (first_seq \<notin> fst ` set files)
          (EsInvalidLayout (''duplicate '' @ kind @ '' for first sequence '' @ decimal (unat first_seq)))) (\<lambda>_.
        Inr (btree_insert first_seq name files)))))"

definition list_canonical_files ::
  "bytes \<Rightarrow> directory \<Rightarrow> (bytes \<Rightarrow> u64 option) \<Rightarrow> bytes \<Rightarrow> event_store_error + (u64 \<times> bytes) list" where
  "list_canonical_files path dir parser kind = efold (list_entry path parser kind) dir []"

definition list_segments :: "store_files \<Rightarrow> event_store_error + (u64 \<times> bytes) list" where
  "list_segments fs = list_canonical_files event_dir_path (sf_events fs) parse_segment_filename ''event segment''"

definition list_manifests :: "store_files \<Rightarrow> event_store_error + (u64 \<times> bytes) list" where
  "list_manifests fs =
     list_canonical_files manifest_dir_path (sf_manifests fs) parse_manifest_filename ''segment manifest''"

definition list_checkpoint_files ::
  "event_codec \<Rightarrow> directory \<Rightarrow> event_store_error + (bytes \<times> bytes) list" where
  "list_checkpoint_files codec dir =
     efold (\<lambda>(name, entry) files.
       if is_temporary name then Inr files
       else
         ebind (ensure (is_file entry)
           (EsInvalidLayout (''unexpected non-file in checkpoint directory: '' @ checkpoint_dir_path @ name))) (\<lambda>_.
         ebind (ok_or (strip_suffix ''.json'' name)
           (EsInvalidLayout (''unexpected checkpoint file: '' @ checkpoint_dir_path @ name))) (\<lambda>checkpoint_id.
         ebind (ok_or (strip_prefix ''chk_'' checkpoint_id)
           (EsInvalidLayout (''invalid checkpoint filename: '' @ name))) (\<lambda>ulid_text.
         ebind (ensure (\<not> (ulid_text \<noteq> to_ascii_lowercase ulid_text \<or> \<not> ulid_ok codec ulid_text))
           (EsInvalidLayout (''invalid checkpoint filename: '' @ name))) (\<lambda>_.
         Inr (btree_insert checkpoint_id name files)))))) dir []"

definition read_manifest :: "event_codec \<Rightarrow> store_files \<Rightarrow> bytes \<Rightarrow> event_store_error + segment_manifest" where
  "read_manifest codec fs name =
     ebind (read_file manifest_dir_path (sf_manifests fs) name) (\<lambda>content.
     map_err (EsInvalidManifest (manifest_dir_path @ name)) (manifest_from_slice codec content))"

definition read_checkpoint :: "event_codec \<Rightarrow> store_files \<Rightarrow> bytes \<Rightarrow> event_store_error + checkpoint" where
  "read_checkpoint codec fs name =
     ebind (read_file checkpoint_dir_path (sf_checkpoints fs) name) (\<lambda>content.
     map_err (EsInvalidCheckpoint (checkpoint_dir_path @ name)) (checkpoint_from_slice codec content))"

section \<open>Operations on the files\<close>

type_synonym 'a store_op = "store_files \<Rightarrow> (event_store_error + 'a) \<times> store_files"

definition pure_op :: "event_store_error + 'a \<Rightarrow> 'a store_op" where
  "pure_op r fs = (r, fs)"

definition reading :: "(store_files \<Rightarrow> event_store_error + 'a) \<Rightarrow> 'a store_op" where
  "reading f fs = (f fs, fs)"

definition sbind :: "'a store_op \<Rightarrow> ('a \<Rightarrow> 'b store_op) \<Rightarrow> 'b store_op" where
  "sbind m f fs = (case m fs of (Inl e, fs') \<Rightarrow> (Inl e, fs') | (Inr x, fs') \<Rightarrow> f x fs')"

fun sfold :: "('x \<Rightarrow> 's \<Rightarrow> 's store_op) \<Rightarrow> 'x list \<Rightarrow> 's \<Rightarrow> 's store_op" where
  "sfold f [] s = pure_op (Inr s)"
| "sfold f (x # xs) s = sbind (f x s) (sfold f xs)"

definition put_segment :: "bytes \<Rightarrow> bytes \<Rightarrow> unit store_op" where
  "put_segment name content fs = (Inr (), fs\<lparr>sf_events := dir_put (sf_events fs) name content\<rparr>)"

definition put_manifest :: "bytes \<Rightarrow> bytes \<Rightarrow> unit store_op" where
  "put_manifest name content fs = (Inr (), fs\<lparr>sf_manifests := dir_put (sf_manifests fs) name content\<rparr>)"

definition put_checkpoint :: "bytes \<Rightarrow> bytes \<Rightarrow> unit store_op" where
  "put_checkpoint name content fs = (Inr (), fs\<lparr>sf_checkpoints := dir_put (sf_checkpoints fs) name content\<rparr>)"

section \<open>The writer's state\<close>

text \<open>The path of the open segment is the one its first sequence number gives.\<close>

record open_segment =
  os_first_seq :: u64
  os_event_count :: u64
  os_newly_created :: bool

record writer_state =
  ws_closed :: "segment_manifest list"
  ws_open :: "open_segment option"
  ws_next_seq :: u64
  ws_previous_event_hash :: "bytes option"

text \<open>
  Recovery of the open segment: complete lines must be events of the chain; a last line
  without newline is removed unless it is a JSON value, which must then be the next event
  and gets its newline.
\<close>

datatype tail_action = KeepTail | TruncateTail nat | CompleteTail

fun recover_lines ::
  "event_codec \<Rightarrow> bytes \<Rightarrow> nat \<Rightarrow> bytes list \<Rightarrow> u64 \<Rightarrow> u64 \<Rightarrow> bytes option \<Rightarrow> nat
   \<Rightarrow> event_store_error + tail_action" where
  "recover_lines codec path max_event_bytes [] line_number expected_seq previous_hash line_start = Inr KeepTail"
| "recover_lines codec path max_event_bytes (raw_line # rest) line_number0 expected_seq previous_hash line_start =
     (let line_number = line_number0 + 1;
          terminated = (last raw_line = NL);
          line = (if terminated then butlast raw_line else raw_line)
      in
      ebind (ensure (length line \<le> max_event_bytes)
        (EsInvalidEvent path line_number (''event exceeds '' @ decimal max_event_bytes @ '' bytes''))) (\<lambda>_.
      if terminated then
        ebind (parse_event_line codec path line_number line) (\<lambda>e.
        ebind (validate_event codec path line_number e expected_seq previous_hash) (\<lambda>_.
        recover_lines codec path max_event_bytes rest line_number (expected_seq + 1)
          (Some (event_hash codec line)) (line_start + length raw_line)))
      else
        case value_from_slice codec line of
          Inl _ \<Rightarrow> Inr (TruncateTail line_start)
        | Inr generic \<Rightarrow>
            ebind (map_err (EsInvalidEvent path line_number) (envelope_from_value codec generic)) (\<lambda>e.
            ebind (validate_event codec path line_number e expected_seq previous_hash) (\<lambda>_.
            Inr CompleteTail))))"

fun apply_tail_action :: "tail_action \<Rightarrow> bytes \<Rightarrow> bytes" where
  "apply_tail_action KeepTail content = content"
| "apply_tail_action (TruncateTail n) content = take n content"
| "apply_tail_action CompleteTail content = content @ [NL]"

definition recover_open_tail ::
  "event_codec \<Rightarrow> event_store_config \<Rightarrow> bytes \<Rightarrow> u64 \<Rightarrow> bytes option \<Rightarrow> unit store_op" where
  "recover_open_tail codec cfg name first_seq expected_previous_hash =
     sbind (reading (\<lambda>fs. read_file event_dir_path (sf_events fs) name)) (\<lambda>content.
     sbind (pure_op (recover_lines codec (event_dir_path @ name) (cfg_max_event_bytes cfg) (raw_lines content)
              0 first_seq expected_previous_hash 0)) (\<lambda>action.
     put_segment name (apply_tail_action action content)))"

definition scan_named ::
  "event_codec \<Rightarrow> event_store_config \<Rightarrow> store_files \<Rightarrow> bytes \<Rightarrow> u64 \<Rightarrow> bytes option \<Rightarrow> bool
   \<Rightarrow> event_store_error + segment_scan" where
  "scan_named codec cfg fs name first_seq expected_previous_hash allow_empty =
     ebind (read_file event_dir_path (sf_events fs) name) (\<lambda>content.
     scan_segment codec (event_dir_path @ name) content first_seq expected_previous_hash
       (cfg_max_event_bytes cfg) allow_empty)"

definition manifests_have_segments ::
  "(u64 \<times> bytes) list \<Rightarrow> (u64 \<times> bytes) list \<Rightarrow> event_store_error + unit" where
  "manifests_have_segments segments manifests =
     efold (\<lambda>first_seq _. ensure (first_seq \<in> fst ` set segments)
       (EsInvalidLayout (''manifest for sequence '' @ decimal (unat first_seq) @ '' has no segment'')))
       (map fst manifests) ()"

definition wrong_first_seq :: "u64 \<Rightarrow> u64 \<Rightarrow> event_store_error" where
  "wrong_first_seq expected found =
     EsInvalidLayout (''expected segment starting at '' @ decimal (unat expected) @ '', found '' @ decimal (unat found))"

definition lacks_manifest :: "u64 \<Rightarrow> event_store_error" where
  "lacks_manifest first_seq =
     EsInvalidLayout (''non-tail segment '' @ decimal (unat first_seq) @ '' lacks a manifest'')"

definition SEQUENCE_OVERFLOW :: event_store_error where
  "SEQUENCE_OVERFLOW = EsInvalidLayout ''event sequence overflow''"

text \<open>Reading the manifest of a segment and checking it against the file's name and size.\<close>

definition load_manifest ::
  "event_codec \<Rightarrow> store_files \<Rightarrow> u64 \<Rightarrow> bytes \<Rightarrow> bytes \<Rightarrow> event_store_error + segment_manifest" where
  "load_manifest codec fs first_seq segment_name manifest_name =
     ebind (read_manifest codec fs manifest_name) (\<lambda>m.
     ebind (read_file event_dir_path (sf_events fs) segment_name) (\<lambda>content.
     ebind (validate_manifest_shape codec m content first_seq) (\<lambda>_.
     Inr m)))"

definition inspect_segment ::
  "event_codec \<Rightarrow> event_store_config \<Rightarrow> bool \<Rightarrow> (u64 \<times> bytes) list \<Rightarrow> u64 \<times> bytes
   \<Rightarrow> writer_state \<Rightarrow> writer_state store_op" where
  "inspect_segment codec cfg recover_tail manifests segment ws =
     (let (first_seq, name) = segment in
      sbind (pure_op (ensure (first_seq = ws_next_seq ws) (wrong_first_seq (ws_next_seq ws) first_seq))) (\<lambda>_.
      case map_of manifests first_seq of
        Some manifest_name \<Rightarrow>
          sbind (reading (\<lambda>fs. load_manifest codec fs first_seq name manifest_name)) (\<lambda>m.
          sbind (pure_op (ok_or (checked_add (sm_last_seq m) 1) SEQUENCE_OVERFLOW)) (\<lambda>next_seq.
          pure_op (Inr (ws\<lparr>ws_closed := ws_closed ws @ [m], ws_next_seq := next_seq,
                            ws_previous_event_hash := Some (sm_last_event_hash m)\<rparr>))))
      | None \<Rightarrow>
          sbind (if recover_tail then recover_open_tail codec cfg name first_seq (ws_previous_event_hash ws)
                 else pure_op (Inr ())) (\<lambda>_.
          sbind (reading (\<lambda>fs. scan_named codec cfg fs name first_seq (ws_previous_event_hash ws) True)) (\<lambda>scan.
          pure_op (Inr (ws\<lparr>ws_open := Some \<lparr>os_first_seq = first_seq, os_event_count = sc_event_count scan,
                                              os_newly_created = False\<rparr>,
                            ws_next_seq := (case sc_last_seq scan of None \<Rightarrow> first_seq | Some n \<Rightarrow> n + 1),
                            ws_previous_event_hash := (case sc_last_event_hash scan of
                              None \<Rightarrow> ws_previous_event_hash ws | Some h \<Rightarrow> Some h)\<rparr>))))))"

definition check_unmanifested ::
  "(u64 \<times> bytes) list \<Rightarrow> (u64 \<times> bytes) list \<Rightarrow> event_store_error + unit" where
  "check_unmanifested segments manifests =
     (let unmanifested = filter (\<lambda>n. n \<notin> fst ` set manifests) (map fst segments) in
      ebind (ensure (length unmanifested \<le> 1)
        (EsInvalidLayout ''more than one unmanifested segment'')) (\<lambda>_.
      case unmanifested of
        [] \<Rightarrow> Inr ()
      | first_seq # _ \<Rightarrow> ensure (fst (last segments) = first_seq) (lacks_manifest first_seq)))"

definition empty_writer_state :: writer_state where
  "empty_writer_state = \<lparr>ws_closed = [], ws_open = None, ws_next_seq = 1, ws_previous_event_hash = None\<rparr>"

definition inspect_writer_state ::
  "event_codec \<Rightarrow> event_store_config \<Rightarrow> bool \<Rightarrow> writer_state store_op" where
  "inspect_writer_state codec cfg recover_tail =
     sbind (reading list_segments) (\<lambda>segments.
     sbind (reading list_manifests) (\<lambda>manifests.
     sbind (pure_op (manifests_have_segments segments manifests)) (\<lambda>_.
     sbind (pure_op (check_unmanifested segments manifests)) (\<lambda>_.
     sfold (inspect_segment codec cfg recover_tail manifests) segments empty_writer_state))))"

section \<open>Appending\<close>

definition validate_public_batch :: "event_request list \<Rightarrow> event_store_error + unit" where
  "validate_public_batch requests =
     ebind (ensure (requests \<noteq> [])
       (EsInvalidInput ''an append batch must contain at least one event'')) (\<lambda>_.
     ensure (\<not> list_ex (\<lambda>r. rq_event_type r = CHECKPOINT_CREATED) requests)
       (EsInvalidInput ''checkpoint_created may only be emitted by create_checkpoint''))"

definition validate_request :: "event_request \<Rightarrow> event_store_error + unit" where
  "validate_request r =
     ebind (ensure (rq_event_type r \<noteq> []) (EsInvalidInput ''event_type must be non-empty'')) (\<lambda>_.
     ensure (json_is_object (rq_payload r)) (EsInvalidInput ''event payload must be a JSON object''))"

text \<open>
  What an operation takes from its surroundings: the ULID generator and the clock, by the
  sequence number of the event being prepared, and the ULID of a new checkpoint. The clock
  gives nothing when it is before the epoch.
\<close>

record surroundings =
  new_ulid :: "u64 \<Rightarrow> bytes"
  now_utc_ms :: "u64 \<Rightarrow> u64 option"
  checkpoint_ulid :: bytes

definition new_prefixed_ulid :: "bytes \<Rightarrow> bytes \<Rightarrow> bytes" where
  "new_prefixed_ulid prefix ulid = prefix @ to_ascii_lowercase ulid"

record prepared_event =
  pe_envelope :: event_envelope
  pe_line :: bytes
  pe_hash :: bytes

fun prepare_events ::
  "event_codec \<Rightarrow> event_store_config \<Rightarrow> surroundings \<Rightarrow> event_request list \<Rightarrow> u64 \<Rightarrow> bytes option
   \<Rightarrow> event_store_error + prepared_event list" where
  "prepare_events codec cfg env [] prepared_seq prepared_previous_hash = Inr []"
| "prepare_events codec cfg env (r # rs) prepared_seq prepared_previous_hash =
     ebind (ok_or (now_utc_ms env prepared_seq) EsClock) (\<lambda>now.
     let e = \<lparr>en_v = ENVELOPE_VERSION, en_stream_id = STREAM_ID, en_seq = prepared_seq,
              en_event_id = new_prefixed_ulid ''evt_'' (new_ulid env prepared_seq),
              en_event_type = rq_event_type r, en_time_utc_ms = now, en_actor_id = cfg_actor_id cfg,
              en_host_id = cfg_host_id cfg, en_references = rq_references r,
              en_previous_event_hash = prepared_previous_hash, en_payload = rq_payload r\<rparr>;
         line = envelope_to_vec codec e; hash = event_hash codec line
     in
     ebind (ensure (length line \<le> cfg_max_event_bytes cfg)
       (EsInvalidInput (''serialized event exceeds '' @ decimal (cfg_max_event_bytes cfg) @ '' bytes''))) (\<lambda>_.
     ebind (ok_or (checked_add prepared_seq 1) SEQUENCE_OVERFLOW) (\<lambda>next_seq.
     ebind (prepare_events codec cfg env rs next_seq (Some hash)) (\<lambda>rest.
     Inr (\<lparr>pe_envelope = e, pe_line = line, pe_hash = hash\<rparr> # rest)))))"

definition sync_open_segment :: "writer_state \<Rightarrow> writer_state store_op" where
  "sync_open_segment ws =
     (case ws_open ws of
        None \<Rightarrow> pure_op (Inr ws)
      | Some os \<Rightarrow>
          sbind (reading (\<lambda>fs. read_file event_dir_path (sf_events fs) (segment_filename (os_first_seq os)))) (\<lambda>_.
          pure_op (Inr (ws\<lparr>ws_open := Some (os\<lparr>os_newly_created := False\<rparr>)\<rparr>))))"

text \<open>The temporary file is renamed over the final one, so only the final file is left.\<close>

definition publish_manifest :: "event_codec \<Rightarrow> segment_scan \<Rightarrow> segment_manifest store_op" where
  "publish_manifest codec scan =
     sbind (pure_op (ok_or (sc_first_event_id scan) EMPTY_SEGMENT)) (\<lambda>first_event_id.
     sbind (pure_op (ok_or (sc_last_event_id scan) EMPTY_SEGMENT)) (\<lambda>last_event_id.
     sbind (pure_op (ok_or (sc_last_seq scan) EMPTY_SEGMENT)) (\<lambda>last_seq.
     sbind (pure_op (ok_or (sc_last_event_hash scan) EMPTY_SEGMENT)) (\<lambda>last_event_hash.
     let m = \<lparr>sm_manifest_v = MANIFEST_VERSION, sm_stream_id = STREAM_ID,
              sm_segment_file = relative_segment_path (sc_first_seq scan), sm_first_seq = sc_first_seq scan,
              sm_last_seq = last_seq, sm_first_event_id = first_event_id, sm_last_event_id = last_event_id,
              sm_last_event_hash = last_event_hash, sm_event_count = sc_event_count scan,
              sm_segment_size_bytes = sc_segment_size_bytes scan,
              sm_segment_blake3 = sc_segment_blake3 scan\<rparr>;
         name = manifest_filename (sc_first_seq scan)
     in
     sbind (reading (\<lambda>fs. Inr (name \<in> fst ` set (sf_manifests fs)))) (\<lambda>exists.
     if exists then
       sbind (reading (\<lambda>fs. read_manifest codec fs name)) (\<lambda>existing.
       pure_op (if existing = m then Inr existing
                else Inl (EsInvalidManifest (manifest_dir_path @ name) ''existing manifest does not match segment'')))
     else
       sbind (put_manifest name (manifest_to_vec codec m @ [NL])) (\<lambda>_. pure_op (Inr m)))))))"

definition close_open_segment :: "event_codec \<Rightarrow> event_store_config \<Rightarrow> writer_state \<Rightarrow> writer_state store_op" where
  "close_open_segment codec cfg ws =
     (case ws_open ws of
        None \<Rightarrow> pure_op (Inr ws)
      | Some os \<Rightarrow>
          let name = segment_filename (os_first_seq os) in
          sbind (pure_op (ensure (os_event_count os \<noteq> 0)
            (EsInvalidLayout (''cannot close empty segment '' @ event_dir_path @ name)))) (\<lambda>_.
          sbind (sync_open_segment ws) (\<lambda>ws1.
          sbind (reading (\<lambda>fs. scan_named codec cfg fs name (os_first_seq os)
            (if ws_closed ws = [] then None else Some (sm_last_event_hash (last (ws_closed ws)))) False)) (\<lambda>scan.
          sbind (pure_op (ensure (sc_event_count scan = os_event_count os)
            (EsInvalidLayout (''open segment count changed from '' @ decimal (unat (os_event_count os)) @ '' to ''
              @ decimal (unat (sc_event_count scan)))))) (\<lambda>_.
          sbind (publish_manifest codec scan) (\<lambda>m.
          pure_op (Inr (ws1\<lparr>ws_previous_event_hash := Some (sm_last_event_hash m), ws_next_seq := sm_last_seq m + 1,
                             ws_closed := ws_closed ws1 @ [m], ws_open := None\<rparr>))))))))"

text \<open>The open segment, created with an exclusive create when there is none.\<close>

definition ensure_open_segment :: "writer_state \<Rightarrow> open_segment store_op" where
  "ensure_open_segment ws =
     (case ws_open ws of
        Some os \<Rightarrow> pure_op (Inr os)
      | None \<Rightarrow>
          let name = segment_filename (ws_next_seq ws) in
          sbind (reading (\<lambda>fs. ensure (name \<notin> fst ` set (sf_events fs))
            (EsIo ''create event segment'' (event_dir_path @ name)))) (\<lambda>_.
          sbind (put_segment name []) (\<lambda>_.
          pure_op (Inr \<lparr>os_first_seq = ws_next_seq ws, os_event_count = 0, os_newly_created = True\<rparr>))))"

definition append_line :: "bytes \<Rightarrow> bytes \<Rightarrow> unit store_op" where
  "append_line name line =
     sbind (reading (\<lambda>fs. read_file event_dir_path (sf_events fs) name)) (\<lambda>content.
     put_segment name (content @ line @ [NL]))"

definition write_prepared ::
  "event_codec \<Rightarrow> event_store_config \<Rightarrow> prepared_event \<Rightarrow> writer_state \<times> event_record list
   \<Rightarrow> (writer_state \<times> event_record list) store_op" where
  "write_prepared codec cfg p acc =
     (let (ws, records) = acc in
      sbind (ensure_open_segment ws) (\<lambda>os.
      sbind (append_line (segment_filename (os_first_seq os)) (pe_line p)) (\<lambda>_.
      let os1 = os\<lparr>os_event_count := os_event_count os + 1\<rparr> in
      sbind (pure_op (ok_or (checked_add (ws_next_seq ws) 1) SEQUENCE_OVERFLOW)) (\<lambda>next_seq.
      let ws1 = ws\<lparr>ws_open := Some os1, ws_next_seq := next_seq, ws_previous_event_hash := Some (pe_hash p)\<rparr>;
          records1 = records @ [\<lparr>er_envelope = pe_envelope p, er_event_hash = pe_hash p\<rparr>]
      in
      if os_event_count os1 = cfg_rollover_events cfg then
        sbind (close_open_segment codec cfg ws1) (\<lambda>ws2. pure_op (Inr (ws2, records1)))
      else pure_op (Inr (ws1, records1))))))"

definition append_batch_to_state ::
  "event_codec \<Rightarrow> event_store_config \<Rightarrow> surroundings \<Rightarrow> event_request list \<Rightarrow> bool \<Rightarrow> writer_state
   \<Rightarrow> (writer_state \<times> event_record list) store_op" where
  "append_batch_to_state codec cfg env requests force_close_after ws =
     sbind (pure_op (efold (\<lambda>r _. validate_request r) requests ())) (\<lambda>_.
     sbind (pure_op (prepare_events codec cfg env requests (ws_next_seq ws) (ws_previous_event_hash ws))) (\<lambda>prepared.
     sbind (sfold (write_prepared codec cfg) prepared (ws, [])) (\<lambda>(ws1, records).
     sbind (if ws_open ws1 = None then pure_op (Inr ws1)
            else if force_close_after then close_open_segment codec cfg ws1
            else sync_open_segment ws1) (\<lambda>ws2.
     pure_op (Inr (ws2, records))))))"

definition close_if_full :: "event_codec \<Rightarrow> event_store_config \<Rightarrow> writer_state \<Rightarrow> writer_state store_op" where
  "close_if_full codec cfg ws =
     (if (case ws_open ws of None \<Rightarrow> False | Some os \<Rightarrow> cfg_rollover_events cfg \<le> os_event_count os)
      then close_open_segment codec cfg ws else pure_op (Inr ws))"

definition append_batch_locked ::
  "event_codec \<Rightarrow> event_store_config \<Rightarrow> surroundings \<Rightarrow> event_request list \<Rightarrow> bool \<Rightarrow> event_record list store_op" where
  "append_batch_locked codec cfg env requests force_close_after =
     sbind (inspect_writer_state codec cfg True) (\<lambda>ws.
     sbind (close_if_full codec cfg ws) (\<lambda>ws1.
     sbind (append_batch_to_state codec cfg env requests force_close_after ws1) (\<lambda>(ws2, records).
     pure_op (Inr records))))"

section \<open>Verification\<close>

record verified_segment =
  vs_segment_file :: bytes
  vs_first_seq :: u64
  vs_last_seq :: "u64 option"
  vs_event_count :: u64
  vs_manifest :: "segment_manifest option"

record verification_report =
  vr_stream_id :: bytes
  vr_last_seq :: u64
  vr_last_event_hash :: "bytes option"
  vr_segments :: "verified_segment list"
  vr_checkpoints :: "checkpoint list"

record verified_stream =
  vd_report :: verification_report
  vd_checkpoint_events :: "event_record list"

text \<open>The variables of the loop over the segments.\<close>

record verify_state =
  vt_previous_hash :: "bytes option"
  vt_expected_first_seq :: u64
  vt_segments :: "verified_segment list"
  vt_checkpoint_events :: "event_record list"

definition verify_manifest ::
  "event_codec \<Rightarrow> store_files \<Rightarrow> u64 \<Rightarrow> bytes \<Rightarrow> bytes \<Rightarrow> segment_scan \<Rightarrow> event_store_error + segment_manifest" where
  "verify_manifest codec fs first_seq name manifest_name scan =
     ebind (load_manifest codec fs first_seq name manifest_name) (\<lambda>m.
     ebind (manifest_from_scan scan) (\<lambda>expected.
     ebind (ensure (m = expected)
       (EsInvalidManifest (manifest_dir_path @ manifest_name) (manifest_difference m expected))) (\<lambda>_.
     Inr m)))"

definition verify_segment ::
  "event_codec \<Rightarrow> event_store_config \<Rightarrow> store_files \<Rightarrow> (u64 \<times> bytes) list \<Rightarrow> nat
   \<Rightarrow> nat \<times> u64 \<times> bytes \<Rightarrow> verify_state \<Rightarrow> event_store_error + verify_state" where
  "verify_segment codec cfg fs manifests segment_count segment vt =
     (let (index, first_seq, name) = segment; manifest_name = map_of manifests first_seq in
      ebind (ensure (first_seq = vt_expected_first_seq vt) (wrong_first_seq (vt_expected_first_seq vt) first_seq)) (\<lambda>_.
      ebind (ensure (\<not> (manifest_name = None \<and> index + 1 \<noteq> segment_count)) (lacks_manifest first_seq)) (\<lambda>_.
      ebind (scan_named codec cfg fs name first_seq (vt_previous_hash vt) (manifest_name = None)) (\<lambda>scan.
      ebind (case manifest_name of
               None \<Rightarrow> Inr None
             | Some n \<Rightarrow> ebind (verify_manifest codec fs first_seq name n scan) (\<lambda>m. Inr (Some m))) (\<lambda>m.
      ebind (case sc_last_seq scan of
               None \<Rightarrow> Inr (vt_expected_first_seq vt, vt_previous_hash vt)
             | Some last_seq \<Rightarrow>
                 ebind (ok_or (checked_add last_seq 1) SEQUENCE_OVERFLOW) (\<lambda>next_seq.
                 Inr (next_seq, sc_last_event_hash scan))) (\<lambda>(expected_first_seq, previous_hash).
      Inr \<lparr>vt_previous_hash = previous_hash, vt_expected_first_seq = expected_first_seq,
           vt_segments = vt_segments vt @
             [\<lparr>vs_segment_file = relative_segment_path first_seq, vs_first_seq = first_seq,
               vs_last_seq = sc_last_seq scan, vs_event_count = sc_event_count scan, vs_manifest = m\<rparr>],
           vt_checkpoint_events = vt_checkpoint_events vt @ sc_checkpoint_events scan\<rparr>))))))"

definition verify_start :: verify_state where
  "verify_start = \<lparr>vt_previous_hash = None, vt_expected_first_seq = 1, vt_segments = [], vt_checkpoint_events = []\<rparr>"

definition verify_segments ::
  "event_codec \<Rightarrow> event_store_config \<Rightarrow> store_files \<Rightarrow> event_store_error + verify_state" where
  "verify_segments codec cfg fs =
     ebind (list_segments fs) (\<lambda>segments.
     ebind (list_manifests fs) (\<lambda>manifests.
     ebind (manifests_have_segments segments manifests) (\<lambda>_.
     efold (verify_segment codec cfg fs manifests (length segments)) (enumerate 0 segments) verify_start)))"

section \<open>Checkpoints\<close>

definition event_seq_path :: "u64 \<Rightarrow> bytes" where
  "event_seq_path n = ''event:seq-'' @ decimal (unat n)"

definition parse_checkpoint_event ::
  "event_codec \<Rightarrow> event_record \<Rightarrow> event_store_error + checkpoint_event_payload" where
  "parse_checkpoint_event codec record =
     (let path = event_seq_path (en_seq (er_envelope record)) in
      ebind (map_err (\<lambda>message. EsInvalidCheckpoint path (''invalid checkpoint_created payload: '' @ message))
        (payload_from_value codec (en_payload (er_envelope record)))) (\<lambda>payload.
      ebind (ensure (is_prefixed_lowercase_ulid (ulid_ok codec) (cpl_checkpoint_id payload) ''chk_'')
        (EsInvalidCheckpoint path ''checkpoint_id must be chk_ plus a lowercase ULID'')) (\<lambda>_.
      ebind (ensure (\<not> (cpl_event_last_seq payload \<noteq> en_seq (er_envelope record)
                       \<or> cpl_checkpoint_path payload \<noteq> relative_checkpoint_path (cpl_checkpoint_id payload)))
        (EsInvalidCheckpoint path ''checkpoint path/sequence does not match its event'')) (\<lambda>_.
      Inr payload))))"

fun checkpoint_prefix ::
  "verified_segment list \<Rightarrow> u64 \<Rightarrow> u64 \<Rightarrow> checkpoint_segment list
   \<Rightarrow> event_store_error + u64 \<times> checkpoint_segment list" where
  "checkpoint_prefix [] event_last_seq expected_first result = Inr (expected_first, result)"
| "checkpoint_prefix (seg # segs) event_last_seq expected_first result =
     (case vs_manifest seg of
        None \<Rightarrow>
          if vs_first_seq seg \<le> event_last_seq
          then Inl (EsInvalidCheckpoint (relative_segment_path (vs_first_seq seg))
                 ''checkpoint coverage includes an open segment'')
          else Inr (expected_first, result)
      | Some m \<Rightarrow>
          ebind (ensure (sm_first_seq m = expected_first)
            (EsInvalidCheckpoint (relative_manifest_path (sm_first_seq m))
              ''checkpoint prefix is not contiguous'')) (\<lambda>_.
          if event_last_seq < sm_last_seq m then Inr (expected_first, result)
          else checkpoint_prefix segs event_last_seq (sm_last_seq m + 1)
                 (result @ [\<lparr>cs_file = sm_segment_file m, cs_manifest = relative_manifest_path (sm_first_seq m),
                             cs_segment_blake3 = sm_segment_blake3 m\<rparr>])))"

definition checkpoint_segments_through ::
  "verification_report \<Rightarrow> u64 \<Rightarrow> event_store_error + checkpoint_segment list" where
  "checkpoint_segments_through report event_last_seq =
     ebind (checkpoint_prefix (vr_segments report) event_last_seq 1 []) (\<lambda>(expected_first, result).
     ebind (ensure (expected_first = event_last_seq + 1)
       (EsInvalidCheckpoint ''checkpoints''
         (''closed prefix ends at '' @ decimal (unat (saturating_sub expected_first 1)) @ '', checkpoint requires ''
          @ decimal (unat event_last_seq)))) (\<lambda>_.
     Inr result))"

definition build_checkpoint ::
  "event_codec \<Rightarrow> verification_report \<Rightarrow> event_record \<Rightarrow> event_store_error + checkpoint" where
  "build_checkpoint codec report record =
     ebind (parse_checkpoint_event codec record) (\<lambda>payload.
     ebind (ensure (\<not> (vr_last_seq report \<noteq> en_seq (er_envelope record)
                      \<or> vr_last_event_hash report \<noteq> Some (er_event_hash record)))
       (EsInvalidCheckpoint (cpl_checkpoint_path payload) ''checkpoint event is not the verified stream tail'')) (\<lambda>_.
     ebind (checkpoint_segments_through report (en_seq (er_envelope record))) (\<lambda>segments.
     Inr \<lparr>ck_checkpoint_v = CHECKPOINT_VERSION, ck_checkpoint_id = cpl_checkpoint_id payload,
          ck_created_time_utc_ms = en_time_utc_ms (er_envelope record), ck_stream_id = STREAM_ID,
          ck_event_first_seq = 1, ck_event_last_seq = en_seq (er_envelope record),
          ck_event_last_hash = er_event_hash record, ck_segments = segments\<rparr>)))"

definition validate_checkpoint ::
  "event_codec \<Rightarrow> checkpoint \<Rightarrow> bytes \<Rightarrow> event_record \<Rightarrow> verification_report \<Rightarrow> event_store_error + unit" where
  "validate_checkpoint codec ck path record report =
     ebind (parse_checkpoint_event codec record) (\<lambda>payload.
     ebind (ensure (ck_checkpoint_v ck = CHECKPOINT_VERSION)
       (EsInvalidCheckpoint path (''unsupported checkpoint version '' @ decimal (unat (ck_checkpoint_v ck))))) (\<lambda>_.
     ebind (ensure (\<not> (ck_checkpoint_id ck \<noteq> cpl_checkpoint_id payload
                      \<or> cpl_checkpoint_path payload \<noteq> relative_checkpoint_path (cpl_checkpoint_id payload)))
       (EsInvalidCheckpoint path ''checkpoint identity/path does not match its event'')) (\<lambda>_.
     ebind (ensure (\<not> (ck_stream_id ck \<noteq> STREAM_ID \<or> ck_event_first_seq ck \<noteq> 1))
       (EsInvalidCheckpoint path ''checkpoint must cover stream_primary from sequence 1'')) (\<lambda>_.
     ebind (ensure (\<not> (ck_created_time_utc_ms ck \<noteq> en_time_utc_ms (er_envelope record)
                      \<or> ck_event_last_seq ck \<noteq> en_seq (er_envelope record)
                      \<or> ck_event_last_seq ck \<noteq> cpl_event_last_seq payload
                      \<or> ck_event_last_hash ck \<noteq> er_event_hash record))
       (EsInvalidCheckpoint path ''checkpoint tail does not match checkpoint_created'')) (\<lambda>_.
     ebind (checkpoint_segments_through report (ck_event_last_seq ck)) (\<lambda>expected_segments.
     ensure (ck_segments ck = expected_segments)
       (EsInvalidCheckpoint path ''checkpoint segment list is not the exact contiguous closed prefix'')))))))"

text \<open>
  The map from checkpoint ids to events is a hash map; which missing file is reported first
  is left to it by the code, and is the first in stream order here.
\<close>

definition checkpoint_events_by_id ::
  "event_codec \<Rightarrow> event_record list \<Rightarrow> event_store_error + (bytes \<times> event_record) list" where
  "checkpoint_events_by_id codec events =
     efold (\<lambda>record by_id.
       ebind (parse_checkpoint_event codec record) (\<lambda>payload.
       ebind (ensure (cpl_checkpoint_id payload \<notin> fst ` set by_id)
         (EsInvalidCheckpoint (relative_checkpoint_path (cpl_checkpoint_id payload))
           ''duplicate checkpoint_id in canonical events'')) (\<lambda>_.
       Inr (by_id @ [(cpl_checkpoint_id payload, record)])))) events []"

definition verify_checkpoints ::
  "event_codec \<Rightarrow> store_files \<Rightarrow> verification_report \<Rightarrow> event_record list \<Rightarrow> event_store_error + checkpoint list" where
  "verify_checkpoints codec fs report events =
     ebind (list_checkpoint_files codec (sf_checkpoints fs)) (\<lambda>paths.
     ebind (checkpoint_events_by_id codec events) (\<lambda>by_id.
     ebind (efold (\<lambda>checkpoint_id _. ensure (checkpoint_id \<in> fst ` set paths)
         (EsInvalidCheckpoint (relative_checkpoint_path checkpoint_id) ''checkpoint event has no checkpoint file''))
       (map fst by_id) ()) (\<lambda>_.
     ebind (efold (\<lambda>(checkpoint_id, name) _. ensure (checkpoint_id \<in> fst ` set by_id)
         (EsInvalidCheckpoint (checkpoint_dir_path @ name) ''checkpoint file has no checkpoint event''))
       paths ()) (\<lambda>_.
     ebind (emap (\<lambda>(checkpoint_id, name).
         ebind (read_checkpoint codec fs name) (\<lambda>ck.
         ebind (validate_checkpoint codec ck (checkpoint_dir_path @ name) (the (map_of by_id checkpoint_id)) report) (\<lambda>_.
         Inr ck))) paths) (\<lambda>checkpoints.
     Inr (sort_key ck_event_last_seq checkpoints))))))"

definition verify_locked ::
  "event_codec \<Rightarrow> event_store_config \<Rightarrow> bool \<Rightarrow> store_files \<Rightarrow> event_store_error + verified_stream" where
  "verify_locked codec cfg include_checkpoints fs =
     ebind (verify_segments codec cfg fs) (\<lambda>vt.
     let report = \<lparr>vr_stream_id = STREAM_ID, vr_last_seq = saturating_sub (vt_expected_first_seq vt) 1,
                   vr_last_event_hash = vt_previous_hash vt, vr_segments = vt_segments vt, vr_checkpoints = []\<rparr>
     in
     ebind (if include_checkpoints then verify_checkpoints codec fs report (vt_checkpoint_events vt) else Inr []) (\<lambda>checkpoints.
     Inr \<lparr>vd_report = report\<lparr>vr_checkpoints := checkpoints\<rparr>, vd_checkpoint_events = vt_checkpoint_events vt\<rparr>))"

definition publish_checkpoint :: "event_codec \<Rightarrow> checkpoint \<Rightarrow> unit store_op" where
  "publish_checkpoint codec ck =
     (let name = ck_checkpoint_id ck @ ''.json'' in
      sbind (reading (\<lambda>fs. Inr (name \<in> fst ` set (sf_checkpoints fs)))) (\<lambda>exists.
      if exists then
        sbind (reading (\<lambda>fs. read_checkpoint codec fs name)) (\<lambda>existing.
        pure_op (ensure (existing = ck) (EsInvalidCheckpoint (checkpoint_dir_path @ name) ''existing checkpoint file differs'')))
      else put_checkpoint name (checkpoint_to_vec codec ck @ [NL])))"

definition report_from_closed_state :: "writer_state \<Rightarrow> verification_report" where
  "report_from_closed_state ws =
     \<lparr>vr_stream_id = STREAM_ID, vr_last_seq = saturating_sub (ws_next_seq ws) 1,
      vr_last_event_hash = ws_previous_event_hash ws,
      vr_segments = map (\<lambda>m. \<lparr>vs_segment_file = sm_segment_file m, vs_first_seq = sm_first_seq m,
        vs_last_seq = Some (sm_last_seq m), vs_event_count = sm_event_count m, vs_manifest = Some m\<rparr>) (ws_closed ws),
      vr_checkpoints = []\<rparr>"

definition complete_pending_checkpoint ::
  "event_codec \<Rightarrow> event_store_config \<Rightarrow> checkpoint option store_op" where
  "complete_pending_checkpoint codec cfg =
     sbind (inspect_writer_state codec cfg True) (\<lambda>ws.
     if ws_open ws \<noteq> None \<or> ws_closed ws = [] then pure_op (Inr None)
     else
       let last_manifest = last (ws_closed ws); name = segment_filename (sm_first_seq last_manifest) in
       sbind (reading (\<lambda>fs. ebind (read_file event_dir_path (sf_events fs) name) (\<lambda>content.
         read_manifest_last_event codec READ_CHUNK (event_dir_path @ name) content last_manifest
           (cfg_max_event_bytes cfg)))) (\<lambda>record.
       if en_event_type (er_envelope record) \<noteq> CHECKPOINT_CREATED then pure_op (Inr None)
       else
         sbind (pure_op (parse_checkpoint_event codec record)) (\<lambda>payload.
         let final_name = cpl_checkpoint_id payload @ ''.json'' in
         sbind (reading (\<lambda>fs. Inr (final_name \<in> fst ` set (sf_checkpoints fs)))) (\<lambda>exists.
         if exists then
           sbind (pure_op (build_checkpoint codec (report_from_closed_state ws) record)) (\<lambda>ck.
           sbind (reading (\<lambda>fs. read_checkpoint codec fs final_name)) (\<lambda>existing.
           sbind (pure_op (ensure (existing = ck)
             (EsInvalidCheckpoint (checkpoint_dir_path @ final_name)
               ''checkpoint file differs from its canonical event''))) (\<lambda>_.
           pure_op (Inr None))))
         else
           sbind (reading (verify_locked codec cfg False)) (\<lambda>verified.
           sbind (pure_op (ok_or (find (\<lambda>c. en_event_id (er_envelope c) = en_event_id (er_envelope record))
                                   (vd_checkpoint_events verified))
             (EsInvalidCheckpoint (checkpoint_dir_path @ final_name)
               ''pending checkpoint event was not found during verification''))) (\<lambda>matching_record.
           sbind (pure_op (build_checkpoint codec (vd_report verified) matching_record)) (\<lambda>ck.
           sbind (publish_checkpoint codec ck) (\<lambda>_. pure_op (Inr (Some ck))))))))))"

text \<open>\<open>json!\<close> of the payload of \<open>checkpoint_created\<close>.\<close>

definition checkpoint_request :: "bytes \<Rightarrow> u64 \<Rightarrow> event_request" where
  "checkpoint_request checkpoint_id event_last_seq =
     \<lparr>rq_event_type = CHECKPOINT_CREATED,
      rq_payload = JObj [(''checkpoint_id'', JStr checkpoint_id),
        (''checkpoint_path'', JStr (relative_checkpoint_path checkpoint_id)),
        (''event_last_seq'', JNum (uint event_last_seq))],
      rq_references = no_references\<rparr>"

definition create_checkpoint ::
  "event_codec \<Rightarrow> event_store_config \<Rightarrow> surroundings \<Rightarrow> checkpoint store_op" where
  "create_checkpoint codec cfg env =
     sbind (complete_pending_checkpoint codec cfg) (\<lambda>pending.
     case pending of
       Some ck \<Rightarrow> pure_op (Inr ck)
     | None \<Rightarrow>
         sbind (inspect_writer_state codec cfg True) (\<lambda>ws.
         sbind (pure_op (ensure (ws_next_seq ws \<noteq> 1)
           (EsInvalidInput ''cannot checkpoint an empty event stream''))) (\<lambda>_.
         sbind (if (case ws_open ws of None \<Rightarrow> False | Some os \<Rightarrow> 0 < os_event_count os)
                then close_open_segment codec cfg ws else pure_op (Inr ws)) (\<lambda>ws1.
         let checkpoint_id = new_prefixed_ulid ''chk_'' (checkpoint_ulid env) in
         sbind (append_batch_locked codec cfg env [checkpoint_request checkpoint_id (ws_next_seq ws1)] True) (\<lambda>records.
         sbind (pure_op (ok_or (if records = [] then None else Some (last records))
           (EsInvalidLayout ''checkpoint append returned no event''))) (\<lambda>record.
         sbind (reading (verify_locked codec cfg False)) (\<lambda>verified.
         sbind (pure_op (build_checkpoint codec (vd_report verified) record)) (\<lambda>ck.
         sbind (publish_checkpoint codec ck) (\<lambda>_.
         sbind (reading (verify_locked codec cfg True)) (\<lambda>final_report.
         pure_op (ok_or (find (\<lambda>item. ck_checkpoint_id item = ck_checkpoint_id ck) (vr_checkpoints (vd_report final_report)))
           (EsInvalidCheckpoint (relative_checkpoint_path (ck_checkpoint_id ck))
             ''published checkpoint was not discoverable''))))))))))))"

section \<open>Public operations\<close>

definition append_batch ::
  "event_codec \<Rightarrow> event_store_config \<Rightarrow> surroundings \<Rightarrow> event_request list \<Rightarrow> event_record list store_op" where
  "append_batch codec cfg env requests =
     sbind (pure_op (validate_public_batch requests)) (\<lambda>_.
     sbind (complete_pending_checkpoint codec cfg) (\<lambda>_.
     append_batch_locked codec cfg env requests False))"

definition append_event :: "event_codec \<Rightarrow> event_store_config \<Rightarrow> surroundings \<Rightarrow> event_request \<Rightarrow> event_record store_op" where
  "append_event codec cfg env request =
     sbind (append_batch codec cfg env [request]) (\<lambda>records.
     pure_op (ok_or (if records = [] then None else Some (last records))
       (EsInvalidLayout ''append returned no event record'')))"

record append_stats =
  as_batches :: u64
  as_events_appended :: u64
  as_first_seq :: "u64 option"
  as_last_seq :: "u64 option"

definition append_one_batch ::
  "event_codec \<Rightarrow> event_store_config \<Rightarrow> surroundings \<Rightarrow> event_request list \<Rightarrow> writer_state \<times> append_stats
   \<Rightarrow> (writer_state \<times> append_stats) store_op" where
  "append_one_batch codec cfg env requests acc =
     (let (ws, stats) = acc in
      sbind (pure_op (validate_public_batch requests)) (\<lambda>_.
      sbind (append_batch_to_state codec cfg env requests False ws) (\<lambda>(ws1, records).
      pure_op (Inr (ws1,
        \<lparr>as_batches = as_batches stats + 1, as_events_appended = as_events_appended stats + of_nat (length records),
         as_first_seq = (case as_first_seq stats of Some n \<Rightarrow> Some n
           | None \<Rightarrow> if records = [] then None else Some (en_seq (er_envelope (hd records)))),
         as_last_seq = (if records = [] then as_last_seq stats
           else Some (en_seq (er_envelope (last records))))\<rparr>)))))"

definition append_batches ::
  "event_codec \<Rightarrow> event_store_config \<Rightarrow> surroundings \<Rightarrow> event_request list list \<Rightarrow> append_stats store_op" where
  "append_batches codec cfg env batches =
     sbind (complete_pending_checkpoint codec cfg) (\<lambda>_.
     sbind (inspect_writer_state codec cfg True) (\<lambda>ws.
     sbind (close_if_full codec cfg ws) (\<lambda>ws1.
     sbind (sfold (append_one_batch codec cfg env) batches
       (ws1, \<lparr>as_batches = 0, as_events_appended = 0, as_first_seq = None, as_last_seq = None\<rparr>)) (\<lambda>(_, stats).
     sbind (pure_op (ensure (as_batches stats \<noteq> 0)
       (EsInvalidInput ''append_batches requires at least one batch''))) (\<lambda>_.
     pure_op (Inr stats))))))"

definition open_or_create :: "event_codec \<Rightarrow> event_store_config \<Rightarrow> unit store_op" where
  "open_or_create codec cfg =
     sbind (pure_op (config_validate cfg)) (\<lambda>_.
     sbind (complete_pending_checkpoint codec cfg) (\<lambda>_. pure_op (Inr ())))"

end
