(* ===== verification/Event_Verify.thy ===== *)
theory Event_Verify
  imports Event_Store
begin

text \<open>
  What verification of the event store means: it succeeds exactly on stores whose segments,
  in order, hold one hash chain from sequence number 1, every segment but the last one with
  the manifest of its contents.
\<close>

section \<open>Files and listings\<close>

lemma sbind_eq_Inr:
  "sbind m f fs = (Inr y, fs') \<longleftrightarrow> (\<exists>x fs1. m fs = (Inr x, fs1) \<and> f x fs1 = (Inr y, fs'))"
  by (auto simp: sbind_def split: prod.splits sum.splits)

lemma sbind_simps [simp]:
  "m fs = (Inr x, fs1) \<Longrightarrow> sbind m f fs = f x fs1"
  "m fs = (Inl e, fs1) \<Longrightarrow> sbind m f fs = (Inl e, fs1)"
  by (simp_all add: sbind_def)

lemma sbind_pure [simp]: "sbind (pure_op r) f fs = (case r of Inl e \<Rightarrow> (Inl e, fs) | Inr x \<Rightarrow> f x fs)"
  by (simp add: sbind_def pure_op_def split: sum.splits)

lemma sbind_reading [simp]: "sbind (reading g) f fs = (case g fs of Inl e \<Rightarrow> (Inl e, fs) | Inr x \<Rightarrow> f x fs)"
  by (simp add: sbind_def reading_def split: sum.splits)

lemma pure_op_apply [simp]: "pure_op r fs = (r, fs)"
  by (simp add: pure_op_def)

lemma dir_put_names: "fst ` set (dir_put dir name content) = insert name (fst ` set dir)"
  by (force simp: dir_put_def)

lemma map_of_replace:
  "map_of (map (\<lambda>(n, e). if n = name then (n, RegularFile c) else (n, e)) dir) other =
     (if other = name then map_option (\<lambda>_. RegularFile c) (map_of dir name) else map_of dir other)"
  by (induction dir) auto

lemma file_content_put [simp]:
  "file_content (dir_put dir name content) other = (if other = name then Some content else file_content dir other)"
proof (cases "name \<in> fst ` set dir")
  case True
  then obtain e where "map_of dir name = Some e" by (metis map_of_eq_None_iff not_None_eq)
  then show ?thesis using True by (simp add: file_content_def dir_put_def map_of_replace)
next
  case False
  then have "map_of dir name = None" by (simp add: map_of_eq_None_iff)
  then show ?thesis using False
    by (auto simp: file_content_def dir_put_def map_add_def split: option.splits)
qed

lemma file_content_name: "file_content dir name = Some c \<Longrightarrow> name \<in> fst ` set dir"
  by (auto simp: file_content_def split: option.splits dir_entry.splits dest!: map_of_SomeD intro: rev_image_eqI)

lemma dir_put_same:
  assumes "file_content dir name = Some c" and "distinct (map fst dir)"
  shows "dir_put dir name c = dir"
proof -
  have e: "(name, RegularFile c) \<in> set dir"
    using assms(1) by (auto simp: file_content_def split: option.splits dir_entry.splits dest: map_of_SomeD)
  then have "x = (name, RegularFile c)" if "x \<in> set dir" "fst x = name" for x
    using assms(2) that eq_key_imp_eq_value by (metis prod.collapse)
  then have "map (\<lambda>(n, e). if n = name then (n, RegularFile c) else (n, e)) dir = dir"
    by (intro map_idI) (force split: prod.splits)
  then show ?thesis using e by (force simp: dir_put_def)
qed

text \<open>
  What the file system guarantees: no name occurs twice in a directory, and the size of a
  file is below \<open>2 ^ 63\<close>.
\<close>

definition files_ok :: "store_files \<Rightarrow> bool" where
  "files_ok fs \<longleftrightarrow> distinct (map fst (sf_events fs)) \<and> distinct (map fst (sf_manifests fs))
     \<and> distinct (map fst (sf_checkpoints fs))
     \<and> (\<forall>name content. file_content (sf_events fs) name = Some content \<longrightarrow> length content < 2 ^ 63)"

lemma dir_put_distinct: "distinct (map fst dir) \<Longrightarrow> distinct (map fst (dir_put dir name c))"
proof -
  have "map fst (map (\<lambda>(n, e). if n = name then (n, RegularFile c) else (n, e)) dir) = map fst dir"
    by (induction dir) auto
  then show "distinct (map fst dir) \<Longrightarrow> ?thesis" unfolding dir_put_def by (auto simp del: map_map)
qed

text \<open>A listing is a function of the names and of which entries are files.\<close>

lemma list_replace:
  assumes "file_content dir name = Some c0" "distinct (map fst dir)"
  shows "list_canonical_files path (dir_put dir name c) parser kind = list_canonical_files path dir parser kind"
proof -
  have e: "(name, RegularFile c0) \<in> set dir"
    using assms(1) by (auto simp: file_content_def split: option.splits dir_entry.splits dest: map_of_SomeD)
  have "list_entry path parser kind ((\<lambda>(n, e). if n = name then (n, RegularFile c) else (n, e)) x) files =
      list_entry path parser kind x files" if "x \<in> set dir" for x files
  proof (cases "fst x = name")
    case True
    then have "x = (name, RegularFile c0)" using that e assms(2) eq_key_imp_eq_value by (metis prod.collapse)
    then show ?thesis by (simp add: list_entry_def Let_def)
  qed (simp add: case_prod_beta)
  then have "efold (list_entry path parser kind) (map (\<lambda>(n, e). if n = name then (n, RegularFile c) else (n, e)) dir) files =
      efold (list_entry path parser kind) dir files" for files
    by (induction dir arbitrary: files) (auto cong: ebind_cong)
  moreover have "name \<in> fst ` set dir" using e by force
  ultimately show ?thesis by (simp add: list_canonical_files_def dir_put_def)
qed

lemma btree_insert_last: "list_all (\<lambda>x. fst x < k) m \<Longrightarrow> btree_insert k v m = m @ [(k, v)]"
  by (induction m) (auto simp: not_less_iff_gr_or_eq)

lemma list_new:
  assumes "list_canonical_files path dir parser kind = Inr files" "name \<notin> fst ` set dir"
    and "\<not> is_temporary name" "parser name = Some k" "list_all (\<lambda>x. fst x < k) files"
  shows "list_canonical_files path (dir_put dir name c) parser kind = Inr (files @ [(k, name)])"
proof -
  have "k \<notin> fst ` set files" using assms(5) by (auto simp: list_all_iff)
  then have "list_entry path parser kind (name, RegularFile c) files = Inr (files @ [(k, name)])"
    using assms(3,4) by (simp add: list_entry_def Let_def btree_insert_last [OF assms(5)])
  then show ?thesis
    using assms(1,2) by (simp add: list_canonical_files_def dir_put_def efold_append)
qed

lemma set_btree_insert: "k \<notin> fst ` set m \<Longrightarrow> set (btree_insert k v m) = insert (k, v) (set m)"
proof (induction m)
  case (Cons x m)
  then show ?case by (cases x) (auto simp: insert_commute)
qed simp

text \<open>A listing has exactly the entries of the directory that are not temporary.\<close>

lemma listing_set:
  assumes "list_canonical_files path dir parser kind = Inr files"
  shows "set files = {(k, n). n \<in> fst ` set dir \<and> \<not> is_temporary n \<and> parser n = Some k}"
    and "\<And>n. n \<in> fst ` set dir \<Longrightarrow> \<not> is_temporary n \<Longrightarrow> \<exists>k. parser n = Some k"
proof -
  have step: "(is_temporary (fst x) \<and> acc' = acc) \<or> (\<not> is_temporary (fst x) \<and>
        (\<exists>k. parser (fst x) = Some k \<and> k \<notin> fst ` set acc \<and> acc' = btree_insert k (fst x) acc))"
    if "list_entry path parser kind x acc = Inr acc'" for x acc acc'
    using that unfolding list_entry_def Let_def by (auto simp: ebind_eq_Inr ok_or_eq_Inr split: if_splits)
  have all: "(\<forall>n\<in>fst ` set xs. \<not> is_temporary n \<longrightarrow> (\<exists>k. parser n = Some k)) \<and>
      set files = set acc \<union> {(k, n). n \<in> fst ` set xs \<and> \<not> is_temporary n \<and> parser n = Some k}"
    if "efold (list_entry path parser kind) xs acc = Inr files" for xs acc
    using that
  proof (induction xs arbitrary: acc)
    case (Cons x xs)
    from Cons.prems obtain acc' where s: "list_entry path parser kind x acc = Inr acc'"
      "efold (list_entry path parser kind) xs acc' = Inr files"
      by (auto simp: ebind_eq_Inr)
    show ?case using step [OF s(1)] Cons.IH [OF s(2)] by (auto simp: set_btree_insert)
  qed simp
  note * = all [OF assms [unfolded list_canonical_files_def]]
  show "set files = {(k, n). n \<in> fst ` set dir \<and> \<not> is_temporary n \<and> parser n = Some k}"
    using * by simp
  show "\<exists>k. parser n = Some k" if "n \<in> fst ` set dir" "\<not> is_temporary n" for n
    using * that by blast
qed

section \<open>Chunks of the stream\<close>

record chunk =
  ch_first :: u64
  ch_prev :: "bytes option"
  ch_lines :: "bytes list"
  ch_events :: "event_envelope list"

definition ch_next :: "chunk \<Rightarrow> u64" where
  "ch_next c = ch_first c + of_nat (length (ch_lines c))"

definition ch_hash :: "event_codec \<Rightarrow> chunk \<Rightarrow> bytes option" where
  "ch_hash codec c = tail_hash codec (ch_prev c) (ch_lines c)"

definition chunk_scan :: "event_codec \<Rightarrow> chunk \<Rightarrow> segment_scan" where
  "chunk_scan codec c = scan_of codec (ch_first c) (ch_prev c) (ch_lines c) (ch_events c)"

definition chunk_manifest :: "event_codec \<Rightarrow> chunk \<Rightarrow> segment_manifest" where
  "chunk_manifest codec c =
     \<lparr>sm_manifest_v = MANIFEST_VERSION, sm_stream_id = STREAM_ID,
      sm_segment_file = relative_segment_path (ch_first c), sm_first_seq = ch_first c,
      sm_last_seq = ch_next c - 1, sm_first_event_id = en_event_id (hd (ch_events c)),
      sm_last_event_id = en_event_id (last (ch_events c)), sm_last_event_hash = the (ch_hash codec c),
      sm_event_count = of_nat (length (ch_lines c)),
      sm_segment_size_bytes = of_nat (length (file_of (ch_lines c))),
      sm_segment_blake3 = event_hash codec (file_of (ch_lines c))\<rparr>"

definition chunk_ok :: "event_codec \<Rightarrow> nat \<Rightarrow> store_files \<Rightarrow> chunk \<Rightarrow> bool" where
  "chunk_ok codec mx fs c \<longleftrightarrow>
     file_content (sf_events fs) (segment_filename (ch_first c)) = Some (file_of (ch_lines c))
     \<and> chain codec mx (ch_first c) (ch_prev c) (ch_lines c) (ch_events c)"

definition has_manifest :: "event_codec \<Rightarrow> store_files \<Rightarrow> chunk \<Rightarrow> bool" where
  "has_manifest codec fs c \<longleftrightarrow> ch_lines c \<noteq> []
     \<and> load_manifest codec fs (ch_first c) (segment_filename (ch_first c)) (manifest_filename (ch_first c)) =
         Inr (chunk_manifest codec c)"

lemma manifest_from_scan_chunk:
  assumes "chain codec mx (ch_first c) (ch_prev c) (ch_lines c) (ch_events c)"
  shows "manifest_from_scan (chunk_scan codec c) = Inr m \<longleftrightarrow> ch_lines c \<noteq> [] \<and> m = chunk_manifest codec c"
proof (cases "ch_lines c = []")
  case False
  with chain_length [OF assms] have "ch_events c \<noteq> []" by auto
  with False show ?thesis
    by (auto simp: manifest_from_scan_def chunk_scan_def scan_of_def chunk_manifest_def ch_next_def ch_hash_def
        tail_hash_last)
qed (simp add: manifest_from_scan_def chunk_scan_def scan_of_def)

lemma scan_named_iff:
  assumes "files_ok fs"
  shows "scan_named codec cfg fs (segment_filename k) k prev allow_empty = Inr scan \<longleftrightarrow>
    (\<exists>c. ch_first c = k \<and> ch_prev c = prev \<and> chunk_ok codec (cfg_max_event_bytes cfg) fs c
       \<and> (ch_lines c = [] \<longrightarrow> allow_empty) \<and> scan = chunk_scan codec c)"
proof (cases "file_content (sf_events fs) (segment_filename k)")
  case None
  then show ?thesis by (auto simp: scan_named_def read_file_def chunk_ok_def)
next
  case (Some content)
  with assms have "length content < 2 ^ 64" by (force simp: files_ok_def)
  note iff = scan_segment_chains [OF this]
  have "(\<exists>ls es. content = file_of ls \<and> chain codec (cfg_max_event_bytes cfg) k prev ls es
       \<and> (ls = [] \<longrightarrow> allow_empty) \<and> scan = scan_of codec k prev ls es) \<longleftrightarrow>
     (\<exists>c. ch_first c = k \<and> ch_prev c = prev \<and> chunk_ok codec (cfg_max_event_bytes cfg) fs c
       \<and> (ch_lines c = [] \<longrightarrow> allow_empty) \<and> scan = chunk_scan codec c)" (is "?L \<longleftrightarrow> ?R")
  proof
    assume ?L
    then obtain ls es where "content = file_of ls" "chain codec (cfg_max_event_bytes cfg) k prev ls es"
      "ls = [] \<longrightarrow> allow_empty" "scan = scan_of codec k prev ls es" by blast
    then show ?R using Some
      by (intro exI [of _ "\<lparr>ch_first = k, ch_prev = prev, ch_lines = ls, ch_events = es\<rparr>"])
        (simp add: chunk_ok_def chunk_scan_def)
  next
    assume ?R
    then show ?L using Some by (auto simp: chunk_ok_def chunk_scan_def)
  qed
  with iff Some show ?thesis by (simp add: scan_named_def read_file_def)
qed

text \<open>What verification has found after a chunk.\<close>

definition verified_chunk :: "event_codec \<Rightarrow> (u64 \<times> bytes) list \<Rightarrow> chunk \<Rightarrow> verified_segment" where
  "verified_chunk codec manifests c =
     \<lparr>vs_segment_file = relative_segment_path (ch_first c), vs_first_seq = ch_first c,
      vs_last_seq = (if ch_lines c = [] then None else Some (ch_next c - 1)),
      vs_event_count = of_nat (length (ch_lines c)),
      vs_manifest = (if map_of manifests (ch_first c) = None then None else Some (chunk_manifest codec c))\<rparr>"

definition after_chunk :: "event_codec \<Rightarrow> (u64 \<times> bytes) list \<Rightarrow> chunk \<Rightarrow> verify_state \<Rightarrow> verify_state" where
  "after_chunk codec manifests c vt =
     \<lparr>vt_previous_hash = ch_hash codec c, vt_expected_first_seq = ch_next c,
      vt_segments = vt_segments vt @ [verified_chunk codec manifests c],
      vt_checkpoint_events = vt_checkpoint_events vt @ checkpoint_records codec (ch_lines c) (ch_events c)\<rparr>"

definition named_manifests :: "(u64 \<times> bytes) list \<Rightarrow> bool" where
  "named_manifests manifests \<longleftrightarrow> (\<forall>(k, n) \<in> set manifests. n = manifest_filename k)"

lemma checked_next:
  assumes "unat (first :: u64) < 10 ^ 12" "0 < n" "n < 2 ^ 63"
  shows "checked_add (first + of_nat n - 1) 1 = Some (first + of_nat n)"
proof -
  have n: "unat (of_nat n :: u64) = n" using assms(3) by (intro unat_of_nat_u64) simp
  have "unat first + n < 2 ^ 64" using assms(1,3) by simp
  then have s: "unat (first + of_nat n) = unat first + n" using n by (simp add: unat_word_ariths)
  then have "(1 :: u64) \<le> first + of_nat n" using assms(2) by (simp add: word_le_nat_alt)
  then have "unat (first + of_nat n - 1) = unat first + n - 1" using s by (simp add: unat_sub)
  then show ?thesis using s assms(2) by (simp add: checked_add_eq_Some)
qed

lemma chunk_length:
  assumes "files_ok fs" "chunk_ok codec mx fs c"
  shows "length (ch_lines c) < 2 ^ 63"
proof -
  have "length (file_of (ch_lines c)) < 2 ^ 63"
    using assms by (auto simp: files_ok_def chunk_ok_def)
  then show ?thesis using length_file_of [of "ch_lines c"] by linarith
qed

lemma verify_manifest_iff:
  "verify_manifest codec fs k name mn scan = Inr m \<longleftrightarrow>
     load_manifest codec fs k name mn = Inr m \<and> manifest_from_scan scan = Inr m"
  unfolding verify_manifest_def ebind_eq_Inr ensure_eq_Inr by auto

lemma next_of_scan:
  assumes "files_ok fs" "chunk_ok codec mx fs c" "unat (ch_first c) < 10 ^ 12"
  shows "(case sc_last_seq (chunk_scan codec c) of
               None \<Rightarrow> Inr (ch_first c, ch_prev c)
             | Some last_seq \<Rightarrow>
                 ebind (ok_or (checked_add last_seq 1) SEQUENCE_OVERFLOW) (\<lambda>next_seq.
                 Inr (next_seq, sc_last_event_hash (chunk_scan codec c)))) = Inr (ch_next c, ch_hash codec c)"
proof (cases "ch_lines c = []")
  case False
  with checked_next [OF assms(3), of "length (ch_lines c)"] chunk_length [OF assms(1,2)]
  show ?thesis by (simp add: chunk_scan_def scan_of_def ch_next_def ch_hash_def)
qed (simp add: chunk_scan_def scan_of_def ch_next_def ch_hash_def)

lemma verify_segment_iff:
  assumes fs: "files_ok fs" and k: "unat k < 10 ^ 12"
    and m: "\<And>n. map_of manifests k = Some n \<Longrightarrow> n = manifest_filename k"
  shows "verify_segment codec cfg fs manifests count (i, k, segment_filename k) vt = Inr vt' \<longleftrightarrow>
    (\<exists>c. k = vt_expected_first_seq vt \<and> ch_first c = k \<and> ch_prev c = vt_previous_hash vt
       \<and> chunk_ok codec (cfg_max_event_bytes cfg) fs c
       \<and> (if map_of manifests k = None then i + 1 = count else has_manifest codec fs c)
       \<and> vt' = after_chunk codec manifests c vt)" (is "?L \<longleftrightarrow> (\<exists>c. ?P c)")
proof -
  define next_state where "next_state = (\<lambda>scan :: segment_scan. case sc_last_seq scan of
               None \<Rightarrow> Inr (vt_expected_first_seq vt, vt_previous_hash vt)
             | Some last_seq \<Rightarrow>
                 ebind (ok_or (checked_add last_seq 1) SEQUENCE_OVERFLOW) (\<lambda>next_seq.
                 Inr (next_seq, sc_last_event_hash scan)))"
  define manifest_of where "manifest_of = (\<lambda>scan :: segment_scan. case map_of manifests k of None \<Rightarrow> Inr None
          | Some n \<Rightarrow> ebind (verify_manifest codec fs k (segment_filename k) n scan) (\<lambda>m. Inr (Some m)))"
  define Q where "Q = (\<lambda>(c :: chunk) m x. k = vt_expected_first_seq vt \<and> ch_first c = k \<and> ch_prev c = vt_previous_hash vt
       \<and> chunk_ok codec (cfg_max_event_bytes cfg) fs c
       \<and> (ch_lines c = [] \<longrightarrow> map_of manifests k = None) \<and> \<not> (map_of manifests k = None \<and> i + 1 \<noteq> count)
       \<and> manifest_of (chunk_scan codec c) = Inr m \<and> next_state (chunk_scan codec c) = Inr x
       \<and> \<lparr>vt_previous_hash = snd x, vt_expected_first_seq = fst x,
           vt_segments = vt_segments vt @
             [\<lparr>vs_segment_file = relative_segment_path k, vs_first_seq = k,
               vs_last_seq = sc_last_seq (chunk_scan codec c),
               vs_event_count = sc_event_count (chunk_scan codec c), vs_manifest = m\<rparr>],
           vt_checkpoint_events = vt_checkpoint_events vt @ sc_checkpoint_events (chunk_scan codec c)\<rparr> = vt')"
  have "?L \<longleftrightarrow> (\<exists>c m x. Q c m x)"
    unfolding verify_segment_def Let_def prod.case ebind_eq_Inr ensure_eq_Inr scan_named_iff [OF fs]
      case_prod_beta fst_conv snd_conv sum.inject Q_def next_state_def manifest_of_def
    by blast
  moreover have "(\<exists>m x. Q c m x) \<longleftrightarrow> ?P c" for c
  proof (cases "k = vt_expected_first_seq vt \<and> ch_first c = k \<and> ch_prev c = vt_previous_hash vt
       \<and> chunk_ok codec (cfg_max_event_bytes cfg) fs c")
    case True
    then have at: "ch_first c = vt_expected_first_seq vt" "ch_prev c = vt_previous_hash vt" "unat (ch_first c) < 10 ^ 12"
      "chunk_ok codec (cfg_max_event_bytes cfg) fs c" using k by simp_all
    have n: "next_state (chunk_scan codec c) = Inr (ch_next c, ch_hash codec c)"
      using next_of_scan [OF fs at(4,3)] unfolding next_state_def at(1,2) .
    have ch: "chain codec (cfg_max_event_bytes cfg) (ch_first c) (ch_prev c) (ch_lines c) (ch_events c)"
      using at(4) by (simp add: chunk_ok_def)
    have mf: "manifest_of (chunk_scan codec c) = Inr m' \<and> (ch_lines c = [] \<longrightarrow> map_of manifests k = None) \<longleftrightarrow>
        (if map_of manifests k = None then m' = None else has_manifest codec fs c \<and> m' = Some (chunk_manifest codec c))" for m'
      using m True
      by (auto simp: manifest_of_def ebind_eq_Inr verify_manifest_iff manifest_from_scan_chunk [OF ch]
          has_manifest_def split: option.split)
    have scan: "sc_last_seq (chunk_scan codec c) = (if ch_lines c = [] then None else Some (ch_next c - 1))"
      "sc_event_count (chunk_scan codec c) = of_nat (length (ch_lines c))"
      "sc_checkpoint_events (chunk_scan codec c) = checkpoint_records codec (ch_lines c) (ch_events c)"
      by (simp_all add: chunk_scan_def scan_of_def ch_next_def)
    show ?thesis unfolding Q_def n scan after_chunk_def verified_chunk_def
      using mf True by (cases "map_of manifests k") auto
  qed (auto simp: Q_def)
  ultimately show ?thesis by (simp only:)
qed

fun linked :: "event_codec \<Rightarrow> u64 \<Rightarrow> bytes option \<Rightarrow> chunk list \<Rightarrow> bool" where
  "linked codec seq prev [] \<longleftrightarrow> True"
| "linked codec seq prev (c # cs) \<longleftrightarrow>
     ch_first c = seq \<and> ch_prev c = prev \<and> linked codec (ch_next c) (ch_hash codec c) cs"

text \<open>
  The chunks of a store: one for each listed segment, each but the last one with its
  manifest, linked into one chain.
\<close>

definition store_chunks ::
  "event_codec \<Rightarrow> nat \<Rightarrow> store_files \<Rightarrow> (u64 \<times> bytes) list \<Rightarrow> u64 \<Rightarrow> bytes option \<Rightarrow> chunk list \<Rightarrow> bool" where
  "store_chunks codec mx fs manifests seq prev cs \<longleftrightarrow>
     linked codec seq prev cs \<and> list_all (chunk_ok codec mx fs) cs
     \<and> (\<forall>c\<in>set cs. map_of manifests (ch_first c) \<noteq> None \<longrightarrow> has_manifest codec fs c)
     \<and> (\<forall>c\<in>set (butlast cs). map_of manifests (ch_first c) \<noteq> None)"

lemma store_chunks_Cons:
  "store_chunks codec mx fs manifests seq prev (c # cs) \<longleftrightarrow>
     ch_first c = seq \<and> ch_prev c = prev \<and> chunk_ok codec mx fs c
     \<and> (if map_of manifests seq = None then cs = [] else has_manifest codec fs c)
     \<and> store_chunks codec mx fs manifests (ch_next c) (ch_hash codec c) cs"
  by (auto simp: store_chunks_def)

lemma verify_fold_iff:
  assumes fs: "files_ok fs"
    and segs: "\<forall>(k, n)\<in>set segs. n = segment_filename k \<and> unat k < 10 ^ 12"
    and ms: "\<forall>(k, n)\<in>set manifests. n = manifest_filename k"
    and count: "count = i + length segs"
  shows "efold (verify_segment codec cfg fs manifests count) (enumerate i segs) vt = Inr vt' \<longleftrightarrow>
    (\<exists>cs. map ch_first cs = map fst segs
       \<and> store_chunks codec (cfg_max_event_bytes cfg) fs manifests (vt_expected_first_seq vt) (vt_previous_hash vt) cs
       \<and> vt' = fold (after_chunk codec manifests) cs vt)"
  using segs count
proof (induction segs arbitrary: i vt)
  case Nil
  then show ?case by (auto simp: store_chunks_def)
next
  case (Cons seg segs)
  obtain k where seg: "seg = (k, segment_filename k)" "unat k < 10 ^ 12" using Cons.prems(1) by (cases seg) auto
  have mk: "n = manifest_filename k" if "map_of manifests k = Some n" for n
    using map_of_SomeD [OF that] ms by auto
  have after: "vt_expected_first_seq (after_chunk codec manifests c vt) = ch_next c"
    "vt_previous_hash (after_chunk codec manifests c vt) = ch_hash codec c" for c
    by (simp_all add: after_chunk_def)
  have IH: "efold (verify_segment codec cfg fs manifests count) (enumerate (Suc i) segs) (after_chunk codec manifests c vt) = Inr vt' \<longleftrightarrow>
    (\<exists>cs. map ch_first cs = map fst segs
       \<and> store_chunks codec (cfg_max_event_bytes cfg) fs manifests (ch_next c) (ch_hash codec c) cs
       \<and> vt' = fold (after_chunk codec manifests) cs (after_chunk codec manifests c vt))" for c
    using Cons.IH [of "Suc i" "after_chunk codec manifests c vt"] Cons.prems unfolding after by simp
  have vs: "verify_segment codec cfg fs manifests count (i, k, segment_filename k) vt = Inr vt1 \<longleftrightarrow>
    (\<exists>c. k = vt_expected_first_seq vt \<and> ch_first c = k \<and> ch_prev c = vt_previous_hash vt
       \<and> chunk_ok codec (cfg_max_event_bytes cfg) fs c
       \<and> (if map_of manifests k = None then i + 1 = count else has_manifest codec fs c)
       \<and> vt1 = after_chunk codec manifests c vt)" for vt1
    by (rule verify_segment_iff [OF fs seg(2)]) (rule mk)
  have last: "i + 1 = count \<longleftrightarrow> segs = []" using Cons.prems(2) by auto
  have "efold (verify_segment codec cfg fs manifests count) (enumerate i (seg # segs)) vt = Inr vt' \<longleftrightarrow>
    (\<exists>c. k = vt_expected_first_seq vt \<and> ch_first c = k \<and> ch_prev c = vt_previous_hash vt
       \<and> chunk_ok codec (cfg_max_event_bytes cfg) fs c
       \<and> (if map_of manifests k = None then segs = [] else has_manifest codec fs c)
       \<and> efold (verify_segment codec cfg fs manifests count) (enumerate (Suc i) segs) (after_chunk codec manifests c vt) = Inr vt')"
    unfolding seg(1) enumerate_simps efold.simps ebind_eq_Inr vs last by blast
  also have "\<dots> \<longleftrightarrow> (\<exists>c cs. ch_first c = k \<and> map ch_first cs = map fst segs
       \<and> store_chunks codec (cfg_max_event_bytes cfg) fs manifests (vt_expected_first_seq vt) (vt_previous_hash vt) (c # cs)
       \<and> vt' = fold (after_chunk codec manifests) (c # cs) vt)"
  proof -
    have nil: "map ch_first cs = map fst segs \<Longrightarrow> segs = [] \<longleftrightarrow> cs = []" for cs by (cases cs) auto
    have "(k = vt_expected_first_seq vt \<and> ch_first c = k \<and> ch_prev c = vt_previous_hash vt
       \<and> chunk_ok codec (cfg_max_event_bytes cfg) fs c
       \<and> (if map_of manifests k = None then segs = [] else has_manifest codec fs c)
       \<and> efold (verify_segment codec cfg fs manifests count) (enumerate (Suc i) segs) (after_chunk codec manifests c vt) = Inr vt')
     \<longleftrightarrow> (\<exists>cs. ch_first c = k \<and> map ch_first cs = map fst segs
       \<and> store_chunks codec (cfg_max_event_bytes cfg) fs manifests (vt_expected_first_seq vt) (vt_previous_hash vt) (c # cs)
       \<and> vt' = fold (after_chunk codec manifests) (c # cs) vt)" for c
      unfolding IH store_chunks_Cons using nil by (cases "map_of manifests k = None") auto
    then show ?thesis by (simp only:)
  qed
  also have "\<dots> \<longleftrightarrow> (\<exists>cs. map ch_first cs = map fst (seg # segs)
       \<and> store_chunks codec (cfg_max_event_bytes cfg) fs manifests (vt_expected_first_seq vt) (vt_previous_hash vt) cs
       \<and> vt' = fold (after_chunk codec manifests) cs vt)"
    unfolding seg(1) list.map fst_conv map_eq_Cons_conv by blast
  finally show ?case .
qed

section \<open>Verified stores\<close>

lemma list_segments_named:
  assumes "list_segments fs = Inr segs"
  shows "\<forall>(k, n)\<in>set segs. n = segment_filename k \<and> unat k < 10 ^ 12"
  using listing_set(1) [OF assms [unfolded list_segments_def]]
  by (auto simp: parse_segment_filename_def parse_numbered_iff segment_filename_def)

lemma list_manifests_named:
  assumes "list_manifests fs = Inr ms"
  shows "\<forall>(k, n)\<in>set ms. n = manifest_filename k"
  using listing_set(1) [OF assms [unfolded list_manifests_def]]
  by (auto simp: parse_manifest_filename_def parse_numbered_iff manifest_filename_def)

lemma efold_ensure: "efold (\<lambda>x _. ensure (P x) (e x)) xs () = Inr u \<longleftrightarrow> (\<forall>x\<in>set xs. P x)"
  by (induction xs) (auto simp: ensure_def)

lemma manifests_have_segments_iff:
  "manifests_have_segments segs ms = Inr u \<longleftrightarrow> fst ` set ms \<subseteq> fst ` set segs"
  unfolding manifests_have_segments_def efold_ensure by auto

definition store_holds ::
  "event_codec \<Rightarrow> nat \<Rightarrow> store_files \<Rightarrow> (u64 \<times> bytes) list \<Rightarrow> (u64 \<times> bytes) list \<Rightarrow> chunk list \<Rightarrow> bool" where
  "store_holds codec mx fs segs ms cs \<longleftrightarrow>
     list_segments fs = Inr segs \<and> list_manifests fs = Inr ms \<and> fst ` set ms \<subseteq> fst ` set segs
     \<and> map ch_first cs = map fst segs \<and> store_chunks codec mx fs ms 1 None cs"

lemma verify_segments_iff:
  assumes "files_ok fs"
  shows "verify_segments codec cfg fs = Inr vt \<longleftrightarrow>
    (\<exists>segs ms cs. store_holds codec (cfg_max_event_bytes cfg) fs segs ms cs
       \<and> vt = fold (after_chunk codec ms) cs verify_start)"
proof -
  have fold: "efold (verify_segment codec cfg fs ms (length segs)) (enumerate 0 segs) verify_start = Inr vt \<longleftrightarrow>
    (\<exists>cs. map ch_first cs = map fst segs \<and> store_chunks codec (cfg_max_event_bytes cfg) fs ms 1 None cs
       \<and> vt = fold (after_chunk codec ms) cs verify_start)"
    if "list_segments fs = Inr segs" "list_manifests fs = Inr ms" for segs ms
    using verify_fold_iff [OF assms list_segments_named [OF that(1)] list_manifests_named [OF that(2)],
        of "length segs" 0 codec cfg verify_start vt]
    by (simp add: verify_start_def)
  have "verify_segments codec cfg fs = Inr vt \<longleftrightarrow>
    (\<exists>segs ms. list_segments fs = Inr segs \<and> list_manifests fs = Inr ms \<and> fst ` set ms \<subseteq> fst ` set segs
       \<and> efold (verify_segment codec cfg fs ms (length segs)) (enumerate 0 segs) verify_start = Inr vt)"
    unfolding verify_segments_def ebind_eq_Inr manifests_have_segments_iff by blast
  also have "\<dots> \<longleftrightarrow> (\<exists>segs ms cs. store_holds codec (cfg_max_event_bytes cfg) fs segs ms cs
       \<and> vt = fold (after_chunk codec ms) cs verify_start)"
  proof (intro iffI; elim exE)
    fix segs ms
    assume *: "list_segments fs = Inr segs \<and> list_manifests fs = Inr ms \<and> fst ` set ms \<subseteq> fst ` set segs
       \<and> efold (verify_segment codec cfg fs ms (length segs)) (enumerate 0 segs) verify_start = Inr vt"
    then show "\<exists>segs ms cs. store_holds codec (cfg_max_event_bytes cfg) fs segs ms cs
       \<and> vt = fold (after_chunk codec ms) cs verify_start"
      using fold [of segs ms] unfolding store_holds_def by blast
  next
    fix segs ms cs
    assume *: "store_holds codec (cfg_max_event_bytes cfg) fs segs ms cs
       \<and> vt = fold (after_chunk codec ms) cs verify_start"
    then show "\<exists>segs ms. list_segments fs = Inr segs \<and> list_manifests fs = Inr ms \<and> fst ` set ms \<subseteq> fst ` set segs
       \<and> efold (verify_segment codec cfg fs ms (length segs)) (enumerate 0 segs) verify_start = Inr vt"
      using fold [of segs ms] unfolding store_holds_def by blast
  qed
  finally show ?thesis .
qed

text \<open>The sequence number and hash after some chunks.\<close>

definition end_seq :: "u64 \<Rightarrow> chunk list \<Rightarrow> u64" where
  "end_seq seq cs = (if cs = [] then seq else ch_next (last cs))"

definition end_hash :: "event_codec \<Rightarrow> bytes option \<Rightarrow> chunk list \<Rightarrow> bytes option" where
  "end_hash codec prev cs = (if cs = [] then prev else ch_hash codec (last cs))"

lemma end_Cons [simp]:
  "end_seq seq (c # cs) = end_seq (ch_next c) cs" "end_hash codec prev (c # cs) = end_hash codec (ch_hash codec c) cs"
  by (simp_all add: end_seq_def end_hash_def)

lemma end_Nil [simp]: "end_seq seq [] = seq" "end_hash codec prev [] = prev"
  by (simp_all add: end_seq_def end_hash_def)

lemma fold_after_chunk:
  "vt_expected_first_seq (fold (after_chunk codec ms) cs vt) = end_seq (vt_expected_first_seq vt) cs"
  "vt_previous_hash (fold (after_chunk codec ms) cs vt) = end_hash codec (vt_previous_hash vt) cs"
  "vt_segments (fold (after_chunk codec ms) cs vt) = vt_segments vt @ map (verified_chunk codec ms) cs"
  by (induction cs arbitrary: vt) (simp_all add: after_chunk_def)

lemma unat_ch_next:
  assumes "unat (ch_first c) < 10 ^ 12" "length (ch_lines c) < 2 ^ 63"
  shows "unat (ch_next c) = unat (ch_first c) + length (ch_lines c)"
proof -
  have n: "unat (of_nat (length (ch_lines c)) :: u64) = length (ch_lines c)"
    using assms(2) by (intro unat_of_nat_u64) simp
  have "unat (ch_first c) + length (ch_lines c) < 2 ^ 64" using assms by simp
  then show ?thesis using n by (simp add: ch_next_def unat_word_ariths)
qed

definition all_lines :: "chunk list \<Rightarrow> bytes list" where
  "all_lines cs = concat (map ch_lines cs)"

lemma all_lines_simps [simp]:
  "all_lines [] = []" "all_lines (c # cs) = ch_lines c @ all_lines cs" "all_lines (cs @ ds) = all_lines cs @ all_lines ds"
  by (simp_all add: all_lines_def)

lemma linked_chain:
  assumes "files_ok fs" "linked codec seq prev cs" "list_all (chunk_ok codec mx fs) cs"
    and "\<forall>c\<in>set cs. unat (ch_first c) < 10 ^ 12"
  shows "chain codec mx seq prev (all_lines cs) (concat (map ch_events cs))
    \<and> unat (end_seq seq cs) = unat seq + length (all_lines cs)
    \<and> end_hash codec prev cs = tail_hash codec prev (all_lines cs)"
  using assms(2-4)
proof (induction cs arbitrary: seq prev)
  case (Cons c cs)
  have c: "ch_first c = seq" "ch_prev c = prev" "chunk_ok codec mx fs c" "unat (ch_first c) < 10 ^ 12"
    using Cons.prems by simp_all
  have IH: "chain codec mx (ch_next c) (ch_hash codec c) (all_lines cs) (concat (map ch_events cs))
      \<and> unat (end_seq (ch_next c) cs) = unat (ch_next c) + length (all_lines cs)
      \<and> end_hash codec (ch_hash codec c) cs = tail_hash codec (ch_hash codec c) (all_lines cs)"
    using Cons.prems by (intro Cons.IH) simp_all
  have ch: "chain codec mx seq prev (ch_lines c) (ch_events c)" using c by (simp add: chunk_ok_def)
  have "chain codec mx seq prev (ch_lines c @ all_lines cs) (ch_events c @ concat (map ch_events cs))"
    using IH ch c by (subst chain_append [OF chain_length [OF ch]]) (simp add: ch_next_def ch_hash_def)
  then show ?case
    using IH c unat_ch_next [OF c(4) chunk_length [OF assms(1) c(3)]] by (simp add: ch_hash_def)
qed simp

lemma store_firsts:
  assumes "store_holds codec mx fs segs ms cs"
  shows "\<forall>c\<in>set cs. unat (ch_first c) < 10 ^ 12"
proof
  fix c assume "c \<in> set cs"
  then have "ch_first c \<in> set (map fst segs)" using assms unfolding store_holds_def by (metis imageI set_map)
  then show "unat (ch_first c) < 10 ^ 12"
    using list_segments_named assms unfolding store_holds_def by fastforce
qed

text \<open>The bytes of the stream: the contents of the segments in order.\<close>

definition stream_bytes :: "store_files \<Rightarrow> bytes option" where
  "stream_bytes fs =
     (case list_segments fs of
        Inl _ \<Rightarrow> None
      | Inr segs \<Rightarrow>
          if list_all (\<lambda>(k, n). file_content (sf_events fs) n \<noteq> None) segs
          then Some (concat (map (\<lambda>(k, n). the (file_content (sf_events fs) n)) segs)) else None)"

lemma file_of_append [simp]: "file_of (ls @ ls') = file_of ls @ file_of ls'"
  by (simp add: file_of_def)

lemma stream_bytes_chunks:
  assumes "store_holds codec mx fs segs ms cs"
  shows "stream_bytes fs = Some (file_of (all_lines cs))"
proof -
  have n: "\<forall>(k, n)\<in>set segs. n = segment_filename k" "map ch_first cs = map fst segs" "list_segments fs = Inr segs"
    "list_all (chunk_ok codec mx fs) cs"
    using assms list_segments_named unfolding store_holds_def store_chunks_def by fastforce+
  have "list_all (\<lambda>(k, n). file_content (sf_events fs) n \<noteq> None) segs
      \<and> concat (map (\<lambda>(k, n). the (file_content (sf_events fs) n)) segs) = file_of (all_lines cs)"
    using n(2,1,4)
  proof (induction segs arbitrary: cs)
    case Nil
    then show ?case by (simp add: file_of_def)
  next
    case (Cons seg segs)
    then obtain c cs' where cs: "cs = c # cs'" by (cases cs) auto
    with Cons.prems have "file_content (sf_events fs) (snd seg) = Some (file_of (ch_lines c))"
      by (auto simp: chunk_ok_def)
    with Cons.IH [of cs'] Cons.prems cs show ?case by (auto simp: split_def)
  qed
  then show ?thesis using n(3) by (simp add: stream_bytes_def)
qed

text \<open>
  C14. A store that passes verification holds one unbroken history: the bytes of its segments
  in order are the lines of one hash chain that starts with event 1 and no previous hash, and
  the report's last sequence number and last hash are the length and the tail hash of that chain.
\<close>

theorem verified_store_is_one_chain:
  assumes "files_ok fs" and "verify_locked codec cfg include_checkpoints fs = Inr v"
  shows "\<exists>ls es. stream_bytes fs = Some (file_of ls)
    \<and> chain codec (cfg_max_event_bytes cfg) 1 None ls es
    \<and> unat (vr_last_seq (vd_report v)) = length ls
    \<and> vr_last_event_hash (vd_report v) = tail_hash codec None ls"
proof -
  obtain vt where vt: "verify_segments codec cfg fs = Inr vt"
    and v: "vr_last_seq (vd_report v) = saturating_sub (vt_expected_first_seq vt) 1"
      "vr_last_event_hash (vd_report v) = vt_previous_hash vt"
    using assms(2) unfolding verify_locked_def Let_def ebind_eq_Inr by auto
  then obtain segs ms cs where s: "store_holds codec (cfg_max_event_bytes cfg) fs segs ms cs"
    "vt = fold (after_chunk codec ms) cs verify_start"
    using verify_segments_iff [OF assms(1)] by blast
  have "chain codec (cfg_max_event_bytes cfg) 1 None (all_lines cs) (concat (map ch_events cs))
    \<and> unat (end_seq 1 cs) = unat (1 :: u64) + length (all_lines cs)
    \<and> end_hash codec None cs = tail_hash codec None (all_lines cs)"
    using s(1) store_firsts [OF s(1)] unfolding store_holds_def store_chunks_def
    by (intro linked_chain [OF assms(1)]) simp_all
  then show ?thesis
    using v s(2) stream_bytes_chunks [OF s(1)]
    by (intro exI [of _ "all_lines cs"] exI [of _ "concat (map ch_events cs)"])
      (simp add: fold_after_chunk verify_start_def unat_saturating_sub)
qed

definition sample_config :: event_store_config where
  "sample_config = \<lparr>cfg_rollover_events = 4, cfg_max_event_bytes = 64, cfg_actor_id = ''a'', cfg_host_id = ''h''\<rparr>"

definition sample_files :: store_files where
  "sample_files = \<lparr>sf_events = [(segment_filename 1, RegularFile (file_of sample_lines))],
     sf_manifests = [], sf_checkpoints = []\<rparr>"

lemma sample_files_ok: "files_ok sample_files"
proof -
  have "length (file_of sample_lines) = 9" by code_simp
  then show ?thesis by (auto simp: files_ok_def sample_files_def file_content_def)
qed

definition sample_verified :: "event_store_error + verified_stream" where
  "sample_verified = verify_locked sample_event_codec sample_config False sample_files"

theorem verified_store_is_one_chain_witness:
  "sample_verified = Inr (projr sample_verified)
   \<and> (\<exists>ls es. stream_bytes sample_files = Some (file_of ls)
    \<and> chain sample_event_codec (cfg_max_event_bytes sample_config) 1 None ls es
    \<and> unat (vr_last_seq (vd_report (projr sample_verified))) = length ls
    \<and> vr_last_event_hash (vd_report (projr sample_verified)) = tail_hash sample_event_codec None ls)"
proof -
  have "\<not> isl sample_verified" by code_simp
  then have v: "sample_verified = Inr (projr sample_verified)" by (metis sum.collapse(2))
  from verified_store_is_one_chain [OF sample_files_ok v [unfolded sample_verified_def]] v
  show ?thesis unfolding sample_verified_def by blast
qed

end
