(* ===== verification/Event_Append.thy ===== *)
theory Event_Append
  imports Event_Verify
begin

text \<open>
  Appending to the event store, proved against the store's chunks: from a verified store the
  writer's state is the chunks of the store, closing a segment gives it its manifest, every
  written event extends the last chunk, and the store is verified again at the end.
\<close>

section \<open>Manifests of chunks\<close>

text \<open>What the code relies on: manifests survive being written and read, and digests are hexadecimal.\<close>

definition manifests_roundtrip :: "event_codec \<Rightarrow> bool" where
  "manifests_roundtrip codec \<longleftrightarrow> (\<forall>m. manifest_from_slice codec (manifest_to_vec codec m @ [NL]) = Inr m)"

definition hashes_are_hex :: "event_codec \<Rightarrow> bool" where
  "hashes_are_hex codec \<longleftrightarrow> (\<forall>s. is_lower_hex_64 (blake3_hex codec s))"

lemma chain_event_ids:
  "chain codec mx seq prev ls es \<Longrightarrow>
     list_all (\<lambda>e. is_prefixed_lowercase_ulid (ulid_ok codec) (en_event_id e) ''evt_'') es"
  by (induction ls arbitrary: seq prev es) (auto simp: event_ok_def split: list.splits)

lemma chunk_manifest_shape:
  assumes "hashes_are_hex codec" and fs: "files_ok fs" and c: "chunk_ok codec mx fs c"
    and "ch_lines c \<noteq> []" and k: "unat (ch_first c) < 10 ^ 12"
  shows "validate_manifest_shape codec (chunk_manifest codec c) (file_of (ch_lines c)) (ch_first c) = Inr ()"
proof -
  have ch: "chain codec mx (ch_first c) (ch_prev c) (ch_lines c) (ch_events c)"
    and content: "length (file_of (ch_lines c)) < 2 ^ 63"
    using c fs by (auto simp: chunk_ok_def files_ok_def)
  have es: "ch_events c \<noteq> []" using chain_length [OF ch] assms(4) by auto
  have ids: "is_prefixed_lowercase_ulid (ulid_ok codec) (en_event_id (hd (ch_events c))) ''evt_''"
    "is_prefixed_lowercase_ulid (ulid_ok codec) (en_event_id (last (ch_events c))) ''evt_''"
    using chain_event_ids [OF ch] es by (simp_all add: list_all_iff)
  have len: "length (ch_lines c) < 2 ^ 63" by (rule chunk_length [OF fs c])
  have n: "unat (of_nat (length (ch_lines c)) :: u64) = length (ch_lines c)"
    using len by (intro unat_of_nat_u64) simp
  then have count: "(of_nat (length (ch_lines c)) :: u64) \<noteq> 0"
    using assms(4) by (metis length_0_conv unat_0)
  have next_seq: "unat (ch_next c) = unat (ch_first c) + length (ch_lines c)" by (rule unat_ch_next [OF k len])
  have pos: "0 < length (ch_lines c)" using assms(4) by simp
  have one: "(1 :: u64) \<le> ch_next c" "(1 :: u64) \<le> of_nat (length (ch_lines c))"
    using next_seq n pos by (simp_all add: word_le_nat_alt Suc_le_eq del: length_greater_0_conv)
  have range: "checked_add (ch_first c) (of_nat (length (ch_lines c)) - 1) = Some (ch_next c - 1)"
    using n next_seq pos one by (simp add: checked_add_eq_Some unat_sub del: length_greater_0_conv)
  have size: "unat (of_nat (length (file_of (ch_lines c))) :: u64) = length (file_of (ch_lines c))"
    using content by (intro unat_of_nat_u64) simp
  have hash: "is_blake3_identifier (event_hash codec s)" for s
    using assms(1) unfolding event_hash_def hashes_are_hex_def is_blake3_identifier_prefixed by simp
  have hashes: "is_blake3_identifier (the (ch_hash codec c))"
    "is_blake3_identifier (event_hash codec (file_of (ch_lines c)))"
    using assms(4) hash by (simp_all add: ch_hash_def tail_hash_last)
  show ?thesis
    unfolding validate_manifest_shape_def Let_def ebind_eq_Inr ensure_eq_Inr ok_or_eq_Inr
    by (simp add: chunk_manifest_def range ids hashes size count)
qed

lemma has_manifest_iff:
  assumes "hashes_are_hex codec" "files_ok fs" "chunk_ok codec mx fs c" "ch_lines c \<noteq> []" "unat (ch_first c) < 10 ^ 12"
  shows "has_manifest codec fs c \<longleftrightarrow> read_manifest codec fs (manifest_filename (ch_first c)) = Inr (chunk_manifest codec c)"
proof -
  have content: "file_content (sf_events fs) (segment_filename (ch_first c)) = Some (file_of (ch_lines c))"
    using assms(3) by (simp add: chunk_ok_def)
  have "m = chunk_manifest codec c \<Longrightarrow>
      validate_manifest_shape codec m (file_of (ch_lines c)) (ch_first c) = Inr ()" for m
    using chunk_manifest_shape [OF assms] by simp
  then show ?thesis
    using assms(4) content by (auto simp: has_manifest_def load_manifest_def ebind_eq_Inr read_file_def)
qed

section \<open>The writer's view of the chunks\<close>

definition open_list :: "chunk option \<Rightarrow> chunk list" where
  "open_list oc = (case oc of None \<Rightarrow> [] | Some c \<Rightarrow> [c])"

lemma open_list_simps [simp]: "open_list None = []" "open_list (Some c) = [c]"
  by (simp_all add: open_list_def)

definition writer_open :: "chunk \<Rightarrow> open_segment \<Rightarrow> bool" where
  "writer_open c os \<longleftrightarrow> os_first_seq os = ch_first c \<and> os_event_count os = of_nat (length (ch_lines c))"

definition writer_holds ::
  "event_codec \<Rightarrow> nat \<Rightarrow> store_files \<Rightarrow> writer_state \<Rightarrow> chunk list \<Rightarrow> chunk option \<Rightarrow> bool" where
  "writer_holds codec mx fs ws cs oc \<longleftrightarrow>
     files_ok fs
     \<and> (\<exists>segs ms. store_holds codec mx fs segs ms (cs @ open_list oc) \<and> fst ` set ms = ch_first ` set cs)
     \<and> ws_closed ws = map (chunk_manifest codec) cs
     \<and> (case oc of None \<Rightarrow> ws_open ws = None | Some c \<Rightarrow> (\<exists>os. ws_open ws = Some os \<and> writer_open c os))
     \<and> ws_next_seq ws = end_seq 1 (cs @ open_list oc)
     \<and> ws_previous_event_hash ws = end_hash codec None (cs @ open_list oc)"

lemma linked_append:
  "linked codec seq prev (cs @ ds) \<longleftrightarrow>
     linked codec seq prev cs \<and> linked codec (end_seq seq cs) (end_hash codec prev cs) ds"
  by (induction cs arbitrary: seq prev) auto

lemma end_append [simp]:
  "end_seq seq (cs @ ds) = end_seq (end_seq seq cs) ds"
  "end_hash codec prev (cs @ ds) = end_hash codec (end_hash codec prev cs) ds"
  by (simp_all add: end_seq_def end_hash_def)

text \<open>The first sequence numbers increase.\<close>

lemma linked_firsts:
  assumes "files_ok fs" "linked codec seq prev cs" "list_all (chunk_ok codec mx fs) cs"
    and "\<forall>c\<in>set cs. unat (ch_first c) < 10 ^ 12 \<and> ch_lines c \<noteq> []" and "d \<in> set cs"
  shows "unat seq \<le> unat (ch_first d) \<and> ch_first d < end_seq seq cs"
  using assms(2-5)
proof (induction cs arbitrary: seq prev)
  case (Cons c cs)
  have c: "ch_first c = seq" "chunk_ok codec mx fs c" "unat (ch_first c) < 10 ^ 12" "ch_lines c \<noteq> []"
    using Cons.prems by simp_all
  have n: "unat (ch_next c) = unat seq + length (ch_lines c)"
    using unat_ch_next [OF c(3) chunk_length [OF assms(1) c(2)]] c(1) by simp
  have e: "unat (end_seq (ch_next c) cs) = unat (ch_next c) + length (all_lines cs)"
    using linked_chain [OF assms(1), of codec "ch_next c" "ch_hash codec c" cs mx] Cons.prems by simp
  show ?case
  proof (cases "d = c")
    case True
    then show ?thesis using c n e by (simp add: word_less_nat_alt)
  next
    case False
    then show ?thesis using Cons.IH [of "ch_next c" "ch_hash codec c"] Cons.prems n by fastforce
  qed
qed simp

lemma segment_filename_inj: "segment_filename a = segment_filename b \<longleftrightarrow> a = b"
proof
  assume "segment_filename a = segment_filename b"
  then have "zero_padded 12 (unat a) = zero_padded 12 (unat b)" by (simp add: segment_filename_def)
  then show "a = b" by (metis zero_padded_digits(2) unat_eq_iff_eq)
qed simp

lemma manifest_filename_inj: "manifest_filename a = manifest_filename b \<longleftrightarrow> a = b"
proof
  assume "manifest_filename a = manifest_filename b"
  then have "zero_padded 12 (unat a) = zero_padded 12 (unat b)" by (simp add: manifest_filename_def)
  then show "a = b" by (metis zero_padded_digits(2) unat_eq_iff_eq)
qed simp

lemma not_temporary: "\<not> is_temporary (segment_filename k)" "\<not> is_temporary (manifest_filename k)"
  by (simp_all add: is_temporary_def starts_with_iff segment_filename_def manifest_filename_def)

lemma parse_names:
  assumes "unat k < 10 ^ 12"
  shows "parse_segment_filename (segment_filename k) = Some k" "parse_manifest_filename (manifest_filename k) = Some k"
  using assms
  by (simp_all only: parse_segment_filename_def parse_manifest_filename_def parse_numbered_iff
      segment_filename_def manifest_filename_def)

lemma segment_listed:
  assumes "list_segments fs = Inr segs" "unat k < 10 ^ 12"
  shows "segment_filename k \<in> fst ` set (sf_events fs) \<longleftrightarrow> k \<in> fst ` set segs"
proof -
  have s: "set segs = {(k, n). n \<in> fst ` set (sf_events fs) \<and> \<not> is_temporary n \<and> parse_segment_filename n = Some k}"
    by (rule listing_set(1) [OF assms(1) [unfolded list_segments_def]])
  show ?thesis
  proof
    assume "segment_filename k \<in> fst ` set (sf_events fs)"
    then have "(k, segment_filename k) \<in> set segs" unfolding s using not_temporary parse_names [OF assms(2)] by simp
    then show "k \<in> fst ` set segs" by force
  next
    assume "k \<in> fst ` set segs"
    then obtain n where "(k, n) \<in> set segs" by auto
    then show "segment_filename k \<in> fst ` set (sf_events fs)"
      using s list_segments_named [OF assms(1)] by auto
  qed
qed

lemma manifest_listed:
  assumes "list_manifests fs = Inr ms" "unat k < 10 ^ 12"
  shows "manifest_filename k \<in> fst ` set (sf_manifests fs) \<longleftrightarrow> k \<in> fst ` set ms"
proof -
  have s: "set ms = {(k, n). n \<in> fst ` set (sf_manifests fs) \<and> \<not> is_temporary n \<and> parse_manifest_filename n = Some k}"
    by (rule listing_set(1) [OF assms(1) [unfolded list_manifests_def]])
  show ?thesis
  proof
    assume "manifest_filename k \<in> fst ` set (sf_manifests fs)"
    then have "(k, manifest_filename k) \<in> set ms" unfolding s using not_temporary parse_names [OF assms(2)] by simp
    then show "k \<in> fst ` set ms" by force
  next
    assume "k \<in> fst ` set ms"
    then obtain n where "(k, n) \<in> set ms" by auto
    then show "manifest_filename k \<in> fst ` set (sf_manifests fs)"
      using s list_manifests_named [OF assms(1)] by auto
  qed
qed

text \<open>What the writer's view says about the chunks.\<close>

lemma writer_chunks:
  assumes "writer_holds codec mx fs ws cs oc"
  obtains segs ms where "files_ok fs" "list_segments fs = Inr segs" "list_manifests fs = Inr ms"
    "fst ` set ms = ch_first ` set cs" "map ch_first (cs @ open_list oc) = map fst segs"
    "linked codec 1 None (cs @ open_list oc)"
    "\<forall>c\<in>set (cs @ open_list oc). chunk_ok codec mx fs c \<and> unat (ch_first c) < 10 ^ 12"
    "\<forall>c\<in>set cs. has_manifest codec fs c \<and> ch_lines c \<noteq> []"
proof -
  obtain segs ms where s: "store_holds codec mx fs segs ms (cs @ open_list oc)" "fst ` set ms = ch_first ` set cs"
    and fs: "files_ok fs" using assms unfolding writer_holds_def by blast
  have l: "list_segments fs = Inr segs" "list_manifests fs = Inr ms"
    "map ch_first (cs @ open_list oc) = map fst segs" "linked codec 1 None (cs @ open_list oc)"
    "\<And>c. c \<in> set (cs @ open_list oc) \<Longrightarrow> chunk_ok codec mx fs c"
    using s(1) unfolding store_holds_def store_chunks_def by (auto simp: list_all_iff)
  have m: "has_manifest codec fs c \<and> ch_lines c \<noteq> []" if "c \<in> set cs" for c
  proof -
    have "ch_first c \<in> fst ` set ms" using s(2) that by blast
    then have "map_of ms (ch_first c) \<noteq> None" by (simp add: map_of_eq_None_iff)
    then have "has_manifest codec fs c" using s(1) that unfolding store_holds_def store_chunks_def by auto
    then show ?thesis by (simp add: has_manifest_def)
  qed
  show ?thesis using that [OF fs l(1,2) s(2) l(3,4)] l(5) m store_firsts [OF s(1)] by blast
qed

text \<open>Conversely, with the state given by the chunks.\<close>

lemma writer_holdsI:
  assumes "files_ok fs" "list_segments fs = Inr segs" "list_manifests fs = Inr ms"
    and "fst ` set ms = ch_first ` set cs" "map ch_first (cs @ open_list oc) = map fst segs"
    and "linked codec 1 None (cs @ open_list oc)"
    and "\<And>c. c \<in> set (cs @ open_list oc) \<Longrightarrow> chunk_ok codec mx fs c"
    and "\<And>c. c \<in> set cs \<Longrightarrow> has_manifest codec fs c"
    and "\<And>c. oc = Some c \<Longrightarrow> ch_first c \<notin> ch_first ` set cs"
    and "ws_closed ws = map (chunk_manifest codec) cs"
    and "case oc of None \<Rightarrow> ws_open ws = None | Some c \<Rightarrow> (\<exists>os. ws_open ws = Some os \<and> writer_open c os)"
    and "ws_next_seq ws = end_seq 1 (cs @ open_list oc)"
    and "ws_previous_event_hash ws = end_hash codec None (cs @ open_list oc)"
  shows "writer_holds codec mx fs ws cs oc"
proof -
  have sub: "fst ` set ms \<subseteq> fst ` set segs"
  proof -
    have "ch_first ` set cs \<subseteq> set (map ch_first (cs @ open_list oc))" by auto
    then show ?thesis unfolding assms(4,5) by simp
  qed
  have m: "map_of ms (ch_first c) \<noteq> None \<longleftrightarrow> ch_first c \<in> ch_first ` set cs" for c
    using assms(4) by (simp add: map_of_eq_None_iff)
  have "store_chunks codec mx fs ms 1 None (cs @ open_list oc)"
  proof (cases oc)
    case None
    then show ?thesis
      using assms(6-8) m in_set_butlastD unfolding store_chunks_def by (fastforce simp: list_all_iff)
  next
    case (Some c)
    then have "map_of ms (ch_first c) = None" using assms(9) m by blast
    moreover have "map_of ms (ch_first d) \<noteq> None" if "d \<in> set cs" for d using m that by blast
    ultimately show ?thesis
      using assms(6-8) m Some unfolding store_chunks_def by (auto simp: list_all_iff)
  qed
  then show ?thesis
    using assms(1-5,10-13) sub unfolding writer_holds_def store_holds_def by blast
qed

section \<open>Closing a segment\<close>

lemma has_manifest_cong:
  assumes "file_content (sf_events fs') (segment_filename (ch_first c)) = file_content (sf_events fs) (segment_filename (ch_first c))"
    and "file_content (sf_manifests fs') (manifest_filename (ch_first c)) = file_content (sf_manifests fs) (manifest_filename (ch_first c))"
  shows "has_manifest codec fs' c = has_manifest codec fs c"
  using assms by (simp add: has_manifest_def load_manifest_def read_manifest_def read_file_def)

lemma publish_manifest_chunk:
  assumes "manifests_roundtrip codec" "chain codec mx (ch_first c) (ch_prev c) (ch_lines c) (ch_events c)"
    and "ch_lines c \<noteq> []" "manifest_filename (ch_first c) \<notin> fst ` set (sf_manifests fs)"
  shows "publish_manifest codec (chunk_scan codec c) fs =
    (Inr (chunk_manifest codec c),
     fs\<lparr>sf_manifests := dir_put (sf_manifests fs) (manifest_filename (ch_first c))
       (manifest_to_vec codec (chunk_manifest codec c) @ [NL])\<rparr>)"
proof -
  have "ch_events c \<noteq> []" using chain_length [OF assms(2)] assms(3) by auto
  then have s: "sc_first_event_id (chunk_scan codec c) = Some (en_event_id (hd (ch_events c)))"
    "sc_last_event_id (chunk_scan codec c) = Some (en_event_id (last (ch_events c)))"
    "sc_last_seq (chunk_scan codec c) = Some (ch_next c - 1)"
    "sc_last_event_hash (chunk_scan codec c) = Some (the (ch_hash codec c))"
    "sc_first_seq (chunk_scan codec c) = ch_first c" "sc_event_count (chunk_scan codec c) = of_nat (length (ch_lines c))"
    "sc_segment_size_bytes (chunk_scan codec c) = of_nat (length (file_of (ch_lines c)))"
    "sc_segment_blake3 (chunk_scan codec c) = event_hash codec (file_of (ch_lines c))"
    using assms(3) by (simp_all add: chunk_scan_def scan_of_def ch_next_def ch_hash_def tail_hash_last)
  show ?thesis
    using assms(4) unfolding publish_manifest_def s
    by (simp add: Let_def put_manifest_def sbind_def chunk_manifest_def reading_def)
qed

text \<open>The hash the writer expects before its open segment.\<close>

lemma closed_hash:
  assumes "writer_holds codec mx fs ws cs (Some c)"
  shows "(if ws_closed ws = [] then None else Some (sm_last_event_hash (last (ws_closed ws)))) = ch_prev c"
proof -
  obtain segs ms where w: "linked codec 1 None (cs @ [c])" "\<And>d. d \<in> set cs \<Longrightarrow> ch_lines d \<noteq> []"
    using writer_chunks [OF assms] by (metis open_list_simps(2))
  have closed: "ws_closed ws = map (chunk_manifest codec) cs" using assms by (simp add: writer_holds_def)
  have prev: "ch_prev c = end_hash codec None cs" using w(1) by (simp add: linked_append)
  show ?thesis
  proof (cases "cs = []")
    case False
    then have "ch_lines (last cs) \<noteq> []" using w(2) by simp
    then have "Some (the (ch_hash codec (last cs))) = ch_hash codec (last cs)"
      by (simp add: ch_hash_def tail_hash_last)
    then show ?thesis using False by (simp add: closed prev end_hash_def last_map chunk_manifest_def)
  qed (simp add: closed prev)
qed

lemma close_open_segment_ok:
  assumes w: "writer_holds codec (cfg_max_event_bytes cfg) fs ws cs (Some c)" and c: "ch_lines c \<noteq> []"
    and laws: "manifests_roundtrip codec" "hashes_are_hex codec"
  shows "\<exists>ws' fs'. close_open_segment codec cfg ws fs = (Inr ws', fs')
    \<and> writer_holds codec (cfg_max_event_bytes cfg) fs' ws' (cs @ [c]) None"
proof -
  obtain segs ms where fs: "files_ok fs" and l: "list_segments fs = Inr segs" "list_manifests fs = Inr ms"
    and ms: "fst ` set ms = ch_first ` set cs" and segs: "map ch_first (cs @ [c]) = map fst segs"
    and linked: "linked codec 1 None (cs @ [c])"
    and ok: "\<forall>d\<in>set (cs @ [c]). chunk_ok codec (cfg_max_event_bytes cfg) fs d \<and> unat (ch_first d) < 10 ^ 12"
    and closed: "\<forall>d\<in>set cs. has_manifest codec fs d \<and> ch_lines d \<noteq> []"
    by (rule writer_chunks [OF w, unfolded open_list_simps])
  obtain os where os: "ws_open ws = Some os" "os_first_seq os = ch_first c" "os_event_count os = of_nat (length (ch_lines c))"
    using w by (auto simp: writer_holds_def writer_open_def)
  have okc: "chunk_ok codec (cfg_max_event_bytes cfg) fs c" and kc: "unat (ch_first c) < 10 ^ 12" using ok by simp_all
  have chc: "chain codec (cfg_max_event_bytes cfg) (ch_first c) (ch_prev c) (ch_lines c) (ch_events c)"
    and content: "file_content (sf_events fs) (segment_filename (ch_first c)) = Some (file_of (ch_lines c))"
    using okc by (simp_all add: chunk_ok_def)
  have less: "ch_first d < ch_first c" if "d \<in> set cs" for d
    using linked_firsts [OF fs, of codec 1 None cs "cfg_max_event_bytes cfg" d] linked ok closed that
    by (simp add: linked_append list_all_iff)
  have new: "ch_first c \<notin> ch_first ` set cs" using less by force
  have count: "(of_nat (length (ch_lines c)) :: u64) \<noteq> 0"
    using of_nat_zero_iff [of "length (ch_lines c)"] chunk_length [OF fs okc] c by simp
  have scan: "scan_named codec cfg fs (segment_filename (ch_first c)) (ch_first c) (ch_prev c) False = Inr (chunk_scan codec c)"
    using okc c unfolding scan_named_iff [OF fs] by blast
  have fresh: "manifest_filename (ch_first c) \<notin> fst ` set (sf_manifests fs)"
    using manifest_listed [OF l(2) kc] ms new by simp
  define fs' where "fs' = fs\<lparr>sf_manifests := dir_put (sf_manifests fs) (manifest_filename (ch_first c))
       (manifest_to_vec codec (chunk_manifest codec c) @ [NL])\<rparr>"
  define ws' where "ws' = ws\<lparr>ws_previous_event_hash := Some (sm_last_event_hash (chunk_manifest codec c)),
     ws_next_seq := sm_last_seq (chunk_manifest codec c) + 1,
     ws_closed := ws_closed ws @ [chunk_manifest codec c], ws_open := None\<rparr>"
  have "close_open_segment codec cfg ws fs = (Inr ws', fs')"
    using closed_hash [OF w] scan os count content publish_manifest_chunk [OF laws(1) chc c fresh]
    by (simp add: close_open_segment_def sync_open_segment_def Let_def read_file_def sbind_def reading_def
        pure_op_def ws'_def fs'_def chunk_scan_def [of codec c] scan_of_def)
  moreover have "writer_holds codec (cfg_max_event_bytes cfg) fs' ws' (cs @ [c]) None"
  proof (rule writer_holdsI)
    show "files_ok fs'" using fs by (simp add: fs'_def files_ok_def dir_put_distinct)
    show "list_segments fs' = Inr segs" using l(1) by (simp add: fs'_def list_segments_def)
    show "list_manifests fs' = Inr (ms @ [(ch_first c, manifest_filename (ch_first c))])"
    proof -
      have "fst x < ch_first c" if "x \<in> set ms" for x
      proof -
        have "fst x \<in> ch_first ` set cs" using that ms by blast
        then show ?thesis using less by auto
      qed
      then have "list_all (\<lambda>x. fst x < ch_first c) ms" by (simp add: list_all_iff)
      from list_new [OF l(2) [unfolded list_manifests_def] fresh not_temporary(2) parse_names(2) [OF kc] this]
      show ?thesis unfolding list_manifests_def by (simp add: fs'_def)
    qed
    show "fst ` set (ms @ [(ch_first c, manifest_filename (ch_first c))]) = ch_first ` set (cs @ [c])"
      using ms by auto
    show "map ch_first ((cs @ [c]) @ open_list None) = map fst segs" using segs by simp
    show "linked codec 1 None ((cs @ [c]) @ open_list None)" using linked by simp
    show "chunk_ok codec (cfg_max_event_bytes cfg) fs' d" if "d \<in> set ((cs @ [c]) @ open_list None)" for d
      using bspec [OF ok, of d] that by (simp add: chunk_ok_def fs'_def)
    show "has_manifest codec fs' d" if "d \<in> set (cs @ [c])" for d
    proof (cases "d = c")
      case True
      have "chunk_ok codec (cfg_max_event_bytes cfg) fs' c" "files_ok fs'"
        using okc fs by (simp_all add: chunk_ok_def fs'_def files_ok_def dir_put_distinct)
      then show ?thesis
        using laws(1) unfolding True by (subst has_manifest_iff [OF laws(2) _ _ c kc])
          (simp_all add: read_manifest_def read_file_def fs'_def manifests_roundtrip_def)
    next
      case False
      then have d: "d \<in> set cs" using that by simp
      then have "ch_first d \<noteq> ch_first c" using less by force
      then show ?thesis
        using bspec [OF closed d] has_manifest_cong [of fs' d fs codec] by (simp add: fs'_def manifest_filename_inj)
    qed
    show "ws_closed ws' = map (chunk_manifest codec) (cs @ [c])" using w by (simp add: ws'_def writer_holds_def)
    show "case None of None \<Rightarrow> ws_open ws' = None | Some c \<Rightarrow> (\<exists>os. ws_open ws' = Some os \<and> writer_open c os)"
      by (simp add: ws'_def)
    show "ws_next_seq ws' = end_seq 1 ((cs @ [c]) @ open_list None)" by (simp add: ws'_def chunk_manifest_def)
    show "ws_previous_event_hash ws' = end_hash codec None ((cs @ [c]) @ open_list None)"
      using c by (simp add: ws'_def chunk_manifest_def ch_hash_def tail_hash_last)
  qed simp
  ultimately show ?thesis by blast
qed

section \<open>Writing an event\<close>

lemma writer_end:
  assumes "writer_holds codec mx fs ws cs oc"
  shows "unat (ws_next_seq ws) = 1 + length (all_lines (cs @ open_list oc))"
    and "ws_previous_event_hash ws = tail_hash codec None (all_lines (cs @ open_list oc))"
    and "stream_bytes fs = Some (file_of (all_lines (cs @ open_list oc)))"
proof -
  obtain segs ms where fs: "files_ok fs" and "list_segments fs = Inr segs" "list_manifests fs = Inr ms"
    "fst ` set ms = ch_first ` set cs" "map ch_first (cs @ open_list oc) = map fst segs"
    and linked: "linked codec 1 None (cs @ open_list oc)"
    and ok: "\<forall>d\<in>set (cs @ open_list oc). chunk_ok codec mx fs d \<and> unat (ch_first d) < 10 ^ 12"
    and "\<forall>d\<in>set cs. has_manifest codec fs d \<and> ch_lines d \<noteq> []"
    by (rule writer_chunks [OF assms])
  have "unat (end_seq 1 (cs @ open_list oc)) = unat (1 :: u64) + length (all_lines (cs @ open_list oc))
    \<and> end_hash codec None (cs @ open_list oc) = tail_hash codec None (all_lines (cs @ open_list oc))"
    using linked_chain [OF fs linked, of mx] ok by (simp add: list_all_iff)
  then show "unat (ws_next_seq ws) = 1 + length (all_lines (cs @ open_list oc))"
    "ws_previous_event_hash ws = tail_hash codec None (all_lines (cs @ open_list oc))"
    using assms by (simp_all add: writer_holds_def)
  show "stream_bytes fs = Some (file_of (all_lines (cs @ open_list oc)))"
  proof -
    from assms obtain segs ms where "store_holds codec mx fs segs ms (cs @ open_list oc)"
      unfolding writer_holds_def by (elim conjE exE)
    then show ?thesis by (rule stream_bytes_chunks)
  qed
qed

lemma ensure_open_ok:
  assumes w: "writer_holds codec mx fs ws cs oc" and k: "unat (ws_next_seq ws) < 10 ^ 12"
  shows "\<exists>os fs' c. ensure_open_segment ws fs = (Inr os, fs')
    \<and> writer_holds codec mx fs' (ws\<lparr>ws_open := Some os\<rparr>) cs (Some c)
    \<and> all_lines (cs @ [c]) = all_lines (cs @ open_list oc)"
proof (cases oc)
  case (Some c)
  then obtain os where os: "ws_open ws = Some os" using w by (auto simp: writer_holds_def)
  then have "ws\<lparr>ws_open := Some os\<rparr> = ws" by simp
  with w Some have "writer_holds codec mx fs (ws\<lparr>ws_open := Some os\<rparr>) cs (Some c)" by simp
  then show ?thesis using Some os by (intro exI [of _ os] exI [of _ fs] exI [of _ c]) (simp add: ensure_open_segment_def)
next
  case None
  obtain segs ms where fs: "files_ok fs" and l: "list_segments fs = Inr segs" "list_manifests fs = Inr ms"
    and ms: "fst ` set ms = ch_first ` set cs" and segs: "map ch_first cs = map fst segs"
    and linked: "linked codec 1 None cs"
    and ok: "\<forall>d\<in>set cs. chunk_ok codec mx fs d \<and> unat (ch_first d) < 10 ^ 12"
    and closed: "\<forall>d\<in>set cs. has_manifest codec fs d \<and> ch_lines d \<noteq> []"
    by (rule writer_chunks [OF w [unfolded None], unfolded open_list_simps append_Nil2])
  define k where "k = ws_next_seq ws"
  have k12: "unat k < 10 ^ 12" and kend: "end_seq 1 cs = k" "ws_open ws = None"
    using assms None by (simp_all add: k_def writer_holds_def)
  have less: "ch_first d < k" if "d \<in> set cs" for d
    using linked_firsts [OF fs, of codec 1 None cs mx d] linked ok closed that kend
    by (simp add: list_all_iff)
  have new: "k \<notin> ch_first ` set cs" using less by force
  have fresh: "segment_filename k \<notin> fst ` set (sf_events fs)"
    using segment_listed [OF l(1) k12] new segs by (metis image_set)
  define fs' where "fs' = fs\<lparr>sf_events := dir_put (sf_events fs) (segment_filename k) []\<rparr>"
  define os where "os = \<lparr>os_first_seq = k, os_event_count = 0, os_newly_created = True\<rparr>"
  define c where "c = \<lparr>ch_first = k, ch_prev = ws_previous_event_hash ws, ch_lines = [], ch_events = []\<rparr>"
  have "ensure_open_segment ws fs = (Inr os, fs')"
    using fresh kend by (simp add: ensure_open_segment_def Let_def k_def [symmetric] sbind_def reading_def put_segment_def
        fs'_def os_def)
  moreover have "writer_holds codec mx fs' (ws\<lparr>ws_open := Some os\<rparr>) cs (Some c)"
  proof (rule writer_holdsI)
    show "files_ok fs'" using fs by (auto simp: fs'_def files_ok_def dir_put_distinct)
    show "list_segments fs' = Inr (segs @ [(k, segment_filename k)])"
    proof -
      have "fst x < k" if "x \<in> set segs" for x
      proof -
        have "fst x \<in> ch_first ` set cs" using that segs by (metis image_eqI image_set)
        then show ?thesis using less by auto
      qed
      then have "list_all (\<lambda>x. fst x < k) segs" by (simp add: list_all_iff)
      from list_new [OF l(1) [unfolded list_segments_def] fresh not_temporary(1) parse_names(1) [OF k12] this]
      show ?thesis unfolding list_segments_def by (simp add: fs'_def)
    qed
    show "list_manifests fs' = Inr ms" using l(2) by (simp add: fs'_def list_manifests_def)
    show "fst ` set ms = ch_first ` set cs" by (rule ms)
    show "map ch_first (cs @ open_list (Some c)) = map fst (segs @ [(k, segment_filename k)])"
      using segs by (simp add: c_def)
    show "linked codec 1 None (cs @ open_list (Some c))"
      using linked w None kend(1) by (simp add: linked_append c_def writer_holds_def)
    show "chunk_ok codec mx fs' d" if "d \<in> set (cs @ open_list (Some c))" for d
    proof (cases "d = c")
      case False
      then have "d \<in> set cs" using that by simp
      then show ?thesis using bspec [OF ok, of d] less [of d]
        by (simp add: chunk_ok_def fs'_def segment_filename_inj) (metis less_irrefl)
    qed (simp add: chunk_ok_def fs'_def c_def file_of_def)
    show "has_manifest codec fs' d" if "d \<in> set cs" for d
      using bspec [OF closed that] less [OF that] has_manifest_cong [of fs' d fs codec]
      by (simp add: fs'_def segment_filename_inj) (metis less_irrefl)
    show "ch_first d \<notin> ch_first ` set cs" if "Some c = Some d" for d
      using that new by (auto simp: c_def)
    show "ws_closed (ws\<lparr>ws_open := Some os\<rparr>) = map (chunk_manifest codec) cs" using w by (simp add: writer_holds_def)
    show "case Some c of None \<Rightarrow> ws_open (ws\<lparr>ws_open := Some os\<rparr>) = None
        | Some c \<Rightarrow> (\<exists>os'. ws_open (ws\<lparr>ws_open := Some os\<rparr>) = Some os' \<and> writer_open c os')"
      by (simp add: os_def c_def writer_open_def)
    show "ws_next_seq (ws\<lparr>ws_open := Some os\<rparr>) = end_seq 1 (cs @ open_list (Some c))"
      by (simp add: c_def k_def ch_next_def)
    show "ws_previous_event_hash (ws\<lparr>ws_open := Some os\<rparr>) = end_hash codec None (cs @ open_list (Some c))"
      by (simp add: c_def ch_hash_def)
  qed
  moreover have "all_lines (cs @ [c]) = all_lines (cs @ open_list oc)" using None by (simp add: c_def)
  ultimately show ?thesis by blast
qed

lemma append_line_ok:
  assumes w: "writer_holds codec mx fs ws cs (Some c)" and os: "ws_open ws = Some os"
    and e: "chain codec mx (ws_next_seq ws) (ws_previous_event_hash ws) [l] [e]"
    and size: "length (file_of (ch_lines c @ [l])) < 2 ^ 63"
  shows "\<exists>fs'. append_line (segment_filename (os_first_seq os)) l fs = (Inr (), fs')
    \<and> writer_holds codec mx fs'
        (ws\<lparr>ws_open := Some (os\<lparr>os_event_count := os_event_count os + 1\<rparr>), ws_next_seq := ws_next_seq ws + 1,
            ws_previous_event_hash := Some (event_hash codec l)\<rparr>)
        cs (Some (c\<lparr>ch_lines := ch_lines c @ [l], ch_events := ch_events c @ [e]\<rparr>))"
proof -
  obtain segs ms where fs: "files_ok fs" and l: "list_segments fs = Inr segs" "list_manifests fs = Inr ms"
    and ms: "fst ` set ms = ch_first ` set cs" and segs: "map ch_first (cs @ [c]) = map fst segs"
    and linked: "linked codec 1 None (cs @ [c])"
    and ok: "\<forall>d\<in>set (cs @ [c]). chunk_ok codec mx fs d \<and> unat (ch_first d) < 10 ^ 12"
    and closed: "\<forall>d\<in>set cs. has_manifest codec fs d \<and> ch_lines d \<noteq> []"
    by (rule writer_chunks [OF w, unfolded open_list_simps])
  define c' where "c' = c\<lparr>ch_lines := ch_lines c @ [l], ch_events := ch_events c @ [e]\<rparr>"
  have okc: "chunk_ok codec mx fs c" using ok by simp
  then have chc: "chain codec mx (ch_first c) (ch_prev c) (ch_lines c) (ch_events c)"
    and content: "file_content (sf_events fs) (segment_filename (ch_first c)) = Some (file_of (ch_lines c))"
    by (simp_all add: chunk_ok_def)
  have at: "ws_next_seq ws = ch_next c" "ws_previous_event_hash ws = ch_hash codec c"
    using w by (simp_all add: writer_holds_def)
  have less: "ch_first d < ch_first c" if "d \<in> set cs" for d
    using linked_firsts [OF fs, of codec 1 None cs mx d] linked ok closed that
    by (simp add: linked_append list_all_iff)
  have os': "os_first_seq os = ch_first c" "os_event_count os = of_nat (length (ch_lines c))"
    using w os by (simp_all add: writer_holds_def writer_open_def)
  have ch': "chain codec mx (ch_first c') (ch_prev c') (ch_lines c') (ch_events c')"
    using chc e at chain_append [OF chain_length [OF chc]] by (simp add: c'_def ch_next_def ch_hash_def)
  define fs' where "fs' = fs\<lparr>sf_events := dir_put (sf_events fs) (segment_filename (ch_first c)) (file_of (ch_lines c'))\<rparr>"
  define ws' where "ws' = ws\<lparr>ws_open := Some (os\<lparr>os_event_count := os_event_count os + 1\<rparr>), ws_next_seq := ws_next_seq ws + 1,
            ws_previous_event_hash := Some (event_hash codec l)\<rparr>"
  have "append_line (segment_filename (os_first_seq os)) l fs = (Inr (), fs')"
    using content os' by (simp add: append_line_def read_file_def sbind_def reading_def put_segment_def fs'_def c'_def file_of_def)
  moreover have "writer_holds codec mx fs' ws' cs (Some c')"
  proof (rule writer_holdsI)
    show "files_ok fs'" using fs size by (auto simp: fs'_def files_ok_def dir_put_distinct c'_def)
    show "list_segments fs' = Inr segs"
      using l(1) list_replace [OF content] fs by (simp add: list_segments_def fs'_def files_ok_def)
    show "list_manifests fs' = Inr ms" using l(2) by (simp add: fs'_def list_manifests_def)
    show "fst ` set ms = ch_first ` set cs" by (rule ms)
    show "map ch_first (cs @ open_list (Some c')) = map fst segs" using segs by (simp add: c'_def)
    show "linked codec 1 None (cs @ open_list (Some c'))" using linked by (simp add: linked_append c'_def)
    show "chunk_ok codec mx fs' d" if "d \<in> set (cs @ open_list (Some c'))" for d
    proof (cases "d = c'")
      case True
      then show ?thesis using ch' by (simp add: chunk_ok_def fs'_def) (simp add: c'_def)
    next
      case False
      then have "d \<in> set cs" using that by simp
      then show ?thesis using bspec [OF ok, of d] less [of d]
        by (simp add: chunk_ok_def fs'_def segment_filename_inj) (metis less_irrefl)
    qed
    show "has_manifest codec fs' d" if "d \<in> set cs" for d
      using bspec [OF closed that] less [OF that] has_manifest_cong [of fs' d fs codec]
      by (simp add: fs'_def segment_filename_inj) (metis less_irrefl)
    show "ch_first d \<notin> ch_first ` set cs" if "Some c' = Some d" for d
      using that less by (auto simp: c'_def) (metis less_irrefl)
    show "ws_closed ws' = map (chunk_manifest codec) cs" using w by (simp add: writer_holds_def ws'_def)
    show "case Some c' of None \<Rightarrow> ws_open ws' = None
        | Some c \<Rightarrow> (\<exists>os'. ws_open ws' = Some os' \<and> writer_open c os')"
      using os' by (simp add: ws'_def c'_def writer_open_def)
    show "ws_next_seq ws' = end_seq 1 (cs @ open_list (Some c'))"
      using at by (simp add: ws'_def c'_def ch_next_def)
    show "ws_previous_event_hash ws' = end_hash codec None (cs @ open_list (Some c'))"
      by (simp add: ws'_def c'_def ch_hash_def)
  qed
  ultimately show ?thesis unfolding ws'_def c'_def by blast
qed

lemma write_prepared_ok:
  assumes w: "writer_holds codec (cfg_max_event_bytes cfg) fs ws cs oc" and k: "unat (ws_next_seq ws) < 10 ^ 12"
    and e: "chain codec (cfg_max_event_bytes cfg) (ws_next_seq ws) (ws_previous_event_hash ws) [pe_line p] [pe_envelope p]"
    and h: "pe_hash p = event_hash codec (pe_line p)"
    and size: "length (file_of (all_lines (cs @ open_list oc) @ [pe_line p])) < 2 ^ 63"
    and laws: "manifests_roundtrip codec" "hashes_are_hex codec"
  shows "\<exists>ws' fs' cs' oc'. write_prepared codec cfg p (ws, records) fs =
      (Inr (ws', records @ [\<lparr>er_envelope = pe_envelope p, er_event_hash = pe_hash p\<rparr>]), fs')
    \<and> writer_holds codec (cfg_max_event_bytes cfg) fs' ws' cs' oc'
    \<and> all_lines (cs' @ open_list oc') = all_lines (cs @ open_list oc) @ [pe_line p]
    \<and> (\<forall>c. oc' = Some c \<longrightarrow> ch_lines c \<noteq> [])"
proof -
  obtain os fs1 c where o: "ensure_open_segment ws fs = (Inr os, fs1)"
    and w1: "writer_holds codec (cfg_max_event_bytes cfg) fs1 (ws\<lparr>ws_open := Some os\<rparr>) cs (Some c)"
    and lines: "all_lines (cs @ [c]) = all_lines (cs @ open_list oc)"
    using ensure_open_ok [OF w k] by blast
  have "length (file_of (ch_lines c @ [pe_line p])) < 2 ^ 63"
    using size unfolding lines [symmetric] by simp
  then obtain fs2 where a: "append_line (segment_filename (os_first_seq os)) (pe_line p) fs1 = (Inr (), fs2)"
    and w2: "writer_holds codec (cfg_max_event_bytes cfg) fs2
        (ws\<lparr>ws_open := Some (os\<lparr>os_event_count := os_event_count os + 1\<rparr>), ws_next_seq := ws_next_seq ws + 1,
            ws_previous_event_hash := Some (pe_hash p)\<rparr>)
        cs (Some (c\<lparr>ch_lines := ch_lines c @ [pe_line p], ch_events := ch_events c @ [pe_envelope p]\<rparr>))"
    using append_line_ok [OF w1, of os "pe_line p" "pe_envelope p"] e by (auto simp: h)
  define ws1 where "ws1 = ws\<lparr>ws_open := Some (os\<lparr>os_event_count := os_event_count os + 1\<rparr>), ws_next_seq := ws_next_seq ws + 1,
            ws_previous_event_hash := Some (pe_hash p)\<rparr>"
  define c' where "c' = c\<lparr>ch_lines := ch_lines c @ [pe_line p], ch_events := ch_events c @ [pe_envelope p]\<rparr>"
  have lines': "all_lines (cs @ [c']) = all_lines (cs @ open_list oc) @ [pe_line p]"
    using lines by (simp add: c'_def)
  have add: "checked_add (ws_next_seq ws) 1 = Some (ws_next_seq ws + 1)" using k by (simp add: checked_add_def)
  have run: "write_prepared codec cfg p (ws, records) fs =
     (if os_event_count os + 1 = cfg_rollover_events cfg then
        sbind (close_open_segment codec cfg ws1) (\<lambda>ws2. pure_op (Inr (ws2,
          records @ [\<lparr>er_envelope = pe_envelope p, er_event_hash = pe_hash p\<rparr>]))) fs2
      else (Inr (ws1, records @ [\<lparr>er_envelope = pe_envelope p, er_event_hash = pe_hash p\<rparr>]), fs2))"
    using o a add by (simp add: write_prepared_def Let_def ws1_def)
  show ?thesis
  proof (cases "os_event_count os + 1 = cfg_rollover_events cfg")
    case True
    have "ch_lines c' \<noteq> []" by (simp add: c'_def)
    from close_open_segment_ok [OF w2 [folded ws1_def c'_def] this laws]
    obtain ws' fs' where "close_open_segment codec cfg ws1 fs2 = (Inr ws', fs')"
      "writer_holds codec (cfg_max_event_bytes cfg) fs' ws' (cs @ [c']) None" by blast
    with run True lines' show ?thesis
      by (intro exI [of _ ws'] exI [of _ fs'] exI [of _ "cs @ [c']"] exI [of _ None]) simp
  next
    case False
    with run w2 lines' show ?thesis
      by (intro exI [of _ ws1] exI [of _ fs2] exI [of _ cs] exI [of _ "Some c'"])
        (simp add: ws1_def c'_def)
  qed
qed

definition written :: "prepared_event \<Rightarrow> event_record" where
  "written p = \<lparr>er_envelope = pe_envelope p, er_event_hash = pe_hash p\<rparr>"

lemma write_all_ok:
  assumes "writer_holds codec (cfg_max_event_bytes cfg) fs ws cs oc"
    and "unat (ws_next_seq ws) + length ps \<le> 10 ^ 12"
    and "chain codec (cfg_max_event_bytes cfg) (ws_next_seq ws) (ws_previous_event_hash ws) (map pe_line ps) (map pe_envelope ps)"
    and "\<forall>p\<in>set ps. pe_hash p = event_hash codec (pe_line p)"
    and "length (file_of (all_lines (cs @ open_list oc) @ map pe_line ps)) < 2 ^ 63"
    and laws: "manifests_roundtrip codec" "hashes_are_hex codec"
  shows "\<exists>ws' fs' cs' oc'. sfold (write_prepared codec cfg) ps (ws, records) fs = (Inr (ws', records @ map written ps), fs')
    \<and> writer_holds codec (cfg_max_event_bytes cfg) fs' ws' cs' oc'
    \<and> all_lines (cs' @ open_list oc') = all_lines (cs @ open_list oc) @ map pe_line ps
    \<and> (ps \<noteq> [] \<longrightarrow> (\<forall>c. oc' = Some c \<longrightarrow> ch_lines c \<noteq> []))"
  using assms(1-5)
proof (induction ps arbitrary: fs ws cs oc records)
  case Nil
  then show ?case by auto
next
  case (Cons p ps)
  have k: "unat (ws_next_seq ws) < 10 ^ 12" using Cons.prems(2) by simp
  have e: "chain codec (cfg_max_event_bytes cfg) (ws_next_seq ws) (ws_previous_event_hash ws) [pe_line p] [pe_envelope p]"
    and rest: "chain codec (cfg_max_event_bytes cfg) (ws_next_seq ws + 1) (Some (event_hash codec (pe_line p)))
      (map pe_line ps) (map pe_envelope ps)"
    using Cons.prems(3) by simp_all
  have size: "length (file_of (all_lines (cs @ open_list oc) @ [pe_line p])) < 2 ^ 63"
    using Cons.prems(5) file_of_append [of "all_lines (cs @ open_list oc) @ [pe_line p]" "map pe_line ps"] by simp
  from write_prepared_ok [OF Cons.prems(1) k e _ size laws, of records] Cons.prems(4)
  obtain ws' fs' cs' oc' where s: "write_prepared codec cfg p (ws, records) fs = (Inr (ws', records @ [written p]), fs')"
    and w': "writer_holds codec (cfg_max_event_bytes cfg) fs' ws' cs' oc'"
    and lines: "all_lines (cs' @ open_list oc') = all_lines (cs @ open_list oc) @ [pe_line p]"
    and ne: "\<forall>c. oc' = Some c \<longrightarrow> ch_lines c \<noteq> []"
    unfolding written_def by auto
  have at: "unat (ws_next_seq ws') = unat (ws_next_seq ws) + 1"
    "ws_previous_event_hash ws' = Some (event_hash codec (pe_line p))"
    using writer_end(1,2) [OF Cons.prems(1)] writer_end(1,2) [OF w', unfolded lines] by simp_all
  have at1: "ws_next_seq ws' = ws_next_seq ws + 1"
    using at(1) k by (simp add: unat_eq_iff_eq unat_word_ariths)
  have "\<exists>ws2 fs2 cs2 oc2. sfold (write_prepared codec cfg) ps (ws', records @ [written p]) fs' =
      (Inr (ws2, (records @ [written p]) @ map written ps), fs2)
    \<and> writer_holds codec (cfg_max_event_bytes cfg) fs2 ws2 cs2 oc2
    \<and> all_lines (cs2 @ open_list oc2) = all_lines (cs' @ open_list oc') @ map pe_line ps
    \<and> (ps \<noteq> [] \<longrightarrow> (\<forall>c. oc2 = Some c \<longrightarrow> ch_lines c \<noteq> []))"
  proof (intro Cons.IH [OF w'])
    show "unat (ws_next_seq ws') + length ps \<le> 10 ^ 12" using Cons.prems(2) unfolding at(1) by simp
    show "chain codec (cfg_max_event_bytes cfg) (ws_next_seq ws') (ws_previous_event_hash ws') (map pe_line ps) (map pe_envelope ps)"
      using rest unfolding at1 at(2) .
    show "length (file_of (all_lines (cs' @ open_list oc') @ map pe_line ps)) < 2 ^ 63"
      using Cons.prems(5) unfolding lines by simp
  qed (use Cons.prems(4) in simp)
  moreover have "ps = [] \<Longrightarrow> ?case"
    using s w' lines ne by (intro exI [of _ ws'] exI [of _ fs'] exI [of _ cs'] exI [of _ oc']) simp
  ultimately show ?case using s lines by (cases "ps = []") (simp_all del: all_lines_simps)
qed

section \<open>Preparing events\<close>

definition ulids_ok :: "event_codec \<Rightarrow> surroundings \<Rightarrow> bool" where
  "ulids_ok codec env \<longleftrightarrow> (\<forall>n. ulid_ok codec (to_ascii_lowercase (new_ulid env n)))"

text \<open>Serialising the prepared events: on one line, and parsed back to the event.\<close>

definition lines_roundtrip :: "event_codec \<Rightarrow> prepared_event list \<Rightarrow> bool" where
  "lines_roundtrip codec ps \<longleftrightarrow>
     (\<forall>p\<in>set ps. NL \<notin> set (pe_line p) \<and> envelope_from_slice codec (pe_line p) = Inr (pe_envelope p))"

lemma to_lower_char_twice [simp]: "to_lower_char (to_lower_char c) = to_lower_char c"
proof (cases "is_ascii_upper c")
  case True
  then have "65 \<le> (of_char c :: nat) \<and> of_char c \<le> (90 :: nat)"
    by (simp add: is_ascii_upper_def less_eq_char_def)
  then have "\<not> is_ascii_upper (char_of (of_char c + 32 :: nat))"
    by (simp add: is_ascii_upper_def less_eq_char_def)
  then show ?thesis using True by (simp add: to_lower_char_def)
qed (simp add: to_lower_char_def)

lemma new_event_id_ok:
  "ulids_ok codec env \<Longrightarrow>
     is_prefixed_lowercase_ulid (ulid_ok codec) (new_prefixed_ulid ''evt_'' (new_ulid env n)) ''evt_''"
  by (simp add: is_prefixed_lowercase_ulid_def new_prefixed_ulid_def ulids_ok_def to_ascii_lowercase_def comp_def)

lemma prepared_chain:
  assumes "prepare_events codec cfg env rs seq prev = Inr ps" and "config_validate cfg = Inr ()"
    and "\<forall>r\<in>set rs. validate_request r = Inr ()" and "ulids_ok codec env" and "lines_roundtrip codec ps"
  shows "chain codec (cfg_max_event_bytes cfg) seq prev (map pe_line ps) (map pe_envelope ps)
    \<and> (\<forall>p\<in>set ps. pe_hash p = event_hash codec (pe_line p)) \<and> length ps = length rs"
  using assms(1,3,5)
proof (induction rs arbitrary: seq prev ps)
  case Nil
  then show ?case by simp
next
  case (Cons r rs)
  from Cons.prems(1) obtain now next_seq ps' e where s: "now_utc_ms env seq = Some now"
    "e = \<lparr>en_v = ENVELOPE_VERSION, en_stream_id = STREAM_ID, en_seq = seq,
              en_event_id = new_prefixed_ulid ''evt_'' (new_ulid env seq),
              en_event_type = rq_event_type r, en_time_utc_ms = now, en_actor_id = cfg_actor_id cfg,
              en_host_id = cfg_host_id cfg, en_references = rq_references r,
              en_previous_event_hash = prev, en_payload = rq_payload r\<rparr>"
    "length (envelope_to_vec codec e) \<le> cfg_max_event_bytes cfg" "checked_add seq 1 = Some next_seq"
    "prepare_events codec cfg env rs next_seq (Some (event_hash codec (envelope_to_vec codec e))) = Inr ps'"
    "ps = \<lparr>pe_envelope = e, pe_line = envelope_to_vec codec e, pe_hash = event_hash codec (envelope_to_vec codec e)\<rparr> # ps'"
    unfolding prepare_events.simps Let_def ebind_eq_Inr ensure_eq_Inr ok_or_eq_Inr sum.inject by metis
  have next_seq: "next_seq = seq + 1" using s(4) by (simp add: checked_add_def split: if_splits)
  have cfg: "cfg_actor_id cfg \<noteq> []" "cfg_host_id cfg \<noteq> []"
    using assms(2) unfolding config_validate_def ebind_eq_Inr ensure_eq_Inr by blast+
  have r: "rq_event_type r \<noteq> []" "json_is_object (rq_payload r)"
    using Cons.prems(2) unfolding validate_request_def by (auto simp: ensure_def split: if_splits)
  have ok: "event_ok codec e seq prev"
    using cfg r new_event_id_ok [OF assms(4)] by (simp add: event_ok_def s(2))
  have rt: "NL \<notin> set (envelope_to_vec codec e)" "envelope_from_slice codec (envelope_to_vec codec e) = Inr e"
    "lines_roundtrip codec ps'" using Cons.prems(3) by (simp_all add: lines_roundtrip_def s(6))
  have "chain codec (cfg_max_event_bytes cfg) next_seq (Some (event_hash codec (envelope_to_vec codec e)))
      (map pe_line ps') (map pe_envelope ps')
    \<and> (\<forall>p\<in>set ps'. pe_hash p = event_hash codec (pe_line p)) \<and> length ps' = length rs"
    using Cons.prems(2) rt(3) by (intro Cons.IH [OF s(5)]) simp_all
  then show ?case using rt ok s(3) next_seq by (simp add: s(6))
qed

end
