(* ===== verification/Event_History.thy ===== *)
theory Event_History
  imports Event_Append
begin

text \<open>
  The event store as an append-only log. From a verified store the writer finds exactly the
  store's chunks, appending a batch extends the stream by the batch's lines and leaves a
  verified store, and after a crash in the middle of a write the recovery keeps every
  complete event.
\<close>

section \<open>Finding the writer's state\<close>

lemma inspect_closed:
  assumes fs: "files_ok fs"
    and "linked codec (ws_next_seq ws) (ws_previous_event_hash ws) cs"
    and "\<forall>c\<in>set cs. chunk_ok codec mx fs c \<and> unat (ch_first c) < 10 ^ 12 \<and> has_manifest codec fs c
          \<and> map_of ms (ch_first c) = Some (manifest_filename (ch_first c))"
  shows "sfold (inspect_segment codec cfg r ms) (map (\<lambda>c. (ch_first c, segment_filename (ch_first c))) cs) ws fs =
    (Inr (ws\<lparr>ws_closed := ws_closed ws @ map (chunk_manifest codec) cs, ws_next_seq := end_seq (ws_next_seq ws) cs,
             ws_previous_event_hash := end_hash codec (ws_previous_event_hash ws) cs\<rparr>), fs)"
  using assms(2-3)
proof (induction cs arbitrary: ws)
  case Nil
  then show ?case by simp
next
  case (Cons c cs)
  have c: "ch_first c = ws_next_seq ws" "ch_prev c = ws_previous_event_hash ws" "chunk_ok codec mx fs c"
    "unat (ch_first c) < 10 ^ 12" "has_manifest codec fs c"
    "map_of ms (ch_first c) = Some (manifest_filename (ch_first c))"
    using Cons.prems by simp_all
  have lines: "ch_lines c \<noteq> []"
    and load: "load_manifest codec fs (ch_first c) (segment_filename (ch_first c)) (manifest_filename (ch_first c)) =
      Inr (chunk_manifest codec c)"
    using c(5) by (simp_all add: has_manifest_def)
  have next_seq: "checked_add (sm_last_seq (chunk_manifest codec c)) 1 = Some (ch_next c)"
    using checked_next [OF c(4), of "length (ch_lines c)"] chunk_length [OF fs c(3)] lines
    by (simp add: chunk_manifest_def ch_next_def)
  have hash: "Some (sm_last_event_hash (chunk_manifest codec c)) = ch_hash codec c"
    using lines by (simp add: chunk_manifest_def ch_hash_def tail_hash_last)
  define ws1 where "ws1 = ws\<lparr>ws_closed := ws_closed ws @ [chunk_manifest codec c], ws_next_seq := ch_next c,
     ws_previous_event_hash := ch_hash codec c\<rparr>"
  have one: "inspect_segment codec cfg r ms (ch_first c, segment_filename (ch_first c)) ws fs = (Inr ws1, fs)"
    using c(1,6) load next_seq hash by (simp add: inspect_segment_def ws1_def)
  have "sfold (inspect_segment codec cfg r ms) (map (\<lambda>c. (ch_first c, segment_filename (ch_first c))) cs) ws1 fs =
    (Inr (ws1\<lparr>ws_closed := ws_closed ws1 @ map (chunk_manifest codec) cs, ws_next_seq := end_seq (ws_next_seq ws1) cs,
             ws_previous_event_hash := end_hash codec (ws_previous_event_hash ws1) cs\<rparr>), fs)"
    using Cons.prems by (intro Cons.IH) (simp_all add: ws1_def)
  then show ?case using one by (simp add: ws1_def)
qed

lemma recover_lines_chain:
  "chain codec mx seq prev ls es \<Longrightarrow>
     recover_lines codec path mx (map (\<lambda>l. l @ [NL]) ls @ rest) n seq prev start =
     recover_lines codec path mx rest (n + of_nat (length ls)) (seq + of_nat (length ls)) (tail_hash codec prev ls)
       (start + length (file_of ls))"
proof (induction ls arbitrary: n seq prev start es)
  case (Cons l ls)
  then obtain e es' where es: "es = e # es'" "length l \<le> mx" "envelope_from_slice codec l = Inr e"
    "event_ok codec e seq prev" "chain codec mx (seq + 1) (Some (event_hash codec l)) ls es'"
    by (auto split: list.splits)
  have v: "validate_event codec path m e seq prev = Inr ()" for m
    using es(4) by (simp add: validate_event_iff)
  show ?case
    using es(2,3) v Cons.IH [OF es(5), of "n + 1" "start + length l + 1"]
    by (simp add: Let_def parse_event_line_def algebra_simps)
qed (simp add: file_of_def)

lemma raw_lines_of_file:
  "list_all (\<lambda>l. NL \<notin> set l) ls \<Longrightarrow> raw_lines (file_of ls) = map (\<lambda>l. l @ [NL]) ls"
  using raw_lines_file [of ls "[]"] by (simp add: raw_lines.simps)

text \<open>A segment of complete events is not changed by the recovery.\<close>

lemma recover_complete:
  assumes fs: "files_ok fs" and c: "chunk_ok codec (cfg_max_event_bytes cfg) fs c"
  shows "recover_open_tail codec cfg (segment_filename (ch_first c)) (ch_first c) (ch_prev c) fs = (Inr (), fs)"
proof -
  have ch: "chain codec (cfg_max_event_bytes cfg) (ch_first c) (ch_prev c) (ch_lines c) (ch_events c)"
    and content: "file_content (sf_events fs) (segment_filename (ch_first c)) = Some (file_of (ch_lines c))"
    using c by (simp_all add: chunk_ok_def)
  have "recover_lines codec path (cfg_max_event_bytes cfg) (raw_lines (file_of (ch_lines c))) 0 (ch_first c) (ch_prev c) 0 =
      Inr KeepTail" for path
    using recover_lines_chain [OF ch, of path "[]"] raw_lines_of_file [OF chain_no_newline [OF ch]] by simp
  moreover have "dir_put (sf_events fs) (segment_filename (ch_first c)) (file_of (ch_lines c)) = sf_events fs"
    using fs by (intro dir_put_same [OF content]) (simp add: files_ok_def)
  ultimately show ?thesis
    using content by (simp add: recover_open_tail_def read_file_def put_segment_def)
qed

lemma inspect_open:
  assumes fs: "files_ok fs" and c: "chunk_ok codec (cfg_max_event_bytes cfg) fs c" and k: "unat (ch_first c) < 10 ^ 12"
    and at: "ch_first c = ws_next_seq ws" "ch_prev c = ws_previous_event_hash ws" "map_of ms (ch_first c) = None"
  shows "inspect_segment codec cfg r ms (ch_first c, segment_filename (ch_first c)) ws fs =
    (Inr (ws\<lparr>ws_open := Some \<lparr>os_first_seq = ch_first c, os_event_count = of_nat (length (ch_lines c)),
                              os_newly_created = False\<rparr>,
            ws_next_seq := ch_next c, ws_previous_event_hash := ch_hash codec c\<rparr>), fs)"
proof -
  have scan: "scan_named codec cfg fs (segment_filename (ch_first c)) (ch_first c) (ch_prev c) True = Inr (chunk_scan codec c)"
    using c unfolding scan_named_iff [OF fs] by blast
  have "sc_event_count (chunk_scan codec c) = of_nat (length (ch_lines c))"
    "sc_last_seq (chunk_scan codec c) = (if ch_lines c = [] then None else Some (ch_next c - 1))"
    "sc_last_event_hash (chunk_scan codec c) = (if ch_lines c = [] then None else ch_hash codec c)"
    "ch_lines c = [] \<Longrightarrow> ch_next c = ch_first c \<and> ch_hash codec c = ch_prev c"
    by (simp_all add: chunk_scan_def scan_of_def ch_next_def ch_hash_def)
  moreover have "ch_lines c \<noteq> [] \<Longrightarrow> \<exists>h. ch_hash codec c = Some h" by (simp add: ch_hash_def tail_hash_last)
  ultimately show ?thesis
    using scan at recover_complete [OF fs c]
    by (cases "ch_lines c = []"; cases r) (auto simp: inspect_segment_def)
qed

lemma sfold_append: "sfold f (xs @ ys) s = sbind (sfold f xs s) (sfold f ys)"
proof (induction xs arbitrary: s)
  case Nil
  then show ?case by (simp add: fun_eq_iff)
next
  case (Cons x xs)
  show ?case
  proof
    fix fs
    show "sfold f ((x # xs) @ ys) s fs = sbind (sfold f (x # xs) s) (sfold f ys) fs"
      by (cases "fst (f x s fs)"; cases "f x s fs") (auto simp: sbind_def Cons.IH)
  qed
qed

lemma listed_segments:
  assumes "store_holds codec mx fs segs ms cs"
  shows "segs = map (\<lambda>c. (ch_first c, segment_filename (ch_first c))) cs"
proof -
  have "map fst segs = map ch_first cs" "\<forall>(k, n)\<in>set segs. n = segment_filename k"
    using assms list_segments_named [of fs segs] by (auto simp: store_holds_def)
  then show ?thesis
  proof (induction segs arbitrary: cs)
    case (Cons seg segs)
    then show ?case by (cases cs) auto
  qed simp
qed

text \<open>The chunks of a verified store, split into those with a manifest and the open one.\<close>

lemma store_split:
  assumes "store_holds codec mx fs segs ms cs0"
  obtains cs oc where "cs0 = cs @ open_list oc"
    "\<forall>c\<in>set cs. map_of ms (ch_first c) = Some (manifest_filename (ch_first c))"
    "\<forall>c\<in>set (open_list oc). map_of ms (ch_first c) = None"
    "fst ` set ms = ch_first ` set cs"
proof -
  have named: "n = manifest_filename k" if "map_of ms k = Some n" for k n
    using map_of_SomeD [OF that] list_manifests_named [of fs ms] assms by (auto simp: store_holds_def)
  have sub: "fst ` set ms \<subseteq> ch_first ` set cs0"
    using assms unfolding store_holds_def by (metis image_set)
  have closed: "\<forall>c\<in>set (butlast cs0). map_of ms (ch_first c) \<noteq> None"
    using assms by (simp add: store_holds_def store_chunks_def)
  define cs where "cs = (if cs0 \<noteq> [] \<and> map_of ms (ch_first (last cs0)) = None then butlast cs0 else cs0)"
  define oc where "oc = (if cs0 \<noteq> [] \<and> map_of ms (ch_first (last cs0)) = None then Some (last cs0) else None)"
  have split: "cs0 = cs @ open_list oc" by (simp add: cs_def oc_def)
  have c: "\<forall>c\<in>set cs. map_of ms (ch_first c) \<noteq> None"
  proof (cases "cs0 \<noteq> [] \<and> map_of ms (ch_first (last cs0)) = None")
    case False
    have "c \<in> set (butlast cs0) \<or> c = last cs0" if "c \<in> set cs0" for c
      using that by (metis append_butlast_last_id in_set_conv_decomp_last in_set_butlast_appendI insert_iff
          last_in_set list.set(1,2) set_append Un_iff empty_iff empty_set)
    then show ?thesis using False closed by (auto simp: cs_def)
  qed (use closed in \<open>simp add: cs_def\<close>)
  have o: "\<forall>c\<in>set (open_list oc). map_of ms (ch_first c) = None" by (simp add: oc_def)
  have "fst ` set ms \<subseteq> ch_first ` set cs"
  proof
    fix k assume k: "k \<in> fst ` set ms"
    then obtain c where c0: "c \<in> set cs0" "k = ch_first c" using sub by blast
    have "map_of ms k \<noteq> None" using k by (simp add: map_of_eq_None_iff)
    then have "c \<notin> set (open_list oc)" using o c0 by auto
    then show "k \<in> ch_first ` set cs" using c0 split by auto
  qed
  moreover have "ch_first ` set cs \<subseteq> fst ` set ms" using c by (auto simp: map_of_eq_None_iff)
  ultimately have keys: "fst ` set ms = ch_first ` set cs" by blast
  have "\<forall>c\<in>set cs. map_of ms (ch_first c) = Some (manifest_filename (ch_first c))"
    using c named by fastforce
  then show ?thesis by (rule that [OF split _ o keys])
qed

lemma check_unmanifested_ok:
  assumes "\<forall>c\<in>set cs. map_of ms (ch_first c) \<noteq> None" "\<forall>c\<in>set (open_list oc). map_of ms (ch_first c) = None"
  shows "check_unmanifested (map (\<lambda>c. (ch_first c, segment_filename (ch_first c))) (cs @ open_list oc)) ms = Inr ()"
proof -
  have "\<forall>n\<in>set (map ch_first cs). n \<in> fst ` set ms"
    using assms(1) by (simp add: map_of_eq_None_iff)
  then have "filter (\<lambda>n. n \<notin> fst ` set ms) (map ch_first cs) = []"
    by (simp only: filter_empty_conv not_not)
  moreover have "\<forall>n\<in>set (map ch_first (open_list oc)). n \<notin> fst ` set ms"
    using assms(2) by (simp add: map_of_eq_None_iff)
  then have "filter (\<lambda>n. n \<notin> fst ` set ms) (map ch_first (open_list oc)) = map ch_first (open_list oc)"
    by (simp only: filter_id_conv)
  ultimately have "filter (\<lambda>n. n \<notin> fst ` set ms)
      (map fst (map (\<lambda>c. (ch_first c, segment_filename (ch_first c))) (cs @ open_list oc))) = map ch_first (open_list oc)"
    unfolding map_map comp_def fst_conv map_append filter_append by (simp only: append_Nil)
  then show ?thesis unfolding check_unmanifested_def Let_def
    by (cases oc) (simp_all only: open_list_simps list.map list.size list.case ensure_eq_Inr ebind_ensure, simp_all)
qed

lemma inspect_verified:
  assumes fs: "files_ok fs" and v: "verify_segments codec cfg fs = Inr vt"
  shows "\<exists>ws cs oc. inspect_writer_state codec cfg r fs = (Inr ws, fs)
    \<and> writer_holds codec (cfg_max_event_bytes cfg) fs ws cs oc"
proof -
  obtain segs ms cs0 where s: "store_holds codec (cfg_max_event_bytes cfg) fs segs ms cs0"
    using v unfolding verify_segments_iff [OF fs] by blast
  obtain cs oc where split: "cs0 = cs @ open_list oc"
    and closed: "\<forall>c\<in>set cs. map_of ms (ch_first c) = Some (manifest_filename (ch_first c))"
    and opened: "\<forall>c\<in>set (open_list oc). map_of ms (ch_first c) = None"
    and keys: "fst ` set ms = ch_first ` set cs"
    by (rule store_split [OF s])
  have l: "list_segments fs = Inr segs" "list_manifests fs = Inr ms" "fst ` set ms \<subseteq> fst ` set segs"
    and linked: "linked codec 1 None (cs @ open_list oc)"
    and ok: "\<forall>c\<in>set (cs @ open_list oc). chunk_ok codec (cfg_max_event_bytes cfg) fs c"
    and man: "\<forall>c\<in>set cs. has_manifest codec fs c"
    using s closed unfolding store_holds_def store_chunks_def split by (auto simp: list_all_iff)
  have k12: "\<forall>c\<in>set (cs @ open_list oc). unat (ch_first c) < 10 ^ 12" using store_firsts [OF s] split by simp
  note segs = listed_segments [OF s, unfolded split]
  define ws1 where "ws1 = empty_writer_state\<lparr>ws_closed := map (chunk_manifest codec) cs, ws_next_seq := end_seq 1 cs,
     ws_previous_event_hash := end_hash codec None cs\<rparr>"
  have closed_run: "sfold (inspect_segment codec cfg r ms) (map (\<lambda>c. (ch_first c, segment_filename (ch_first c))) cs)
      empty_writer_state fs = (Inr ws1, fs)"
    using inspect_closed [OF fs, of codec empty_writer_state cs "cfg_max_event_bytes cfg" ms cfg r] linked ok k12 man closed
    by (simp add: empty_writer_state_def ws1_def linked_append)
  have "\<exists>ws. sfold (inspect_segment codec cfg r ms) segs empty_writer_state fs = (Inr ws, fs)
      \<and> ws_closed ws = map (chunk_manifest codec) cs
      \<and> (case oc of None \<Rightarrow> ws_open ws = None | Some c \<Rightarrow> (\<exists>os. ws_open ws = Some os \<and> writer_open c os))
      \<and> ws_next_seq ws = end_seq 1 (cs @ open_list oc)
      \<and> ws_previous_event_hash ws = end_hash codec None (cs @ open_list oc)"
  proof (cases oc)
    case None
    then show ?thesis using closed_run segs by (intro exI [of _ ws1]) (simp add: ws1_def empty_writer_state_def)
  next
    case (Some c)
    have "inspect_segment codec cfg r ms (ch_first c, segment_filename (ch_first c)) ws1 fs =
      (Inr (ws1\<lparr>ws_open := Some \<lparr>os_first_seq = ch_first c, os_event_count = of_nat (length (ch_lines c)),
                              os_newly_created = False\<rparr>,
            ws_next_seq := ch_next c, ws_previous_event_hash := ch_hash codec c\<rparr>), fs)"
      using ok k12 opened linked Some by (intro inspect_open [OF fs]) (simp_all add: ws1_def linked_append)
    with Some closed_run segs show ?thesis
      by (simp add: sfold_append writer_open_def ws1_def)
  qed
  then obtain ws where ws: "sfold (inspect_segment codec cfg r ms) segs empty_writer_state fs = (Inr ws, fs)"
    "ws_closed ws = map (chunk_manifest codec) cs"
    "case oc of None \<Rightarrow> ws_open ws = None | Some c \<Rightarrow> (\<exists>os. ws_open ws = Some os \<and> writer_open c os)"
    "ws_next_seq ws = end_seq 1 (cs @ open_list oc)"
    "ws_previous_event_hash ws = end_hash codec None (cs @ open_list oc)" by blast
  have "check_unmanifested segs ms = Inr ()"
    using check_unmanifested_ok [of cs ms oc] closed opened unfolding segs by simp
  moreover have "manifests_have_segments segs ms = Inr ()" using l(3) by (simp add: manifests_have_segments_iff)
  ultimately have "inspect_writer_state codec cfg r fs = (Inr ws, fs)"
    using l(1,2) ws(1) by (simp add: inspect_writer_state_def)
  moreover have "writer_holds codec (cfg_max_event_bytes cfg) fs ws cs oc"
    using fs s keys ws(2-5) unfolding writer_holds_def split by blast
  ultimately show ?thesis by blast
qed

end
