(* ===== verification/Event_Log.thy ===== *)
theory Event_Log
  imports Event_History Append_Only
begin

text \<open>
  The event store as an append-only log: appending a batch to a verified store extends the
  stream by the lines of the batch and leaves a verified store, and the recovery of a torn
  write keeps every complete event and nothing else.
\<close>

section \<open>Appending extends the history\<close>

lemma verified_writer:
  assumes "writer_holds codec (cfg_max_event_bytes cfg) fs ws cs oc"
  shows "\<exists>v. verify_locked codec cfg False fs = Inr v
    \<and> unat (vr_last_seq (vd_report v)) = length (all_lines (cs @ open_list oc))
    \<and> vr_last_event_hash (vd_report v) = tail_hash codec None (all_lines (cs @ open_list oc))"
proof -
  from assms obtain segs ms where s: "store_holds codec (cfg_max_event_bytes cfg) fs segs ms (cs @ open_list oc)"
    and fs: "files_ok fs" and n: "ws_next_seq ws = end_seq 1 (cs @ open_list oc)"
    and h: "ws_previous_event_hash ws = end_hash codec None (cs @ open_list oc)"
    unfolding writer_holds_def by (elim conjE exE)
  define vt where "vt = fold (after_chunk codec ms) (cs @ open_list oc) verify_start"
  have "verify_segments codec cfg fs = Inr vt" unfolding verify_segments_iff [OF fs] vt_def using s by blast
  then have v: "verify_locked codec cfg False fs = Inr \<lparr>vd_report =
       \<lparr>vr_stream_id = STREAM_ID, vr_last_seq = saturating_sub (vt_expected_first_seq vt) 1,
        vr_last_event_hash = vt_previous_hash vt, vr_segments = vt_segments vt, vr_checkpoints = []\<rparr>,
       vd_checkpoint_events = vt_checkpoint_events vt\<rparr>"
    by (simp add: verify_locked_def Let_def)
  have "vt_expected_first_seq vt = ws_next_seq ws" "vt_previous_hash vt = ws_previous_event_hash ws"
    unfolding vt_def fold_after_chunk n h by (simp_all add: verify_start_def)
  then show ?thesis unfolding v using writer_end(1,2) [OF assms] by (simp add: unat_saturating_sub)
qed

lemma close_if_full_ok:
  assumes w: "writer_holds codec (cfg_max_event_bytes cfg) fs ws cs oc" and cfg: "cfg_rollover_events cfg \<noteq> 0"
    and laws: "manifests_roundtrip codec" "hashes_are_hex codec"
  shows "\<exists>ws' fs' cs' oc'. close_if_full codec cfg ws fs = (Inr ws', fs')
    \<and> writer_holds codec (cfg_max_event_bytes cfg) fs' ws' cs' oc'
    \<and> all_lines (cs' @ open_list oc') = all_lines (cs @ open_list oc)"
proof (cases oc)
  case None
  with w have "ws_open ws = None" by (simp add: writer_holds_def)
  then have "close_if_full codec cfg ws fs = (Inr ws, fs)" by (simp add: close_if_full_def)
  then show ?thesis using w by blast
next
  case (Some c)
  with w obtain os where os: "ws_open ws = Some os" "os_event_count os = of_nat (length (ch_lines c))"
    by (auto simp: writer_holds_def writer_open_def)
  show ?thesis
  proof (cases "cfg_rollover_events cfg \<le> os_event_count os")
    case True
    then have "os_event_count os \<noteq> 0" using cfg by (metis word_gt_0 word_le_0_iff)
    then have "ch_lines c \<noteq> []" using os(2) by auto
    from close_open_segment_ok [OF w [unfolded Some] this laws]
    obtain ws' fs' where "close_open_segment codec cfg ws fs = (Inr ws', fs')"
      "writer_holds codec (cfg_max_event_bytes cfg) fs' ws' (cs @ [c]) None" by blast
    moreover have "close_if_full codec cfg ws fs = close_open_segment codec cfg ws fs"
      using os True by (simp add: close_if_full_def)
    moreover have "all_lines ((cs @ [c]) @ open_list None) = all_lines (cs @ open_list oc)" using Some by simp
    ultimately show ?thesis
      by (intro exI [of _ ws'] exI [of _ fs'] exI [of _ "cs @ [c]"] exI [of _ None]) simp
  next
    case False
    then have "close_if_full codec cfg ws fs = (Inr ws, fs)" using os by (simp add: close_if_full_def)
    then show ?thesis using w by blast
  qed
qed

lemma finish_batch_ok:
  assumes w: "writer_holds codec (cfg_max_event_bytes cfg) fs ws cs oc"
    and ne: "\<forall>c. oc = Some c \<longrightarrow> ch_lines c \<noteq> []"
    and laws: "manifests_roundtrip codec" "hashes_are_hex codec"
  shows "\<exists>ws' fs' cs' oc'. (if ws_open ws = None then pure_op (Inr ws)
            else if force_close then close_open_segment codec cfg ws
            else sync_open_segment ws) fs = (Inr ws', fs')
    \<and> writer_holds codec (cfg_max_event_bytes cfg) fs' ws' cs' oc'
    \<and> all_lines (cs' @ open_list oc') = all_lines (cs @ open_list oc)"
proof (cases oc)
  case None
  with w have "ws_open ws = None" by (simp add: writer_holds_def)
  then have "(if ws_open ws = None then pure_op (Inr ws)
            else if force_close then close_open_segment codec cfg ws
            else sync_open_segment ws) fs = (Inr ws, fs)" by simp
  then show ?thesis using w by blast
next
  case (Some c)
  with w obtain os where os: "ws_open ws = Some os" "writer_open c os" by (auto simp: writer_holds_def)
  show ?thesis
  proof (cases force_close)
    case True
    have "ch_lines c \<noteq> []" using ne Some by simp
    from close_open_segment_ok [OF w [unfolded Some] this laws]
    obtain ws' fs' where "close_open_segment codec cfg ws fs = (Inr ws', fs')"
      "writer_holds codec (cfg_max_event_bytes cfg) fs' ws' (cs @ [c]) None" by blast
    moreover have "all_lines ((cs @ [c]) @ open_list None) = all_lines (cs @ open_list oc)" using Some by simp
    ultimately show ?thesis using os True
      by (intro exI [of _ ws'] exI [of _ fs'] exI [of _ "cs @ [c]"] exI [of _ None]) simp
  next
    case False
    define ws' where "ws' = ws\<lparr>ws_open := Some (os\<lparr>os_newly_created := False\<rparr>)\<rparr>"
    obtain segs ms where "files_ok fs" "list_segments fs = Inr segs" "list_manifests fs = Inr ms"
      "fst ` set ms = ch_first ` set cs" "map ch_first (cs @ [c]) = map fst segs"
      "linked codec 1 None (cs @ [c])"
      and ok: "\<forall>d\<in>set (cs @ [c]). chunk_ok codec (cfg_max_event_bytes cfg) fs d \<and> unat (ch_first d) < 10 ^ 12"
      and "\<forall>d\<in>set cs. has_manifest codec fs d \<and> ch_lines d \<noteq> []"
      by (rule writer_chunks [OF w [unfolded Some], unfolded open_list_simps])
    then have "file_content (sf_events fs) (segment_filename (os_first_seq os)) \<noteq> None"
      using os(2) by (auto simp: chunk_ok_def writer_open_def)
    then have "sync_open_segment ws fs = (Inr ws', fs)"
      using os by (auto simp: sync_open_segment_def read_file_def ws'_def)
    moreover have "writer_holds codec (cfg_max_event_bytes cfg) fs ws' cs oc"
      using w os Some by (simp add: writer_holds_def ws'_def writer_open_def)
    ultimately show ?thesis using os False
      by (intro exI [of _ ws'] exI [of _ fs] exI [of _ cs] exI [of _ oc]) simp
  qed
qed

lemma efold_check: "\<forall>x\<in>set xs. f x = Inr () \<Longrightarrow> efold (\<lambda>x _. f x) xs () = Inr ()"
proof (induction xs)
  case (Cons x xs)
  then have "f x = Inr ()" "efold (\<lambda>x _. f x) xs () = Inr ()" by (blast intro: list.set_intros)+
  then show ?case unfolding efold.simps by (simp only: ebind_simps)
qed (simp only: efold.simps)

text \<open>Appending to the state the writer has found, from the preparation to the final synchronisation.\<close>

lemma append_batch_to_state_ok:
  assumes w: "writer_holds codec (cfg_max_event_bytes cfg) fs ws cs oc" and cfg: "config_validate cfg = Inr ()"
    and rs: "rs \<noteq> []" "\<forall>r\<in>set rs. validate_request r = Inr ()"
    and prep: "prepare_events codec cfg env rs (ws_next_seq ws) (ws_previous_event_hash ws) = Inr ps"
    and laws: "manifests_roundtrip codec" "hashes_are_hex codec" "ulids_ok codec env" "lines_roundtrip codec ps"
    and room: "unat (ws_next_seq ws) + length rs \<le> 10 ^ 12"
    and size: "length (file_of (all_lines (cs @ open_list oc) @ map pe_line ps)) < 2 ^ 63"
  shows "length ps = length rs \<and> (\<exists>ws' fs' cs' oc'.
      append_batch_to_state codec cfg env rs force_close ws fs = (Inr (ws', map written ps), fs')
    \<and> writer_holds codec (cfg_max_event_bytes cfg) fs' ws' cs' oc'
    \<and> all_lines (cs' @ open_list oc') = all_lines (cs @ open_list oc) @ map pe_line ps)"
proof -
  note pc = prepared_chain [OF prep cfg rs(2) laws(3,4)]
  have ps: "ps \<noteq> []" "length ps = length rs" using pc rs(1) by auto
  have "unat (ws_next_seq ws) + length ps \<le> 10 ^ 12" using room ps(2) by simp
  then obtain ws2 fs2 cs2 oc2
    where f: "sfold (write_prepared codec cfg) ps (ws, []) fs = (Inr (ws2, [] @ map written ps), fs2)"
    and w2: "writer_holds codec (cfg_max_event_bytes cfg) fs2 ws2 cs2 oc2"
    and lines2: "all_lines (cs2 @ open_list oc2) = all_lines (cs @ open_list oc) @ map pe_line ps"
    and ne: "\<forall>c. oc2 = Some c \<longrightarrow> ch_lines c \<noteq> []"
    using write_all_ok [OF w, of ps "[]"] pc ps(1) laws size by blast
  from finish_batch_ok [OF w2 ne laws(1,2), of force_close] obtain ws3 fs3 cs3 oc3
    where g: "(if ws_open ws2 = None then pure_op (Inr ws2)
            else if force_close then close_open_segment codec cfg ws2
            else sync_open_segment ws2) fs2 = (Inr ws3, fs3)"
    and w3: "writer_holds codec (cfg_max_event_bytes cfg) fs3 ws3 cs3 oc3"
    and lines3: "all_lines (cs3 @ open_list oc3) = all_lines (cs2 @ open_list oc2)" by blast
  have valid: "efold (\<lambda>r _. validate_request r) rs () = Inr ()"
    by (rule efold_check [OF rs(2)])
  have f': "sfold (write_prepared codec cfg) ps (ws, []) fs = (Inr (ws2, map written ps), fs2)" using f by simp
  note run = sbind_simps(1) [where m = "sfold (write_prepared codec cfg) ps (ws, [])", OF f']
  note fin = sbind_simps(1) [where m = "if ws_open ws2 = None then pure_op (Inr ws2)
            else if force_close then close_open_segment codec cfg ws2
            else sync_open_segment ws2", OF g]
  have "append_batch_to_state codec cfg env rs force_close ws fs = (Inr (ws3, map written ps), fs3)"
    unfolding append_batch_to_state_def sbind_pure valid prep sum.case run prod.case fin by (rule pure_op_apply)
  with w3 lines3 [unfolded lines2] ps(2) show ?thesis by blast
qed

lemma append_batch_extends:
  assumes fs: "files_ok fs" and cfg: "config_validate cfg = Inr ()"
    and v: "verify_locked codec cfg False fs = Inr v" and rs: "rs \<noteq> []" "\<forall>r\<in>set rs. validate_request r = Inr ()"
    and prep: "prepare_events codec cfg env rs (vr_last_seq (vd_report v) + 1) (vr_last_event_hash (vd_report v)) = Inr ps"
    and laws: "manifests_roundtrip codec" "hashes_are_hex codec" "ulids_ok codec env" "lines_roundtrip codec ps"
    and room: "unat (vr_last_seq (vd_report v)) + length rs < 10 ^ 12"
    and size: "length (the (stream_bytes fs)) + length (file_of (map pe_line ps)) < 2 ^ 63"
  shows "\<exists>fs' v'. append_batch_locked codec cfg env rs force_close fs = (Inr (map written ps), fs')
    \<and> stream_bytes fs' = Some (the (stream_bytes fs) @ file_of (map pe_line ps))
    \<and> files_ok fs' \<and> verify_locked codec cfg False fs' = Inr v'
    \<and> unat (vr_last_seq (vd_report v')) = unat (vr_last_seq (vd_report v)) + length rs"
proof -
  obtain vt where "verify_segments codec cfg fs = Inr vt"
    using v unfolding verify_locked_def ebind_eq_Inr by blast
  from inspect_verified [OF fs this, of True] obtain ws cs oc
    where i: "inspect_writer_state codec cfg True fs = (Inr ws, fs)"
    and w: "writer_holds codec (cfg_max_event_bytes cfg) fs ws cs oc" by blast
  have vl: "unat (vr_last_seq (vd_report v)) = length (all_lines (cs @ open_list oc))"
    "vr_last_event_hash (vd_report v) = tail_hash codec None (all_lines (cs @ open_list oc))"
    using verified_writer [OF w] v by auto
  have rollover: "cfg_rollover_events cfg \<noteq> 0"
    using cfg unfolding config_validate_def ebind_eq_Inr ensure_eq_Inr by blast
  from close_if_full_ok [OF w rollover laws(1,2)] obtain ws1 fs1 cs1 oc1
    where c: "close_if_full codec cfg ws fs = (Inr ws1, fs1)"
    and w1: "writer_holds codec (cfg_max_event_bytes cfg) fs1 ws1 cs1 oc1"
    and lines1: "all_lines (cs1 @ open_list oc1) = all_lines (cs @ open_list oc)" by blast
  have at: "unat (ws_next_seq ws1) = unat (vr_last_seq (vd_report v)) + 1"
    "ws_previous_event_hash ws1 = vr_last_event_hash (vd_report v)"
    using writer_end(1,2) [OF w1, unfolded lines1] vl by simp_all
  then have next_seq: "ws_next_seq ws1 = vr_last_seq (vd_report v) + 1"
    using room by (simp add: unat_eq_iff_eq unat_word_ariths)
  note prep1 = prep [folded next_seq at(2)]
  have size1: "length (file_of (all_lines (cs1 @ open_list oc1) @ map pe_line ps)) < 2 ^ 63"
    using size writer_end(3) [OF w] unfolding lines1 by simp
  have room1: "unat (ws_next_seq ws1) + length rs \<le> 10 ^ 12" using at(1) room by simp
  from append_batch_to_state_ok [OF w1 cfg rs prep1 laws room1 size1, of force_close] obtain ws3 fs3 cs3 oc3
    where ps: "length ps = length rs"
    and a: "append_batch_to_state codec cfg env rs force_close ws1 fs1 = (Inr (ws3, map written ps), fs3)"
    and w3: "writer_holds codec (cfg_max_event_bytes cfg) fs3 ws3 cs3 oc3"
    and lines3: "all_lines (cs3 @ open_list oc3) = all_lines (cs1 @ open_list oc1) @ map pe_line ps" by blast
  have run: "append_batch_locked codec cfg env rs force_close fs = (Inr (map written ps), fs3)"
    using i c a by (simp add: append_batch_locked_def)
  have lines: "all_lines (cs3 @ open_list oc3) = all_lines (cs @ open_list oc) @ map pe_line ps"
    using lines1 lines3 by simp
  have stream: "stream_bytes fs3 = Some (the (stream_bytes fs) @ file_of (map pe_line ps))"
    using writer_end(3) [OF w3, unfolded lines] writer_end(3) [OF w] by simp
  have fs3: "files_ok fs3" using w3 by (simp add: writer_holds_def)
  obtain v' where v': "verify_locked codec cfg False fs3 = Inr v'"
    "unat (vr_last_seq (vd_report v')) = length (all_lines (cs3 @ open_list oc3))"
    using verified_writer [OF w3] by blast
  have "unat (vr_last_seq (vd_report v')) = unat (vr_last_seq (vd_report v)) + length rs"
    unfolding v'(2) lines vl(1) ps [symmetric] by simp
  with run stream fs3 v'(1) show ?thesis by blast
qed

text \<open>
  C7. Appending is append-only and keeps the store verifiable: on a verified store a valid,
  non-empty batch is written completely, with or without rolling segments over on the way; the
  bytes of the stream are extended by exactly the serialised events of the batch, which follow
  the old tail of the chain, the call returns their records, and the store verifies again with
  the sequence number advanced by the size of the batch.
\<close>

theorem append_extends_history:
  assumes fs: "files_ok fs" and cfg: "config_validate cfg = Inr ()"
    and v: "verify_locked codec cfg False fs = Inr v" and rs: "rs \<noteq> []" "\<forall>r\<in>set rs. validate_request r = Inr ()"
    and prep: "prepare_events codec cfg env rs (vr_last_seq (vd_report v) + 1) (vr_last_event_hash (vd_report v)) = Inr ps"
    and laws: "manifests_roundtrip codec" "hashes_are_hex codec" "ulids_ok codec env" "lines_roundtrip codec ps"
    and room: "unat (vr_last_seq (vd_report v)) + length rs < 10 ^ 12"
    and size: "length (the (stream_bytes fs)) + length (file_of (map pe_line ps)) < 2 ^ 63"
  shows "\<exists>fs' v'. append_batch_locked codec cfg env rs force_close fs = (Inr (map written ps), fs')
    \<and> stream_bytes fs' = Some (the (stream_bytes fs) @ file_of (map pe_line ps))
    \<and> files_ok fs' \<and> verify_locked codec cfg False fs' = Inr v'
    \<and> unat (vr_last_seq (vd_report v')) = unat (vr_last_seq (vd_report v)) + length rs"
  by (rule append_batch_extends [OF assms])

text \<open>The event store provides the interface of a store with a growing record: the lines of the stream.\<close>

definition stream_lines :: "store_files \<Rightarrow> bytes list" where
  "stream_lines fs = map butlast (raw_lines (the (stream_bytes fs)))"

definition store_valid :: "event_codec \<Rightarrow> event_store_config \<Rightarrow> store_files \<Rightarrow> bool" where
  "store_valid codec cfg fs \<longleftrightarrow> files_ok fs \<and> (\<exists>v. verify_locked codec cfg False fs = Inr v)"

definition append_step :: "event_codec \<Rightarrow> event_store_config \<Rightarrow> store_files \<Rightarrow> store_files \<Rightarrow> bool" where
  "append_step codec cfg fs fs' \<longleftrightarrow> (\<exists>v env rs ps force_close records.
     config_validate cfg = Inr () \<and> verify_locked codec cfg False fs = Inr v
     \<and> rs \<noteq> [] \<and> (\<forall>r\<in>set rs. validate_request r = Inr ())
     \<and> prepare_events codec cfg env rs (vr_last_seq (vd_report v) + 1) (vr_last_event_hash (vd_report v)) = Inr ps
     \<and> manifests_roundtrip codec \<and> hashes_are_hex codec \<and> ulids_ok codec env \<and> lines_roundtrip codec ps
     \<and> unat (vr_last_seq (vd_report v)) + length rs < 10 ^ 12
     \<and> length (the (stream_bytes fs)) + length (file_of (map pe_line ps)) < 2 ^ 63
     \<and> append_batch_locked codec cfg env rs force_close fs = (Inr records, fs'))"

lemma verified_lines:
  assumes "files_ok fs" "verify_locked codec cfg False fs = Inr v"
  shows "\<exists>ls. stream_bytes fs = Some (file_of ls) \<and> list_all (\<lambda>l. NL \<notin> set l) ls"
proof -
  obtain vt where "verify_segments codec cfg fs = Inr vt"
    using assms(2) unfolding verify_locked_def ebind_eq_Inr by blast
  from inspect_verified [OF assms(1) this, of True] obtain ws cs oc
    where w: "writer_holds codec (cfg_max_event_bytes cfg) fs ws cs oc" by blast
  obtain segs ms where "files_ok fs" "list_segments fs = Inr segs" "list_manifests fs = Inr ms"
    "fst ` set ms = ch_first ` set cs" "map ch_first (cs @ open_list oc) = map fst segs"
    "linked codec 1 None (cs @ open_list oc)"
    and ok: "\<forall>d\<in>set (cs @ open_list oc). chunk_ok codec (cfg_max_event_bytes cfg) fs d \<and> unat (ch_first d) < 10 ^ 12"
    and "\<forall>d\<in>set cs. has_manifest codec fs d \<and> ch_lines d \<noteq> []"
    by (rule writer_chunks [OF w])
  have "list_all (\<lambda>l. NL \<notin> set l) (ch_lines d)" if "d \<in> set (cs @ open_list oc)" for d
    using ok that chain_no_newline unfolding chunk_ok_def by blast
  then have "list_all (\<lambda>l. NL \<notin> set l) (all_lines (cs @ open_list oc))"
    unfolding all_lines_def by (simp only: list_all_iff set_concat set_map) blast
  with writer_end(3) [OF w] show ?thesis by blast
qed

lemma stream_lines_of: "stream_bytes fs = Some (file_of ls) \<Longrightarrow> list_all (\<lambda>l. NL \<notin> set l) ls \<Longrightarrow> stream_lines fs = ls"
  by (simp add: stream_lines_def raw_lines_of_file comp_def)

interpretation event_log: transactions "append_step codec cfg" "store_valid codec cfg" stream_lines
  for codec cfg
proof
  fix fs fs' assume s: "append_step codec cfg fs fs'" "store_valid codec cfg fs"
  then obtain v env rs ps force_close records where
    v: "config_validate cfg = Inr ()" "verify_locked codec cfg False fs = Inr v"
    "rs \<noteq> []" "\<forall>r\<in>set rs. validate_request r = Inr ()"
    "prepare_events codec cfg env rs (vr_last_seq (vd_report v) + 1) (vr_last_event_hash (vd_report v)) = Inr ps"
    "manifests_roundtrip codec" "hashes_are_hex codec" "ulids_ok codec env" "lines_roundtrip codec ps"
    "unat (vr_last_seq (vd_report v)) + length rs < 10 ^ 12"
    "length (the (stream_bytes fs)) + length (file_of (map pe_line ps)) < 2 ^ 63"
    and run: "append_batch_locked codec cfg env rs force_close fs = (Inr records, fs')"
    unfolding append_step_def by blast
  have fs: "files_ok fs" using s(2) by (simp add: store_valid_def)
  obtain v' where fs': "files_ok fs'" "verify_locked codec cfg False fs' = Inr v'"
    "stream_bytes fs' = Some (the (stream_bytes fs) @ file_of (map pe_line ps))"
    using append_batch_extends [OF fs v, of force_close] run by auto
  show "store_valid codec cfg fs'" using fs' by (auto simp: store_valid_def)
  obtain ls where ls: "stream_bytes fs = Some (file_of ls)" "list_all (\<lambda>l. NL \<notin> set l) ls"
    using verified_lines [OF fs v(2)] by blast
  have "list_all (\<lambda>l. NL \<notin> set l) (ls @ map pe_line ps)"
    using ls(2) v(9) by (auto simp: list_all_iff lines_roundtrip_def)
  then have "stream_lines fs' = ls @ map pe_line ps" using fs'(3) ls(1) by (intro stream_lines_of) simp_all
  then show "prefix (stream_lines fs) (stream_lines fs')" using stream_lines_of [OF ls] by simp
qed

section \<open>Torn writes\<close>

text \<open>
  What the recovery relies on of the JSON parser: no proper part of a serialised event is a
  JSON value, and the whole event is the same event by way of its JSON value.
\<close>

definition tear_safe :: "event_codec \<Rightarrow> bytes \<Rightarrow> event_envelope \<Rightarrow> bool" where
  "tear_safe codec l e \<longleftrightarrow>
     list_all (\<lambda>n. isl (value_from_slice codec (take n l))) [1..<length l]
     \<and> (\<exists>v. value_from_slice codec l = Inr v \<and> envelope_from_value codec v = Inr e)"

lemma torn_split:
  "\<exists>k t. k \<le> length ls \<and> take n (file_of ls) = file_of (take k ls) @ t
     \<and> (t = [] \<or> k < length ls \<and> t \<noteq> [] \<and> prefix t (ls ! k))"
proof (induction ls arbitrary: n)
  case Nil
  then show ?case by (simp add: file_of_def)
next
  case (Cons l ls)
  have f: "file_of (l # ls) = (l @ [NL]) @ file_of ls" by (simp add: file_of_def)
  show ?case
  proof (cases "n \<le> length l")
    case True
    then have "take n (file_of (l # ls)) = file_of (take 0 (l # ls)) @ take n l" by (simp add: f file_of_def)
    moreover have "take n l = [] \<or> 0 < length (l # ls) \<and> take n l \<noteq> [] \<and> prefix (take n l) ((l # ls) ! 0)"
      by (auto simp: take_is_prefix)
    ultimately show ?thesis by (intro exI [of _ 0] exI [of _ "take n l"]) simp
  next
    case False
    obtain k t where kt: "k \<le> length ls" "take (n - (length l + 1)) (file_of ls) = file_of (take k ls) @ t"
      "t = [] \<or> k < length ls \<and> t \<noteq> [] \<and> prefix t (ls ! k)"
      using Cons.IH by blast
    have "take n (file_of (l # ls)) = (l @ [NL]) @ take (n - (length l + 1)) (file_of ls)"
      unfolding f using False by (simp add: not_le take_Cons')
    also have "\<dots> = file_of (take (Suc k) (l # ls)) @ t" unfolding kt(2) by (simp add: file_of_def)
    finally show ?thesis using kt(1,3) by (intro exI [of _ "Suc k"] exI [of _ t]) simp
  qed
qed

lemma recover_torn:
  assumes "chain codec mx seq prev ls es" and t: "t \<noteq> []" "NL \<notin> set t" "length t \<le> mx"
  shows "recover_lines codec path mx (raw_lines (file_of ls @ t)) n seq prev start =
    (case value_from_slice codec t of
       Inl _ \<Rightarrow> Inr (TruncateTail (start + length (file_of ls)))
     | Inr generic \<Rightarrow>
         ebind (map_err (EsInvalidEvent path (n + of_nat (length ls) + 1)) (envelope_from_value codec generic)) (\<lambda>e.
         ebind (validate_event codec path (n + of_nat (length ls) + 1) e (seq + of_nat (length ls)) (tail_hash codec prev ls)) (\<lambda>_.
         Inr CompleteTail)))"
proof -
  have "last t \<noteq> NL" using t(1,2) by (metis last_in_set)
  moreover have "raw_lines (file_of ls @ t) = map (\<lambda>l. l @ [NL]) ls @ [t]"
    using raw_lines_file [OF chain_no_newline [OF assms(1)], of t] raw_lines_partial [OF t(2,1)] by simp
  ultimately show ?thesis using t(3) by (simp add: recover_lines_chain [OF assms(1)] Let_def)
qed

text \<open>Lines that are complete among the written bytes come before the torn one.\<close>

lemma complete_lines_kept:
  assumes written: "take n (file_of ls) = file_of (take k ls) @ t" and t: "k < length ls \<Longrightarrow> length t \<le> length (ls ! k)"
    and j: "j \<le> length ls" "length (file_of (take j ls)) \<le> n"
  shows "j \<le> k"
proof (rule ccontr)
  assume "\<not> j \<le> k"
  then have jk: "k < j" "k < length ls" using j(1) by simp_all
  then have split: "take j ls = take k ls @ ls ! k # take (j - Suc k) (drop (Suc k) ls)"
    by (metis Cons_nth_drop_Suc Suc_diff_Suc Suc_leI le_add_diff_inverse less_imp_le_nat take_Suc_Cons take_add)
  have "file_of ls = file_of (take j ls) @ file_of (drop j ls)" by (metis append_take_drop_id file_of_append)
  then have "length (file_of (take j ls)) \<le> length (take n (file_of ls))" using j(2) by simp
  moreover have "length (file_of (take j ls)) \<ge> length (file_of (take k ls)) + length (ls ! k) + 1"
    unfolding split by (simp add: file_of_def)
  ultimately show False using t jk(2) unfolding written by simp
qed

lemma chain_take:
  assumes "chain codec mx seq prev ls es"
  shows "chain codec mx seq prev (take k ls) (take k es)"
proof -
  have "length (take k ls) = length (take k es)" using chain_length [OF assms] by simp
  from chain_append [OF this, of codec mx seq prev "drop k ls" "drop k es"] assms show ?thesis by simp
qed

lemma chain_next:
  assumes "chain codec mx seq prev ls es" "k < length ls"
  shows "NL \<notin> set (ls ! k)" "length (ls ! k) \<le> mx"
    "event_ok codec (es ! k) (seq + of_nat k) (tail_hash codec prev (take k ls))"
proof -
  have len: "length (take k ls) = length (take k es)" "k < length es" using chain_length [OF assms(1)] assms(2) by simp_all
  have "take (Suc k) ls = take k ls @ [ls ! k]" "take (Suc k) es = take k es @ [es ! k]"
    using assms(2) len(2) by (simp_all add: take_Suc_conv_app_nth)
  with chain_take [OF assms(1), of "Suc k"] chain_append [OF len(1), of codec mx seq prev "[ls ! k]" "[es ! k]"] assms(2)
  show "NL \<notin> set (ls ! k)" "length (ls ! k) \<le> mx"
    "event_ok codec (es ! k) (seq + of_nat k) (tail_hash codec prev (take k ls))"
    by (simp_all add: min_def)
qed

text \<open>Recovery with a torn line: completed when only the newline is missing, removed otherwise.\<close>

lemma recover_torn_line:
  assumes ch: "chain codec mx seq prev ls es" and k: "k < length ls" and safe: "tear_safe codec (ls ! k) (es ! k)"
    and t: "t \<noteq> []" "prefix t (ls ! k)"
  shows "recover_lines codec path mx (raw_lines (file_of (take k ls) @ t)) 0 seq prev 0 =
    Inr (if t = ls ! k then CompleteTail else TruncateTail (length (file_of (take k ls))))"
proof -
  note line = chain_next [OF ch k]
  have tt: "NL \<notin> set t" "length t \<le> mx"
    using line(1,2) set_mono_prefix [OF t(2)] prefix_length_le [OF t(2)] by auto
  note rt = recover_torn [OF chain_take [OF ch] t(1) tt, of path k 0 0]
  show ?thesis
  proof (cases "t = ls ! k")
    case True
    then obtain v where v: "value_from_slice codec t = Inr v" "envelope_from_value codec v = Inr (es ! k)"
      using safe by (auto simp: tear_safe_def)
    have "validate_event codec path m (es ! k) (seq + of_nat (length (take k ls))) (tail_hash codec prev (take k ls)) = Inr ()" for m
      using line(3) k by (simp add: validate_event_iff)
    then show ?thesis unfolding rt v(1) sum.case v(2) map_err_simps ebind_simps by (simp add: True)
  next
    case False
    have "length t < length (ls ! k)" using t(2) False by (metis prefix_length_less strict_prefixI)
    then have "length t \<in> set [1..<length (ls ! k)]" using t(1) by (cases t) simp_all
    then have "isl (value_from_slice codec (take (length t) (ls ! k)))"
      using safe unfolding tear_safe_def list_all_iff by blast
    moreover have "take (length t) (ls ! k) = t" using t(2) by (auto simp: prefix_def)
    ultimately obtain x where x: "value_from_slice codec t = Inl x" by (auto simp: isl_def)
    then show ?thesis unfolding rt x sum.case using False by (simp only: add_0 if_False)
  qed
qed

text \<open>
  C8. Crash recovery loses nothing that was written completely: when writing the lines \<open>ls'\<close>
  after \<open>ls\<close> was cut off after any number of bytes, opening the store for writing succeeds on
  the open segment and leaves it with \<open>ls\<close> followed by the first lines of \<open>ls'\<close>, at least all
  those that are on disk completely, and no partial line.
\<close>

theorem torn_append_recovers:
  assumes content: "file_content (sf_events fs) name = Some (file_of ls @ take n (file_of ls'))"
    and ch: "chain codec (cfg_max_event_bytes cfg) first_seq prev (ls @ ls') (es @ es')" and len: "length ls = length es"
    and safe: "list_all (\<lambda>(l, e). tear_safe codec l e) (zip ls' es')"
  shows "\<exists>k\<le>length ls'. recover_open_tail codec cfg name first_seq prev fs =
      (Inr (), fs\<lparr>sf_events := dir_put (sf_events fs) name (file_of (ls @ take k ls'))\<rparr>)
    \<and> (\<forall>j\<le>length ls'. length (file_of (take j ls')) \<le> n \<longrightarrow> j \<le> k)"
proof -
  define mx where "mx = cfg_max_event_bytes cfg"
  note ch = ch [folded mx_def]
  obtain k t where k: "k \<le> length ls'" "take n (file_of ls') = file_of (take k ls') @ t"
    and t: "t = [] \<or> k < length ls' \<and> t \<noteq> [] \<and> prefix t (ls' ! k)"
    using torn_split by blast
  have kept: "j \<le> k" if "j \<le> length ls'" "length (file_of (take j ls')) \<le> n" for j
    using t prefix_length_le by (intro complete_lines_kept [OF k(2) _ that]) auto
  have taken: "take (length ls + k) (ls @ ls') = ls @ take k ls'" by simp
  have on_disk: "file_of ls @ take n (file_of ls') = file_of (ls @ take k ls') @ t" unfolding k(2) by simp
  have run: "recover_open_tail codec cfg name first_seq prev fs =
      (Inr (), fs\<lparr>sf_events := dir_put (sf_events fs) name (apply_tail_action a (file_of (ls @ take k ls') @ t))\<rparr>)"
    if "recover_lines codec (event_dir_path @ name) mx (raw_lines (file_of (ls @ take k ls') @ t)) 0 first_seq prev 0 = Inr a" for a
    using that content unfolding on_disk mx_def
    by (simp add: recover_open_tail_def read_file_def put_segment_def del: file_of_append)
  show ?thesis
  proof (cases "t = []")
    case True
    note done_chain = chain_take [OF ch, of "length ls + k", unfolded taken]
    have "recover_lines codec (event_dir_path @ name) mx (raw_lines (file_of (ls @ take k ls') @ t)) 0 first_seq prev 0 = Inr KeepTail"
      using recover_lines_chain [OF done_chain, of _ "[]"] raw_lines_of_file [OF chain_no_newline [OF done_chain]] True
      by (simp del: file_of_append)
    from run [OF this] kept True k(1) show ?thesis by auto
  next
    case False
    then have t1: "k < length ls'" "prefix t (ls' ! k)" using t by simp_all
    have at: "(ls @ ls') ! (length ls + k) = ls' ! k" "(es @ es') ! (length ls + k) = es' ! k"
      "length ls + k < length (ls @ ls')" using t1(1) len by (simp_all add: nth_append)
    have s: "tear_safe codec ((ls @ ls') ! (length ls + k)) ((es @ es') ! (length ls + k))"
      using safe t1(1) chain_length [OF ch] len unfolding at by (auto simp: list_all_length)
    note rt = recover_torn_line [OF ch at(3) s False, unfolded at(1) taken, OF t1(2)]
    show ?thesis
    proof (cases "t = ls' ! k")
      case True
      then have "recover_open_tail codec cfg name first_seq prev fs =
          (Inr (), fs\<lparr>sf_events := dir_put (sf_events fs) name (file_of (ls @ take (Suc k) ls'))\<rparr>)"
        using run [OF rt] t1(1) by (simp add: take_Suc_conv_app_nth file_of_def)
      then show ?thesis using kept t1(1) by (intro exI [of _ "Suc k"]) (simp add: le_SucI)
    next
      case False
      then show ?thesis using run [OF rt] kept k(1) by (intro exI [of _ k]) simp
    qed
  qed
qed

section \<open>A sample log\<close>

text \<open>
  The sample codec with a format for manifests: every field as text, each character marked
  with a plus sign and each field closed with a minus sign.
\<close>

definition field_bytes :: "bytes \<Rightarrow> bytes" where
  "field_bytes s = concat (map (\<lambda>ch. [CHR ''+'', ch]) s) @ ''-''"

fun read_field :: "bytes \<Rightarrow> bytes \<times> bytes" where
  "read_field (mark # ch # rest) =
     (if mark = CHR ''+'' then (let (s, r) = read_field rest in (ch # s, r)) else ([], ch # rest))"
| "read_field _ = ([], [])"

lemma read_field_bytes: "rest \<noteq> [] \<Longrightarrow> read_field (field_bytes s @ rest) = (s, rest)"
proof (induction s)
  case Nil
  then show ?case by (cases rest) (simp_all add: field_bytes_def)
qed (simp add: field_bytes_def)

fun read_fields :: "nat \<Rightarrow> bytes \<Rightarrow> bytes list" where
  "read_fields 0 s = []"
| "read_fields (Suc n) s = (let (f, r) = read_field s in f # read_fields n r)"

lemma read_fields_bytes: "rest \<noteq> [] \<Longrightarrow> read_fields (length fs) (concat (map field_bytes fs) @ rest) = fs"
proof (induction fs)
  case (Cons f fs)
  have "read_field (field_bytes f @ concat (map field_bytes fs) @ rest) = (f, concat (map field_bytes fs) @ rest)"
    using Cons.prems by (intro read_field_bytes) simp
  then show ?case using Cons by simp
qed simp

definition word_text :: "'a :: len word \<Rightarrow> bytes" where "word_text w = decimal (unat w)"

definition text_word :: "bytes \<Rightarrow> 'a :: len word" where "text_word s = of_nat (digits_value s)"

lemma text_word_text [simp]: "text_word (word_text w) = w"
  by (simp add: text_word_def word_text_def decimal_digits(2))

definition manifest_fields :: "segment_manifest \<Rightarrow> bytes list" where
  "manifest_fields m = [word_text (sm_manifest_v m), sm_stream_id m, sm_segment_file m, word_text (sm_first_seq m),
     word_text (sm_last_seq m), sm_first_event_id m, sm_last_event_id m, sm_last_event_hash m,
     word_text (sm_event_count m), word_text (sm_segment_size_bytes m), sm_segment_blake3 m]"

definition fields_manifest :: "bytes list \<Rightarrow> segment_manifest" where
  "fields_manifest f = \<lparr>sm_manifest_v = text_word (f ! 0), sm_stream_id = f ! 1, sm_segment_file = f ! 2,
     sm_first_seq = text_word (f ! 3), sm_last_seq = text_word (f ! 4), sm_first_event_id = f ! 5,
     sm_last_event_id = f ! 6, sm_last_event_hash = f ! 7, sm_event_count = text_word (f ! 8),
     sm_segment_size_bytes = text_word (f ! 9), sm_segment_blake3 = f ! 10\<rparr>"

lemma fields_manifest_fields: "fields_manifest (manifest_fields m) = m"
  by (simp add: fields_manifest_def manifest_fields_def)

definition log_codec :: event_codec where
  "log_codec = sample_event_codec\<lparr>
     manifest_to_vec := (\<lambda>m. concat (map field_bytes (manifest_fields m))),
     manifest_from_slice := (\<lambda>s. Inr (fields_manifest (read_fields 11 s))),
     value_from_slice := (\<lambda>l. case sample_parse l of Inl message \<Rightarrow> Inl message | Inr _ \<Rightarrow> Inr (JStr l)),
     envelope_from_value := (\<lambda>v. case v of JStr l \<Rightarrow> sample_parse l | _ \<Rightarrow> Inl ''expected object'')\<rparr>"

lemma log_codec_laws: "manifests_roundtrip log_codec" "hashes_are_hex log_codec"
proof -
  have "length (manifest_fields m) = 11" for m by (simp add: manifest_fields_def)
  then have "read_fields 11 (concat (map field_bytes (manifest_fields m)) @ [NL]) = manifest_fields m" for m
    using read_fields_bytes [of "[NL]" "manifest_fields m"] by simp
  then show "manifests_roundtrip log_codec"
    by (simp add: manifests_roundtrip_def log_codec_def fields_manifest_fields)
  have "is_lower_hex_64 (sample_hash s)" for s
  proof -
    have d: "is_ascii_digit (CHR ''0'')" by (simp add: is_ascii_digit_def)
    have "length (sample_hash s) = 64" by (simp add: sample_hash_def)
    moreover have "set (sample_hash s) \<subseteq> {b. is_ascii_digit b \<or> CHR ''a'' \<le> b \<and> b \<le> CHR ''f''}"
      unfolding sample_hash_def using d by (auto dest!: in_set_takeD)
    ultimately show ?thesis by (auto simp: is_lower_hex_64_def list_all_iff)
  qed
  then show "hashes_are_hex log_codec" by (simp add: hashes_are_hex_def log_codec_def sample_event_codec_def)
qed

definition sample_surroundings :: surroundings where
  "sample_surroundings = \<lparr>new_ulid = (\<lambda>_. ''00000000000000000000000001''), now_utc_ms = (\<lambda>_. Some 5),
     checkpoint_ulid = ''00000000000000000000000002''\<rparr>"

definition sample_note :: event_request where
  "sample_note = \<lparr>rq_event_type = ''note'', rq_payload = JObj [], rq_references = no_references\<rparr>"

definition sample_prepared :: "event_store_error + prepared_event list" where
  "sample_prepared = prepare_events log_codec sample_config sample_surroundings [sample_note, sample_note] 4
     (Some (event_hash log_codec (sample_line 3)))"

definition log_verified :: "event_store_error + verified_stream" where
  "log_verified = verify_locked log_codec sample_config False sample_files"

lemma sample_log_verified:
  "\<not> isl log_verified" "vr_last_seq (vd_report (projr log_verified)) = 3"
  "vr_last_event_hash (vd_report (projr log_verified)) = Some (event_hash log_codec (sample_line 3))"
  by code_simp+

lemma sample_batch:
  "\<not> isl sample_prepared" "lines_roundtrip log_codec (projr sample_prepared)"
  "map pe_line (projr sample_prepared) = [sample_line 4, sample_line 5]"
  by code_simp+

lemma sample_setting:
  "config_validate sample_config = Inr ()" "validate_request sample_note = Inr ()"
  by code_simp+

lemma sample_sizes:
  "stream_bytes sample_files = Some ''e1\<newline>e2\<newline>e3\<newline>''"
  "length (file_of [sample_line 4, sample_line 5]) = 6"
  by code_simp+

theorem append_extends_history_witness:
  "\<exists>fs' v'. append_batch_locked log_codec sample_config sample_surroundings [sample_note, sample_note] False sample_files =
      (Inr (map written (projr sample_prepared)), fs')
    \<and> stream_bytes fs' = Some (the (stream_bytes sample_files) @ file_of [sample_line 4, sample_line 5])
    \<and> files_ok fs' \<and> verify_locked log_codec sample_config False fs' = Inr v'
    \<and> unat (vr_last_seq (vd_report v')) = 5"
proof -
  have v: "verify_locked log_codec sample_config False sample_files = Inr (projr log_verified)"
    using sample_log_verified(1) unfolding log_verified_def [symmetric] by (metis sum.collapse(2))
  have p: "prepare_events log_codec sample_config sample_surroundings [sample_note, sample_note]
      (vr_last_seq (vd_report (projr log_verified)) + 1) (vr_last_event_hash (vd_report (projr log_verified))) =
      Inr (projr sample_prepared)"
    using sample_batch(1) unfolding sample_log_verified(2,3) sample_prepared_def by simp
  have u: "ulids_ok log_codec sample_surroundings"
  proof -
    have "ulid_ok log_codec (to_ascii_lowercase ''00000000000000000000000001'')" by code_simp
    then show ?thesis by (simp add: ulids_ok_def sample_surroundings_def)
  qed
  have r: "[sample_note, sample_note] \<noteq> []" "\<forall>r\<in>set [sample_note, sample_note]. validate_request r = Inr ()"
    using sample_setting(2) by simp_all
  have n: "unat (vr_last_seq (vd_report (projr log_verified))) + length [sample_note, sample_note] < 10 ^ 12"
    unfolding sample_log_verified(2) by simp
  have b: "length (the (stream_bytes sample_files)) + length (file_of (map pe_line (projr sample_prepared))) < 2 ^ 63"
    unfolding sample_batch(3) sample_sizes by simp
  from append_extends_history [OF sample_files_ok sample_setting(1) v r p log_codec_laws u sample_batch(2) n b, of False]
  show ?thesis unfolding sample_batch(3) sample_log_verified(2) by simp
qed

definition torn_files :: store_files where
  "torn_files = \<lparr>sf_events = [(segment_filename 1, RegularFile (file_of [sample_line 1] @ take 4 (file_of [sample_line 2, sample_line 3])))],
     sf_manifests = [], sf_checkpoints = []\<rparr>"

theorem torn_append_recovers_witness:
  "\<exists>k. recover_open_tail log_codec sample_config (segment_filename 1) 1 None torn_files =
      (Inr (), torn_files\<lparr>sf_events := dir_put (sf_events torn_files) (segment_filename 1)
         (file_of ([sample_line 1] @ take k [sample_line 2, sample_line 3]))\<rparr>)
    \<and> 1 \<le> k"
proof -
  have c: "chain log_codec (cfg_max_event_bytes sample_config) 1 None ([sample_line 1] @ [sample_line 2, sample_line 3])
      ([sample_envelope 1] @ [sample_envelope 2, sample_envelope 3])"
    by code_simp
  have s: "list_all (\<lambda>(l, e). tear_safe log_codec l e)
      (zip [sample_line 2, sample_line 3] [sample_envelope 2, sample_envelope 3])"
  proof -
    have "tear_safe log_codec (sample_line n) (sample_envelope n)" if "n \<in> {2, 3}" for n
    proof -
      have "list_all (\<lambda>m. isl (value_from_slice log_codec (take m (sample_line n)))) [1..<length (sample_line n)]"
        "value_from_slice log_codec (sample_line n) = Inr (JStr (sample_line n))"
        "envelope_from_value log_codec (JStr (sample_line n)) = Inr (sample_envelope n)"
        using that by (elim insertE emptyE; simp only:; code_simp)+
      then show ?thesis by (simp add: tear_safe_def)
    qed
    then show ?thesis by simp
  qed
  have f: "file_content (sf_events torn_files) (segment_filename 1) =
      Some (file_of [sample_line 1] @ take 4 (file_of [sample_line 2, sample_line 3]))"
    by (simp add: torn_files_def file_content_def)
  have "length (file_of (take 1 [sample_line 2, sample_line 3])) \<le> 4" by code_simp
  then show ?thesis using torn_append_recovers [OF f c _ s] by fastforce
qed

end
