(* ===== verification/Genesis.thy ===== *)
theory Genesis
  imports Frontier
begin

text \<open>
  The self-signed trust root of an Archive (\<open>src/src/genesis.rs\<close>): the genesis body, its
  validation, signing and verification. Ed25519, base64, BLAKE3 and the JSON printer are
  third-party code, held by \<open>crypto\<close> and \<open>genesis_codec\<close>; a verifying key is the bytes it is
  made of. What a signer relies on is \<open>signer_ok\<close>.
\<close>

section \<open>Third-party code\<close>

record crypto =
  base64_encode :: "bytes \<Rightarrow> bytes"
  base64_decode :: "bytes \<Rightarrow> bytes option"
  verifying_key_ok :: "bytes \<Rightarrow> bool"
  signature_ok :: "bytes \<Rightarrow> bool"
  verify_strict :: "bytes \<Rightarrow> bytes \<Rightarrow> bytes \<Rightarrow> bool"
  verifying_key :: "bytes \<Rightarrow> bytes"
  sign_bytes :: "bytes \<Rightarrow> bytes \<Rightarrow> bytes"
  hash_hex :: "bytes \<Rightarrow> bytes"

text \<open>
  A signing key works: what is encoded can be decoded, its verifying key is a well-formed key of
  32 bytes, and its signatures are well formed and verify under that key.
\<close>

definition signer_ok :: "crypto \<Rightarrow> bytes \<Rightarrow> bool" where
  "signer_ok cr key \<longleftrightarrow>
     (\<forall>b. base64_decode cr (base64_encode cr b) = Some b)
     \<and> length (verifying_key cr key) = 32 \<and> verifying_key_ok cr (verifying_key cr key)
     \<and> (\<forall>m. signature_ok cr (sign_bytes cr key m)
          \<and> verify_strict cr (verifying_key cr key) m (sign_bytes cr key m))"

text \<open>Decoding and checking a signature, with the caller's three errors.\<close>

definition check_signature ::
  "crypto \<Rightarrow> 'e \<Rightarrow> 'e \<Rightarrow> 'e \<Rightarrow> bytes \<Rightarrow> bytes \<Rightarrow> bytes \<Rightarrow> 'e + unit" where
  "check_signature cr not_base64 wrong_length invalid key message signature =
     ebind (ok_or (base64_decode cr signature) not_base64) (\<lambda>s.
     ebind (ensure (signature_ok cr s) wrong_length) (\<lambda>_.
     ensure (verify_strict cr key message s) invalid))"

definition is_signed :: "crypto \<Rightarrow> bytes \<Rightarrow> bytes \<Rightarrow> bytes \<Rightarrow> bool" where
  "is_signed cr key message signature \<longleftrightarrow>
     (\<exists>s. base64_decode cr signature = Some s \<and> signature_ok cr s \<and> verify_strict cr key message s)"

lemma check_signature_Inr [result_simps]:
  "check_signature cr e1 e2 e3 key message signature = Inr u \<longleftrightarrow> is_signed cr key message signature"
  unfolding check_signature_def is_signed_def ebind_eq_Inr ok_or_eq_Inr ensure_eq_Inr by blast

lemma signer_is_signed:
  "signer_ok cr key \<Longrightarrow> is_signed cr (verifying_key cr key) m (base64_encode cr (sign_bytes cr key m))"
  by (auto simp: signer_ok_def is_signed_def)

definition client_id :: "crypto \<Rightarrow> bytes \<Rightarrow> bytes" where
  "client_id cr public_key = ''origin_'' @ hash_hex cr public_key"

definition blake3_id :: "crypto \<Rightarrow> bytes \<Rightarrow> bytes" where
  "blake3_id cr b = ''blake3:'' @ hash_hex cr b"

section \<open>The genesis body\<close>

definition GENESIS_VERSION :: u32 where "GENESIS_VERSION = 2"
definition V2_SCHEMA_VERSION :: u32 where "V2_SCHEMA_VERSION = 6"
definition V2_RECORD_VERSION :: u32 where "V2_RECORD_VERSION = 2"

datatype genesis_error =
    GeInvalidArchiveIdentity
  | GeUnsupportedVersion
  | GeInvalidInitialClient
  | GeInvalidSignature
  | GeSerialization bytes

record genesis_body =
  ge_genesis_v :: u32
  ge_archive_id :: bytes
  ge_archive_display_name :: bytes
  ge_created_time_utc_ms :: u64
  ge_record_v :: u32
  ge_frontier_v :: u32
  ge_item_projection_v :: u32
  ge_schema_v :: u32
  ge_initial_client_id :: bytes
  ge_initial_public_key :: bytes

record signed_genesis =
  sg_body :: genesis_body
  sg_signature :: bytes

record genesis_codec =
  genesis_body_to_vec :: "genesis_body \<Rightarrow> bytes + bytes"
  signed_genesis_to_vec :: "signed_genesis \<Rightarrow> bytes + bytes"

definition genesis_body_new :: "crypto \<Rightarrow> bytes \<Rightarrow> bytes \<Rightarrow> u64 \<Rightarrow> bytes \<Rightarrow> genesis_body" where
  "genesis_body_new cr archive_id archive_display_name created_time_utc_ms public_key =
     \<lparr>ge_genesis_v = GENESIS_VERSION, ge_archive_id = archive_id,
      ge_archive_display_name = archive_display_name, ge_created_time_utc_ms = created_time_utc_ms,
      ge_record_v = V2_RECORD_VERSION, ge_frontier_v = FRONTIER_VERSION,
      ge_item_projection_v = INITIAL_ITEM_PROJECTION_VERSION, ge_schema_v = V2_SCHEMA_VERSION,
      ge_initial_client_id = client_id cr public_key,
      ge_initial_public_key = base64_encode cr public_key\<rparr>"

definition genesis_validate :: "crypto \<Rightarrow> genesis_body \<Rightarrow> genesis_error + bytes" where
  "genesis_validate cr g =
     ebind (ensure (ge_archive_id g \<noteq> [] \<and> \<not> is_blank (ge_archive_display_name g)) GeInvalidArchiveIdentity) (\<lambda>_.
     ebind (ensure (ge_genesis_v g = GENESIS_VERSION \<and> ge_record_v g = V2_RECORD_VERSION
         \<and> ge_frontier_v g = FRONTIER_VERSION \<and> ge_item_projection_v g = INITIAL_ITEM_PROJECTION_VERSION
         \<and> ge_schema_v g = V2_SCHEMA_VERSION) GeUnsupportedVersion) (\<lambda>_.
     ebind (ok_or (base64_decode cr (ge_initial_public_key g)) GeInvalidInitialClient) (\<lambda>key.
     ebind (ensure (length key = 32) GeInvalidInitialClient) (\<lambda>_.
     ebind (ensure (ge_initial_client_id g = client_id cr key) GeInvalidInitialClient) (\<lambda>_.
     ebind (ensure (verifying_key_ok cr key) GeInvalidInitialClient) (\<lambda>_.
     Inr key))))))"

definition genesis_body_bytes :: "crypto \<Rightarrow> genesis_codec \<Rightarrow> genesis_body \<Rightarrow> genesis_error + bytes" where
  "genesis_body_bytes cr gc g =
     ebind (genesis_validate cr g) (\<lambda>_. map_err GeSerialization (genesis_body_to_vec gc g))"

section \<open>Signed genesis documents\<close>

definition genesis_verify :: "crypto \<Rightarrow> genesis_codec \<Rightarrow> signed_genesis \<Rightarrow> genesis_error + unit" where
  "genesis_verify cr gc sg =
     ebind (genesis_validate cr (sg_body sg)) (\<lambda>key.
     ebind (ok_or (base64_decode cr (sg_signature sg)) GeInvalidSignature) (\<lambda>s.
     ebind (ensure (signature_ok cr s) GeInvalidSignature) (\<lambda>_.
     ebind (genesis_body_bytes cr gc (sg_body sg)) (\<lambda>message.
     ensure (verify_strict cr key message s) GeInvalidSignature))))"

definition genesis_create ::
  "crypto \<Rightarrow> genesis_codec \<Rightarrow> genesis_body \<Rightarrow> bytes \<Rightarrow> genesis_error + signed_genesis" where
  "genesis_create cr gc body signing_key =
     ebind (genesis_validate cr body) (\<lambda>key.
     ebind (ensure (key = verifying_key cr signing_key) GeInvalidInitialClient) (\<lambda>_.
     ebind (genesis_body_bytes cr gc body) (\<lambda>message.
     let genesis = \<lparr>sg_body = body, sg_signature = base64_encode cr (sign_bytes cr signing_key message)\<rparr> in
     ebind (genesis_verify cr gc genesis) (\<lambda>_. Inr genesis))))"

definition genesis_canonical_bytes :: "crypto \<Rightarrow> genesis_codec \<Rightarrow> signed_genesis \<Rightarrow> genesis_error + bytes" where
  "genesis_canonical_bytes cr gc sg =
     ebind (genesis_verify cr gc sg) (\<lambda>_. map_err GeSerialization (signed_genesis_to_vec gc sg))"

definition genesis_hash :: "crypto \<Rightarrow> genesis_codec \<Rightarrow> signed_genesis \<Rightarrow> genesis_error + bytes" where
  "genesis_hash cr gc sg =
     ebind (genesis_canonical_bytes cr gc sg) (\<lambda>b. Inr (blake3_id cr b))"

section \<open>What a verified genesis is\<close>

definition genesis_names_key :: "crypto \<Rightarrow> genesis_body \<Rightarrow> bytes \<Rightarrow> bool" where
  "genesis_names_key cr g key \<longleftrightarrow>
     ge_archive_id g \<noteq> [] \<and> \<not> is_blank (ge_archive_display_name g)
     \<and> ge_genesis_v g = GENESIS_VERSION \<and> ge_record_v g = V2_RECORD_VERSION
     \<and> ge_frontier_v g = FRONTIER_VERSION \<and> ge_item_projection_v g = INITIAL_ITEM_PROJECTION_VERSION
     \<and> ge_schema_v g = V2_SCHEMA_VERSION
     \<and> base64_decode cr (ge_initial_public_key g) = Some key \<and> length key = 32
     \<and> ge_initial_client_id g = client_id cr key \<and> verifying_key_ok cr key"

lemma genesis_validate_Inr: "genesis_validate cr g = Inr key \<longleftrightarrow> genesis_names_key cr g key"
  unfolding genesis_validate_def genesis_names_key_def ebind_eq_Inr ensure_eq_Inr ok_or_eq_Inr sum.inject
  by blast

lemma genesis_body_bytes_Inr:
  "genesis_body_bytes cr gc g = Inr b \<longleftrightarrow> (\<exists>key. genesis_names_key cr g key) \<and> genesis_body_to_vec gc g = Inr b"
  unfolding genesis_body_bytes_def ebind_eq_Inr genesis_validate_Inr map_err_eq_Inr by blast

lemma genesis_verify_Inr:
  "genesis_verify cr gc sg = Inr () \<longleftrightarrow>
     (\<exists>key message. genesis_names_key cr (sg_body sg) key \<and> genesis_body_to_vec gc (sg_body sg) = Inr message
        \<and> is_signed cr key message (sg_signature sg))"
  unfolding genesis_verify_def is_signed_def ebind_eq_Inr ensure_eq_Inr ok_or_eq_Inr
    genesis_validate_Inr genesis_body_bytes_Inr by blast

lemma genesis_create_Inr:
  "genesis_create cr gc body signing_key = Inr sg \<longleftrightarrow>
     (\<exists>message. genesis_names_key cr body (verifying_key cr signing_key)
        \<and> genesis_body_to_vec gc body = Inr message
        \<and> sg = \<lparr>sg_body = body, sg_signature = base64_encode cr (sign_bytes cr signing_key message)\<rparr>
        \<and> genesis_verify cr gc sg = Inr ())"
  unfolding genesis_create_def ebind_eq_Inr ensure_eq_Inr genesis_validate_Inr genesis_body_bytes_Inr Let_def
    sum.inject by (auto simp only: simp_thms ex_simps sum.inject unit_eq)

lemma new_body_names_key:
  assumes "signer_ok cr signing_key" "archive_id \<noteq> []" "\<not> is_blank display_name"
  shows "genesis_names_key cr (genesis_body_new cr archive_id display_name time (verifying_key cr signing_key))
    (verifying_key cr signing_key)"
  using assms by (simp add: genesis_names_key_def genesis_body_new_def signer_ok_def)

text \<open>
  A new Archive can always be founded: with a working signing key and a name, signing the new
  genesis body succeeds, the document carries exactly that body, and it verifies.
\<close>

theorem new_genesis_verifies:
  assumes "signer_ok cr signing_key" and "archive_id \<noteq> []" and "\<not> is_blank display_name"
    and "genesis_body_to_vec gc (genesis_body_new cr archive_id display_name time (verifying_key cr signing_key)) = Inr message"
  shows "\<exists>sg. genesis_create cr gc (genesis_body_new cr archive_id display_name time (verifying_key cr signing_key))
      signing_key = Inr sg
    \<and> sg_body sg = genesis_body_new cr archive_id display_name time (verifying_key cr signing_key)
    \<and> genesis_verify cr gc sg = Inr ()"
proof -
  let ?body = "genesis_body_new cr archive_id display_name time (verifying_key cr signing_key)"
  let ?sg = "\<lparr>sg_body = ?body, sg_signature = base64_encode cr (sign_bytes cr signing_key message)\<rparr>"
  note key = new_body_names_key [OF assms(1-3), of time]
  have "genesis_verify cr gc ?sg = Inr ()"
    unfolding genesis_verify_Inr
    using key assms(4) signer_is_signed [OF assms(1), of message] by auto
  then have "genesis_create cr gc ?body signing_key = Inr ?sg"
    unfolding genesis_create_Inr using key assms(4) by blast
  with \<open>genesis_verify cr gc ?sg = Inr ()\<close> show ?thesis by auto
qed

text \<open>
  Only the key a genesis names can sign it: creation succeeds only with the signing key of
  the initial client in the body, and a document that verifies is signed, over exactly the bytes
  of its body, by the key whose hash is the identity of the initial client.
\<close>

theorem genesis_signed_by_initial_client:
  "(genesis_create cr gc body signing_key = Inr sg \<longrightarrow>
      sg_body sg = body \<and> genesis_verify cr gc sg = Inr ()
      \<and> ge_initial_client_id body = client_id cr (verifying_key cr signing_key))
   \<and> (genesis_verify cr gc sg = Inr () \<longrightarrow>
      (\<exists>key message. base64_decode cr (ge_initial_public_key (sg_body sg)) = Some key
         \<and> ge_initial_client_id (sg_body sg) = client_id cr key
         \<and> genesis_body_to_vec gc (sg_body sg) = Inr message
         \<and> is_signed cr key message (sg_signature sg)))"
proof (intro conjI impI)
  assume "genesis_create cr gc body signing_key = Inr sg"
  then obtain message where "genesis_names_key cr body (verifying_key cr signing_key)"
    and sg: "sg = \<lparr>sg_body = body, sg_signature = base64_encode cr (sign_bytes cr signing_key message)\<rparr>"
      "genesis_verify cr gc sg = Inr ()"
    unfolding genesis_create_Inr by blast
  then show "ge_initial_client_id body = client_id cr (verifying_key cr signing_key)"
    unfolding genesis_names_key_def by blast
  from sg show "genesis_verify cr gc sg = Inr ()" "sg_body sg = body" by simp_all
next
  assume "genesis_verify cr gc sg = Inr ()"
  then show "\<exists>key message. base64_decode cr (ge_initial_public_key (sg_body sg)) = Some key
      \<and> ge_initial_client_id (sg_body sg) = client_id cr key
      \<and> genesis_body_to_vec gc (sg_body sg) = Inr message \<and> is_signed cr key message (sg_signature sg)"
    unfolding genesis_verify_Inr genesis_names_key_def by blast
qed

section \<open>A sample signer\<close>

text \<open>Signatures that repeat the key and the message.\<close>

definition sample_crypto :: crypto where
  "sample_crypto = \<lparr>base64_encode = id, base64_decode = Some, verifying_key_ok = (\<lambda>k. True),
     signature_ok = (\<lambda>s. True), verify_strict = (\<lambda>k m s. s = k @ m), verifying_key = id,
     sign_bytes = (\<lambda>k m. k @ m), hash_hex = (\<lambda>b. replicate 64 (if b = [] then CHR ''0'' else last b))\<rparr>"

definition sample_genesis_codec :: genesis_codec where
  "sample_genesis_codec = \<lparr>genesis_body_to_vec = (\<lambda>g. Inr (ge_archive_display_name g)),
     signed_genesis_to_vec = (\<lambda>sg. Inr (ge_archive_display_name (sg_body sg)))\<rparr>"

definition sample_key :: bytes where "sample_key = replicate 32 (CHR ''7'')"

definition sample_genesis :: signed_genesis where
  "sample_genesis = \<lparr>sg_body = genesis_body_new sample_crypto ''arc'' ''Personal'' 7 sample_key,
     sg_signature = sample_key @ ''Personal''\<rparr>"

lemma sample_signer_ok: "length key = 32 \<Longrightarrow> signer_ok sample_crypto key"
  by (simp add: signer_ok_def sample_crypto_def)

lemma not_blank_Personal: "\<not> is_blank ''Personal''" by code_simp

theorem new_genesis_verifies_witness:
  "\<exists>sg. genesis_create sample_crypto sample_genesis_codec (genesis_body_new sample_crypto ''arc'' ''Personal'' 7
        (verifying_key sample_crypto sample_key)) sample_key = Inr sg
    \<and> sg_body sg = genesis_body_new sample_crypto ''arc'' ''Personal'' 7 (verifying_key sample_crypto sample_key)
    \<and> genesis_verify sample_crypto sample_genesis_codec sg = Inr ()"
  by (rule new_genesis_verifies [OF sample_signer_ok _ not_blank_Personal])
    (simp_all add: sample_key_def sample_genesis_codec_def)

lemma sample_genesis_created:
  "genesis_create sample_crypto sample_genesis_codec (sg_body sample_genesis) sample_key = Inr sample_genesis"
  by code_simp

theorem genesis_signed_by_initial_client_witness:
  "sg_body sample_genesis = sg_body sample_genesis
    \<and> genesis_verify sample_crypto sample_genesis_codec sample_genesis = Inr ()
    \<and> ge_initial_client_id (sg_body sample_genesis) = client_id sample_crypto (verifying_key sample_crypto sample_key)"
  using genesis_signed_by_initial_client [of sample_crypto sample_genesis_codec "sg_body sample_genesis" sample_key
    sample_genesis] sample_genesis_created by blast

end
