(* ===== verification/Batch_Validation.thy ===== *)
theory Batch_Validation
  imports Byte_Strings
begin

text \<open>
  The bounded validation of a version 2 batch (\<open>src/src/v2_batch.rs\<close>): chunks of items are
  accepted in order, and a completion record has to name their number and the digest of their
  positions, sizes and record hashes. The incremental hasher is the bytes it has been fed; the
  hash itself (BLAKE3, in hexadecimal) is an argument.
\<close>

section \<open>Definitions\<close>

definition DEFAULT_MAX_BATCH_CHUNK_ITEMS :: u32 where "DEFAULT_MAX_BATCH_CHUNK_ITEMS = 1000"
definition DEFAULT_MAX_BATCH_CHUNK_BYTES :: u64 where "DEFAULT_MAX_BATCH_CHUNK_BYTES = 1024 * 1024"

definition DIGEST_DOMAIN :: bytes where
  "DIGEST_DOMAIN = ''archive-ledger-batch-items-v1'' @ [char_of (0 :: nat)]"

datatype batch_validation_error =
    EmptyBatchId
  | InvalidLimits
  | BatchMismatch bytes bytes
  | EmptyChunk
  | TooManyItems u32 u32
  | TooManyBytes u64 u64
  | NonConsecutiveRange u64 u64
  | ItemCountOverflow
  | InvalidRecordHash
  | NoChunks
  | CompletionCountMismatch u64 u64
  | CompletionDigestMismatch

record batch_limits =
  bl_max_items :: u32
  bl_max_serialized_bytes :: u64

definition default_limits :: batch_limits where
  "default_limits = \<lparr>bl_max_items = DEFAULT_MAX_BATCH_CHUNK_ITEMS,
     bl_max_serialized_bytes = DEFAULT_MAX_BATCH_CHUNK_BYTES\<rparr>"

definition limits_validate :: "batch_limits \<Rightarrow> batch_validation_error + batch_limits" where
  "limits_validate l =
     (if bl_max_items l = 0 \<or> bl_max_serialized_bytes l = 0
         \<or> DEFAULT_MAX_BATCH_CHUNK_ITEMS < bl_max_items l
         \<or> DEFAULT_MAX_BATCH_CHUNK_BYTES < bl_max_serialized_bytes l
      then Inl InvalidLimits else Inr l)"

record batch_chunk_descriptor =
  bc_batch_id :: bytes
  bc_first_item_index :: u64
  bc_item_count :: u32
  bc_serialized_bytes :: u64
  bc_record_hash :: bytes

record batch_completion =
  bco_total_items :: u64
  bco_ordered_item_digest :: bytes

record batch_validator =
  bv_batch_id :: bytes
  bv_limits :: batch_limits
  bv_next_item_index :: u64
  bv_chunk_count :: u64
  bv_digest :: bytes

definition batch_validator_new :: "bytes \<Rightarrow> batch_limits \<Rightarrow> batch_validation_error + batch_validator" where
  "batch_validator_new batch_id limits =
     ebind (ensure (batch_id \<noteq> []) EmptyBatchId) (\<lambda>_.
     ebind (limits_validate limits) (\<lambda>limits.
     Inr \<lparr>bv_batch_id = batch_id, bv_limits = limits, bv_next_item_index = 0, bv_chunk_count = 0,
          bv_digest = DIGEST_DOMAIN\<rparr>))"

definition decode_nibble :: "char \<Rightarrow> batch_validation_error + nat" where
  "decode_nibble ch =
     (let v = of_char ch :: nat in
      if 48 \<le> v \<and> v \<le> 57 then Inr (v - 48)
      else if 97 \<le> v \<and> v \<le> 102 then Inr (v - 97 + 10)
      else Inl InvalidRecordHash)"

text \<open>Pairs of digits; the text has an even number of them.\<close>

fun decode_pairs :: "bytes \<Rightarrow> batch_validation_error + bytes" where
  "decode_pairs (high # low # rest) =
     ebind (decode_nibble high) (\<lambda>h. ebind (decode_nibble low) (\<lambda>l.
     ebind (decode_pairs rest) (\<lambda>bs. Inr (char_of (16 * h + l) # bs))))"
| "decode_pairs _ = Inr []"

definition decode_blake3 :: "bytes \<Rightarrow> batch_validation_error + bytes" where
  "decode_blake3 v =
     ebind (ok_or (strip_prefix ''blake3:'' v) InvalidRecordHash) (\<lambda>hex.
     ebind (ensure (length hex = 64) InvalidRecordHash) (\<lambda>_.
     decode_pairs hex))"

text \<open>\<open>to_be_bytes\<close> of a word of \<open>n\<close> bytes.\<close>

definition be_bytes :: "nat \<Rightarrow> 'a :: len word \<Rightarrow> bytes" where
  "be_bytes n w = map (\<lambda>i. char_of (unat w div 256 ^ i)) (rev [0..<n])"

definition accept_chunk ::
  "batch_chunk_descriptor \<Rightarrow> batch_validator \<Rightarrow> batch_validation_error + batch_validator" where
  "accept_chunk c v =
     ebind (ensure (bc_batch_id c = bv_batch_id v) (BatchMismatch (bv_batch_id v) (bc_batch_id c))) (\<lambda>_.
     ebind (ensure (bc_item_count c \<noteq> 0) EmptyChunk) (\<lambda>_.
     ebind (ensure (bc_item_count c \<le> bl_max_items (bv_limits v))
       (TooManyItems (bc_item_count c) (bl_max_items (bv_limits v)))) (\<lambda>_.
     ebind (ensure (bc_serialized_bytes c \<le> bl_max_serialized_bytes (bv_limits v))
       (TooManyBytes (bc_serialized_bytes c) (bl_max_serialized_bytes (bv_limits v)))) (\<lambda>_.
     ebind (ensure (bc_first_item_index c = bv_next_item_index v)
       (NonConsecutiveRange (bv_next_item_index v) (bc_first_item_index c))) (\<lambda>_.
     ebind (decode_blake3 (bc_record_hash c)) (\<lambda>record_hash.
     ebind (ok_or (checked_add (bv_next_item_index v) (ucast (bc_item_count c))) ItemCountOverflow) (\<lambda>next_item_index.
     Inr (v\<lparr>bv_digest := bv_digest v @ be_bytes 8 (bc_first_item_index c) @ be_bytes 4 (bc_item_count c) @ record_hash,
            bv_next_item_index := next_item_index, bv_chunk_count := bv_chunk_count v + 1\<rparr>))))))))"

definition ordered_item_digest :: "(bytes \<Rightarrow> bytes) \<Rightarrow> batch_validator \<Rightarrow> batch_validation_error + bytes" where
  "ordered_item_digest blake3_hex v =
     (if bv_chunk_count v = 0 then Inl NoChunks else Inr (''blake3:'' @ blake3_hex (bv_digest v)))"

definition validate_completion ::
  "(bytes \<Rightarrow> bytes) \<Rightarrow> batch_validator \<Rightarrow> batch_completion \<Rightarrow> batch_validation_error + unit" where
  "validate_completion blake3_hex v completion =
     ebind (ensure (bv_chunk_count v \<noteq> 0) NoChunks) (\<lambda>_.
     ebind (ensure (bco_total_items completion = bv_next_item_index v)
       (CompletionCountMismatch (bv_next_item_index v) (bco_total_items completion))) (\<lambda>_.
     ebind (ordered_item_digest blake3_hex v) (\<lambda>digest.
     ensure (bco_ordered_item_digest completion = digest) CompletionDigestMismatch)))"

text \<open>A whole batch: a new validator, its chunks in order, the completion.\<close>

definition validate_batch ::
  "(bytes \<Rightarrow> bytes) \<Rightarrow> bytes \<Rightarrow> batch_limits \<Rightarrow> batch_chunk_descriptor list \<Rightarrow> batch_completion
   \<Rightarrow> batch_validation_error + unit" where
  "validate_batch blake3_hex batch_id limits chunks completion =
     ebind (batch_validator_new batch_id limits) (\<lambda>v.
     ebind (efold accept_chunk chunks v) (\<lambda>v.
     validate_completion blake3_hex v completion))"

section \<open>Encodings are injective\<close>

lemma decode_nibble_Inr: "decode_nibble ch = Inr n \<Longrightarrow> n < 16"
  by (auto simp: decode_nibble_def Let_def split: if_splits)

lemma decode_nibble_code: "decode_nibble ch = Inr n \<Longrightarrow> of_char ch = (if n < 10 then n + 48 else n + 87)"
  by (auto simp: decode_nibble_def Let_def split: if_splits)

lemma decode_nibble_inj:
  assumes "decode_nibble a = Inr n" "decode_nibble b = Inr n"
  shows "a = b"
proof -
  have "of_char a = (of_char b :: nat)"
    using assms [THEN decode_nibble_code] by (rule trans [OF _ sym])
  then show ?thesis by simp
qed

lemma char_of_byte_inj: "char_of m = (char_of n :: char) \<Longrightarrow> m < 256 \<Longrightarrow> n < 256 \<Longrightarrow> m = (n :: nat)"
  using of_char_of [of m] of_char_of [of n] by simp

lemma hex_digits_inj:
  assumes "16 * a + b = 16 * c + (d :: nat)" "b < 16" "d < 16"
  shows "c = a \<and> d = b"
proof -
  have "(16 * a + b) div 16 = a" "(16 * c + d) div 16 = c" using assms(2,3) by simp_all
  then have "c = a" unfolding assms(1) by simp
  then show ?thesis using assms(1) by simp
qed

lemma decode_pairs_inj:
  assumes "decode_pairs xs = Inr bs" "decode_pairs ys = Inr bs" "length xs = length ys" "even (length xs)"
  shows "xs = ys"
  using assms
proof (induction xs arbitrary: ys bs rule: decode_pairs.induct)
  case (1 h l rest)
  then obtain h' l' rest' where ys: "ys = h' # l' # rest'" "length rest = length rest'"
    by (cases ys rule: decode_pairs.cases) auto
  from "1.prems"(1) obtain hn ln r where x: "decode_nibble h = Inr hn" "decode_nibble l = Inr ln"
    "decode_pairs rest = Inr r" "bs = char_of (16 * hn + ln) # r" by (auto simp: ebind_eq_Inr)
  from "1.prems"(2) obtain hn' ln' r' where y: "decode_nibble h' = Inr hn'" "decode_nibble l' = Inr ln'"
    "decode_pairs rest' = Inr r'" "bs = char_of (16 * hn' + ln') # r'" by (auto simp: ys ebind_eq_Inr)
  have lt: "hn < 16" "ln < 16" "hn' < 16" "ln' < 16"
    using x y decode_nibble_Inr by blast+
  have eq: "char_of (16 * hn + ln) = (char_of (16 * hn' + ln') :: char)" "r' = r"
    using x(4) y(4) unfolding list.inject by (metis list.inject)+
  have "16 * hn + ln = 16 * hn' + ln'"
    using char_of_byte_inj [OF eq(1)] lt by simp
  then have d: "hn' = hn \<and> ln' = ln" by (rule hex_digits_inj [OF _ lt(2) lt(4)])
  note n = d [THEN conjunct1] d [THEN conjunct2]
  have "h = h'" by (rule decode_nibble_inj [OF x(1) y(1) [unfolded n]])
  moreover have "l = l'" by (rule decode_nibble_inj [OF x(2) y(2) [unfolded n]])
  moreover have "rest = rest'"
    by (rule "1.IH" [OF x(3) y(3) [unfolded eq(2)] ys(2)]) (use "1.prems"(4) in simp)
  ultimately show ?case using ys by simp
next
  case "2_1"
  then show ?case by simp
next
  case "2_2"
  from "2_2.prems"(4) show ?case by simp
qed

lemma decode_blake3_inj:
  assumes "decode_blake3 a = Inr bs" "decode_blake3 b = Inr bs"
  shows "a = b"
proof -
  from assms obtain x y where "a = ''blake3:'' @ x" "length x = 64" "decode_pairs x = Inr bs"
    "b = ''blake3:'' @ y" "length y = 64" "decode_pairs y = Inr bs"
    unfolding decode_blake3_def ebind_eq_Inr ok_or_eq_Inr ensure_eq_Inr strip_prefix_eq_Some by blast
  then show ?thesis using decode_pairs_inj [of x bs y] by simp
qed

lemma length_decode_pairs: "decode_pairs xs = Inr bs \<Longrightarrow> even (length xs) \<Longrightarrow> length bs = length xs div 2"
  by (induction xs arbitrary: bs rule: decode_pairs.induct) (auto simp: ebind_eq_Inr)

lemma length_decode_blake3: "decode_blake3 v = Inr bs \<Longrightarrow> length bs = 32"
proof -
  assume "decode_blake3 v = Inr bs"
  then obtain x where "length x = 64" "decode_pairs x = Inr bs"
    unfolding decode_blake3_def ebind_eq_Inr ensure_eq_Inr by blast
  then show ?thesis using length_decode_pairs [of x bs] by simp
qed

lemma be_bytes_code [code]: "be_bytes n (w :: 'a :: len word) = map (\<lambda>i. char_of (uint (drop_bit (8 * i) w))) (rev [0..<n])"
proof -
  have "(char_of (uint (drop_bit (8 * i) w)) :: char) = char_of (unat w div 256 ^ i)" for i
  proof -
    have "take_bit LENGTH('a) (uint w) = uint w"
      by (rule take_bit_int_eq_self) (simp_all add: unsigned_less)
    then have "uint (drop_bit (8 * i) w) = of_nat (unat w div 2 ^ (8 * i))"
      unfolding unsigned_drop_bit_eq by (simp add: drop_bit_eq_div zdiv_int)
    then have "(char_of (uint (drop_bit (8 * i) w)) :: char) = char_of (unat w div 2 ^ (8 * i))"
      by (simp only: char_of_nat)
    also have "(2 :: nat) ^ (8 * i) = 256 ^ i" by (simp add: power_mult)
    finally show ?thesis .
  qed
  then show ?thesis by (simp add: be_bytes_def)
qed

lemma length_be_bytes [simp]: "length (be_bytes n w) = n"
  by (simp add: be_bytes_def)

lemma digits_256_inj:
  assumes "a < 256 ^ n" "b < 256 ^ n"
    and "map (\<lambda>i. char_of (a div 256 ^ i) :: char) [0..<n] = map (\<lambda>i. char_of (b div 256 ^ i)) [0..<n]"
  shows "a = (b :: nat)"
  using assms
proof (induction n arbitrary: a b)
  case (Suc n)
  have eq: "(char_of (a div 256 ^ i) :: char) = char_of (b div 256 ^ i)" if "i < Suc n" for i
  proof -
    have "i \<in> set [0..<Suc n]" using that by (simp del: upt_Suc)
    then show ?thesis using Suc.prems(3) unfolding map_eq_conv by (rule bspec [rotated])
  qed
  have "map (\<lambda>i. char_of (a div 256 div 256 ^ i) :: char) [0..<n] = map (\<lambda>i. char_of (b div 256 div 256 ^ i)) [0..<n]"
    using eq [of "Suc i" for i] by (intro nth_equalityI) (simp_all add: div_mult2_eq [symmetric])
  then have "a div 256 = b div 256"
    using Suc.prems(1,2) by (intro Suc.IH) (simp_all add: less_mult_imp_div_less mult.commute)
  moreover have "a mod 256 = b mod 256"
  proof -
    have "(of_char (char_of a :: char) :: nat) = of_char (char_of b :: char)"
      using eq [of 0] unfolding power_0 div_by_1 by simp
    then show ?thesis unfolding of_char_of by simp
  qed
  ultimately show ?case by (metis mult_div_mod_eq)
qed simp

lemma be_bytes_inj:
  assumes "be_bytes n w = be_bytes n w'" "2 ^ LENGTH('a) \<le> (256 :: nat) ^ n"
  shows "w = (w' :: 'a :: len word)"
proof -
  have "rev (be_bytes n w) = rev (be_bytes n w')" using assms(1) by simp
  then have m: "map (\<lambda>i. char_of (unat w div 256 ^ i) :: char) [0..<n] = map (\<lambda>i. char_of (unat w' div 256 ^ i)) [0..<n]"
    by (simp add: be_bytes_def rev_map)
  have "unat w < 256 ^ n" "unat w' < 256 ^ n"
    using assms(2) unsigned_less [of w] unsigned_less [of w'] by (meson less_le_trans)+
  from digits_256_inj [OF this m] show ?thesis by (simp add: word_unat_eq_iff)
qed

section \<open>Accepted batches\<close>

text \<open>The specification: chunks tile the item numbers from zero on.\<close>

fun tiles :: "bytes \<Rightarrow> batch_limits \<Rightarrow> nat \<Rightarrow> batch_chunk_descriptor list \<Rightarrow> bool" where
  "tiles batch_id limits start [] \<longleftrightarrow> start < 2 ^ 64"
| "tiles batch_id limits start (c # cs) \<longleftrightarrow>
     bc_batch_id c = batch_id \<and> 0 < bc_item_count c \<and> bc_item_count c \<le> bl_max_items limits
     \<and> bc_serialized_bytes c \<le> bl_max_serialized_bytes limits \<and> unat (bc_first_item_index c) = start
     \<and> (\<exists>b. decode_blake3 (bc_record_hash c) = Inr b)
     \<and> tiles batch_id limits (start + unat (bc_item_count c)) cs"

definition chunk_bytes :: "batch_chunk_descriptor \<Rightarrow> bytes" where
  "chunk_bytes c = be_bytes 8 (bc_first_item_index c) @ be_bytes 4 (bc_item_count c)
     @ projr (decode_blake3 (bc_record_hash c))"

definition after_chunks :: "batch_chunk_descriptor list \<Rightarrow> batch_validator \<Rightarrow> batch_validator" where
  "after_chunks cs v = v\<lparr>bv_digest := bv_digest v @ concat (map chunk_bytes cs),
     bv_next_item_index := bv_next_item_index v + of_nat (sum_list (map (\<lambda>c. unat (bc_item_count c)) cs)),
     bv_chunk_count := bv_chunk_count v + of_nat (length cs)\<rparr>"

lemma tiles_bound: "tiles batch_id limits start cs \<Longrightarrow> start + sum_list (map (\<lambda>c. unat (bc_item_count c)) cs) < 2 ^ 64"
proof (induction cs arbitrary: start)
  case (Cons c cs)
  then have "start + unat (bc_item_count c) + sum_list (map (\<lambda>c. unat (bc_item_count c)) cs) < 2 ^ 64"
    by (intro Cons.IH) simp
  then show ?case by (simp add: add.assoc)
qed simp

lemma unat_ucast_u32: "unat (ucast (n :: u32) :: u64) = unat n"
proof -
  have "unat n < 2 ^ 32" using unsigned_less [of n, where ?'a = nat] by simp
  then show ?thesis by (simp add: unsigned_ucast_eq take_bit_nat_eq_self_iff)
qed

lemma accept_chunk_Inr:
  "accept_chunk c v = Inr v' \<longleftrightarrow>
     bc_batch_id c = bv_batch_id v \<and> 0 < bc_item_count c \<and> bc_item_count c \<le> bl_max_items (bv_limits v)
     \<and> bc_serialized_bytes c \<le> bl_max_serialized_bytes (bv_limits v)
     \<and> bc_first_item_index c = bv_next_item_index v
     \<and> (\<exists>b. decode_blake3 (bc_record_hash c) = Inr b)
     \<and> unat (bv_next_item_index v) + unat (bc_item_count c) < 2 ^ 64
     \<and> v' = after_chunks [c] v"
proof -
  have n: "checked_add (bv_next_item_index v) (ucast (bc_item_count c)) = Some m \<longleftrightarrow>
      unat (bv_next_item_index v) + unat (bc_item_count c) < 2 ^ 64
      \<and> m = bv_next_item_index v + of_nat (unat (bc_item_count c))" for m
  proof -
    have "(ucast (bc_item_count c) :: u64) = of_nat (unat (bc_item_count c))"
      unfolding unat_ucast_u32 [symmetric] by simp
    then show ?thesis by (auto simp: checked_add_def unat_ucast_u32)
  qed
  show ?thesis
    unfolding accept_chunk_def ebind_eq_Inr ensure_eq_Inr ok_or_eq_Inr n sum.inject
    by (auto simp: after_chunks_def chunk_bytes_def word_gt_0)
qed

lemma accept_chunks_tiles:
  "efold accept_chunk cs v = Inr v' \<longleftrightarrow>
     tiles (bv_batch_id v) (bv_limits v) (unat (bv_next_item_index v)) cs \<and> v' = after_chunks cs v"
proof (induction cs arbitrary: v)
  case Nil
  have "unat (bv_next_item_index v) < 2 ^ 64" using unsigned_less [of "bv_next_item_index v", where ?'a = nat] by simp
  then show ?case by (auto simp: after_chunks_def)
next
  case (Cons c cs)
  let ?w = "after_chunks [c] v"
  have w: "bv_batch_id ?w = bv_batch_id v" "bv_limits ?w = bv_limits v"
    by (simp_all add: after_chunks_def)
  have all: "after_chunks cs ?w = after_chunks (c # cs) v"
    by (simp add: after_chunks_def add.assoc)
  have next_item: "unat (bv_next_item_index ?w) = unat (bv_next_item_index v) + unat (bc_item_count c)"
    if "unat (bv_next_item_index v) + unat (bc_item_count c) < 2 ^ 64"
    using that by (simp add: after_chunks_def unat_word_ariths unat_ucast_u32)
  have bound: "unat (bv_next_item_index v) + unat (bc_item_count c) < 2 ^ 64"
    if "tiles i l (unat (bv_next_item_index v) + unat (bc_item_count c)) cs" for i l
    using tiles_bound [OF that] by simp
  have same: "unat (bc_first_item_index c) = unat (bv_next_item_index v) \<longleftrightarrow> bc_first_item_index c = bv_next_item_index v"
    by (rule unat_eq_iff_eq [symmetric])
  show ?case
    unfolding efold.simps ebind_eq_Inr accept_chunk_Inr tiles.simps same
    using Cons.IH [of ?w, unfolded w all] next_item bound by auto
qed

text \<open>Every item of an accepted batch is in exactly one chunk.\<close>

definition chunk_items :: "batch_chunk_descriptor \<Rightarrow> nat list" where
  "chunk_items c = [unat (bc_first_item_index c) ..< unat (bc_first_item_index c) + unat (bc_item_count c)]"

lemma tiles_items:
  "tiles batch_id limits start cs \<Longrightarrow>
   concat (map chunk_items cs) = [start ..< start + sum_list (map (\<lambda>c. unat (bc_item_count c)) cs)]"
proof (induction cs arbitrary: start)
  case (Cons c cs)
  then have "concat (map chunk_items cs) = [start + unat (bc_item_count c) ..<
      start + unat (bc_item_count c) + sum_list (map (\<lambda>c. unat (bc_item_count c)) cs)]"
    by (intro Cons.IH) simp
  moreover have "chunk_items c = [start ..< start + unat (bc_item_count c)]"
    using Cons.prems by (simp add: chunk_items_def)
  ultimately show ?case
    using upt_add_eq_append [of start "start + unat (bc_item_count c)"] by (simp add: add.assoc)
qed simp

lemma tiles_count: "tiles batch_id limits start cs \<Longrightarrow> length cs \<le> sum_list (map (\<lambda>c. unat (bc_item_count c)) cs)"
proof (induction cs arbitrary: start)
  case (Cons c cs)
  then have "tiles batch_id limits (start + unat (bc_item_count c)) cs" by simp
  then have "length cs \<le> sum_list (map (\<lambda>c. unat (bc_item_count c)) cs)" by (rule Cons.IH)
  moreover have "0 < unat (bc_item_count c)" using Cons.prems by (simp add: word_less_nat_alt)
  ultimately show ?case by simp
qed simp

definition items_digest :: "(bytes \<Rightarrow> bytes) \<Rightarrow> batch_chunk_descriptor list \<Rightarrow> bytes" where
  "items_digest blake3_hex cs = ''blake3:'' @ blake3_hex (DIGEST_DOMAIN @ concat (map chunk_bytes cs))"

lemma completion_after_chunks:
  assumes "tiles batch_id limits 0 cs"
    and "v = after_chunks cs \<lparr>bv_batch_id = batch_id, bv_limits = limits, bv_next_item_index = 0,
      bv_chunk_count = 0, bv_digest = DIGEST_DOMAIN\<rparr>"
  shows "validate_completion blake3_hex v completion = Inr () \<longleftrightarrow>
    cs \<noteq> [] \<and> unat (bco_total_items completion) = sum_list (map (\<lambda>c. unat (bc_item_count c)) cs)
    \<and> bco_ordered_item_digest completion = items_digest blake3_hex cs"
proof -
  let ?n = "sum_list (map (\<lambda>c. unat (bc_item_count c)) cs)"
  have n: "?n < 2 ^ 64" using tiles_bound [OF assms(1)] unfolding add_0 .
  then have l: "length cs < 2 ^ 64" using tiles_count [OF assms(1)] by (rule le_less_trans [rotated])
  have v: "bv_chunk_count v = of_nat (length cs)" "bv_next_item_index v = of_nat ?n"
    "bv_digest v = DIGEST_DOMAIN @ concat (map chunk_bytes cs)"
    unfolding assms(2) after_chunks_def by simp_all
  have "unat (of_nat (length cs) :: u64) = length cs" "unat (of_nat ?n :: u64) = ?n"
    by (rule unat_of_nat_u64 [OF l], rule unat_of_nat_u64 [OF n])
  then have "(of_nat (length cs) :: u64) \<noteq> 0 \<longleftrightarrow> cs \<noteq> []"
    "bco_total_items completion = of_nat ?n \<longleftrightarrow> unat (bco_total_items completion) = ?n"
    unfolding unat_eq_iff_eq by simp_all
  then show ?thesis
    unfolding validate_completion_def ordered_item_digest_def ebind_eq_Inr ensure_eq_Inr v items_digest_def
    by auto
qed

lemma validate_batch_accepts:
  "validate_batch blake3_hex batch_id limits chunks completion = Inr () \<longleftrightarrow>
     batch_id \<noteq> [] \<and> limits_validate limits = Inr limits \<and> chunks \<noteq> []
     \<and> tiles batch_id limits 0 chunks
     \<and> unat (bco_total_items completion) = sum_list (map (\<lambda>c. unat (bc_item_count c)) chunks)
     \<and> bco_ordered_item_digest completion = items_digest blake3_hex chunks"
proof -
  let ?v = "\<lparr>bv_batch_id = batch_id, bv_limits = limits, bv_next_item_index = 0, bv_chunk_count = 0,
    bv_digest = DIGEST_DOMAIN\<rparr>"
  have "limits_validate limits = Inr l \<longleftrightarrow> l = limits \<and> limits_validate limits = Inr limits" for l
    by (auto simp: limits_validate_def)
  then have new: "batch_validator_new batch_id limits = Inr v \<longleftrightarrow>
      batch_id \<noteq> [] \<and> limits_validate limits = Inr limits \<and> v = ?v" for v
    unfolding batch_validator_new_def ebind_eq_Inr ensure_eq_Inr sum.inject by blast
  have run: "efold accept_chunk chunks ?v = Inr v \<longleftrightarrow> tiles batch_id limits 0 chunks \<and> v = after_chunks chunks ?v" for v
    unfolding accept_chunks_tiles by simp
  have "validate_batch blake3_hex batch_id limits chunks completion = Inr () \<longleftrightarrow>
      batch_id \<noteq> [] \<and> limits_validate limits = Inr limits \<and> tiles batch_id limits 0 chunks
      \<and> validate_completion blake3_hex (after_chunks chunks ?v) completion = Inr ()"
    unfolding validate_batch_def ebind_eq_Inr new by (auto simp only: run ex_simps simp_thms)
  then show ?thesis using completion_after_chunks [OF _ refl] by blast
qed

section \<open>What is accepted\<close>

text \<open>
  C17. A batch is accepted if and only if its name is not empty, its limits are within the
  defaults, it has a chunk, the chunks tile the item numbers from zero on within the limits and
  have well-formed hashes, and the completion names the number of items and the digest of the
  ordered chunks; the items of the chunks are then the numbers below the total, each once and in
  order.
\<close>

theorem validate_batch_exact:
  "(validate_batch blake3_hex batch_id limits chunks completion = Inr () \<longleftrightarrow>
     batch_id \<noteq> [] \<and> limits_validate limits = Inr limits \<and> chunks \<noteq> []
     \<and> tiles batch_id limits 0 chunks
     \<and> concat (map chunk_items chunks) = [0 ..< unat (bco_total_items completion)]
     \<and> bco_ordered_item_digest completion = items_digest blake3_hex chunks)"
proof -
  have "[0..<a] = [0..<b] \<longleftrightarrow> a = b" for a b :: nat by (metis diff_zero length_upt)
  then have "tiles batch_id limits 0 chunks \<Longrightarrow>
      concat (map chunk_items chunks) = [0 ..< unat (bco_total_items completion)] \<longleftrightarrow>
      unat (bco_total_items completion) = sum_list (map (\<lambda>c. unat (bc_item_count c)) chunks)"
    using tiles_items [of batch_id limits 0 chunks] unfolding add_0 by (metis (no_types))
  then show ?thesis unfolding validate_batch_accepts by (simp only: cong: conj_cong)
qed

lemma length_chunk_bytes:
  "decode_blake3 (bc_record_hash c) = Inr b \<Longrightarrow> length (chunk_bytes c) = 44"
  using length_decode_blake3 [of "bc_record_hash c" b] by (simp add: chunk_bytes_def)

lemma chunk_bytes_inj:
  assumes "chunk_bytes c = chunk_bytes d"
    and "decode_blake3 (bc_record_hash c) = Inr b" "decode_blake3 (bc_record_hash d) = Inr e"
  shows "bc_first_item_index c = bc_first_item_index d \<and> bc_item_count c = bc_item_count d
    \<and> bc_record_hash c = bc_record_hash d"
proof -
  have eqs: "be_bytes 8 (bc_first_item_index c) = be_bytes 8 (bc_first_item_index d)"
    "be_bytes 4 (bc_item_count c) = be_bytes 4 (bc_item_count d)" "b = e"
    using assms(1) unfolding chunk_bytes_def assms(2,3) by simp_all
  have "bc_first_item_index c = bc_first_item_index d" by (rule be_bytes_inj [OF eqs(1)]) simp
  moreover have "bc_item_count c = bc_item_count d" by (rule be_bytes_inj [OF eqs(2)]) simp
  moreover have "bc_record_hash c = bc_record_hash d"
    by (rule decode_blake3_inj [OF assms(2) assms(3) [folded eqs(3)]])
  ultimately show ?thesis by blast
qed

definition chunk_key :: "batch_chunk_descriptor \<Rightarrow> u64 \<times> u32 \<times> bytes" where
  "chunk_key c = (bc_first_item_index c, bc_item_count c, bc_record_hash c)"

lemma concat_chunks_inj:
  assumes "concat (map chunk_bytes cs) = concat (map chunk_bytes ds)"
    and "tiles i l s cs" "tiles i' l' s' ds"
  shows "map chunk_key cs = map chunk_key ds"
  using assms
proof (induction cs arbitrary: ds s s')
  case Nil
  show ?case
  proof (cases ds)
    case (Cons d ds')
    then obtain e where "decode_blake3 (bc_record_hash d) = Inr e" using Nil.prems(3) by auto
    from length_chunk_bytes [OF this] Nil.prems(1) Cons show ?thesis by simp
  qed simp
next
  case (Cons c cs)
  obtain b where b: "decode_blake3 (bc_record_hash c) = Inr b"
    and cs: "tiles i l (s + unat (bc_item_count c)) cs" using Cons.prems(2) by auto
  show ?case
  proof (cases ds)
    case Nil
    with length_chunk_bytes [OF b] Cons.prems(1) show ?thesis by simp
  next
    case (Cons d ds')
    then obtain e where e: "decode_blake3 (bc_record_hash d) = Inr e"
      and ds': "tiles i' l' (s' + unat (bc_item_count d)) ds'" using Cons.prems(3) by auto
    have eq: "chunk_bytes c = chunk_bytes d" "concat (map chunk_bytes cs) = concat (map chunk_bytes ds')"
      using Cons.prems(1) length_chunk_bytes [OF b] length_chunk_bytes [OF e] Cons by simp_all
    show ?thesis
      using chunk_bytes_inj [OF eq(1) b e] Cons.IH [OF eq(2) cs ds'] Cons by (simp add: chunk_key_def)
  qed
qed

text \<open>
  C36. A completion commits to the batch: when two accepted batches carry the same completion
  digest and the hash does not map their two different inputs to one value, the batches have the
  same chunks, in the same order, with the same positions, sizes and record hashes.
\<close>

theorem completion_commits_to_chunks:
  assumes "validate_batch blake3_hex batch_id limits chunks completion = Inr ()"
    and "validate_batch blake3_hex batch_id' limits' chunks' completion' = Inr ()"
    and "bco_ordered_item_digest completion = bco_ordered_item_digest completion'"
    and "inj_on blake3_hex {DIGEST_DOMAIN @ concat (map chunk_bytes chunks), DIGEST_DOMAIN @ concat (map chunk_bytes chunks')}"
  shows "map chunk_key chunks = map chunk_key chunks' \<and> bco_total_items completion = bco_total_items completion'"
proof -
  note a = assms(1) [unfolded validate_batch_accepts] and b = assms(2) [unfolded validate_batch_accepts]
  have "items_digest blake3_hex chunks = items_digest blake3_hex chunks'" using a b assms(3) by simp
  then have "blake3_hex (DIGEST_DOMAIN @ concat (map chunk_bytes chunks)) = blake3_hex (DIGEST_DOMAIN @ concat (map chunk_bytes chunks'))"
    unfolding items_digest_def by simp
  then have "DIGEST_DOMAIN @ concat (map chunk_bytes chunks) = DIGEST_DOMAIN @ concat (map chunk_bytes chunks')"
    using inj_onD [OF assms(4)] by blast
  then have keys: "map chunk_key chunks = map chunk_key chunks'"
    unfolding same_append_eq by (rule concat_chunks_inj) (use a b in blast)+
  have total: "map (\<lambda>c. unat (bc_item_count c)) cs = map (\<lambda>k. unat (fst (snd k))) (map chunk_key cs)" for cs
    by (simp add: chunk_key_def)
  have "unat (bco_total_items completion) = unat (bco_total_items completion')"
    using a b keys unfolding total by simp
  then show ?thesis using keys unat_eq_iff_eq by blast
qed

section \<open>A sample batch\<close>

lemma decode_pairs_total: "(\<And>c. c \<in> set xs \<Longrightarrow> \<not> isl (decode_nibble c)) \<Longrightarrow> \<not> isl (decode_pairs xs)"
proof (induction xs rule: decode_pairs.induct)
  case (1 h l rest)
  then obtain a b r where "decode_nibble h = Inr a" "decode_nibble l = Inr b" "decode_pairs rest = Inr r"
    by (metis isl_def list.set_intros sum.exhaust)
  then show ?case by simp
qed simp_all

definition sample_chunk :: "bytes \<Rightarrow> u64 \<Rightarrow> u32 \<Rightarrow> char \<Rightarrow> batch_chunk_descriptor" where
  "sample_chunk name first count digit = \<lparr>bc_batch_id = name, bc_first_item_index = first, bc_item_count = count,
     bc_serialized_bytes = 512, bc_record_hash = ''blake3:'' @ replicate 64 digit\<rparr>"

definition sample_chunks :: "bytes \<Rightarrow> batch_chunk_descriptor list" where
  "sample_chunks name = [sample_chunk name 0 1000 (CHR ''a''), sample_chunk name 1000 4 (CHR ''b'')]"

definition sample_completion :: "bytes \<Rightarrow> batch_completion" where
  "sample_completion name = \<lparr>bco_total_items = 1004, bco_ordered_item_digest = items_digest id (sample_chunks name)\<rparr>"

lemma sample_record_hash: "\<not> isl (decode_nibble d) \<Longrightarrow> \<exists>b. decode_blake3 (''blake3:'' @ replicate 64 d) = Inr b"
proof -
  assume d: "\<not> isl (decode_nibble d)"
  have "\<not> isl (decode_pairs (replicate 64 d))"
    by (rule decode_pairs_total) (metis d in_set_replicate)
  then obtain b where "decode_pairs (replicate 64 d) = Inr b" by (metis isl_def sum.exhaust)
  then show ?thesis
    unfolding decode_blake3_def ebind_eq_Inr ok_or_eq_Inr ensure_eq_Inr strip_prefix_eq_Some
    by (intro exI [of _ b] exI [of _ "replicate 64 d"] exI [of _ "()"] conjI refl) simp_all
qed

lemma sample_batch_accepted:
  assumes "name \<noteq> []"
  shows "validate_batch id name default_limits (sample_chunks name) (sample_completion name) = Inr ()"
proof -
  have "limits_validate default_limits = Inr default_limits"
    by (simp add: limits_validate_def default_limits_def DEFAULT_MAX_BATCH_CHUNK_ITEMS_def
      DEFAULT_MAX_BATCH_CHUNK_BYTES_def)
  moreover have "\<exists>b. decode_blake3 (''blake3:'' @ replicate 64 (CHR ''a'')) = Inr b"
    "\<exists>b. decode_blake3 (''blake3:'' @ replicate 64 (CHR ''b'')) = Inr b"
    by (rule sample_record_hash, code_simp)+
  then have "tiles name default_limits 0 (sample_chunks name)"
    unfolding sample_chunks_def sample_chunk_def tiles.simps batch_chunk_descriptor.simps default_limits_def
      batch_limits.simps
    by (simp add: DEFAULT_MAX_BATCH_CHUNK_ITEMS_def DEFAULT_MAX_BATCH_CHUNK_BYTES_def
      del: replicate.simps append_Cons)
  ultimately show ?thesis
    unfolding validate_batch_accepts sample_completion_def batch_completion.simps
    using assms by (simp add: sample_chunks_def sample_chunk_def)
qed

theorem completion_commits_to_chunks_witness:
  "map chunk_key (sample_chunks ''batch'') = map chunk_key (sample_chunks ''copy'')
   \<and> bco_total_items (sample_completion ''batch'') = bco_total_items (sample_completion ''copy'')"
proof (rule completion_commits_to_chunks [OF sample_batch_accepted sample_batch_accepted])
  have "map chunk_bytes (sample_chunks ''batch'') = map chunk_bytes (sample_chunks ''copy'')"
    by (simp only: sample_chunks_def sample_chunk_def chunk_bytes_def batch_chunk_descriptor.simps list.map)
  then show "bco_ordered_item_digest (sample_completion ''batch'') = bco_ordered_item_digest (sample_completion ''copy'')"
    by (simp only: sample_completion_def items_digest_def batch_completion.simps)
  show "inj_on id {DIGEST_DOMAIN @ concat (map chunk_bytes (sample_chunks ''batch'')),
      DIGEST_DOMAIN @ concat (map chunk_bytes (sample_chunks ''copy''))}" by (rule inj_on_id)
qed simp_all

end
