(* ===== verification/Origin_Records.thy ===== *)
theory Origin_Records
  imports Genesis Batch_Validation Event_Chain
begin

text \<open>
  The strict parser of the version 2 record envelope (\<open>src/src/v2_event.rs\<close>). A record is one
  line of an origin's journal; it names its origin, its sequence number and the hash of the
  origin's previous record, so the lines an origin accepts form a hash chain.
\<close>

section \<open>Records\<close>

definition DEFAULT_MAX_V2_RECORD_BYTES :: u64 where
  "DEFAULT_MAX_V2_RECORD_BYTES = DEFAULT_MAX_BATCH_CHUNK_BYTES"

definition CR :: char where "CR = CHR 0x0D"

datatype v2_record_error =
    VrContainsNewline
  | VrTooManyBytes u64 u64
  | VrInvalidJson bytes
  | VrUnsupportedVersion u32 u32
  | VrOriginMismatch bytes bytes
  | VrInvalidOriginId bytes
  | VrSequenceMismatch u64 u64
  | VrInvalidRecordId
  | VrInvalidBatchId
  | VrInvalidPayload
  | VrPreviousHashMismatch

datatype v2_record_kind = BatchStart | BatchChunk | BatchComplete

record v2_record_envelope =
  ve_v :: u32
  ve_origin_id :: bytes
  ve_origin_seq :: u64
  ve_record_id :: bytes
  ve_record_kind :: v2_record_kind
  ve_time_utc_ms :: u64
  ve_batch_id :: bytes
  ve_previous_record_hash :: "bytes option"
  ve_payload :: json

record v2_record =
  vr_envelope :: v2_record_envelope
  vr_record_hash :: bytes

text \<open>The JSON parser and the ULID parser.\<close>

record record_codec =
  record_from_slice :: "bytes \<Rightarrow> bytes + v2_record_envelope"
  record_ulid_ok :: "bytes \<Rightarrow> bool"

definition parse_v2_record ::
  "crypto \<Rightarrow> record_codec \<Rightarrow> bytes \<Rightarrow> bytes \<Rightarrow> u64 \<Rightarrow> bytes option \<Rightarrow> u64 \<Rightarrow> v2_record_error + v2_record" where
  "parse_v2_record cr rc line expected_origin_id expected_origin_seq expected_previous_hash max_record_bytes =
     ebind (ensure (\<not> (NL \<in> set line \<or> CR \<in> set line)) VrContainsNewline) (\<lambda>_.
     let effective_max = min max_record_bytes DEFAULT_MAX_V2_RECORD_BYTES in
     ebind (ensure (int (length line) \<le> uint effective_max) (VrTooManyBytes (of_nat (length line)) effective_max)) (\<lambda>_.
     ebind (map_err VrInvalidJson (record_from_slice rc line)) (\<lambda>envelope.
     ebind (ensure (ve_v envelope = V2_RECORD_VERSION) (VrUnsupportedVersion (ve_v envelope) V2_RECORD_VERSION)) (\<lambda>_.
     ebind (ensure (is_origin_id (ve_origin_id envelope)) (VrInvalidOriginId (ve_origin_id envelope))) (\<lambda>_.
     ebind (ensure (ve_origin_id envelope = expected_origin_id)
       (VrOriginMismatch expected_origin_id (ve_origin_id envelope))) (\<lambda>_.
     ebind (ensure (\<not> (ve_origin_seq envelope \<noteq> expected_origin_seq \<or> expected_origin_seq = 0))
       (VrSequenceMismatch expected_origin_seq (ve_origin_seq envelope))) (\<lambda>_.
     ebind (ensure (is_prefixed_lowercase_ulid (record_ulid_ok rc) (ve_record_id envelope) ''rec_'') VrInvalidRecordId) (\<lambda>_.
     ebind (ensure (is_prefixed_lowercase_ulid (record_ulid_ok rc) (ve_batch_id envelope) ''batch_'') VrInvalidBatchId) (\<lambda>_.
     ebind (ensure (json_is_object (ve_payload envelope)) VrInvalidPayload) (\<lambda>_.
     ebind (ensure (\<not> (ve_previous_record_hash envelope \<noteq> expected_previous_hash
         \<or> (case ve_previous_record_hash envelope of None \<Rightarrow> False | Some hash \<Rightarrow> \<not> is_blake3_identifier hash)
         \<or> expected_origin_seq = 1 \<and> ve_previous_record_hash envelope \<noteq> None
         \<or> 1 < expected_origin_seq \<and> ve_previous_record_hash envelope = None)) VrPreviousHashMismatch) (\<lambda>_.
     Inr \<lparr>vr_envelope = envelope, vr_record_hash = blake3_id cr line\<rparr>)))))))))))"

section \<open>What the parser accepts\<close>

definition envelope_ok :: "record_codec \<Rightarrow> v2_record_envelope \<Rightarrow> bytes \<Rightarrow> u64 \<Rightarrow> bytes option \<Rightarrow> bool" where
  "envelope_ok rc e origin seq prev \<longleftrightarrow>
     ve_v e = V2_RECORD_VERSION \<and> is_origin_id origin \<and> ve_origin_id e = origin
     \<and> ve_origin_seq e = seq \<and> 0 < seq
     \<and> is_prefixed_lowercase_ulid (record_ulid_ok rc) (ve_record_id e) ''rec_''
     \<and> is_prefixed_lowercase_ulid (record_ulid_ok rc) (ve_batch_id e) ''batch_''
     \<and> json_is_object (ve_payload e) \<and> ve_previous_record_hash e = prev
     \<and> (seq = 1 \<longrightarrow> prev = None)
     \<and> (1 < seq \<longrightarrow> (case prev of None \<Rightarrow> False | Some h \<Rightarrow> is_blake3_identifier h))"

definition record_line :: "record_codec \<Rightarrow> u64 \<Rightarrow> bytes \<Rightarrow> u64 \<Rightarrow> bytes option \<Rightarrow> bytes \<Rightarrow> v2_record_envelope \<Rightarrow> bool" where
  "record_line rc mx origin seq prev l e \<longleftrightarrow>
     NL \<notin> set l \<and> CR \<notin> set l \<and> int (length l) \<le> uint (min mx DEFAULT_MAX_V2_RECORD_BYTES)
     \<and> record_from_slice rc l = Inr e \<and> envelope_ok rc e origin seq prev"

lemma previous_hash_condition:
  "0 < (seq :: u64) \<Longrightarrow>
    \<not> (p \<noteq> prev \<or> (case p of None \<Rightarrow> False | Some h \<Rightarrow> \<not> is_blake3_identifier h)
       \<or> seq = 1 \<and> p \<noteq> None \<or> 1 < seq \<and> p = None)
    \<longleftrightarrow> p = prev \<and> (seq = 1 \<longrightarrow> prev = None) \<and> (1 < seq \<longrightarrow> (case prev of None \<Rightarrow> False | Some h \<Rightarrow> is_blake3_identifier h))"
proof -
  assume "0 < seq"
  then have "seq = 1 \<or> 1 < seq" by (simp add: word_less_nat_alt unat_eq_iff_eq) linarith
  then show ?thesis by (cases p; cases prev) auto
qed

lemma parse_v2_record_Inr:
  "parse_v2_record cr rc l origin seq prev mx = Inr r \<longleftrightarrow>
     (\<exists>e. record_line rc mx origin seq prev l e \<and> r = \<lparr>vr_envelope = e, vr_record_hash = blake3_id cr l\<rparr>)"
proof -
  have seq: "\<not> (ve_origin_seq e \<noteq> seq \<or> seq = 0) \<longleftrightarrow> ve_origin_seq e = seq \<and> 0 < seq" for e
    by (simp add: word_gt_0)
  show ?thesis
    unfolding parse_v2_record_def Let_def ebind_eq_Inr ensure_eq_Inr map_err_eq_Inr sum.inject seq
      record_line_def envelope_ok_def
    by (simp only: previous_hash_condition cong: conj_cong) blast
qed

lemma envelope_ok_unique:
  "envelope_ok rc e origin seq prev \<Longrightarrow> envelope_ok rc e origin' seq' prev' \<Longrightarrow> origin = origin' \<and> seq = seq' \<and> prev = prev'"
  by (auto simp: envelope_ok_def)

text \<open>
  A record cannot be replayed elsewhere: a line that the parser accepts for an origin, a
  sequence number and a previous hash is refused for every other origin, number or previous
  hash, whatever the size limit.
\<close>

theorem record_has_one_position:
  assumes "parse_v2_record cr rc line origin seq prev mx = Inr r"
    and "(origin', seq', prev') \<noteq> (origin, seq, prev)"
  shows "isl (parse_v2_record cr rc line origin' seq' prev' mx')"
proof (cases "parse_v2_record cr rc line origin' seq' prev' mx'")
  case (Inr r')
  then have "origin = origin' \<and> seq = seq' \<and> prev = prev'"
    using assms(1) envelope_ok_unique unfolding parse_v2_record_Inr record_line_def by auto
  with assms(2) show ?thesis by simp
qed simp

section \<open>The journal of an origin is a hash chain\<close>

definition record_follows :: "record_codec \<Rightarrow> bytes \<Rightarrow> u64 \<Rightarrow> bytes option \<Rightarrow> bytes \<Rightarrow> bool" where
  "record_follows rc origin seq prev l \<longleftrightarrow> (\<exists>e. record_from_slice rc l = Inr e \<and> envelope_ok rc e origin seq prev)"

interpretation origin_journal: hash_chain "blake3_id cr" "record_follows rc origin" "\<lambda>seq. seq + 1"
  for cr rc origin
  by unfold_locales (auto simp: record_follows_def dest: envelope_ok_unique)

lemma parsed_follows:
  "parse_v2_record cr rc l origin seq prev mx = Inr r \<Longrightarrow> record_follows rc origin seq prev l \<and> vr_record_hash r = blake3_id cr l"
  unfolding parse_v2_record_Inr record_line_def record_follows_def by auto

section \<open>A sample journal\<close>

text \<open>Lines of a parser that understands the numbers 1 and 2.\<close>

definition sample_origin_id :: bytes where "sample_origin_id = ''origin_'' @ replicate 64 (CHR ''7'')"

definition sample_record_line :: "nat \<Rightarrow> bytes" where "sample_record_line n = [char_of (n + 48)]"

definition sample_v2_envelope :: "nat \<Rightarrow> v2_record_envelope" where
  "sample_v2_envelope n = \<lparr>ve_v = V2_RECORD_VERSION, ve_origin_id = sample_origin_id, ve_origin_seq = of_nat n,
     ve_record_id = ''rec_'', ve_record_kind = BatchStart, ve_time_utc_ms = 0, ve_batch_id = ''batch_'',
     ve_previous_record_hash = (if n = 1 then None else Some (blake3_id sample_crypto (sample_record_line (n - 1)))),
     ve_payload = JObj []\<rparr>"

definition sample_record_codec :: record_codec where
  "sample_record_codec = \<lparr>record_from_slice = (\<lambda>l. if l = sample_record_line 1 then Inr (sample_v2_envelope 1)
       else if l = sample_record_line 2 then Inr (sample_v2_envelope 2) else Inl []), record_ulid_ok = (\<lambda>_. True)\<rparr>"

definition sample_v2_record :: v2_record where
  "sample_v2_record = \<lparr>vr_envelope = sample_v2_envelope 1, vr_record_hash = blake3_id sample_crypto (sample_record_line 1)\<rparr>"

lemma sample_record_parsed:
  "parse_v2_record sample_crypto sample_record_codec (sample_record_line 1) sample_origin_id 1 None DEFAULT_MAX_V2_RECORD_BYTES
   = Inr sample_v2_record"
  by code_simp

theorem record_has_one_position_witness:
  "isl (parse_v2_record sample_crypto sample_record_codec (sample_record_line 1) sample_origin_id 2 (Some ''x'') 99)"
  by (rule record_has_one_position [OF sample_record_parsed]) simp

end
