(* ===== verification/Origin_Data.thy ===== *)
theory Origin_Data
  imports Origin_Records
begin

text \<open>
  The data of the version 2 event tree (\<open>src/src/v2_store.rs\<close>): errors, manifests, verified
  records, clients, leases, and the files they are read from. The tree is the contents of its
  files and the names in its directories, by the path below its root; the paths in errors are
  below the root, too.
\<close>

section \<open>Data\<close>

datatype v2_store_error =
    VsPublicationRecoveryRefused bytes
  | VsAppendRecoveryRefused bytes
  | VsInvalid bytes
  | VsIo bytes bytes
  | VsJson bytes
  | VsGenesis genesis_error
  | VsFrontier frontier_error
  | VsRecord v2_record_error
  | VsBatch batch_validation_error
  | VsGit bytes
  | VsCursorNotFound bytes
  | VsCursorNotReachable bytes bytes
  | VsCursorArchiveMismatch bytes

fun v2_store_error_code :: "v2_store_error \<Rightarrow> bytes" where
  "v2_store_error_code (VsPublicationRecoveryRefused _) = ''v2_publication_recovery_refused''"
| "v2_store_error_code (VsAppendRecoveryRefused _) = ''v2_append_recovery_refused''"
| "v2_store_error_code (VsIo _ _) = ''v2_store_io''"
| "v2_store_error_code (VsJson _) = ''v2_store_json_invalid''"
| "v2_store_error_code (VsGit _) = ''v2_store_git''"
| "v2_store_error_code (VsCursorNotFound _) = ''cursor_not_found''"
| "v2_store_error_code (VsCursorNotReachable _ _) = ''cursor_not_reachable''"
| "v2_store_error_code (VsCursorArchiveMismatch _) = ''cursor_archive_mismatch''"
| "v2_store_error_code _ = ''v2_event_tree_invalid''"

record tree =
  tr_file :: "bytes \<Rightarrow> bytes option"
  tr_entries :: "bytes \<Rightarrow> bytes list option"

record segment_manifest_body =
  sb_manifest_v :: u32
  sb_archive_id :: bytes
  sb_genesis_hash :: bytes
  sb_origin_id :: bytes
  sb_segment_path :: bytes
  sb_first_seq :: u64
  sb_last_seq :: u64
  sb_first_record_id :: bytes
  sb_last_record_id :: bytes
  sb_first_record_hash :: bytes
  sb_last_record_hash :: bytes
  sb_record_count :: u64
  sb_segment_bytes :: u64
  sb_segment_blake3 :: bytes
  sb_causal_base_frontier_hash :: bytes
  sb_previous_segment_manifest_hash :: "bytes option"

record signed_segment_manifest =
  sm_body :: segment_manifest_body
  sm_signature :: bytes

record verified_v2_record =
  vv_record :: v2_record
  vv_line :: bytes
  vv_segment_manifest_hash :: bytes
  vv_causal_frontier_hash :: bytes

record v2_origin_cursor =
  oc_applied_seq :: u64
  oc_applied_record_hash :: "bytes option"
  oc_applied_segment_manifest_hash :: "bytes option"

record v2_client =
  cl_client_id :: bytes
  cl_display_name :: bytes
  cl_public_key :: bytes
  cl_capabilities :: "bytes list"
  cl_approved_origin_id :: bytes
  cl_approved_origin_seq :: u64
  cl_revoked_origin_id :: "bytes option"
  cl_revoked_origin_seq :: "u64 option"

record coordination_lease_body =
  lb_lease_v :: u32
  lb_archive_id :: bytes
  lb_genesis_hash :: bytes
  lb_scope_kind :: bytes
  lb_scope_id :: bytes
  lb_token_id :: bytes
  lb_holder_client_id :: bytes
  lb_base_frontier_hash :: bytes
  lb_state :: bytes
  lb_not_before_utc_ms :: u64
  lb_not_after_utc_ms :: u64
  lb_previous_lease_commit :: "bytes option"

record signed_coordination_lease =
  sl_body :: coordination_lease_body
  sl_signature :: bytes

text \<open>
  Third-party code: cryptography and the JSON forms of the documents. A parser that fails gives
  nothing; the text of its error is not modelled.
\<close>

record origin_codec =
  oc_crypto :: crypto
  oc_records :: record_codec
  oc_genesis :: genesis_codec
  manifest_body_to_vec :: "segment_manifest_body \<Rightarrow> bytes + bytes"
  manifest_to_vec :: "signed_segment_manifest \<Rightarrow> bytes + bytes"
  manifest_from_slice :: "bytes \<Rightarrow> signed_segment_manifest option"
  genesis_from_slice :: "bytes \<Rightarrow> signed_genesis option"
  frontier_to_vec :: "causal_frontier \<Rightarrow> bytes + bytes"
  frontier_from_slice :: "bytes \<Rightarrow> causal_frontier option"
  lease_body_to_vec :: "coordination_lease_body \<Rightarrow> bytes + bytes"
  lease_from_value :: "json \<Rightarrow> signed_coordination_lease option"

definition V2_MANIFEST_VERSION :: u32 where "V2_MANIFEST_VERSION = 2"

section \<open>Files\<close>

definition read_file :: "tree \<Rightarrow> bytes \<Rightarrow> v2_store_error + bytes" where
  "read_file t path = ok_or (tr_file t path) (VsIo ''read canonical file'' path)"

definition canonical_json :: "('a \<Rightarrow> bytes + bytes) \<Rightarrow> 'a \<Rightarrow> v2_store_error + bytes" where
  "canonical_json to_vec v =
     map_err (\<lambda>e. VsInvalid (''deterministic JSON serialization failed: '' @ e)) (to_vec v)"

definition validate_blake3_id :: "bytes \<Rightarrow> bytes \<Rightarrow> v2_store_error + unit" where
  "validate_blake3_id field v =
     ensure (is_blake3_identifier v) (VsInvalid (field @ '' is not a lowercase BLAKE3 identifier''))"

definition validate_origin_id :: "bytes \<Rightarrow> v2_store_error + unit" where
  "validate_origin_id v =
     ensure (is_origin_id v) (VsInvalid ''client origin ID is not lowercase origin_<blake3-hex>'')"

definition segment_relative_path :: "bytes \<Rightarrow> u64 \<Rightarrow> bytes" where
  "segment_relative_path origin number =
     ''events/v2/origins/'' @ origin @ ''/seg-'' @ zero_padded 12 (unat number) @ ''.jsonl''"

definition manifest_relative_path :: "bytes \<Rightarrow> u64 \<Rightarrow> bytes" where
  "manifest_relative_path origin number =
     ''manifests/v2/origins/'' @ origin @ ''/seg-'' @ zero_padded 12 (unat number) @ ''.manifest.json''"

text \<open>The sorted files of a directory whose names have a suffix; names that are no UTF-8 are skipped.\<close>

definition read_sorted_files :: "tree \<Rightarrow> bytes \<Rightarrow> bytes \<Rightarrow> v2_store_error + bytes list" where
  "read_sorted_files t dir suffix =
     ebind (ok_or (tr_entries t dir) (VsIo ''read origin manifest directory'' dir)) (\<lambda>names.
     let paths = map (\<lambda>name. dir @ ''/'' @ name)
       (sort (filter (\<lambda>name. is_utf8 name \<and> ends_with name suffix) names)) in
     ebind (ensure (distinct paths) (VsInvalid ''duplicate origin manifest path'')) (\<lambda>_.
     Inr paths))"

lemma read_file_Inr [result_simps]: "read_file t path = Inr b \<longleftrightarrow> tr_file t path = Some b"
  by (simp add: read_file_def ok_or_eq_Inr)

end
