(* ===== verification/Origin_Segments.thy ===== *)
theory Origin_Segments
  imports Origin_Data
begin

text \<open>
  The signed segments of an origin's journal (\<open>src/src/v2_store.rs\<close>): manifests, the
  verification of one segment, of a whole origin (\<open>verify_origin\<close>) and of the part after a
  cursor (\<open>verify_origin_range\<close>).
\<close>

section \<open>Manifests\<close>

definition validate_manifest_body :: "segment_manifest_body \<Rightarrow> v2_store_error + unit" where
  "validate_manifest_body b =
     ebind (ensure (\<not> (sb_manifest_v b \<noteq> V2_MANIFEST_VERSION \<or> sb_archive_id b = [] \<or> sb_origin_id b = []
         \<or> sb_first_seq b = 0 \<or> sb_last_seq b < sb_first_seq b
         \<or> sb_record_count b \<noteq> sb_last_seq b - sb_first_seq b + 1 \<or> sb_segment_bytes b = 0))
       (VsInvalid ''segment manifest has invalid structural fields'')) (\<lambda>_.
     ebind (validate_blake3_id ''genesis_hash'' (sb_genesis_hash b)) (\<lambda>_.
     ebind (validate_blake3_id ''first_record_hash'' (sb_first_record_hash b)) (\<lambda>_.
     ebind (validate_blake3_id ''last_record_hash'' (sb_last_record_hash b)) (\<lambda>_.
     ebind (validate_blake3_id ''segment_blake3'' (sb_segment_blake3 b)) (\<lambda>_.
     ebind (validate_blake3_id ''causal_base_frontier_hash'' (sb_causal_base_frontier_hash b)) (\<lambda>_.
     (case sb_previous_segment_manifest_hash b of
        None \<Rightarrow> Inr ()
      | Some previous \<Rightarrow> validate_blake3_id ''previous_segment_manifest_hash'' previous)))))))"

definition manifest_create ::
  "origin_codec \<Rightarrow> segment_manifest_body \<Rightarrow> bytes \<Rightarrow> v2_store_error + signed_segment_manifest" where
  "manifest_create oc body signing_key =
     ebind (validate_manifest_body body) (\<lambda>_.
     ebind (canonical_json (manifest_body_to_vec oc) body) (\<lambda>message.
     Inr \<lparr>sm_body = body,
          sm_signature = base64_encode (oc_crypto oc) (sign_bytes (oc_crypto oc) signing_key message)\<rparr>))"

definition manifest_verify ::
  "origin_codec \<Rightarrow> signed_segment_manifest \<Rightarrow> bytes \<Rightarrow> v2_store_error + unit" where
  "manifest_verify oc m key =
     ebind (validate_manifest_body (sm_body m)) (\<lambda>_.
     ebind (ok_or (base64_decode (oc_crypto oc) (sm_signature m))
       (VsInvalid ''segment manifest signature is not base64'')) (\<lambda>s.
     ebind (ensure (signature_ok (oc_crypto oc) s)
       (VsInvalid ''segment manifest signature has the wrong length'')) (\<lambda>_.
     ebind (canonical_json (manifest_body_to_vec oc) (sm_body m)) (\<lambda>message.
     ensure (verify_strict (oc_crypto oc) key message s) (VsInvalid ''segment manifest signature is invalid'')))))"

definition manifest_hash :: "origin_codec \<Rightarrow> signed_segment_manifest \<Rightarrow> v2_store_error + bytes" where
  "manifest_hash oc m = ebind (canonical_json (manifest_to_vec oc) m) (\<lambda>b. Inr (blake3_id (oc_crypto oc) b))"

text \<open>Reading a manifest: its bytes have to be the deterministic ones, its signature that of the key.\<close>

definition load_signed_manifest ::
  "origin_codec \<Rightarrow> tree \<Rightarrow> bytes \<Rightarrow> bytes \<Rightarrow> v2_store_error + signed_segment_manifest" where
  "load_signed_manifest oc t key path =
     ebind (read_file t path) (\<lambda>b.
     ebind (ok_or (manifest_from_slice oc b) (VsJson path)) (\<lambda>m.
     ebind (canonical_json (manifest_to_vec oc) m) (\<lambda>canonical.
     ebind (ensure (canonical = b) (VsInvalid (path @ '' does not use deterministic bytes''))) (\<lambda>_.
     ebind (manifest_verify oc m key) (\<lambda>_.
     Inr m)))))"

section \<open>One segment\<close>

text \<open>The loop over the lines of a segment file.\<close>

record line_state =
  li_expected_seq :: u64
  li_previous_hash :: "bytes option"
  li_records :: "verified_v2_record list"

definition verify_record_line ::
  "origin_codec \<Rightarrow> bytes \<Rightarrow> segment_manifest_body \<Rightarrow> bytes \<Rightarrow> bytes \<Rightarrow> line_state \<Rightarrow> v2_store_error + line_state" where
  "verify_record_line oc origin body mh line st =
     ebind (ensure (line \<noteq> []) (VsInvalid (''segment contains an empty line at '' @ sb_segment_path body))) (\<lambda>_.
     ebind (map_err VsRecord (parse_v2_record (oc_crypto oc) (oc_records oc) line origin (li_expected_seq st)
       (li_previous_hash st) DEFAULT_MAX_V2_RECORD_BYTES)) (\<lambda>record.
     ebind (ok_or (checked_add (li_expected_seq st) 1) (VsInvalid ''origin sequence overflow'')) (\<lambda>next_seq.
     Inr \<lparr>li_expected_seq = next_seq, li_previous_hash = Some (vr_record_hash record),
          li_records = li_records st @ [\<lparr>vv_record = record, vv_line = line, vv_segment_manifest_hash = mh,
            vv_causal_frontier_hash = sb_causal_base_frontier_hash body\<rparr>]\<rparr>)))"

definition range_matches :: "segment_manifest_body \<Rightarrow> verified_v2_record list \<Rightarrow> bool" where
  "range_matches body records \<longleftrightarrow>
     (let first = vv_record (hd records); final = vv_record (last records) in
      sb_last_seq body = ve_origin_seq (vr_envelope final)
      \<and> sb_first_record_id body = ve_record_id (vr_envelope first)
      \<and> sb_last_record_id body = ve_record_id (vr_envelope final)
      \<and> sb_first_record_hash body = vr_record_hash first
      \<and> sb_last_record_hash body = vr_record_hash final
      \<and> length records = unat (sb_record_count body))"

definition verify_segment_lines ::
  "origin_codec \<Rightarrow> tree \<Rightarrow> bytes \<Rightarrow> bytes \<Rightarrow> segment_manifest_body \<Rightarrow> bytes \<Rightarrow> u64 \<Rightarrow> bytes option
   \<Rightarrow> v2_store_error + line_state" where
  "verify_segment_lines oc t origin path body mh expected_seq previous_hash =
     ebind (read_file t (sb_segment_path body)) (\<lambda>content.
     ebind (ensure (\<not> (blake3_id (oc_crypto oc) content \<noteq> sb_segment_blake3 body
         \<or> length content \<noteq> unat (sb_segment_bytes body) \<or> \<not> ends_with content [NL]))
       (VsInvalid (''segment bytes do not match manifest at '' @ sb_segment_path body))) (\<lambda>_.
     ebind (efold (verify_record_line oc origin body mh) (split_on NL (butlast content))
       \<lparr>li_expected_seq = expected_seq, li_previous_hash = previous_hash, li_records = []\<rparr>) (\<lambda>st.
     ebind (ensure (li_records st \<noteq> []) (VsInvalid ''signed segment is empty'')) (\<lambda>_.
     ebind (ensure (range_matches body (li_records st))
       (VsInvalid (''record range does not match manifest at '' @ path))) (\<lambda>_.
     Inr st)))))"

section \<open>An origin's journal\<close>

text \<open>The variables of the walk along the segments.\<close>

record origin_walk =
  ow_expected_seq :: u64
  ow_previous_record_hash :: "bytes option"
  ow_previous_manifest_hash :: "bytes option"
  ow_output :: "verified_v2_record list"

text \<open>
  One segment of the walk; the incremental walk also asks that the causal frontier of the
  manifest is known.
\<close>

definition walk_segment ::
  "origin_codec \<Rightarrow> tree \<Rightarrow> genesis_body \<Rightarrow> bytes \<Rightarrow> bytes \<Rightarrow> bytes \<Rightarrow> (bytes \<Rightarrow> bool) \<Rightarrow> bytes \<Rightarrow> bytes
   \<Rightarrow> origin_walk \<Rightarrow> v2_store_error + (origin_walk \<times> segment_manifest_body \<times> bytes)" where
  "walk_segment oc t genesis gh key origin known complaint path w =
     ebind (load_signed_manifest oc t key path) (\<lambda>m.
     let body = sm_body m in
     ebind (ensure (\<not> (sb_archive_id body \<noteq> ge_archive_id genesis \<or> sb_genesis_hash body \<noteq> gh
         \<or> sb_origin_id body \<noteq> origin \<or> sb_first_seq body \<noteq> ow_expected_seq w
         \<or> sb_previous_segment_manifest_hash body \<noteq> ow_previous_manifest_hash w
         \<or> \<not> known (sb_causal_base_frontier_hash body)))
       (VsInvalid (complaint @ path))) (\<lambda>_.
     ebind (manifest_hash oc m) (\<lambda>mh.
     ebind (verify_segment_lines oc t origin path body mh (ow_expected_seq w) (ow_previous_record_hash w)) (\<lambda>st.
     Inr (\<lparr>ow_expected_seq = li_expected_seq st, ow_previous_record_hash = li_previous_hash st,
           ow_previous_manifest_hash = Some mh, ow_output = ow_output w @ li_records st\<rparr>, body, mh)))))"

definition tail_matches :: "origin_frontier \<Rightarrow> segment_manifest_body \<Rightarrow> v2_store_error + unit" where
  "tail_matches tail body =
     ensure (\<not> (sb_last_seq body \<noteq> of_seq tail \<or> sb_last_record_hash body \<noteq> of_event_hash tail))
       (VsInvalid (''accepted frontier tail does not match origin '' @ of_origin_id tail))"

fun verify_origin_loop ::
  "origin_codec \<Rightarrow> tree \<Rightarrow> genesis_body \<Rightarrow> bytes \<Rightarrow> bytes \<Rightarrow> origin_frontier \<Rightarrow> bytes list \<Rightarrow> origin_walk \<Rightarrow> nat
   \<Rightarrow> v2_store_error + (bool \<times> origin_walk \<times> nat)" where
  "verify_origin_loop oc t genesis gh key tail [] w n = Inr (False, w, n)"
| "verify_origin_loop oc t genesis gh key tail (path # rest) w n =
     ebind (walk_segment oc t genesis gh key (of_origin_id tail) (\<lambda>_. True)
       ''segment manifest chain is inconsistent at '' path w) (\<lambda>(w, body, mh).
     if mh = of_segment_manifest_hash tail
     then ebind (tail_matches tail body) (\<lambda>_. Inr (True, w, n + 1))
     else verify_origin_loop oc t genesis gh key tail rest w (n + 1))"

definition walk_start :: origin_walk where
  "walk_start = \<lparr>ow_expected_seq = 1, ow_previous_record_hash = None, ow_previous_manifest_hash = None, ow_output = []\<rparr>"

definition verify_origin ::
  "origin_codec \<Rightarrow> tree \<Rightarrow> genesis_body \<Rightarrow> bytes \<Rightarrow> bytes \<Rightarrow> origin_frontier
   \<Rightarrow> v2_store_error + (verified_v2_record list \<times> nat)" where
  "verify_origin oc t genesis gh key tail =
     ebind (read_sorted_files t (''manifests/v2/origins/'' @ of_origin_id tail) ''.manifest.json'') (\<lambda>entries.
     ebind (ensure (entries \<noteq> []) (VsInvalid (''origin '' @ of_origin_id tail @ '' has no signed segments''))) (\<lambda>_.
     ebind (verify_origin_loop oc t genesis gh key tail entries walk_start 0) (\<lambda>(accepted_found, w, n).
     ebind (ensure accepted_found
       (VsInvalid (''accepted segment manifest is missing for origin '' @ of_origin_id tail))) (\<lambda>_.
     ebind (ensure (ow_output w \<noteq> [] \<and> ve_origin_seq (vr_envelope (vv_record (last (ow_output w)))) = of_seq tail)
       (VsInvalid (''origin '' @ of_origin_id tail @ '' did not verify through its frontier''))) (\<lambda>_.
     Inr (ow_output w, n))))))"

text \<open>Lines advance the sequence number without overflow.\<close>

lemma record_lines_advance:
  "efold (verify_record_line oc origin body mh) ls st = Inr st' \<Longrightarrow>
   unat (li_expected_seq st') = unat (li_expected_seq st) + length ls
   \<and> length (li_records st') = length (li_records st) + length ls"
proof (induction ls arbitrary: st)
  case (Cons l ls)
  then obtain u where u: "verify_record_line oc origin body mh l st = Inr u"
    "efold (verify_record_line oc origin body mh) ls u = Inr st'"
    by (auto simp: ebind_eq_Inr)
  have "unat (li_expected_seq u) = unat (li_expected_seq st) + 1 \<and> length (li_records u) = length (li_records st) + 1"
    using u(1) unfolding verify_record_line_def ebind_eq_Inr ok_or_eq_Inr checked_add_eq_Some by auto
  with Cons.IH [OF u(2)] show ?case by simp
qed simp

lemma verify_segment_lines_Inr:
  "verify_segment_lines oc t origin path body mh seq prev = Inr st \<longleftrightarrow>
     (\<exists>content. tr_file t (sb_segment_path body) = Some content
        \<and> blake3_id (oc_crypto oc) content = sb_segment_blake3 body
        \<and> length content = unat (sb_segment_bytes body) \<and> ends_with content [NL]
        \<and> efold (verify_record_line oc origin body mh) (split_on NL (butlast content))
            \<lparr>li_expected_seq = seq, li_previous_hash = prev, li_records = []\<rparr> = Inr st
        \<and> li_records st \<noteq> [] \<and> range_matches body (li_records st))"
  unfolding verify_segment_lines_def ebind_eq_Inr ensure_eq_Inr read_file_Inr sum.inject by blast

lemma walk_segment_Inr:
  "walk_segment oc t genesis gh key origin known complaint path w = Inr (w', body, mh) \<longleftrightarrow>
     (\<exists>m st. load_signed_manifest oc t key path = Inr m \<and> sm_body m = body
        \<and> sb_archive_id body = ge_archive_id genesis \<and> sb_genesis_hash body = gh
        \<and> sb_origin_id body = origin \<and> sb_first_seq body = ow_expected_seq w
        \<and> sb_previous_segment_manifest_hash body = ow_previous_manifest_hash w
        \<and> known (sb_causal_base_frontier_hash body)
        \<and> manifest_hash oc m = Inr mh
        \<and> verify_segment_lines oc t origin path body mh (ow_expected_seq w) (ow_previous_record_hash w) = Inr st
        \<and> w' = \<lparr>ow_expected_seq = li_expected_seq st, ow_previous_record_hash = li_previous_hash st,
             ow_previous_manifest_hash = Some mh, ow_output = ow_output w @ li_records st\<rparr>)"
  unfolding walk_segment_def Let_def ebind_eq_Inr ensure_eq_Inr sum.inject prod.inject by blast

lemma walk_segment_advances:
  assumes "walk_segment oc t genesis gh key origin known complaint path w = Inr r"
  shows "unat (ow_expected_seq w) < unat (ow_expected_seq (fst r))"
proof -
  obtain w' body mh where r: "r = (w', body, mh)" by (rule prod_cases3)
  obtain st ls where st: "li_records st \<noteq> []" "ow_expected_seq w' = li_expected_seq st"
    "efold (verify_record_line oc origin body mh) ls
        \<lparr>li_expected_seq = ow_expected_seq w, li_previous_hash = ow_previous_record_hash w, li_records = []\<rparr> = Inr st"
    using assms unfolding r walk_segment_Inr verify_segment_lines_Inr by (auto simp only: origin_walk.simps)
  from record_lines_advance [OF st(3)] st(1,2) show ?thesis unfolding r by auto
qed

lemma walk_segment_measure:
  assumes "walk_segment oc t genesis gh key origin known complaint path w = Inr r"
  shows "2 ^ 64 - unat (ow_expected_seq (fst r)) < 2 ^ 64 - unat (ow_expected_seq w)"
proof -
  have "unat (ow_expected_seq (fst r)) < 2 ^ 64"
    using unsigned_less [of "ow_expected_seq (fst r)", where ?'a = nat] by simp
  with walk_segment_advances [OF assms] show ?thesis by linarith
qed

declare ebind_cong [fundef_cong]

text \<open>The walk from a cursor: manifests are found by the number they start with.\<close>

function verify_range_loop ::
  "origin_codec \<Rightarrow> tree \<Rightarrow> genesis_body \<Rightarrow> bytes \<Rightarrow> bytes \<Rightarrow> origin_frontier \<Rightarrow> (bytes \<Rightarrow> bool) \<Rightarrow> origin_walk \<Rightarrow> u64
   \<Rightarrow> v2_store_error + (verified_v2_record list \<times> u64)" where
  "verify_range_loop oc t genesis gh key tail known w segments =
     ebind (walk_segment oc t genesis gh key (of_origin_id tail) known
       ''incremental segment manifest chain is inconsistent at ''
       (manifest_relative_path (of_origin_id tail) (ow_expected_seq w)) w) (\<lambda>r.
     ebind (ok_or (checked_add segments 1) (VsInvalid ''segment count overflow'')) (\<lambda>segments.
     if snd (snd r) = of_segment_manifest_hash tail
     then ebind (tail_matches tail (fst (snd r))) (\<lambda>_. Inr (ow_output (fst r), segments))
     else if of_seq tail \<le> sb_last_seq (fst (snd r))
     then Inl (VsInvalid (''incremental manifest chain passed accepted origin '' @ of_origin_id tail))
     else verify_range_loop oc t genesis gh key tail known (fst r) segments))"
  by pat_completeness auto
termination
  by (relation "measure (\<lambda>(oc, t, genesis, gh, key, tail, known, w, segments). 2 ^ 64 - unat (ow_expected_seq w))")
    (simp_all only: in_measure case_prod_conv wf_measure walk_segment_measure)

declare verify_range_loop.simps [simp del]

definition verify_origin_range ::
  "origin_codec \<Rightarrow> tree \<Rightarrow> genesis_body \<Rightarrow> bytes \<Rightarrow> bytes \<Rightarrow> origin_frontier \<Rightarrow> v2_origin_cursor \<Rightarrow> (bytes \<Rightarrow> bool)
   \<Rightarrow> v2_store_error + (verified_v2_record list \<times> u64)" where
  "verify_origin_range oc t genesis gh key tail cursor known =
     ebind (ok_or (checked_add (oc_applied_seq cursor) 1) (VsInvalid ''origin sequence overflow'')) (\<lambda>expected_seq.
     verify_range_loop oc t genesis gh key tail known
       \<lparr>ow_expected_seq = expected_seq, ow_previous_record_hash = oc_applied_record_hash cursor,
        ow_previous_manifest_hash = oc_applied_segment_manifest_hash cursor, ow_output = []\<rparr> 0)"

end
