(* ===== verification/Sample_Origins.thy ===== *)
theory Sample_Origins
  imports Origin_Segments
begin

text \<open>
  A small Archive for the witnesses. The initial client writes two sealed batches, the second of
  which enrols client B; B writes a batch that enrols client C; C revokes B, and B writes once
  more. Documents are short texts that the sample codec understands, and the sample hash is a
  table of the texts that occur.
\<close>

text \<open>ASCII texts are UTF-8: most texts need no decoding.\<close>

definition is_ascii :: "char \<Rightarrow> bool" where "is_ascii c = (\<not> digit7 c)"

lemma is_ascii_less: "is_ascii c \<Longrightarrow> of_char c < (128 :: nat)"
  by (cases c) (simp add: is_ascii_def)

lemma ascii_utf8: "list_all is_ascii s \<Longrightarrow> is_utf8 s"
proof -
  have "list_all is_ascii s \<Longrightarrow> drop_ws utf8_char_len (length s) (map of_char s) = []"
    by (induction s) (auto simp: utf8_char_len_def is_ascii_less)
  then show "list_all is_ascii s \<Longrightarrow> is_utf8 s" by (simp add: is_utf8_def)
qed

lemma is_utf8_code [code]:
  "is_utf8 s \<longleftrightarrow> (if list_all is_ascii s then True else drop_ws utf8_char_len (length s) (map of_char s) = [])"
  using ascii_utf8 by (simp add: is_utf8_def)

section \<open>Texts and hashes\<close>

definition key_a :: bytes where "key_a = replicate 32 (CHR ''A'')"
definition key_b :: bytes where "key_b = replicate 32 (CHR ''B'')"
definition key_c :: bytes where "key_c = replicate 32 (CHR ''C'')"

definition lines_a1 :: "bytes list" where "lines_a1 = [''a'', ''b'', ''c'']"
definition lines_a2 :: "bytes list" where "lines_a2 = [''d'', ''e'', ''f'']"
definition lines_b1 :: "bytes list" where "lines_b1 = [''g'', ''h'', ''i'']"
definition lines_c1 :: "bytes list" where "lines_c1 = [''j'', ''k'', ''l'']"
definition lines_b2 :: "bytes list" where "lines_b2 = [''m'', ''n'', ''o'']"

definition hashed_texts :: "bytes list" where
  "hashed_texts = [''a'', ''b'', ''c'', ''d'', ''e'', ''f'', ''g'', ''h'', ''i'', ''j'', ''k'', ''l'', ''m'', ''n'', ''o'',
     ''m1'', ''m2'', ''m3'', ''m4'', ''m5'', ''f0'', ''f1'', ''f2'', ''f3'', ''f4'', ''f5'', ''genesis'', key_a, key_b, key_c,
     file_of lines_a1, file_of lines_a2, file_of lines_b1, file_of lines_c1, file_of lines_b2]"

definition hex_digit :: "nat \<Rightarrow> char" where
  "hex_digit n = ''0123456789abcdef'' ! (n mod 16)"

fun index_in :: "bytes list \<Rightarrow> bytes \<Rightarrow> nat" where
  "index_in [] b = 0"
| "index_in (x # xs) b = (if b = x then 0 else Suc (index_in xs b))"

definition sample_hex :: "bytes \<Rightarrow> bytes" where
  "sample_hex b = (let n = index_in hashed_texts b in
     replicate 62 (CHR ''0'') @ [hex_digit (n div 16), hex_digit n])"

definition archive_crypto :: crypto where
  "archive_crypto = sample_crypto\<lparr>hash_hex := sample_hex\<rparr>"

abbreviation id_of :: "bytes \<Rightarrow> bytes" where "id_of b \<equiv> blake3_id archive_crypto b"

definition client_a :: bytes where "client_a = client_id archive_crypto key_a"
definition client_b :: bytes where "client_b = client_id archive_crypto key_b"
definition client_c :: bytes where "client_c = client_id archive_crypto key_c"

section \<open>Documents\<close>

definition archive_genesis :: signed_genesis where
  "archive_genesis = \<lparr>sg_body = genesis_body_new archive_crypto ''arc'' ''Personal'' 7 key_a,
     sg_signature = key_a @ ''body''\<rparr>"

definition archive_genesis_codec :: genesis_codec where
  "archive_genesis_codec = \<lparr>genesis_body_to_vec = (\<lambda>g. Inr ''body''), signed_genesis_to_vec = (\<lambda>sg. Inr ''genesis'')\<rparr>"

definition frontier_with :: "bytes list \<Rightarrow> origin_frontier list \<Rightarrow> causal_frontier" where
  "frontier_with previous origins = \<lparr>cf_v = FRONTIER_VERSION, cf_archive_id = ''arc'',
     cf_genesis_hash = id_of ''genesis'', cf_origins = origins, cf_previous_frontiers = previous,
     cf_item_projection_version = 1\<rparr>"

definition tail_at :: "bytes \<Rightarrow> u64 \<Rightarrow> bytes \<Rightarrow> bytes \<Rightarrow> origin_frontier" where
  "tail_at origin seq l m = \<lparr>of_origin_id = origin, of_seq = seq, of_event_hash = id_of l,
     of_segment_manifest_hash = id_of m\<rparr>"

definition frontier_0 :: causal_frontier where "frontier_0 = frontier_with [] []"
definition frontier_1 :: causal_frontier where
  "frontier_1 = frontier_with [id_of ''f0''] [tail_at client_a 3 ''c'' ''m1'']"
definition frontier_2 :: causal_frontier where
  "frontier_2 = frontier_with [id_of ''f1''] [tail_at client_a 6 ''f'' ''m2'']"
definition frontier_3 :: causal_frontier where
  "frontier_3 = frontier_with [id_of ''f2''] [tail_at client_a 6 ''f'' ''m2'', tail_at client_b 3 ''i'' ''m3'']"

definition frontier_4 :: causal_frontier where
  "frontier_4 = frontier_with [id_of ''f3''] [tail_at client_a 6 ''f'' ''m2'', tail_at client_b 3 ''i'' ''m3'',
     tail_at client_c 3 ''l'' ''m4'']"
definition frontier_5 :: causal_frontier where
  "frontier_5 = frontier_with [id_of ''f4''] [tail_at client_a 6 ''f'' ''m2'', tail_at client_b 6 ''o'' ''m5'',
     tail_at client_c 3 ''l'' ''m4'']"

definition frontier_text :: "causal_frontier \<Rightarrow> bytes + bytes" where
  "frontier_text f = Inr (let seqs = map of_seq (cf_origins f) in
     if seqs = [] then ''f0'' else if seqs = [3] then ''f1'' else if seqs = [6] then ''f2'' else if seqs = [6, 3] then ''f3''
     else if seqs = [6, 3, 3] then ''f4'' else ''f5'')"

definition frontier_of :: "bytes \<Rightarrow> causal_frontier option" where
  "frontier_of b = (if b = ''f0'' then Some frontier_0 else if b = ''f1'' then Some frontier_1
     else if b = ''f2'' then Some frontier_2 else if b = ''f3'' then Some frontier_3
     else if b = ''f4'' then Some frontier_4 else if b = ''f5'' then Some frontier_5 else None)"

definition manifest_of :: "bytes \<Rightarrow> bytes \<Rightarrow> bytes \<Rightarrow> bytes list \<Rightarrow> u64 \<Rightarrow> bytes \<Rightarrow> bytes option \<Rightarrow> signed_segment_manifest" where
  "manifest_of origin key path ls first base previous =
     \<lparr>sm_body = \<lparr>sb_manifest_v = V2_MANIFEST_VERSION, sb_archive_id = ''arc'', sb_genesis_hash = id_of ''genesis'',
        sb_origin_id = origin, sb_segment_path = path, sb_first_seq = first,
        sb_last_seq = first + of_nat (length ls) - 1, sb_first_record_id = ''rec_'' @ hd ls,
        sb_last_record_id = ''rec_'' @ last ls, sb_first_record_hash = id_of (hd ls),
        sb_last_record_hash = id_of (last ls), sb_record_count = of_nat (length ls),
        sb_segment_bytes = of_nat (length (file_of ls)), sb_segment_blake3 = id_of (file_of ls),
        sb_causal_base_frontier_hash = id_of base, sb_previous_segment_manifest_hash = previous\<rparr>,
      sm_signature = key @ path\<rparr>"

definition manifest_1 :: signed_segment_manifest where
  "manifest_1 = manifest_of client_a key_a ''s1'' lines_a1 1 ''f0'' None"
definition manifest_2 :: signed_segment_manifest where
  "manifest_2 = manifest_of client_a key_a ''s2'' lines_a2 4 ''f1'' (Some (id_of ''m1''))"
definition manifest_3 :: signed_segment_manifest where
  "manifest_3 = manifest_of client_b key_b ''s3'' lines_b1 1 ''f2'' None"

definition manifest_4 :: signed_segment_manifest where
  "manifest_4 = manifest_of client_c key_c ''s4'' lines_c1 1 ''f3'' None"
definition manifest_5 :: signed_segment_manifest where
  "manifest_5 = manifest_of client_b key_b ''s5'' lines_b2 4 ''f4'' (Some (id_of ''m3''))"

definition sample_manifest :: "bytes \<Rightarrow> signed_segment_manifest option" where
  "sample_manifest b = (if b = ''m1'' then Some manifest_1 else if b = ''m2'' then Some manifest_2
     else if b = ''m3'' then Some manifest_3 else if b = ''m4'' then Some manifest_4
     else if b = ''m5'' then Some manifest_5 else None)"

definition manifest_text :: "signed_segment_manifest \<Rightarrow> bytes + bytes" where
  "manifest_text m = Inr (let path = sb_segment_path (sm_body m) in
     if path = ''s1'' then ''m1'' else if path = ''s2'' then ''m2'' else if path = ''s3'' then ''m3''
     else if path = ''s4'' then ''m4'' else ''m5'')"

section \<open>Records\<close>

definition start_payload :: "bytes \<Rightarrow> json" where
  "start_payload base = JObj [(''operation_kind'', JStr ''sample''), (''causal_frontier_hash'', JStr (id_of base)),
     (''context'', JObj [])]"

definition chunk_payload :: "json \<Rightarrow> json" where
  "chunk_payload item = JObj [(''first_item_index'', JNum 0), (''items'', JArr [item])]"

definition complete_payload :: json where
  "complete_payload = JObj [(''total_items'', JNum 1),
     (''ordered_item_digest'', JStr (''blake3:'' @ sample_hex ''digest'')), (''status'', JStr ''complete'')]"

definition envelope_at :: "bytes \<Rightarrow> u64 \<Rightarrow> bytes \<Rightarrow> v2_record_kind \<Rightarrow> bytes \<Rightarrow> bytes option \<Rightarrow> json \<Rightarrow> v2_record_envelope" where
  "envelope_at origin seq l kind batch previous payload =
     \<lparr>ve_v = V2_RECORD_VERSION, ve_origin_id = origin, ve_origin_seq = seq, ve_record_id = ''rec_'' @ l,
      ve_record_kind = kind, ve_time_utc_ms = 7, ve_batch_id = ''batch_'' @ batch,
      ve_previous_record_hash = map_option id_of previous, ve_payload = payload\<rparr>"

definition enrolment :: "bytes \<Rightarrow> bytes \<Rightarrow> json" where
  "enrolment name key = JObj [(''kind'', JStr ''client_enrolled''), (''client_id'', JStr name),
     (''display_name'', JStr ''Laptop''), (''public_key'', JStr key),
     (''capabilities'', JArr [JStr ''additive_observation''])]"

definition revocation :: "bytes \<Rightarrow> json" where
  "revocation name = JObj [(''kind'', JStr ''client_revoked''), (''client_id'', JStr name)]"

definition fact_of :: "bytes \<Rightarrow> json" where "fact_of kind = JObj [(''kind'', JStr kind)]"

definition sample_record :: "bytes \<Rightarrow> v2_record_envelope option" where
  "sample_record l =
     (if l = ''a'' then Some (envelope_at client_a 1 l BatchStart ''1'' None (start_payload ''f0''))
      else if l = ''b'' then Some (envelope_at client_a 2 l BatchChunk ''1'' (Some ''a'') (chunk_payload (fact_of ''archive_initialized'')))
      else if l = ''c'' then Some (envelope_at client_a 3 l BatchComplete ''1'' (Some ''b'') complete_payload)
      else if l = ''d'' then Some (envelope_at client_a 4 l BatchStart ''2'' (Some ''c'') (start_payload ''f1''))
      else if l = ''e'' then Some (envelope_at client_a 5 l BatchChunk ''2'' (Some ''d'') (chunk_payload (enrolment client_b key_b)))
      else if l = ''f'' then Some (envelope_at client_a 6 l BatchComplete ''2'' (Some ''e'') complete_payload)
      else if l = ''g'' then Some (envelope_at client_b 1 l BatchStart ''3'' None (start_payload ''f2''))
      else if l = ''h'' then Some (envelope_at client_b 2 l BatchChunk ''3'' (Some ''g'') (chunk_payload (enrolment client_c key_c)))
      else if l = ''i'' then Some (envelope_at client_b 3 l BatchComplete ''3'' (Some ''h'') complete_payload)
      else if l = ''j'' then Some (envelope_at client_c 1 l BatchStart ''4'' None (start_payload ''f3''))
      else if l = ''k'' then Some (envelope_at client_c 2 l BatchChunk ''4'' (Some ''j'') (chunk_payload (revocation client_b)))
      else if l = ''l'' then Some (envelope_at client_c 3 l BatchComplete ''4'' (Some ''k'') complete_payload)
      else if l = ''m'' then Some (envelope_at client_b 4 l BatchStart ''5'' (Some ''i'') (start_payload ''f4''))
      else if l = ''n'' then Some (envelope_at client_b 5 l BatchChunk ''5'' (Some ''m'') (chunk_payload (fact_of ''test_fact'')))
      else if l = ''o'' then Some (envelope_at client_b 6 l BatchComplete ''5'' (Some ''n'') complete_payload)
      else None)"

definition read_record :: "bytes \<Rightarrow> bytes + v2_record_envelope" where
  "read_record l = ok_or (sample_record l) ''unknown''"

definition read_genesis :: "bytes \<Rightarrow> signed_genesis option" where
  "read_genesis b = (if b = ''genesis'' then Some archive_genesis else None)"

definition archive_record_codec :: record_codec where
  "archive_record_codec = \<lparr>record_from_slice = read_record, record_ulid_ok = (\<lambda>_. True)\<rparr>"

definition archive_codec :: origin_codec where
  "archive_codec = \<lparr>oc_crypto = archive_crypto, oc_records = archive_record_codec, oc_genesis = archive_genesis_codec,
     manifest_body_to_vec = (\<lambda>b. Inr (sb_segment_path b)), manifest_to_vec = manifest_text,
     manifest_from_slice = sample_manifest,
     genesis_from_slice = read_genesis, frontier_to_vec = frontier_text, frontier_from_slice = frontier_of,
     lease_body_to_vec = (\<lambda>_. Inr []), lease_from_value = (\<lambda>_. None)\<rparr>"

section \<open>Files\<close>

definition manifest_dir :: "bytes \<Rightarrow> bytes" where "manifest_dir origin = ''manifests/v2/origins/'' @ origin"

definition frontier_file :: "bytes \<Rightarrow> bytes" where
  "frontier_file b = ''frontiers/v2/frontier-'' @ sample_hex b @ ''.json''"

definition archive_file :: "bytes \<Rightarrow> bytes option" where
  "archive_file path =
     (if path = ''s1'' then Some (file_of lines_a1) else if path = ''s2'' then Some (file_of lines_a2)
      else if path = ''s3'' then Some (file_of lines_b1) else if path = ''s4'' then Some (file_of lines_c1)
      else if path = ''s5'' then Some (file_of lines_b2) else if path = ''genesis.json'' then Some ''genesis''
      else if path = ''frontiers/v2/HEAD'' then Some (id_of ''f5'' @ [NL])
      else if path = manifest_relative_path client_a 1 then Some ''m1''
      else if path = manifest_relative_path client_a 4 then Some ''m2''
      else if path = manifest_relative_path client_b 1 then Some ''m3''
      else if path = manifest_relative_path client_c 1 then Some ''m4''
      else if path = manifest_relative_path client_b 4 then Some ''m5''
      else if path = frontier_file ''f0'' then Some ''f0'' else if path = frontier_file ''f1'' then Some ''f1''
      else if path = frontier_file ''f2'' then Some ''f2'' else if path = frontier_file ''f3'' then Some ''f3''
      else if path = frontier_file ''f4'' then Some ''f4'' else if path = frontier_file ''f5'' then Some ''f5'' else None)"

definition archive_entries :: "bytes \<Rightarrow> bytes list option" where
  "archive_entries dir =
     (if dir = manifest_dir client_a \<or> dir = manifest_dir client_b
      then Some [''seg-000000000001.manifest.json'', ''seg-000000000004.manifest.json'']
      else if dir = manifest_dir client_c then Some [''seg-000000000001.manifest.json''] else None)"

definition archive_tree :: tree where
  "archive_tree = \<lparr>tr_file = archive_file, tr_entries = archive_entries\<rparr>"

section \<open>The origins verify\<close>

definition record_of :: "bytes \<Rightarrow> v2_record" where
  "record_of l = \<lparr>vr_envelope = the (sample_record l), vr_record_hash = id_of l\<rparr>"

definition verified_of :: "bytes \<Rightarrow> bytes \<Rightarrow> bytes \<Rightarrow> verified_v2_record" where
  "verified_of m base l = \<lparr>vv_record = record_of l, vv_line = l, vv_segment_manifest_hash = id_of m,
     vv_causal_frontier_hash = id_of base\<rparr>"

definition records_1 :: "verified_v2_record list" where "records_1 = map (verified_of ''m1'' ''f0'') lines_a1"
definition records_2 :: "verified_v2_record list" where "records_2 = map (verified_of ''m2'' ''f1'') lines_a2"
definition records_3 :: "verified_v2_record list" where "records_3 = map (verified_of ''m3'' ''f2'') lines_b1"
definition records_4 :: "verified_v2_record list" where "records_4 = map (verified_of ''m4'' ''f3'') lines_c1"
definition records_5 :: "verified_v2_record list" where "records_5 = map (verified_of ''m5'' ''f4'') lines_b2"

definition verify_sample :: "origin_frontier \<Rightarrow> v2_store_error + (verified_v2_record list \<times> nat)" where
  "verify_sample tail = verify_origin archive_codec archive_tree (sg_body archive_genesis) (id_of ''genesis'') key_a tail"

lemma sample_short_verifies: "verify_sample (tail_at client_a 3 ''c'' ''m1'') = Inr (records_1, 1)"
  by code_simp

lemma sample_origin_verifies: "verify_sample (tail_at client_a 6 ''f'' ''m2'') = Inr (records_1 @ records_2, 2)"
  by code_simp

end
