(* ===== verification/Origin_Chain.thy ===== *)
theory Origin_Chain
  imports Sample_Origins "HOL-Library.Sublist"
begin

text \<open>
  Correctness of the verification of an origin's journal: what is accepted is one hash chain of
  records from the first sequence number on, every record of it in a segment that the origin's
  key has signed; the accepted tail commits to all of it; and verifying from a cursor finds
  exactly the records after the cursor.
\<close>

section \<open>Chains of verified records\<close>

fun origin_chain :: "crypto \<Rightarrow> record_codec \<Rightarrow> bytes \<Rightarrow> u64 \<Rightarrow> bytes option \<Rightarrow> verified_v2_record list \<Rightarrow> bool" where
  "origin_chain cr rc origin seq prev [] \<longleftrightarrow> True"
| "origin_chain cr rc origin seq prev (v # vs) \<longleftrightarrow>
     parse_v2_record cr rc (vv_line v) origin seq prev DEFAULT_MAX_V2_RECORD_BYTES = Inr (vv_record v)
     \<and> vv_line v \<noteq> [] \<and> unat seq + 1 < 2 ^ 64
     \<and> origin_chain cr rc origin (seq + 1) (Some (vr_record_hash (vv_record v))) vs"

definition chain_hash :: "bytes option \<Rightarrow> verified_v2_record list \<Rightarrow> bytes option" where
  "chain_hash prev vs = (if vs = [] then prev else Some (vr_record_hash (vv_record (last vs))))"

lemma chain_hash_simps [simp]:
  "chain_hash prev [] = prev"
  "chain_hash prev (v # vs) = chain_hash (Some (vr_record_hash (vv_record v))) vs"
  "chain_hash prev (vs @ vs') = chain_hash (chain_hash prev vs) vs'"
  by (simp_all add: chain_hash_def)

lemma origin_chain_append [simp]:
  "origin_chain cr rc origin seq prev (vs @ vs') \<longleftrightarrow>
     origin_chain cr rc origin seq prev vs
     \<and> origin_chain cr rc origin (seq + of_nat (length vs)) (chain_hash prev vs) vs'"
  by (induction vs arbitrary: seq prev) (auto simp: add.assoc)

lemma unat_plus_1: "unat seq + 1 < 2 ^ 64 \<Longrightarrow> unat (seq + 1 :: u64) = unat seq + 1"
  by (simp add: unat_word_ariths)

lemma origin_chain_seq:
  "origin_chain cr rc origin seq prev vs \<Longrightarrow>
     unat (seq + of_nat (length vs)) = unat seq + length vs
     \<and> (\<forall>i<length vs. unat (ve_origin_seq (vr_envelope (vv_record (vs ! i)))) = unat seq + i)"
proof (induction vs arbitrary: seq prev)
  case (Cons v vs)
  then have IH: "unat (seq + 1 + of_nat (length vs)) = unat (seq + 1) + length vs"
    "\<forall>i<length vs. unat (ve_origin_seq (vr_envelope (vv_record (vs ! i)))) = unat (seq + 1) + i" by auto
  have s: "unat (seq + 1) = unat seq + 1" using Cons.prems by (intro unat_plus_1) simp
  have v: "ve_origin_seq (vr_envelope (vv_record v)) = seq"
    using Cons.prems by (auto simp: parse_v2_record_Inr record_line_def envelope_ok_def)
  show ?case
  proof (intro conjI allI impI)
    show "unat (seq + of_nat (length (v # vs))) = unat seq + length (v # vs)"
      using IH(1) s by (simp add: add.assoc)
    show "unat (ve_origin_seq (vr_envelope (vv_record ((v # vs) ! i)))) = unat seq + i"
      if "i < length (v # vs)" for i
      using that IH(2) s v by (cases i) simp_all
  qed
qed simp

lemma origin_chain_last:
  assumes "origin_chain cr rc origin seq prev vs" "vs \<noteq> []"
  shows "unat (ve_origin_seq (vr_envelope (vv_record (last vs)))) + 1 = unat seq + length vs"
proof -
  have "length vs - 1 < length vs" using assms(2) by simp
  with origin_chain_seq [OF assms(1)]
  have "unat (ve_origin_seq (vr_envelope (vv_record (vs ! (length vs - 1))))) = unat seq + (length vs - 1)" by blast
  then show ?thesis using assms(2) by (simp add: last_conv_nth)
qed

text \<open>A chain of verified records is a hash chain of lines.\<close>

lemma origin_chain_linked:
  "origin_chain cr rc origin seq prev vs \<Longrightarrow>
   origin_journal.linked cr rc origin (map vv_line vs) seq prev
   \<and> origin_journal.last_hash cr (map vv_line vs) prev = chain_hash prev vs"
proof (induction vs arbitrary: seq prev)
  case (Cons v vs)
  have "record_follows rc origin seq prev (vv_line v)" "vr_record_hash (vv_record v) = blake3_id cr (vv_line v)"
    using Cons.prems parsed_follows by fastforce+
  moreover have "origin_chain cr rc origin (seq + 1) (Some (vr_record_hash (vv_record v))) vs"
    using Cons.prems by simp
  note Cons.IH [OF this]
  ultimately show ?case by simp
qed simp

lemma origin_chain_records:
  assumes "origin_chain cr rc origin seq prev vs" "origin_chain cr rc origin seq prev ws"
    and "map vv_line vs = map vv_line ws"
  shows "map vv_record vs = map vv_record ws"
  using assms
proof (induction vs arbitrary: ws seq prev)
  case (Cons v vs)
  then obtain w ws' where ws: "ws = w # ws'" "vv_line v = vv_line w" "map vv_line vs = map vv_line ws'" by auto
  then have r: "vv_record v = vv_record w" using Cons.prems(1,2) by simp
  have "map vv_record vs = map vv_record ws'"
    by (rule Cons.IH [of "seq + 1" "Some (vr_record_hash (vv_record v))"])
      (use Cons.prems(1,2) ws r in simp_all)
  with ws r show ?case by simp
qed simp

section \<open>One segment\<close>

definition stamped :: "segment_manifest_body \<Rightarrow> bytes \<Rightarrow> verified_v2_record \<Rightarrow> bool" where
  "stamped body mh v \<longleftrightarrow> vv_segment_manifest_hash v = mh \<and> vv_causal_frontier_hash v = sb_causal_base_frontier_hash body"

definition lines_after :: "line_state \<Rightarrow> verified_v2_record list \<Rightarrow> line_state" where
  "lines_after st vs = \<lparr>li_expected_seq = li_expected_seq st + of_nat (length vs),
     li_previous_hash = chain_hash (li_previous_hash st) vs, li_records = li_records st @ vs\<rparr>"

lemma verify_record_line_Inr:
  "verify_record_line oc origin body mh l st = Inr st' \<longleftrightarrow>
     (\<exists>v. vv_line v = l \<and> stamped body mh v
        \<and> origin_chain (oc_crypto oc) (oc_records oc) origin (li_expected_seq st) (li_previous_hash st) [v]
        \<and> st' = lines_after st [v])"
proof
  assume "verify_record_line oc origin body mh l st = Inr st'"
  then obtain r n where r: "l \<noteq> []"
    "parse_v2_record (oc_crypto oc) (oc_records oc) l origin (li_expected_seq st) (li_previous_hash st)
       DEFAULT_MAX_V2_RECORD_BYTES = Inr r"
    "checked_add (li_expected_seq st) 1 = Some n"
    "st' = \<lparr>li_expected_seq = n, li_previous_hash = Some (vr_record_hash r),
          li_records = li_records st @ [\<lparr>vv_record = r, vv_line = l, vv_segment_manifest_hash = mh,
            vv_causal_frontier_hash = sb_causal_base_frontier_hash body\<rparr>]\<rparr>"
    unfolding verify_record_line_def ebind_eq_Inr ensure_eq_Inr map_err_eq_Inr ok_or_eq_Inr sum.inject by blast
  let ?v = "\<lparr>vv_record = r, vv_line = l, vv_segment_manifest_hash = mh,
            vv_causal_frontier_hash = sb_causal_base_frontier_hash body\<rparr>"
  have n: "unat (li_expected_seq st) + 1 < 2 ^ 64" "n = li_expected_seq st + 1"
    using r(3) by (auto simp: checked_add_def split: if_splits)
  show "\<exists>v. vv_line v = l \<and> stamped body mh v
        \<and> origin_chain (oc_crypto oc) (oc_records oc) origin (li_expected_seq st) (li_previous_hash st) [v]
        \<and> st' = lines_after st [v]"
    using r n by (intro exI [of _ ?v]) (simp add: stamped_def lines_after_def)
next
  assume "\<exists>v. vv_line v = l \<and> stamped body mh v
        \<and> origin_chain (oc_crypto oc) (oc_records oc) origin (li_expected_seq st) (li_previous_hash st) [v]
        \<and> st' = lines_after st [v]"
  then obtain v where v: "vv_line v = l" "stamped body mh v" "l \<noteq> []" "unat (li_expected_seq st) + 1 < 2 ^ 64"
    "parse_v2_record (oc_crypto oc) (oc_records oc) l origin (li_expected_seq st) (li_previous_hash st)
       DEFAULT_MAX_V2_RECORD_BYTES = Inr (vv_record v)" "st' = lines_after st [v]" by auto
  have "checked_add (li_expected_seq st) 1 = Some (li_expected_seq st + 1)"
    using v(4) by (simp add: checked_add_def)
  moreover have "\<lparr>vv_record = vv_record v, vv_line = l, vv_segment_manifest_hash = mh,
      vv_causal_frontier_hash = sb_causal_base_frontier_hash body\<rparr> = v"
    using v(1,2) by (cases v) (simp add: stamped_def)
  ultimately show "verify_record_line oc origin body mh l st = Inr st'"
    using v(3,5,6) by (simp add: verify_record_line_def lines_after_def)
qed

lemma verify_lines_Inr:
  "efold (verify_record_line oc origin body mh) ls st = Inr st' \<longleftrightarrow>
     (\<exists>vs. map vv_line vs = ls \<and> list_all (stamped body mh) vs
        \<and> origin_chain (oc_crypto oc) (oc_records oc) origin (li_expected_seq st) (li_previous_hash st) vs
        \<and> st' = lines_after st vs)"
proof (induction ls arbitrary: st)
  case Nil
  show ?case by (auto simp: lines_after_def)
next
  case (Cons l ls)
  have after: "lines_after (lines_after st [v]) vs = lines_after st (v # vs)" for v vs
    by (simp add: lines_after_def add.assoc)
  have next_line: "li_expected_seq (lines_after st [v]) = li_expected_seq st + 1"
    "li_previous_hash (lines_after st [v]) = Some (vr_record_hash (vv_record v))" for v
    by (simp_all add: lines_after_def)
  show ?case
  proof
    assume "efold (verify_record_line oc origin body mh) (l # ls) st = Inr st'"
    then obtain v vs where v: "vv_line v = l" "stamped body mh v"
      "origin_chain (oc_crypto oc) (oc_records oc) origin (li_expected_seq st) (li_previous_hash st) [v]"
      and vs: "map vv_line vs = ls" "list_all (stamped body mh) vs"
      "origin_chain (oc_crypto oc) (oc_records oc) origin (li_expected_seq (lines_after st [v]))
        (li_previous_hash (lines_after st [v])) vs" "st' = lines_after (lines_after st [v]) vs"
      unfolding efold.simps ebind_eq_Inr verify_record_line_Inr Cons.IH by blast
    then show "\<exists>vs. map vv_line vs = l # ls \<and> list_all (stamped body mh) vs
        \<and> origin_chain (oc_crypto oc) (oc_records oc) origin (li_expected_seq st) (li_previous_hash st) vs
        \<and> st' = lines_after st vs"
      by (intro exI [of _ "v # vs"]) (simp add: after next_line)
  next
    assume "\<exists>vs. map vv_line vs = l # ls \<and> list_all (stamped body mh) vs
        \<and> origin_chain (oc_crypto oc) (oc_records oc) origin (li_expected_seq st) (li_previous_hash st) vs
        \<and> st' = lines_after st vs"
    then obtain v vs where "vv_line v = l" "map vv_line vs = ls" "list_all (stamped body mh) (v # vs)"
      "origin_chain (oc_crypto oc) (oc_records oc) origin (li_expected_seq st) (li_previous_hash st) (v # vs)"
      "st' = lines_after st (v # vs)" by (auto simp: map_eq_Cons_conv)
    then show "efold (verify_record_line oc origin body mh) (l # ls) st = Inr st'"
      unfolding efold.simps ebind_eq_Inr verify_record_line_Inr Cons.IH
      by (intro exI [of _ "lines_after st [v]"] conjI exI [of _ v] exI [of _ vs]) (simp_all add: after next_line)
  qed
qed

section \<open>The walk\<close>

text \<open>
  \<open>segment_at\<close>: the manifest in the file \<open>path\<close> is signed by the key, it continues the chain at
  the given place, and \<open>vs\<close> are the records of its segment.
\<close>

definition segment_at ::
  "origin_codec \<Rightarrow> tree \<Rightarrow> genesis_body \<Rightarrow> bytes \<Rightarrow> bytes \<Rightarrow> bytes \<Rightarrow> bytes \<Rightarrow> u64 \<Rightarrow> bytes option \<Rightarrow> bytes option
   \<Rightarrow> segment_manifest_body \<Rightarrow> bytes \<Rightarrow> verified_v2_record list \<Rightarrow> bool" where
  "segment_at oc t genesis gh key origin path seq prev prev_manifest body mh vs \<longleftrightarrow>
     (\<exists>m. load_signed_manifest oc t key path = Inr m \<and> sm_body m = body \<and> manifest_hash oc m = Inr mh)
     \<and> sb_archive_id body = ge_archive_id genesis \<and> sb_genesis_hash body = gh \<and> sb_origin_id body = origin
     \<and> sb_first_seq body = seq \<and> sb_previous_segment_manifest_hash body = prev_manifest
     \<and> (\<exists>content. tr_file t (sb_segment_path body) = Some content
          \<and> blake3_id (oc_crypto oc) content = sb_segment_blake3 body
          \<and> length content = unat (sb_segment_bytes body) \<and> ends_with content [NL]
          \<and> split_on NL (butlast content) = map vv_line vs)
     \<and> list_all (stamped body mh) vs
     \<and> origin_chain (oc_crypto oc) (oc_records oc) origin seq prev vs
     \<and> vs \<noteq> [] \<and> range_matches body vs"

definition walk_after :: "origin_walk \<Rightarrow> verified_v2_record list \<Rightarrow> bytes \<Rightarrow> origin_walk" where
  "walk_after w vs mh = \<lparr>ow_expected_seq = ow_expected_seq w + of_nat (length vs),
     ow_previous_record_hash = chain_hash (ow_previous_record_hash w) vs,
     ow_previous_manifest_hash = Some mh, ow_output = ow_output w @ vs\<rparr>"

lemma walk_segment_iff:
  "walk_segment oc t genesis gh key origin known complaint path w = Inr (w', body, mh) \<longleftrightarrow>
     (\<exists>vs. segment_at oc t genesis gh key origin path (ow_expected_seq w) (ow_previous_record_hash w)
         (ow_previous_manifest_hash w) body mh vs
       \<and> known (sb_causal_base_frontier_hash body) \<and> w' = walk_after w vs mh)"
  (is "?l \<longleftrightarrow> ?r")
proof
  assume ?l
  then obtain m st where m: "load_signed_manifest oc t key path = Inr m" "sm_body m = body" "manifest_hash oc m = Inr mh"
    and b: "sb_archive_id body = ge_archive_id genesis" "sb_genesis_hash body = gh"
      "sb_origin_id body = origin" "sb_first_seq body = ow_expected_seq w"
      "sb_previous_segment_manifest_hash body = ow_previous_manifest_hash w" "known (sb_causal_base_frontier_hash body)"
    and st: "verify_segment_lines oc t origin path body mh (ow_expected_seq w) (ow_previous_record_hash w) = Inr st"
    and w': "w' = \<lparr>ow_expected_seq = li_expected_seq st, ow_previous_record_hash = li_previous_hash st,
             ow_previous_manifest_hash = Some mh, ow_output = ow_output w @ li_records st\<rparr>"
    unfolding walk_segment_Inr by blast
  from st obtain content vs where c: "tr_file t (sb_segment_path body) = Some content"
      "blake3_id (oc_crypto oc) content = sb_segment_blake3 body"
      "length content = unat (sb_segment_bytes body)" "ends_with content [NL]"
      "split_on NL (butlast content) = map vv_line vs"
    and vs: "list_all (stamped body mh) vs" "st = lines_after \<lparr>li_expected_seq = ow_expected_seq w,
         li_previous_hash = ow_previous_record_hash w, li_records = []\<rparr> vs" "li_records st \<noteq> []"
         "range_matches body (li_records st)"
    and ch: "origin_chain (oc_crypto oc) (oc_records oc) origin (ow_expected_seq w) (ow_previous_record_hash w) vs"
    unfolding verify_segment_lines_Inr verify_lines_Inr line_state.simps by metis
  have "li_records st = vs" unfolding vs(2) lines_after_def by simp
  with vs have v: "vs \<noteq> []" "range_matches body vs" by auto
  have "w' = walk_after w vs mh" unfolding w' vs(2) by (simp add: lines_after_def walk_after_def)
  with m b c vs(1) ch v show ?r unfolding segment_at_def by blast
next
  assume ?r
  then obtain vs m content where m: "load_signed_manifest oc t key path = Inr m" "sm_body m = body" "manifest_hash oc m = Inr mh"
    and b: "sb_archive_id body = ge_archive_id genesis" "sb_genesis_hash body = gh"
      "sb_origin_id body = origin" "sb_first_seq body = ow_expected_seq w"
      "sb_previous_segment_manifest_hash body = ow_previous_manifest_hash w" "known (sb_causal_base_frontier_hash body)"
    and c: "tr_file t (sb_segment_path body) = Some content"
      "blake3_id (oc_crypto oc) content = sb_segment_blake3 body"
      "length content = unat (sb_segment_bytes body)" "ends_with content [NL]"
      "split_on NL (butlast content) = map vv_line vs"
    and vs: "list_all (stamped body mh) vs"
      "origin_chain (oc_crypto oc) (oc_records oc) origin (ow_expected_seq w) (ow_previous_record_hash w) vs"
      "vs \<noteq> []" "range_matches body vs"
    and w': "w' = walk_after w vs mh"
    unfolding segment_at_def by blast
  let ?start = "\<lparr>li_expected_seq = ow_expected_seq w, li_previous_hash = ow_previous_record_hash w, li_records = []\<rparr>"
  let ?st = "lines_after ?start vs"
  have "efold (verify_record_line oc origin body mh) (split_on NL (butlast content)) ?start = Inr ?st"
    by (rule iffD2 [OF verify_lines_Inr], rule exI [of _ vs]) (use vs(1,2) c(5) in simp)
  moreover have "li_records ?st = vs" by (simp add: lines_after_def)
  ultimately have "verify_segment_lines oc t origin path body mh (ow_expected_seq w) (ow_previous_record_hash w) = Inr ?st"
    unfolding verify_segment_lines_Inr using c vs by (intro exI [of _ content]) simp
  moreover have "w' = \<lparr>ow_expected_seq = li_expected_seq ?st, ow_previous_record_hash = li_previous_hash ?st,
      ow_previous_manifest_hash = Some mh, ow_output = ow_output w @ li_records ?st\<rparr>"
    unfolding w' by (simp add: lines_after_def walk_after_def)
  ultimately show ?l unfolding walk_segment_Inr using m b by blast
qed

lemma segment_at_range:
  assumes "segment_at oc t genesis gh key origin path seq prev pm body mh vs"
  shows "unat (sb_last_seq body) + 1 = unat seq + length vs"
    and "sb_last_record_hash body = vr_record_hash (vv_record (last vs))"
    and "vs \<noteq> []" and "unat (seq + of_nat (length vs)) = unat seq + length vs"
proof -
  have c: "origin_chain (oc_crypto oc) (oc_records oc) origin seq prev vs" "vs \<noteq> []" "range_matches body vs"
    using assms unfolding segment_at_def by blast+
  have "sb_last_seq body = ve_origin_seq (vr_envelope (vv_record (last vs)))"
    using c(3) by (simp only: range_matches_def Let_def)
  then show "unat (sb_last_seq body) + 1 = unat seq + length vs" using origin_chain_last [OF c(1,2)] by simp
  show "sb_last_record_hash body = vr_record_hash (vv_record (last vs))"
    using c(3) by (simp only: range_matches_def Let_def)
  show "vs \<noteq> []" by (rule c(2))
  show "unat (seq + of_nat (length vs)) = unat seq + length vs" using origin_chain_seq [OF c(1)] by blast
qed

text \<open>Several segments in a row.\<close>

type_synonym located_segment = "bytes \<times> segment_manifest_body \<times> bytes \<times> verified_v2_record list"

fun segments_along ::
  "origin_codec \<Rightarrow> tree \<Rightarrow> genesis_body \<Rightarrow> bytes \<Rightarrow> bytes \<Rightarrow> bytes \<Rightarrow> origin_walk \<Rightarrow> located_segment list \<Rightarrow> bool" where
  "segments_along oc t genesis gh key origin w [] \<longleftrightarrow> True"
| "segments_along oc t genesis gh key origin w ((path, body, mh, vs) # ss) \<longleftrightarrow>
     segment_at oc t genesis gh key origin path (ow_expected_seq w) (ow_previous_record_hash w)
       (ow_previous_manifest_hash w) body mh vs
     \<and> segments_along oc t genesis gh key origin (walk_after w vs mh) ss"

fun walked :: "origin_walk \<Rightarrow> located_segment list \<Rightarrow> origin_walk" where
  "walked w [] = w"
| "walked w ((path, body, mh, vs) # ss) = walked (walk_after w vs mh) ss"

abbreviation located_body :: "located_segment \<Rightarrow> segment_manifest_body" where "located_body s \<equiv> fst (snd s)"
abbreviation located_hash :: "located_segment \<Rightarrow> bytes" where "located_hash s \<equiv> fst (snd (snd s))"
abbreviation located_records :: "located_segment \<Rightarrow> verified_v2_record list" where "located_records s \<equiv> snd (snd (snd s))"

lemma segments_along_append:
  "segments_along oc t genesis gh key origin w (ss @ ss') \<longleftrightarrow>
     segments_along oc t genesis gh key origin w ss \<and> segments_along oc t genesis gh key origin (walked w ss) ss'"
  by (induction ss arbitrary: w) auto

lemma walked_append: "walked w (ss @ ss') = walked (walked w ss) ss'"
  by (induction ss arbitrary: w) auto

text \<open>What the walk gathers does not depend on what it has gathered before.\<close>

lemma segments_along_output:
  "segments_along oc t genesis gh key origin (w\<lparr>ow_output := vs\<rparr>) ss \<longleftrightarrow> segments_along oc t genesis gh key origin w ss"
proof (induction ss arbitrary: vs w)
  case (Cons s ss)
  obtain path body mh rs where s: "s = (path, body, mh, rs)" by (metis prod_cases4)
  have "walk_after (w\<lparr>ow_output := vs\<rparr>) rs mh = (walk_after w rs mh)\<lparr>ow_output := vs @ rs\<rparr>"
    by (simp add: walk_after_def)
  then show ?case using Cons.IH [of "vs @ rs" "walk_after w rs mh"] by (simp add: s)
qed simp

lemma walked_parts:
  "ow_output (walked w ss) = ow_output w @ concat (map located_records ss)
   \<and> ow_expected_seq (walked w ss) = ow_expected_seq w + of_nat (length (concat (map located_records ss)))
   \<and> ow_previous_record_hash (walked w ss) = chain_hash (ow_previous_record_hash w) (concat (map located_records ss))
   \<and> ow_previous_manifest_hash (walked w ss) = (if ss = [] then ow_previous_manifest_hash w else Some (located_hash (last ss)))"
proof (induction ss arbitrary: w)
  case (Cons s ss)
  obtain path body mh rs where s: "s = (path, body, mh, rs)" by (metis prod_cases4)
  show ?case using Cons.IH [of "walk_after w rs mh"] by (simp add: s walk_after_def add.assoc)
qed simp

lemma segments_chain:
  "segments_along oc t genesis gh key origin w ss \<Longrightarrow>
   origin_chain (oc_crypto oc) (oc_records oc) origin (ow_expected_seq w) (ow_previous_record_hash w)
     (concat (map located_records ss))"
proof (induction ss arbitrary: w)
  case (Cons s ss)
  obtain path body mh rs where s: "s = (path, body, mh, rs)" by (metis prod_cases4)
  from Cons.prems have h: "segment_at oc t genesis gh key origin path (ow_expected_seq w) (ow_previous_record_hash w)
       (ow_previous_manifest_hash w) body mh rs" and r: "segments_along oc t genesis gh key origin (walk_after w rs mh) ss"
    by (simp_all add: s)
  have "origin_chain (oc_crypto oc) (oc_records oc) origin (ow_expected_seq w) (ow_previous_record_hash w) rs"
    using h unfolding segment_at_def by blast
  with Cons.IH [OF r] show ?case by (simp add: s walk_after_def)
qed simp

text \<open>The walk is a function of the paths: two walks along the same paths agree.\<close>

lemma segment_at_unique:
  assumes "segment_at oc t genesis gh key origin path seq prev pm body mh vs"
    and "segment_at oc t genesis gh key origin path seq prev pm body' mh' vs'"
  shows "body = body' \<and> mh = mh' \<and> vs = vs'"
proof -
  let ?w = "\<lparr>ow_expected_seq = seq, ow_previous_record_hash = prev, ow_previous_manifest_hash = pm, ow_output = []\<rparr>"
  have a: "walk_segment oc t genesis gh key origin (\<lambda>_. True) [] path ?w = Inr (walk_after ?w vs mh, body, mh)"
    by (rule iffD2 [OF walk_segment_iff], rule exI [of _ vs]) (use assms(1) in simp)
  have b: "walk_segment oc t genesis gh key origin (\<lambda>_. True) [] path ?w = Inr (walk_after ?w vs' mh', body', mh')"
    by (rule iffD2 [OF walk_segment_iff], rule exI [of _ vs']) (use assms(2) in simp)
  from trans [OF sym [OF a] b] have "walk_after ?w vs mh = walk_after ?w vs' mh' \<and> body = body' \<and> mh = mh'"
    unfolding sum.inject prod.inject .
  then show ?thesis unfolding walk_after_def by simp
qed

lemma segments_along_unique:
  assumes "segments_along oc t genesis gh key origin w ss" "segments_along oc t genesis gh key origin w ss'"
    and "prefix (map fst ss) (map fst ss')"
  shows "prefix ss ss'"
  using assms
proof (induction ss arbitrary: w ss')
  case (Cons s ss)
  obtain path body mh rs where s: "s = (path, body, mh, rs)" by (metis prod_cases4)
  from Cons.prems(3) obtain s' ss'' where ss': "ss' = s' # ss''" "fst s' = path" "prefix (map fst ss) (map fst ss'')"
    by (cases ss') (auto simp: s)
  obtain body' mh' rs' where s': "s' = (path, body', mh', rs')" using ss'(2) by (metis prod.collapse)
  note heads = Cons.prems(1,2) [unfolded s s' ss'(1) segments_along.simps, THEN conjunct1]
  have "body = body' \<and> mh = mh' \<and> rs = rs'"
    by (rule segment_at_unique [OF heads])
  moreover have "prefix ss ss''"
    by (rule Cons.IH [of "walk_after w rs mh"]) (use Cons.prems(1,2) calculation ss'(3) in \<open>simp_all add: s s' ss'(1)\<close>)
  ultimately show ?case by (simp add: s s' ss'(1))
qed simp

definition stops_at :: "origin_frontier \<Rightarrow> located_segment list \<Rightarrow> bool" where
  "stops_at tail ss \<longleftrightarrow> ss \<noteq> [] \<and> located_hash (last ss) = of_segment_manifest_hash tail
     \<and> (\<forall>s \<in> set (butlast ss). located_hash s \<noteq> of_segment_manifest_hash tail)
     \<and> sb_last_seq (located_body (last ss)) = of_seq tail
     \<and> sb_last_record_hash (located_body (last ss)) = of_event_hash tail"

lemma stops_at_Cons:
  "stops_at tail (s # ss) \<longleftrightarrow>
     (if located_hash s = of_segment_manifest_hash tail
      then ss = [] \<and> sb_last_seq (located_body s) = of_seq tail \<and> sb_last_record_hash (located_body s) = of_event_hash tail
      else stops_at tail ss)"
  by (auto simp: stops_at_def)

lemma verify_origin_loop_Inr:
  "verify_origin_loop oc t genesis gh key tail paths w n = Inr (True, w', n') \<Longrightarrow>
   \<exists>ss. prefix (map fst ss) paths \<and> segments_along oc t genesis gh key (of_origin_id tail) w ss
     \<and> stops_at tail ss \<and> w' = walked w ss \<and> n' = n + length ss"
proof (induction paths arbitrary: w n)
  case (Cons path paths)
  from Cons.prems obtain r where r: "walk_segment oc t genesis gh key (of_origin_id tail) (\<lambda>_. True)
       ''segment manifest chain is inconsistent at '' path w = Inr r"
    "(case r of (w, body, mh) \<Rightarrow> if mh = of_segment_manifest_hash tail
     then ebind (tail_matches tail body) (\<lambda>_. Inr (True, w, n + 1))
     else verify_origin_loop oc t genesis gh key tail paths w (n + 1)) = Inr (True, w', n')"
    unfolding verify_origin_loop.simps ebind_eq_Inr by blast
  obtain w1 body mh where r3: "r = (w1, body, mh)" by (rule prod_cases3)
  have step: "walk_segment oc t genesis gh key (of_origin_id tail) (\<lambda>_. True)
       ''segment manifest chain is inconsistent at '' path w = Inr (w1, body, mh)"
    and rest: "(if mh = of_segment_manifest_hash tail
     then ebind (tail_matches tail body) (\<lambda>_. Inr (True, w1, n + 1))
     else verify_origin_loop oc t genesis gh key tail paths w1 (n + 1)) = Inr (True, w', n')"
    using r unfolding r3 prod.case by blast+
  from step obtain vs where vs: "segment_at oc t genesis gh key (of_origin_id tail) path (ow_expected_seq w)
      (ow_previous_record_hash w) (ow_previous_manifest_hash w) body mh vs" "w1 = walk_after w vs mh"
    unfolding walk_segment_iff by blast
  show ?case
  proof (cases "mh = of_segment_manifest_hash tail")
    case True
    with rest have "sb_last_seq body = of_seq tail \<and> sb_last_record_hash body = of_event_hash tail"
      "w' = w1" "n' = n + 1"
      by (auto simp: tail_matches_def split: if_splits)
    with True vs show ?thesis
      by (intro exI [of _ "[(path, body, mh, vs)]"]) (simp add: stops_at_def)
  next
    case False
    with rest have "verify_origin_loop oc t genesis gh key tail paths w1 (n + 1) = Inr (True, w', n')" by simp
    from Cons.IH [OF this] obtain ss where ss: "prefix (map fst ss) paths"
      "segments_along oc t genesis gh key (of_origin_id tail) w1 ss" "stops_at tail ss" "w' = walked w1 ss"
      "n' = n + 1 + length ss" by blast
    with False vs show ?thesis
      by (intro exI [of _ "(path, body, mh, vs) # ss"]) (simp add: stops_at_Cons)
  qed
qed simp

lemma verify_origin_Inr:
  assumes "verify_origin oc t genesis gh key tail = Inr (vs, n)"
  obtains paths ss where
    "read_sorted_files t (''manifests/v2/origins/'' @ of_origin_id tail) ''.manifest.json'' = Inr paths"
    "prefix (map fst ss) paths" "segments_along oc t genesis gh key (of_origin_id tail) walk_start ss"
    "stops_at tail ss" "vs = concat (map located_records ss)" "n = length ss"
    "vs \<noteq> []" "ve_origin_seq (vr_envelope (vv_record (last vs))) = of_seq tail"
proof -
  from assms obtain paths r where p:
    "read_sorted_files t (''manifests/v2/origins/'' @ of_origin_id tail) ''.manifest.json'' = Inr paths"
    and r: "verify_origin_loop oc t genesis gh key tail paths walk_start 0 = Inr r"
      "(case r of (accepted_found, w, n) \<Rightarrow>
     ebind (ensure accepted_found
       (VsInvalid (''accepted segment manifest is missing for origin '' @ of_origin_id tail))) (\<lambda>_.
     ebind (ensure (ow_output w \<noteq> [] \<and> ve_origin_seq (vr_envelope (vv_record (last (ow_output w)))) = of_seq tail)
       (VsInvalid (''origin '' @ of_origin_id tail @ '' did not verify through its frontier''))) (\<lambda>_.
     Inr (ow_output w, n)))) = Inr (vs, n)"
    unfolding verify_origin_def ebind_eq_Inr by blast
  obtain found w m where r3: "r = (found, w, m)" by (rule prod_cases3)
  have l: "verify_origin_loop oc t genesis gh key tail paths walk_start 0 = Inr (found, w, n)" "found"
    and o: "vs = ow_output w" "vs \<noteq> []" "ve_origin_seq (vr_envelope (vv_record (last vs))) = of_seq tail"
    using r unfolding r3 prod.case ebind_eq_Inr ensure_eq_Inr sum.inject prod.inject by blast+
  from l have "verify_origin_loop oc t genesis gh key tail paths walk_start 0 = Inr (True, w, n)" by simp
  from verify_origin_loop_Inr [OF this] obtain ss where ss: "prefix (map fst ss) paths"
    "segments_along oc t genesis gh key (of_origin_id tail) walk_start ss" "stops_at tail ss"
    "w = walked walk_start ss" "n = length ss" by auto
  have "vs = concat (map located_records ss)" using o(1) ss(4) walked_parts [of walk_start ss] by (simp add: walk_start_def)
  with p ss o that show ?thesis by blast
qed

section \<open>What an accepted origin is\<close>

lemma load_signed_manifest_Inr:
  "load_signed_manifest oc t key path = Inr m \<longleftrightarrow>
     (\<exists>b message. tr_file t path = Some b \<and> manifest_from_slice oc b = Some m \<and> manifest_to_vec oc m = Inr b
        \<and> validate_manifest_body (sm_body m) = Inr () \<and> manifest_body_to_vec oc (sm_body m) = Inr message
        \<and> is_signed (oc_crypto oc) key message (sm_signature m))"
proof -
  have "manifest_verify oc m key = Inr () \<longleftrightarrow> validate_manifest_body (sm_body m) = Inr ()
      \<and> (\<exists>message. manifest_body_to_vec oc (sm_body m) = Inr message
        \<and> is_signed (oc_crypto oc) key message (sm_signature m))" for m
    unfolding manifest_verify_def is_signed_def canonical_json_def ebind_eq_Inr ensure_eq_Inr ok_or_eq_Inr
      map_err_eq_Inr by auto
  then show ?thesis
    unfolding load_signed_manifest_def canonical_json_def ebind_eq_Inr ensure_eq_Inr ok_or_eq_Inr read_file_Inr
      map_err_eq_Inr sum.inject by auto
qed

text \<open>
  The evidence for a record: a manifest of this origin and Archive that the key has signed, and
  a segment file with the hash the manifest names, which has the record as a line.
\<close>

definition attested ::
  "origin_codec \<Rightarrow> tree \<Rightarrow> genesis_body \<Rightarrow> bytes \<Rightarrow> bytes \<Rightarrow> bytes \<Rightarrow> verified_v2_record \<Rightarrow> bool" where
  "attested oc t genesis gh key origin v \<longleftrightarrow>
     (\<exists>m message content.
        manifest_body_to_vec oc (sm_body m) = Inr message \<and> is_signed (oc_crypto oc) key message (sm_signature m)
        \<and> manifest_hash oc m = Inr (vv_segment_manifest_hash v)
        \<and> sb_archive_id (sm_body m) = ge_archive_id genesis \<and> sb_genesis_hash (sm_body m) = gh
        \<and> sb_origin_id (sm_body m) = origin \<and> sb_causal_base_frontier_hash (sm_body m) = vv_causal_frontier_hash v
        \<and> tr_file t (sb_segment_path (sm_body m)) = Some content
        \<and> blake3_id (oc_crypto oc) content = sb_segment_blake3 (sm_body m)
        \<and> vv_line v \<in> set (split_on NL (butlast content)))"

lemma segment_at_attested:
  assumes "segment_at oc t genesis gh key origin path seq prev pm body mh vs" "v \<in> set vs"
  shows "attested oc t genesis gh key origin v"
proof -
  from assms(1) obtain m content where m: "load_signed_manifest oc t key path = Inr m" "sm_body m = body"
      "manifest_hash oc m = Inr mh"
    and b: "sb_archive_id body = ge_archive_id genesis" "sb_genesis_hash body = gh" "sb_origin_id body = origin"
    and c: "tr_file t (sb_segment_path body) = Some content" "blake3_id (oc_crypto oc) content = sb_segment_blake3 body"
      "split_on NL (butlast content) = map vv_line vs"
    and s: "list_all (stamped body mh) vs"
    unfolding segment_at_def by blast
  from m(1) obtain message where "manifest_body_to_vec oc (sm_body m) = Inr message"
      "is_signed (oc_crypto oc) key message (sm_signature m)"
    unfolding load_signed_manifest_Inr by blast
  moreover have "vv_segment_manifest_hash v = mh" "vv_causal_frontier_hash v = sb_causal_base_frontier_hash body"
    using s assms(2) by (auto simp: list_all_iff stamped_def)
  moreover have "vv_line v \<in> set (split_on NL (butlast content))" unfolding c(3) using assms(2) by simp
  ultimately show ?thesis unfolding attested_def
    using m(2,3) b c(1,2) by (intro exI [of _ m] exI [of _ message] exI [of _ content]) simp
qed

lemma segments_attested:
  "segments_along oc t genesis gh key origin w ss \<Longrightarrow> v \<in> set (concat (map located_records ss)) \<Longrightarrow>
   attested oc t genesis gh key origin v"
proof (induction ss arbitrary: w)
  case (Cons s ss)
  obtain path body mh rs where s: "s = (path, body, mh, rs)" by (metis prod_cases4)
  from Cons show ?case using segment_at_attested by (auto simp: s)
qed simp

lemma walk_start_parts:
  "ow_expected_seq walk_start = 1" "ow_previous_record_hash walk_start = None"
  "ow_previous_manifest_hash walk_start = None" "ow_output walk_start = []"
  by (simp_all add: walk_start_def)

lemma verify_origin_chain:
  assumes "verify_origin oc t genesis gh key tail = Inr (vs, n)"
  shows "origin_chain (oc_crypto oc) (oc_records oc) (of_origin_id tail) 1 None vs
    \<and> length vs = unat (of_seq tail) \<and> chain_hash None vs = Some (of_event_hash tail)
    \<and> (\<forall>v \<in> set vs. attested oc t genesis gh key (of_origin_id tail) v)"
proof -
  from verify_origin_Inr [OF assms] obtain ss where
    ss: "segments_along oc t genesis gh key (of_origin_id tail) walk_start ss" "stops_at tail ss"
    and vs: "vs = concat (map located_records ss)" "vs \<noteq> []"
      "ve_origin_seq (vr_envelope (vv_record (last vs))) = of_seq tail"
    by metis
  note c = segments_chain [OF ss(1), folded vs(1), unfolded walk_start_parts]
  have len: "length vs = unat (of_seq tail)"
    using origin_chain_last [OF c vs(2)] vs(3) by simp
  obtain ss' path body mh rs where last: "ss = ss' @ [(path, body, mh, rs)]"
    using ss(2) by (metis append_butlast_last_id prod_cases4 stops_at_def)
  have seg: "segment_at oc t genesis gh key (of_origin_id tail) path (ow_expected_seq (walked walk_start ss'))
      (ow_previous_record_hash (walked walk_start ss')) (ow_previous_manifest_hash (walked walk_start ss')) body mh rs"
    using ss(1) by (simp add: last segments_along_append)
  note r = segment_at_range [OF seg]
  have "chain_hash None vs = Some (vr_record_hash (vv_record (last rs)))"
    using r(3) by (simp add: vs(1) last chain_hash_def)
  also have "vr_record_hash (vv_record (last rs)) = of_event_hash tail"
    using ss(2) r(2) by (simp add: stops_at_def last)
  finally have h: "chain_hash None vs = Some (of_event_hash tail)" .
  have "\<forall>v \<in> set vs. attested oc t genesis gh key (of_origin_id tail) v"
    using segments_attested [OF ss(1)] vs(1) by blast
  with c len h show ?thesis by blast
qed

text \<open>
  C10. An accepted origin is one signed hash chain: when the verification of an origin succeeds,
  its records are the parses of lines numbered 1, 2, ... up to the accepted sequence number, each
  line names the hash of the line before it and the last one has the accepted hash, and every
  record stands in a segment file whose hash is in a manifest of this Archive that the origin's
  key has signed.
\<close>

theorem verified_origin_is_signed_chain:
  assumes "verify_origin oc t genesis gh key tail = Inr (vs, n)"
  shows "origin_chain (oc_crypto oc) (oc_records oc) (of_origin_id tail) 1 None vs
    \<and> length vs = unat (of_seq tail) \<and> chain_hash None vs = Some (of_event_hash tail)
    \<and> (\<forall>v \<in> set vs. attested oc t genesis gh key (of_origin_id tail) v)"
  by (rule verify_origin_chain [OF assms])

theorem verified_origin_is_signed_chain_witness:
  "origin_chain (oc_crypto archive_codec) (oc_records archive_codec) client_a 1 None (records_1 @ records_2)
    \<and> length (records_1 @ records_2) = 6"
  using verified_origin_is_signed_chain [OF sample_origin_verifies [unfolded verify_sample_def]]
  by (simp add: tail_at_def)

text \<open>
  C19. The accepted tail commits to the origin's whole history: two trees (two clones of the
  Archive, say) whose verification accepts the same tail hold the same lines and records for the
  origin, as long as the hash has no collision among their lines.
\<close>

theorem origin_tail_commits:
  assumes "verify_origin oc t genesis gh key tail = Inr (vs, n)"
    and "verify_origin oc t' genesis' gh' key' tail' = Inr (vs', n')"
    and "of_origin_id tail' = of_origin_id tail" "of_seq tail' = of_seq tail" "of_event_hash tail' = of_event_hash tail"
    and "inj_on (blake3_id (oc_crypto oc)) (vv_line ` (set vs \<union> set vs'))"
  shows "map vv_line vs = map vv_line vs' \<and> map vv_record vs = map vv_record vs'"
proof -
  note a = verify_origin_chain [OF assms(1)] and b = verify_origin_chain [OF assms(2), unfolded assms(3-5)]
  note ca = origin_chain_linked [OF a [THEN conjunct1]] and cb = origin_chain_linked [OF b [THEN conjunct1]]
  have "map vv_line vs = map vv_line vs'"
    by (rule origin_journal.last_hash_commits [OF ca [THEN conjunct1] cb [THEN conjunct1]])
      (use a b ca cb assms(6) in \<open>simp_all add: image_Un\<close>)
  with origin_chain_records a b show ?thesis by blast
qed

text \<open>The same origin in a clone that has another file.\<close>

definition cloned_tree :: tree where
  "cloned_tree = archive_tree\<lparr>tr_file := (\<lambda>path. if path = ''README'' then Some [] else tr_file archive_tree path)\<rparr>"

lemma cloned_origin_verifies:
  "verify_origin archive_codec cloned_tree (sg_body archive_genesis) (id_of ''genesis'') key_a (tail_at client_a 6 ''f'' ''m2'')
   = Inr (records_1 @ records_2, 2)"
  by code_simp

theorem origin_tail_commits_witness:
  "map vv_line (records_1 @ records_2) = map vv_line (records_1 @ records_2)
   \<and> map vv_record (records_1 @ records_2) = map vv_record (records_1 @ records_2)"
proof (rule origin_tail_commits [OF sample_origin_verifies [unfolded verify_sample_def] cloned_origin_verifies])
  have "distinct (map (blake3_id archive_crypto) (lines_a1 @ lines_a2))" by code_simp
  then have "inj_on (blake3_id archive_crypto) (set (lines_a1 @ lines_a2))" unfolding distinct_map by blast
  moreover have "oc_crypto archive_codec = archive_crypto" by (simp add: archive_codec_def)
  moreover have "vv_line ` (set (records_1 @ records_2) \<union> set (records_1 @ records_2)) = set (lines_a1 @ lines_a2)"
    by (simp add: records_1_def records_2_def verified_of_def image_Un image_image)
  ultimately show "inj_on (blake3_id (oc_crypto archive_codec))
      (vv_line ` (set (records_1 @ records_2) \<union> set (records_1 @ records_2)))"
    by simp
qed simp_all

section \<open>Verification from a cursor\<close>

text \<open>Manifest files are named after the first sequence number they hold.\<close>

definition manifests_named :: "origin_codec \<Rightarrow> tree \<Rightarrow> bytes \<Rightarrow> bytes \<Rightarrow> bool" where
  "manifests_named oc t key origin \<longleftrightarrow>
     (\<forall>paths path m. read_sorted_files t (''manifests/v2/origins/'' @ origin) ''.manifest.json'' = Inr paths
        \<longrightarrow> path \<in> set paths \<longrightarrow> load_signed_manifest oc t key path = Inr m
        \<longrightarrow> path = manifest_relative_path origin (sb_first_seq (sm_body m)))"

definition origin_cursor :: "origin_frontier \<Rightarrow> v2_origin_cursor" where
  "origin_cursor tail = \<lparr>oc_applied_seq = of_seq tail, oc_applied_record_hash = Some (of_event_hash tail),
     oc_applied_segment_manifest_hash = Some (of_segment_manifest_hash tail)\<rparr>"

lemma segments_last_seq:
  assumes "segments_along oc t genesis gh key origin w ss" "ss \<noteq> []"
  shows "unat (sb_last_seq (located_body (last ss))) + 1 = unat (ow_expected_seq (walked w ss))
    \<and> unat (ow_expected_seq w) < unat (ow_expected_seq (walked w ss))"
  using assms
proof (induction ss arbitrary: w)
  case (Cons s ss)
  obtain path body mh rs where s: "s = (path, body, mh, rs)" by (metis prod_cases4)
  note seg = Cons.prems(1) [unfolded s segments_along.simps, THEN conjunct1]
  note r = segment_at_range [OF seg]
  have step: "unat (ow_expected_seq (walk_after w rs mh)) = unat (ow_expected_seq w) + length rs"
    using r(4) by (simp add: walk_after_def)
  show ?case
  proof (cases "ss = []")
    case True
    then show ?thesis using r(1,3) step by (simp add: s)
  next
    case False
    then show ?thesis
      using Cons.IH [of "walk_after w rs mh"] Cons.prems(1) step by (simp add: s)
  qed
qed simp

text \<open>The incremental walk takes the segments that the whole walk would take.\<close>

lemma verify_range_loop_along:
  assumes "segments_along oc t genesis gh key (of_origin_id tail) w ss" "stops_at tail ss"
    and "\<forall>s \<in> set ss. fst s = manifest_relative_path (of_origin_id tail) (sb_first_seq (located_body s))
      \<and> known (sb_causal_base_frontier_hash (located_body s))"
    and "unat segments + length ss < 2 ^ 64"
  shows "verify_range_loop oc t genesis gh key tail known w segments
    = Inr (ow_output (walked w ss), segments + of_nat (length ss))"
  using assms
proof (induction ss arbitrary: w segments)
  case Nil
  then show ?case by (simp add: stops_at_def)
next
  case (Cons s ss)
  obtain path body mh rs where s: "s = (path, body, mh, rs)" by (metis prod_cases4)
  note seg = Cons.prems(1) [unfolded s segments_along.simps, THEN conjunct1]
  have first: "sb_first_seq body = ow_expected_seq w" using seg unfolding segment_at_def by blast
  have path: "path = manifest_relative_path (of_origin_id tail) (ow_expected_seq w)"
    and kn: "known (sb_causal_base_frontier_hash body)"
    using Cons.prems(3) first by (simp_all add: s)
  have walk: "walk_segment oc t genesis gh key (of_origin_id tail) known
       ''incremental segment manifest chain is inconsistent at ''
       (manifest_relative_path (of_origin_id tail) (ow_expected_seq w)) w = Inr (walk_after w rs mh, body, mh)"
    by (rule iffD2 [OF walk_segment_iff], rule exI [of _ rs]) (use seg kn path in simp)
  have count: "checked_add segments 1 = Some (segments + 1)" "unat (segments + 1) = unat segments + 1"
    using Cons.prems(4) by (simp_all add: checked_add_def unat_word_ariths)
  show ?case
  proof (cases "mh = of_segment_manifest_hash tail")
    case True
    then have "ss = []" "sb_last_seq body = of_seq tail" "sb_last_record_hash body = of_event_hash tail"
      using Cons.prems(2) by (simp_all add: s stops_at_Cons split: if_splits)
    with True show ?thesis
      by (subst verify_range_loop.simps) (simp add: walk count s tail_matches_def)
  next
    case False
    then have stop: "stops_at tail ss" using Cons.prems(2) by (simp add: s stops_at_Cons)
    then have ss: "ss \<noteq> []" and last: "sb_last_seq (located_body (last ss)) = of_seq tail"
      unfolding stops_at_def by blast+
    have along: "segments_along oc t genesis gh key (of_origin_id tail) (walk_after w rs mh) ss"
      using Cons.prems(1) by (simp add: s)
    have "unat (sb_last_seq body) + 1 = unat (ow_expected_seq (walk_after w rs mh))"
      using segment_at_range(1,4) [OF seg] by (simp add: walk_after_def)
    with segments_last_seq [OF along ss, unfolded last] have "sb_last_seq body < of_seq tail"
      unfolding word_less_nat_alt by linarith
    then have not_passed: "\<not> of_seq tail \<le> sb_last_seq body" by simp
    have "verify_range_loop oc t genesis gh key tail known w segments
        = verify_range_loop oc t genesis gh key tail known (walk_after w rs mh) (segments + 1)"
      using False not_passed by (subst verify_range_loop.simps) (simp add: walk count)
    also have "\<dots> = Inr (ow_output (walked (walk_after w rs mh) ss), segments + 1 + of_nat (length ss))"
      by (rule Cons.IH [OF along stop]) (use Cons.prems(3,4) count in simp_all)
    finally show ?thesis by (simp add: s add.assoc)
  qed
qed

text \<open>The segments of a verified origin, located by name.\<close>

lemma located_named:
  assumes "segments_along oc t genesis gh key origin w ss" "s \<in> set ss"
  shows "\<exists>m. load_signed_manifest oc t key (fst s) = Inr m \<and> sm_body m = located_body s
    \<and> (\<forall>v \<in> set (located_records s). vv_causal_frontier_hash v = sb_causal_base_frontier_hash (located_body s))
    \<and> located_records s \<noteq> []"
  using assms
proof (induction ss arbitrary: w)
  case (Cons s0 ss)
  obtain path body mh rs where s0: "s0 = (path, body, mh, rs)" by (metis prod_cases4)
  show ?case
  proof (cases "s = s0")
    case True
    have "segment_at oc t genesis gh key origin path (ow_expected_seq w) (ow_previous_record_hash w)
      (ow_previous_manifest_hash w) body mh rs" using Cons.prems(1) by (simp add: s0)
    then show ?thesis unfolding True s0 segment_at_def by (auto simp: list_all_iff stamped_def)
  next
    case False
    then show ?thesis using Cons.IH [of "walk_after w rs mh"] Cons.prems by (simp add: s0)
  qed
qed simp

lemma verified_origin_located:
  assumes "verify_origin oc t genesis gh key tail = Inr (vs, n)"
    and "manifests_named oc t key (of_origin_id tail)" and "\<forall>v \<in> set vs. known (vv_causal_frontier_hash v)"
  obtains ss paths where
    "read_sorted_files t (''manifests/v2/origins/'' @ of_origin_id tail) ''.manifest.json'' = Inr paths"
    "prefix (map fst ss) paths" "segments_along oc t genesis gh key (of_origin_id tail) walk_start ss"
    "stops_at tail ss" "vs = concat (map located_records ss)" "n = length ss"
    "\<forall>s \<in> set ss. fst s = manifest_relative_path (of_origin_id tail) (sb_first_seq (located_body s))
      \<and> known (sb_causal_base_frontier_hash (located_body s))"
proof -
  from verify_origin_Inr [OF assms(1)] obtain ss paths where
    ss: "read_sorted_files t (''manifests/v2/origins/'' @ of_origin_id tail) ''.manifest.json'' = Inr paths"
    "prefix (map fst ss) paths" "segments_along oc t genesis gh key (of_origin_id tail) walk_start ss"
    "stops_at tail ss" "vs = concat (map located_records ss)" "n = length ss"
    by metis
  have "fst s = manifest_relative_path (of_origin_id tail) (sb_first_seq (located_body s))
      \<and> known (sb_causal_base_frontier_hash (located_body s))" if s: "s \<in> set ss" for s
  proof -
    from located_named [OF ss(3) s] obtain m where m: "load_signed_manifest oc t key (fst s) = Inr m" "sm_body m = located_body s"
      and c: "\<forall>v \<in> set (located_records s). vv_causal_frontier_hash v = sb_causal_base_frontier_hash (located_body s)"
      "located_records s \<noteq> []" by blast
    from c(2) have v: "hd (located_records s) \<in> set (located_records s)" by simp
    with s ss(5) have "hd (located_records s) \<in> set vs" by auto
    with assms(3) c(1) v have "known (sb_causal_base_frontier_hash (located_body s))" by metis
    moreover have "fst s \<in> set paths" using ss(2) s by (auto elim!: prefixE)
    ultimately show ?thesis using assms(2) ss(1) m unfolding manifests_named_def by metis
  qed
  with ss that show ?thesis by blast
qed

text \<open>
  Verifying a whole origin and verifying it from its start by cursor agree: when every
  manifest file is named after its first sequence number and the causal frontiers are known, the
  incremental walk from the empty cursor finds the records and the number of segments that the
  complete verification finds.
\<close>

theorem range_from_start_agrees:
  assumes "verify_origin oc t genesis gh key tail = Inr (vs, n)" and "manifests_named oc t key (of_origin_id tail)"
    and "\<forall>v \<in> set vs. known (vv_causal_frontier_hash v)" and "n < 2 ^ 64"
  shows "verify_origin_range oc t genesis gh key tail
      \<lparr>oc_applied_seq = 0, oc_applied_record_hash = None, oc_applied_segment_manifest_hash = None\<rparr> known
    = Inr (vs, of_nat n)"
proof -
  from verified_origin_located [OF assms(1-3)] obtain ss where
    ss: "segments_along oc t genesis gh key (of_origin_id tail) walk_start ss" "stops_at tail ss"
      "vs = concat (map located_records ss)" "n = length ss"
      "\<forall>s \<in> set ss. fst s = manifest_relative_path (of_origin_id tail) (sb_first_seq (located_body s))
        \<and> known (sb_causal_base_frontier_hash (located_body s))"
    by metis
  have "verify_range_loop oc t genesis gh key tail known walk_start 0 = Inr (ow_output (walked walk_start ss), 0 + of_nat (length ss))"
    by (rule verify_range_loop_along [OF ss(1,2,5)]) (use assms(4) ss(4) in simp)
  then show ?thesis
    using walked_parts [of walk_start ss] ss(3,4)
    by (simp add: verify_origin_range_def checked_add_def walk_start_def)
qed

text \<open>
  C20. Incremental verification is exact: when an origin verifies up to an older and up to a newer
  accepted tail, the walk from the older tail as the cursor returns exactly the records of the
  newer history after those of the older one, which is a prefix of it.
\<close>

theorem range_from_cursor_agrees:
  assumes "verify_origin oc t genesis gh key old = Inr (vs, n)" and "verify_origin oc t genesis gh key new = Inr (vs', n')"
    and "of_origin_id old = of_origin_id new" and "of_seq old < of_seq new"
    and "manifests_named oc t key (of_origin_id new)"
    and "\<forall>v \<in> set vs'. known (vv_causal_frontier_hash v)" and "n' < 2 ^ 64"
  shows "verify_origin_range oc t genesis gh key new (origin_cursor old) known
      = Inr (drop (length vs) vs', of_nat (n' - n)) \<and> prefix vs vs'"
proof -
  from verified_origin_located [OF assms(2,5,6)] obtain ss' paths where
    new: "read_sorted_files t (''manifests/v2/origins/'' @ of_origin_id new) ''.manifest.json'' = Inr paths"
      "prefix (map fst ss') paths" "segments_along oc t genesis gh key (of_origin_id new) walk_start ss'" "stops_at new ss'"
      "vs' = concat (map located_records ss')" "n' = length ss'"
      "\<forall>s \<in> set ss'. fst s = manifest_relative_path (of_origin_id new) (sb_first_seq (located_body s))
        \<and> known (sb_causal_base_frontier_hash (located_body s))"
    by metis
  from verify_origin_Inr [OF assms(1)] obtain ss where
    old: "prefix (map fst ss) paths" "segments_along oc t genesis gh key (of_origin_id new) walk_start ss" "stops_at old ss"
      "vs = concat (map located_records ss)" "n = length ss"
    unfolding assms(3) new(1) by (metis sum.inject(2))
  have len: "length vs = unat (of_seq old)" "length vs' = unat (of_seq new)"
    using verify_origin_chain [OF assms(1)] verify_origin_chain [OF assms(2)] by blast+
  have "prefix (map fst ss) (map fst ss') \<or> prefix (map fst ss') (map fst ss)"
    using old(1) new(2) by (rule prefix_same_cases)
  then have "prefix ss ss' \<or> prefix ss' ss"
    using segments_along_unique [OF old(2) new(3)] segments_along_unique [OF new(3) old(2)] by blast
  moreover have "\<not> prefix ss' ss"
  proof
    assume "prefix ss' ss"
    then have "length vs' \<le> length vs" unfolding old(4) new(5) by (auto simp: prefix_def)
    with len assms(4) show False by (simp add: word_less_nat_alt)
  qed
  ultimately obtain rest where rest: "ss' = ss @ rest" by (auto simp: prefix_def)
  have "rest \<noteq> []"
  proof
    assume "rest = []"
    then have "length vs' = length vs" using rest old(4) new(5) by simp
    with len assms(4) show False by (simp add: word_less_nat_alt)
  qed
  then have stop: "stops_at new rest"
    using new(4) by (auto simp: stops_at_def rest butlast_append)
  let ?w = "walked walk_start ss"
  have w: "ow_expected_seq ?w = of_seq old + 1" "ow_previous_record_hash ?w = Some (of_event_hash old)"
    "ow_previous_manifest_hash ?w = Some (of_segment_manifest_hash old)"
  proof -
    note p = walked_parts [of walk_start ss]
    have "(of_nat (length vs) :: u64) = of_seq old" unfolding len(1) by simp
    then show "ow_expected_seq ?w = of_seq old + 1"
      using p unfolding old(4) [symmetric] walk_start_parts by (simp add: add.commute)
    show "ow_previous_record_hash ?w = Some (of_event_hash old)"
      using p verify_origin_chain [OF assms(1)] unfolding old(4) [symmetric] walk_start_parts by simp
    show "ow_previous_manifest_hash ?w = Some (of_segment_manifest_hash old)"
      using p old(3) unfolding stops_at_def by simp
  qed
  let ?start = "\<lparr>ow_expected_seq = of_seq old + 1, ow_previous_record_hash = Some (of_event_hash old),
      ow_previous_manifest_hash = Some (of_segment_manifest_hash old), ow_output = []\<rparr>"
  have start: "?start = ?w\<lparr>ow_output := []\<rparr>" using w by (cases ?w) simp
  have along: "segments_along oc t genesis gh key (of_origin_id new) ?start rest"
    unfolding start segments_along_output using new(3) by (simp add: rest segments_along_append)
  have "verify_range_loop oc t genesis gh key new known ?start 0 = Inr (ow_output (walked ?start rest), 0 + of_nat (length rest))"
    by (rule verify_range_loop_along [OF along stop]) (use assms(7) new(6,7) rest in auto)
  moreover have "ow_output (walked ?start rest) = drop (length vs) vs'"
    using walked_parts [of ?start rest] by (simp add: new(5) old(4) rest)
  moreover have "length rest = n' - n" using new(6) old(5) rest by simp
  moreover have "checked_add (of_seq old) 1 = Some (of_seq old + 1)"
  proof -
    have "unat (of_seq new) < 2 ^ 64" using unsigned_less [of "of_seq new", where ?'a = nat] by simp
    with assms(4) show ?thesis by (simp add: checked_add_def word_less_nat_alt)
  qed
  ultimately show ?thesis
    unfolding verify_origin_range_def origin_cursor_def by (simp add: new(5) old(4) rest)
qed

section \<open>Witnesses\<close>

lemma archive_manifests_named: "manifests_named archive_codec archive_tree key_a client_a"
proof -
  have r: "read_sorted_files archive_tree (''manifests/v2/origins/'' @ client_a) ''.manifest.json''
      = Inr [manifest_relative_path client_a 1, manifest_relative_path client_a 4]" by code_simp
  have m: "load_signed_manifest archive_codec archive_tree key_a (manifest_relative_path client_a 1) = Inr manifest_1"
    "load_signed_manifest archive_codec archive_tree key_a (manifest_relative_path client_a 4) = Inr manifest_2"
    by code_simp+
  have "sb_first_seq (sm_body manifest_1) = 1" "sb_first_seq (sm_body manifest_2) = 4"
    by (simp_all add: manifest_1_def manifest_2_def manifest_of_def)
  with m show ?thesis unfolding manifests_named_def r by auto
qed

definition known_bases :: "bytes \<Rightarrow> bool" where "known_bases h \<longleftrightarrow> h = id_of ''f0'' \<or> h = id_of ''f1''"

lemma records_known: "\<forall>v \<in> set (records_1 @ records_2). known_bases (vv_causal_frontier_hash v)"
  by (auto simp: records_1_def records_2_def verified_of_def known_bases_def)

theorem range_from_start_agrees_witness:
  "verify_origin_range archive_codec archive_tree (sg_body archive_genesis) (id_of ''genesis'') key_a
     (tail_at client_a 6 ''f'' ''m2'')
      \<lparr>oc_applied_seq = 0, oc_applied_record_hash = None, oc_applied_segment_manifest_hash = None\<rparr> known_bases
    = Inr (records_1 @ records_2, of_nat 2)"
  by (rule range_from_start_agrees [OF sample_origin_verifies [unfolded verify_sample_def] _ records_known])
    (simp_all add: tail_at_def archive_manifests_named)

theorem range_from_cursor_agrees_witness:
  "verify_origin_range archive_codec archive_tree (sg_body archive_genesis) (id_of ''genesis'') key_a
     (tail_at client_a 6 ''f'' ''m2'') (origin_cursor (tail_at client_a 3 ''c'' ''m1'')) known_bases
    = Inr (drop (length records_1) (records_1 @ records_2), of_nat (2 - 1)) \<and> prefix records_1 (records_1 @ records_2)"
  by (rule range_from_cursor_agrees [OF sample_short_verifies [unfolded verify_sample_def]
      sample_origin_verifies [unfolded verify_sample_def] _ _ _ records_known])
    (simp_all add: tail_at_def archive_manifests_named)

end
