(* ===== verification/Origin_Batches.thy ===== *)
theory Origin_Batches
  imports Origin_Chain
begin

text \<open>
  The batches inside an origin's journal (\<open>src/src/v2_store.rs\<close>): \<open>validate_streamed_batch_record\<close>
  follows one segment record by record, \<open>verify_batches\<close> sorts the records of a whole history
  into batches first. Both feed the chunks to the validator of \<open>Batch_Validation\<close>. The payload
  of a parsed record is an object.
\<close>

section \<open>Definitions\<close>

definition string_field :: "json \<Rightarrow> bytes \<Rightarrow> v2_store_error + bytes" where
  "string_field obj field = ok_or (Option.bind (json_member obj field) json_as_str)
     (VsInvalid (''batch payload field '' @ field @ '' is missing or invalid''))"

definition u64_field :: "json \<Rightarrow> bytes \<Rightarrow> v2_store_error + u64" where
  "u64_field obj field = ok_or (Option.bind (json_member obj field) json_as_u64)
     (VsInvalid (''batch payload field '' @ field @ '' is missing or invalid''))"

abbreviation vv_envelope :: "verified_v2_record \<Rightarrow> v2_record_envelope" where
  "vv_envelope v \<equiv> vr_envelope (vv_record v)"

abbreviation vv_payload :: "verified_v2_record \<Rightarrow> json" where
  "vv_payload v \<equiv> ve_payload (vr_envelope (vv_record v))"

text \<open>The descriptor of a chunk record, and the completion that a complete record declares.\<close>

definition chunk_items_of :: "bytes \<Rightarrow> verified_v2_record \<Rightarrow> v2_store_error + json list" where
  "chunk_items_of batch_id v = ok_or (Option.bind (json_member (vv_payload v) ''items'') json_as_array)
     (VsInvalid (''batch '' @ batch_id @ '' chunk items are invalid''))"

definition describe_chunk ::
  "bytes \<Rightarrow> verified_v2_record \<Rightarrow> u64 \<Rightarrow> json list \<Rightarrow> v2_store_error + batch_chunk_descriptor" where
  "describe_chunk batch_id v first items =
     ebind (ensure (int (length items) < 2 ^ 32) (VsInvalid ''batch item count overflow'')) (\<lambda>_.
     Inr \<lparr>bc_batch_id = batch_id, bc_first_item_index = first, bc_item_count = of_nat (length items),
          bc_serialized_bytes = of_nat (length (vv_line v)), bc_record_hash = vr_record_hash (vv_record v)\<rparr>)"

definition completion_of :: "verified_v2_record \<Rightarrow> v2_store_error + batch_completion" where
  "completion_of v =
     ebind (u64_field (vv_payload v) ''total_items'') (\<lambda>total.
     ebind (string_field (vv_payload v) ''ordered_item_digest'') (\<lambda>digest.
     Inr \<lparr>bco_total_items = total, bco_ordered_item_digest = digest\<rparr>))"

definition check_complete :: "bytes \<Rightarrow> verified_v2_record \<Rightarrow> v2_store_error + unit" where
  "check_complete batch_id v =
     ebind (string_field (vv_payload v) ''status'') (\<lambda>status.
     ensure (status = ''complete'') (VsInvalid (''batch '' @ batch_id @ '' is not complete'')))"

subsection \<open>Record by record\<close>

record streaming_batch =
  st_batch_id :: bytes
  st_validator :: batch_validator

definition validate_streamed_batch_record ::
  "origin_codec \<Rightarrow> verified_v2_record \<Rightarrow> streaming_batch option \<Rightarrow> v2_store_error + streaming_batch option" where
  "validate_streamed_batch_record oc v active =
     (let batch_id = ve_batch_id (vv_envelope v);
          no_start = VsInvalid (''batch '' @ batch_id @ '' has no start'');
          crosses = VsInvalid (''batch '' @ batch_id @ '' crosses another batch'') in
      case ve_record_kind (vv_envelope v) of
        BatchStart \<Rightarrow>
          ebind (ensure (active = None)
            (VsInvalid (''batch '' @ batch_id @ '' starts before the preceding batch completed''))) (\<lambda>_.
          ebind (string_field (vv_payload v) ''causal_frontier_hash'') (\<lambda>causal.
          ebind (ensure (causal = vv_causal_frontier_hash v)
            (VsInvalid (''batch '' @ batch_id @ '' causal frontier does not match its segment manifest''))) (\<lambda>_.
          ebind (map_err VsBatch (batch_validator_new batch_id default_limits)) (\<lambda>validator.
          Inr (Some \<lparr>st_batch_id = batch_id, st_validator = validator\<rparr>)))))
      | BatchChunk \<Rightarrow>
          ebind (ok_or active no_start) (\<lambda>state.
          ebind (ensure (st_batch_id state = batch_id) crosses) (\<lambda>_.
          ebind (chunk_items_of batch_id v) (\<lambda>items.
          ebind (u64_field (vv_payload v) ''first_item_index'') (\<lambda>first.
          ebind (describe_chunk batch_id v first items) (\<lambda>chunk.
          ebind (map_err VsBatch (accept_chunk chunk (st_validator state))) (\<lambda>validator.
          Inr (Some (state\<lparr>st_validator := validator\<rparr>))))))))
      | BatchComplete \<Rightarrow>
          ebind (ok_or active no_start) (\<lambda>state.
          ebind (ensure (st_batch_id state = batch_id) crosses) (\<lambda>_.
          ebind (completion_of v) (\<lambda>completion.
          ebind (map_err VsBatch (validate_completion (hash_hex (oc_crypto oc)) (st_validator state) completion)) (\<lambda>_.
          ebind (check_complete batch_id v) (\<lambda>_.
          Inr None))))))"

subsection \<open>A whole history\<close>

record batch_records =
  br_start :: "verified_v2_record option"
  br_chunks :: "verified_v2_record list"
  br_complete :: "verified_v2_record option"

definition no_batch_records :: batch_records where
  "no_batch_records = \<lparr>br_start = None, br_chunks = [], br_complete = None\<rparr>"

definition sort_into_batch ::
  "verified_v2_record \<Rightarrow> (bytes \<rightharpoonup> batch_records) \<Rightarrow> v2_store_error + (bytes \<rightharpoonup> batch_records)" where
  "sort_into_batch v batches =
     (let batch_id = ve_batch_id (vv_envelope v);
          entry = (case batches batch_id of None \<Rightarrow> no_batch_records | Some e \<Rightarrow> e);
          duplicate = VsInvalid (''batch '' @ batch_id @ '' has duplicate control records'') in
      case ve_record_kind (vv_envelope v) of
        BatchStart \<Rightarrow> ebind (ensure (br_start entry = None) duplicate) (\<lambda>_.
          Inr (batches(batch_id \<mapsto> entry\<lparr>br_start := Some v\<rparr>)))
      | BatchChunk \<Rightarrow> Inr (batches(batch_id \<mapsto> entry\<lparr>br_chunks := br_chunks entry @ [v]\<rparr>))
      | BatchComplete \<Rightarrow> ebind (ensure (br_complete entry = None) duplicate) (\<lambda>_.
          Inr (batches(batch_id \<mapsto> entry\<lparr>br_complete := Some v\<rparr>))))"

definition accept_history_chunk ::
  "bytes \<Rightarrow> verified_v2_record \<Rightarrow> batch_validator \<Rightarrow> v2_store_error + batch_validator" where
  "accept_history_chunk batch_id v validator =
     ebind (u64_field (vv_payload v) ''first_item_index'') (\<lambda>first.
     ebind (chunk_items_of batch_id v) (\<lambda>items.
     ebind (describe_chunk batch_id v first items) (\<lambda>chunk.
     map_err VsBatch (accept_chunk chunk validator))))"

definition verify_batch :: "origin_codec \<Rightarrow> bytes \<Rightarrow> batch_records \<Rightarrow> v2_store_error + unit" where
  "verify_batch oc batch_id b =
     ebind (ok_or (br_start b) (VsInvalid (''batch '' @ batch_id @ '' has no start''))) (\<lambda>start.
     ebind (ok_or (br_complete b) (VsInvalid (''batch '' @ batch_id @ '' has no completion''))) (\<lambda>complete.
     let origin = ve_origin_id (vv_envelope start); first = ve_origin_seq (vv_envelope start);
         final = ve_origin_seq (vv_envelope complete) in
     ebind (ensure (\<not> (ve_origin_id (vv_envelope complete) \<noteq> origin \<or> final \<le> first
         \<or> list_ex (\<lambda>chunk. ve_origin_id (vv_envelope chunk) \<noteq> origin
             \<or> ve_origin_seq (vv_envelope chunk) \<le> first \<or> final \<le> ve_origin_seq (vv_envelope chunk)) (br_chunks b)))
       (VsInvalid (''batch '' @ batch_id @ '' crosses origins or has invalid record ordering''))) (\<lambda>_.
     ebind (string_field (vv_payload start) ''causal_frontier_hash'') (\<lambda>causal.
     ebind (ensure (causal = vv_causal_frontier_hash start)
       (VsInvalid (''batch '' @ batch_id @ '' causal frontier does not match its segment manifest''))) (\<lambda>_.
     ebind (map_err VsBatch (batch_validator_new batch_id default_limits)) (\<lambda>validator.
     ebind (efold (accept_history_chunk batch_id) (br_chunks b) validator) (\<lambda>validator.
     ebind (completion_of complete) (\<lambda>completion.
     ebind (map_err VsBatch (validate_completion (hash_hex (oc_crypto oc)) validator completion)) (\<lambda>_.
     check_complete batch_id complete)))))))))"

definition verify_batches :: "origin_codec \<Rightarrow> verified_v2_record list \<Rightarrow> v2_store_error + unit" where
  "verify_batches oc records =
     ebind (efold sort_into_batch records Map.empty) (\<lambda>batches.
     efold (\<lambda>batch_id _. verify_batch oc batch_id (the (batches batch_id)))
       (sort (remdups (map (\<lambda>v. ve_batch_id (vv_envelope v)) records))) ())"

section \<open>Sealed batches\<close>

text \<open>The reference: a start, its chunks and a completion that the batch validator accepts.\<close>

definition chunk_of :: "bytes \<Rightarrow> verified_v2_record \<Rightarrow> batch_chunk_descriptor \<Rightarrow> bool" where
  "chunk_of batch_id v d \<longleftrightarrow>
     (\<exists>items first. json_member (vv_payload v) ''items'' = Some (JArr items)
        \<and> u64_field (vv_payload v) ''first_item_index'' = Inr first
        \<and> describe_chunk batch_id v first items = Inr d)"

definition start_ok :: "bytes \<Rightarrow> verified_v2_record \<Rightarrow> bool" where
  "start_ok batch_id v \<longleftrightarrow> ve_record_kind (vv_envelope v) = BatchStart \<and> ve_batch_id (vv_envelope v) = batch_id
     \<and> string_field (vv_payload v) ''causal_frontier_hash'' = Inr (vv_causal_frontier_hash v)"

definition chunks_ok :: "bytes \<Rightarrow> verified_v2_record list \<Rightarrow> batch_chunk_descriptor list \<Rightarrow> bool" where
  "chunks_ok batch_id = list_all2 (\<lambda>v d. ve_record_kind (vv_envelope v) = BatchChunk
     \<and> ve_batch_id (vv_envelope v) = batch_id \<and> chunk_of batch_id v d)"

definition complete_ok :: "bytes \<Rightarrow> verified_v2_record \<Rightarrow> batch_completion \<Rightarrow> bool" where
  "complete_ok batch_id v completion \<longleftrightarrow> ve_record_kind (vv_envelope v) = BatchComplete
     \<and> ve_batch_id (vv_envelope v) = batch_id \<and> completion_of v = Inr completion
     \<and> string_field (vv_payload v) ''status'' = Inr ''complete''"

definition sealed_batch :: "origin_codec \<Rightarrow> bytes \<Rightarrow> verified_v2_record list \<Rightarrow> bool" where
  "sealed_batch oc batch_id vs \<longleftrightarrow>
     (\<exists>start chunks complete ds completion. vs = start # chunks @ [complete] \<and> start_ok batch_id start
        \<and> chunks_ok batch_id chunks ds \<and> complete_ok batch_id complete completion
        \<and> validate_batch (hash_hex (oc_crypto oc)) batch_id default_limits ds completion = Inr ())"

lemma chunk_items_of_Inr: "chunk_items_of batch_id v = Inr items \<longleftrightarrow> json_member (vv_payload v) ''items'' = Some (JArr items)"
proof -
  have "json_as_array j = Some items \<longleftrightarrow> j = JArr items" for j by (cases j) auto
  then show ?thesis unfolding chunk_items_of_def ok_or_eq_Inr bind_eq_Some_conv by auto
qed

lemma check_complete_Inr: "check_complete batch_id v = Inr u \<longleftrightarrow> string_field (vv_payload v) ''status'' = Inr ''complete''"
  unfolding check_complete_def ebind_eq_Inr ensure_eq_Inr by blast

lemma stream_start:
  assumes "ve_record_kind (vv_envelope v) = BatchStart"
  shows "validate_streamed_batch_record oc v active = Inr active' \<longleftrightarrow>
    active = None \<and> start_ok (ve_batch_id (vv_envelope v)) v
    \<and> (\<exists>validator. batch_validator_new (ve_batch_id (vv_envelope v)) default_limits = Inr validator
        \<and> active' = Some \<lparr>st_batch_id = ve_batch_id (vv_envelope v), st_validator = validator\<rparr>)"
  unfolding validate_streamed_batch_record_def Let_def assms v2_record_kind.case ebind_eq_Inr ensure_eq_Inr
    map_err_eq_Inr sum.inject start_ok_def by auto

lemma stream_chunk:
  assumes "ve_record_kind (vv_envelope v) = BatchChunk"
  shows "validate_streamed_batch_record oc v active = Inr active' \<longleftrightarrow>
    (\<exists>st d validator. active = Some st \<and> st_batch_id st = ve_batch_id (vv_envelope v)
       \<and> chunk_of (ve_batch_id (vv_envelope v)) v d \<and> accept_chunk d (st_validator st) = Inr validator
       \<and> active' = Some (st\<lparr>st_validator := validator\<rparr>))"
  unfolding validate_streamed_batch_record_def Let_def assms v2_record_kind.case ebind_eq_Inr ensure_eq_Inr
    ok_or_eq_Inr map_err_eq_Inr sum.inject chunk_of_def chunk_items_of_Inr by blast

lemma stream_complete:
  assumes "ve_record_kind (vv_envelope v) = BatchComplete"
  shows "validate_streamed_batch_record oc v active = Inr active' \<longleftrightarrow>
    (\<exists>st completion. active = Some st \<and> complete_ok (st_batch_id st) v completion
       \<and> validate_completion (hash_hex (oc_crypto oc)) (st_validator st) completion = Inr () \<and> active' = None)"
  unfolding validate_streamed_batch_record_def Let_def assms v2_record_kind.case ebind_eq_Inr ensure_eq_Inr
    ok_or_eq_Inr map_err_eq_Inr sum.inject complete_ok_def check_complete_Inr by auto

text \<open>Inside a batch.\<close>

lemma stream_open:
  "efold (validate_streamed_batch_record oc) vs (Some st) = Inr None \<longleftrightarrow>
     (\<exists>chunks complete rest ds completion validator. vs = chunks @ complete # rest
        \<and> chunks_ok (st_batch_id st) chunks ds \<and> complete_ok (st_batch_id st) complete completion
        \<and> efold accept_chunk ds (st_validator st) = Inr validator
        \<and> validate_completion (hash_hex (oc_crypto oc)) validator completion = Inr ()
        \<and> efold (validate_streamed_batch_record oc) rest None = Inr None)"
  (is "?l vs st \<longleftrightarrow> ?r vs st")
proof (induction vs arbitrary: st)
  case (Cons v vs)
  show ?case
  proof (cases "ve_record_kind (vv_envelope v)")
    case BatchStart
    then have "validate_streamed_batch_record oc v (Some st) \<noteq> Inr a" for a
      using stream_start by blast
    then have "\<not> ?l (v # vs) st" by (auto simp: ebind_eq_Inr)
    moreover have "\<not> ?r (v # vs) st"
      using BatchStart by (auto simp: Cons_eq_append_conv chunks_ok_def complete_ok_def list_all2_Cons1)
    ultimately show ?thesis by blast
  next
    case BatchChunk
    have "?l (v # vs) st \<longleftrightarrow> (\<exists>d validator. st_batch_id st = ve_batch_id (vv_envelope v)
        \<and> chunk_of (ve_batch_id (vv_envelope v)) v d \<and> accept_chunk d (st_validator st) = Inr validator
        \<and> ?r vs (st\<lparr>st_validator := validator\<rparr>))"
      unfolding efold.simps ebind_eq_Inr stream_chunk [OF BatchChunk] using Cons.IH by blast
    also have "\<dots> \<longleftrightarrow> ?r (v # vs) st"
    proof
      assume "\<exists>d validator. st_batch_id st = ve_batch_id (vv_envelope v)
        \<and> chunk_of (ve_batch_id (vv_envelope v)) v d \<and> accept_chunk d (st_validator st) = Inr validator
        \<and> ?r vs (st\<lparr>st_validator := validator\<rparr>)"
      then obtain d validator chunks complete rest ds completion validator' where
        h: "st_batch_id st = ve_batch_id (vv_envelope v)" "chunk_of (ve_batch_id (vv_envelope v)) v d"
          "accept_chunk d (st_validator st) = Inr validator" "vs = chunks @ complete # rest"
          "chunks_ok (st_batch_id st) chunks ds" "complete_ok (st_batch_id st) complete completion"
          "efold accept_chunk ds validator = Inr validator'"
          "validate_completion (hash_hex (oc_crypto oc)) validator' completion = Inr ()"
          "efold (validate_streamed_batch_record oc) rest None = Inr None"
        by auto
      show "?r (v # vs) st"
        by (intro exI [of _ "v # chunks"] exI [of _ complete] exI [of _ rest] exI [of _ "d # ds"]
          exI [of _ completion] exI [of _ validator'])
          (use h BatchChunk in \<open>simp add: chunks_ok_def ebind_eq_Inr\<close>)
    next
      assume "?r (v # vs) st"
      then obtain chunks complete rest ds completion validator where
        h: "v # vs = chunks @ complete # rest" "chunks_ok (st_batch_id st) chunks ds"
          "complete_ok (st_batch_id st) complete completion" "efold accept_chunk ds (st_validator st) = Inr validator"
          "validate_completion (hash_hex (oc_crypto oc)) validator completion = Inr ()"
          "efold (validate_streamed_batch_record oc) rest None = Inr None" by blast
      have "chunks \<noteq> []" using h(1,3) BatchChunk by (auto simp: complete_ok_def)
      then obtain chunks' where c: "chunks = v # chunks'" "vs = chunks' @ complete # rest" using h(1) by (cases chunks) auto
      from h(2) c obtain d ds' where d: "ds = d # ds'" "ve_batch_id (vv_envelope v) = st_batch_id st"
        "chunk_of (st_batch_id st) v d" "chunks_ok (st_batch_id st) chunks' ds'"
        by (auto simp: chunks_ok_def list_all2_Cons1)
      from h(4) d obtain validator' where "accept_chunk d (st_validator st) = Inr validator'"
        "efold accept_chunk ds' validator' = Inr validator" by (auto simp: ebind_eq_Inr)
      with h c d show "\<exists>d validator. st_batch_id st = ve_batch_id (vv_envelope v)
        \<and> chunk_of (ve_batch_id (vv_envelope v)) v d \<and> accept_chunk d (st_validator st) = Inr validator
        \<and> ?r vs (st\<lparr>st_validator := validator\<rparr>)"
        by (intro exI [of _ d] exI [of _ validator'] conjI exI [of _ chunks'] exI [of _ complete] exI [of _ rest]
          exI [of _ ds'] exI [of _ completion] exI [of _ validator]) simp_all
    qed
    finally show ?thesis .
  next
    case BatchComplete
    have "?l (v # vs) st \<longleftrightarrow> (\<exists>completion. complete_ok (st_batch_id st) v completion
        \<and> validate_completion (hash_hex (oc_crypto oc)) (st_validator st) completion = Inr ()
        \<and> efold (validate_streamed_batch_record oc) vs None = Inr None)"
      unfolding efold.simps ebind_eq_Inr stream_complete [OF BatchComplete] by auto
    also have "\<dots> \<longleftrightarrow> ?r (v # vs) st"
    proof
      assume "\<exists>completion. complete_ok (st_batch_id st) v completion
        \<and> validate_completion (hash_hex (oc_crypto oc)) (st_validator st) completion = Inr ()
        \<and> efold (validate_streamed_batch_record oc) vs None = Inr None"
      then obtain completion where "complete_ok (st_batch_id st) v completion"
        "validate_completion (hash_hex (oc_crypto oc)) (st_validator st) completion = Inr ()"
        "efold (validate_streamed_batch_record oc) vs None = Inr None" by blast
      then show "?r (v # vs) st"
        by (intro exI [of _ "[]"] exI [of _ v] exI [of _ vs] exI [of _ completion] exI [of _ "st_validator st"])
          (simp add: chunks_ok_def)
    next
      assume "?r (v # vs) st"
      then obtain chunks complete rest ds completion validator where
        h: "v # vs = chunks @ complete # rest" "chunks_ok (st_batch_id st) chunks ds"
          "complete_ok (st_batch_id st) complete completion" "efold accept_chunk ds (st_validator st) = Inr validator"
          "validate_completion (hash_hex (oc_crypto oc)) validator completion = Inr ()"
          "efold (validate_streamed_batch_record oc) rest None = Inr None" by blast
      have "chunks = []"
        using h(1,2) BatchComplete by (cases chunks) (auto simp: chunks_ok_def list_all2_Cons1)
      with h show "\<exists>completion. complete_ok (st_batch_id st) v completion
        \<and> validate_completion (hash_hex (oc_crypto oc)) (st_validator st) completion = Inr ()
        \<and> efold (validate_streamed_batch_record oc) vs None = Inr None"
        by (auto simp: chunks_ok_def)
    qed
    finally show ?thesis .
  qed
qed simp

section \<open>Streaming accepts exactly the sequences of sealed batches\<close>

lemma validate_batch_Inr:
  "validate_batch hex batch_id limits ds completion = Inr () \<longleftrightarrow>
     (\<exists>v v'. batch_validator_new batch_id limits = Inr v \<and> efold accept_chunk ds v = Inr v'
        \<and> validate_completion hex v' completion = Inr ())"
  unfolding validate_batch_def ebind_eq_Inr by blast

lemma stream_sealed:
  "efold (validate_streamed_batch_record oc) (v # vs) None = Inr None \<longleftrightarrow>
     (\<exists>batch_id b rest. v # vs = b @ rest \<and> sealed_batch oc batch_id b
        \<and> efold (validate_streamed_batch_record oc) rest None = Inr None)"
  (is "?l \<longleftrightarrow> ?r")
proof
  assume ?l
  then obtain a where a: "validate_streamed_batch_record oc v None = Inr a"
    "efold (validate_streamed_batch_record oc) vs a = Inr None" by (auto simp: ebind_eq_Inr)
  have kind: "ve_record_kind (vv_envelope v) = BatchStart"
    using a(1) stream_chunk [of v oc None a] stream_complete [of v oc None a]
    by (cases "ve_record_kind (vv_envelope v)") simp_all
  from a(1) [unfolded stream_start [OF kind]] obtain validator where
    v: "start_ok (ve_batch_id (vv_envelope v)) v"
      "batch_validator_new (ve_batch_id (vv_envelope v)) default_limits = Inr validator"
      "a = Some \<lparr>st_batch_id = ve_batch_id (vv_envelope v), st_validator = validator\<rparr>" by blast
  from a(2) [unfolded v(3) stream_open streaming_batch.simps] obtain chunks complete rest ds completion validator' where
    h: "vs = chunks @ complete # rest" "chunks_ok (ve_batch_id (vv_envelope v)) chunks ds"
      "complete_ok (ve_batch_id (vv_envelope v)) complete completion"
      "efold accept_chunk ds validator = Inr validator'"
      "validate_completion (hash_hex (oc_crypto oc)) validator' completion = Inr ()"
      "efold (validate_streamed_batch_record oc) rest None = Inr None" by blast
  have "sealed_batch oc (ve_batch_id (vv_envelope v)) (v # chunks @ [complete])"
    unfolding sealed_batch_def validate_batch_Inr using v h by blast
  moreover have "v # vs = (v # chunks @ [complete]) @ rest" using h(1) by simp
  ultimately show ?r using h(6) by blast
next
  assume ?r
  then obtain batch_id b rest where b: "v # vs = b @ rest" "sealed_batch oc batch_id b"
    "efold (validate_streamed_batch_record oc) rest None = Inr None" by blast
  from b(2) obtain start chunks complete ds completion validator validator' where
    h: "b = start # chunks @ [complete]" "start_ok batch_id start" "chunks_ok batch_id chunks ds"
      "complete_ok batch_id complete completion" "batch_validator_new batch_id default_limits = Inr validator"
      "efold accept_chunk ds validator = Inr validator'"
      "validate_completion (hash_hex (oc_crypto oc)) validator' completion = Inr ()"
    unfolding sealed_batch_def validate_batch_Inr by blast
  let ?st = "\<lparr>st_batch_id = batch_id, st_validator = validator\<rparr>"
  have vs: "v = start" "vs = chunks @ complete # rest" using b(1) h(1) by simp_all
  have kind: "ve_record_kind (vv_envelope v) = BatchStart" "ve_batch_id (vv_envelope v) = batch_id"
    using h(2) by (simp_all add: vs start_ok_def)
  have "validate_streamed_batch_record oc v None = Inr (Some ?st)"
    unfolding stream_start [OF kind(1)] kind(2) using h(2,5) by (simp add: vs)
  moreover have "efold (validate_streamed_batch_record oc) vs (Some ?st) = Inr None"
    unfolding stream_open streaming_batch.simps
    by (intro exI [of _ chunks] exI [of _ complete] exI [of _ rest] exI [of _ ds] exI [of _ completion]
      exI [of _ validator']) (use h b(3) vs in simp)
  ultimately show ?l by simp
qed

lemma sealed_batch_not_Nil: "sealed_batch oc batch_id b \<Longrightarrow> b \<noteq> []"
  by (auto simp: sealed_batch_def)

abbreviation all_sealed :: "origin_codec \<Rightarrow> (bytes \<times> verified_v2_record list) list \<Rightarrow> bool" where
  "all_sealed oc \<equiv> list_all (\<lambda>(batch_id, b). sealed_batch oc batch_id b)"

lemma stream_batches_split:
  assumes "efold (validate_streamed_batch_record oc) vs None = Inr None"
  shows "\<exists>bs. vs = concat (map snd bs) \<and> all_sealed oc bs"
  using assms
proof (induction vs rule: length_induct)
  case (1 vs)
  show ?case
  proof (cases vs)
    case Nil
    then show ?thesis by (intro exI [of _ "[]"]) simp
  next
    case (Cons v vs')
    from 1(2) [unfolded Cons stream_sealed] obtain batch_id b rest where
      b: "vs = b @ rest" "sealed_batch oc batch_id b" "efold (validate_streamed_batch_record oc) rest None = Inr None"
      unfolding Cons by blast
    have "length rest < length vs" using b(1) sealed_batch_not_Nil [OF b(2)] by simp
    with 1(1) b(3) obtain bs where "rest = concat (map snd bs)" "all_sealed oc bs" by blast
    with b show ?thesis by (intro exI [of _ "(batch_id, b) # bs"]) simp
  qed
qed

lemma stream_batches_join: "all_sealed oc bs \<Longrightarrow> efold (validate_streamed_batch_record oc) (concat (map snd bs)) None = Inr None"
proof (induction bs)
  case (Cons ib bs)
  obtain i b where ib: "ib = (i, b)" by (cases ib)
  have b: "sealed_batch oc i b" using Cons.prems by (simp add: ib)
  then obtain v vs where v: "b = v # vs" using sealed_batch_not_Nil by (cases b) blast+
  show ?case
    unfolding ib v list.map snd_conv concat.simps append_Cons stream_sealed
    using b v Cons.IH Cons.prems by (intro exI [of _ i] exI [of _ b] exI [of _ "concat (map snd bs)"]) (simp add: ib)
qed simp

section \<open>Sorting a history into batches\<close>

definition records_of :: "verified_v2_record list \<Rightarrow> batch_records" where
  "records_of b = \<lparr>br_start = Some (hd b), br_chunks = butlast (List.tl b), br_complete = Some (last b)\<rparr>"

lemma sort_chunks:
  assumes "chunks_ok batch_id chunks ds" "batches batch_id = Some e"
  shows "efold sort_into_batch chunks batches = Inr (batches(batch_id \<mapsto> e\<lparr>br_chunks := br_chunks e @ chunks\<rparr>))"
  using assms
proof (induction chunks arbitrary: batches e ds)
  case Nil
  then show ?case by (simp add: fun_upd_idem)
next
  case (Cons v chunks)
  then obtain d ds' where d: "ve_record_kind (vv_envelope v) = BatchChunk" "ve_batch_id (vv_envelope v) = batch_id"
    "chunks_ok batch_id chunks ds'" by (auto simp: chunks_ok_def list_all2_Cons1)
  let ?e = "e\<lparr>br_chunks := br_chunks e @ [v]\<rparr>"
  have "sort_into_batch v batches = Inr (batches(batch_id \<mapsto> ?e))"
    using d Cons.prems(2) by (simp add: sort_into_batch_def)
  moreover have "efold sort_into_batch chunks (batches(batch_id \<mapsto> ?e))
      = Inr ((batches(batch_id \<mapsto> ?e))(batch_id \<mapsto> ?e\<lparr>br_chunks := br_chunks ?e @ chunks\<rparr>))"
    by (rule Cons.IH [OF d(3)]) simp
  moreover have "?e\<lparr>br_chunks := br_chunks ?e @ chunks\<rparr> = e\<lparr>br_chunks := br_chunks e @ v # chunks\<rparr>" by simp
  ultimately show ?case by (simp only: efold.simps ebind_simps fun_upd_upd)
qed

lemma sort_sealed:
  assumes "sealed_batch oc batch_id b" "batches batch_id = None"
  shows "efold sort_into_batch b batches = Inr (batches(batch_id \<mapsto> records_of b))"
proof -
  from assms(1) obtain start chunks complete ds completion where
    h: "b = start # chunks @ [complete]" "start_ok batch_id start" "chunks_ok batch_id chunks ds"
      "complete_ok batch_id complete completion" unfolding sealed_batch_def by blast
  let ?e = "no_batch_records\<lparr>br_start := Some start\<rparr>"
  have 1: "sort_into_batch start batches = Inr (batches(batch_id \<mapsto> ?e))"
    using h(2) assms(2) by (simp add: sort_into_batch_def start_ok_def no_batch_records_def)
  have 2: "efold sort_into_batch chunks (batches(batch_id \<mapsto> ?e)) = Inr (batches(batch_id \<mapsto> ?e\<lparr>br_chunks := chunks\<rparr>))"
    using sort_chunks [OF h(3), of "batches(batch_id \<mapsto> ?e)" ?e] by (simp add: no_batch_records_def)
  have 3: "sort_into_batch complete (batches(batch_id \<mapsto> ?e\<lparr>br_chunks := chunks\<rparr>)) = Inr (batches(batch_id \<mapsto> records_of b))"
    using h(1,4) by (simp add: sort_into_batch_def complete_ok_def no_batch_records_def records_of_def)
  show ?thesis unfolding h(1) by (simp add: 1 2 efold_append 3 [unfolded h(1)])
qed

lemma sort_batches:
  assumes "all_sealed oc bs" "distinct (map fst bs)"
    and "fst ` set bs \<inter> dom batches = {}"
  shows "efold sort_into_batch (concat (map snd bs)) batches = Inr (batches ++ map_of (rev (map (\<lambda>(i, b). (i, records_of b)) bs)))"
  using assms
proof (induction bs arbitrary: batches)
  case (Cons ib bs)
  obtain i b where ib: "ib = (i, b)" by (cases ib)
  have "efold sort_into_batch b batches = Inr (batches(i \<mapsto> records_of b))"
    by (rule sort_sealed) (use Cons.prems in \<open>auto simp: ib\<close>)
  moreover have "efold sort_into_batch (concat (map snd bs)) (batches(i \<mapsto> records_of b))
      = Inr (batches(i \<mapsto> records_of b) ++ map_of (rev (map (\<lambda>(i, b). (i, records_of b)) bs)))"
  proof (rule Cons.IH)
    show "fst ` set bs \<inter> dom (batches(i \<mapsto> records_of b)) = {}"
      unfolding dom_fun_upd using Cons.prems by (simp add: ib)
  qed (use Cons.prems in \<open>simp_all add: ib\<close>)
  ultimately show ?case by (simp add: ib efold_append)
qed simp

section \<open>The two validations agree\<close>

definition in_order :: "verified_v2_record list \<Rightarrow> bool" where
  "in_order b \<longleftrightarrow> (\<forall>v \<in> set b. ve_origin_id (vv_envelope v) = ve_origin_id (vv_envelope (hd b)))
     \<and> sorted_wrt (\<lambda>v w. ve_origin_seq (vv_envelope v) < ve_origin_seq (vv_envelope w)) b"

lemma accept_history_chunks:
  assumes "chunks_ok batch_id chunks ds"
  shows "efold (accept_history_chunk batch_id) chunks validator = map_err VsBatch (efold accept_chunk ds validator)"
  using assms
proof (induction chunks arbitrary: ds validator)
  case Nil
  then show ?case by (simp add: chunks_ok_def)
next
  case (Cons v chunks)
  then obtain d ds' where d: "ds = d # ds'" "chunk_of batch_id v d" "chunks_ok batch_id chunks ds'"
    by (auto simp: chunks_ok_def list_all2_Cons1)
  from d(2) have "accept_history_chunk batch_id v validator = map_err VsBatch (accept_chunk d validator)" for validator
    by (auto simp: chunk_of_def accept_history_chunk_def chunk_items_of_def)
  then show ?case
    using Cons.IH [OF d(3)] by (cases "accept_chunk d validator") (simp_all add: d(1))
qed

lemma verify_sealed:
  assumes "sealed_batch oc batch_id b" "in_order b"
  shows "verify_batch oc batch_id (records_of b) = Inr ()"
proof -
  from assms(1) obtain start chunks complete ds completion validator validator' where
    h: "b = start # chunks @ [complete]" "start_ok batch_id start" "chunks_ok batch_id chunks ds"
      "complete_ok batch_id complete completion" "batch_validator_new batch_id default_limits = Inr validator"
      "efold accept_chunk ds validator = Inr validator'"
      "validate_completion (hash_hex (oc_crypto oc)) validator' completion = Inr ()"
    unfolding sealed_batch_def validate_batch_Inr by blast
  have r: "records_of b = \<lparr>br_start = Some start, br_chunks = chunks, br_complete = Some complete\<rparr>"
    by (simp add: records_of_def h(1))
  have o: "\<forall>v \<in> set b. ve_origin_id (vv_envelope v) = ve_origin_id (vv_envelope start)"
    and srt: "sorted_wrt (\<lambda>v w. ve_origin_seq (vv_envelope v) < ve_origin_seq (vv_envelope w)) b"
    using assms(2) by (simp_all add: in_order_def h(1))
  have order: "\<not> (ve_origin_id (vv_envelope complete) \<noteq> ve_origin_id (vv_envelope start)
       \<or> ve_origin_seq (vv_envelope complete) \<le> ve_origin_seq (vv_envelope start)
       \<or> list_ex (\<lambda>chunk. ve_origin_id (vv_envelope chunk) \<noteq> ve_origin_id (vv_envelope start)
             \<or> ve_origin_seq (vv_envelope chunk) \<le> ve_origin_seq (vv_envelope start)
             \<or> ve_origin_seq (vv_envelope complete) \<le> ve_origin_seq (vv_envelope chunk)) chunks)"
    using o srt by (auto simp: h(1) sorted_wrt_append list_ex_iff not_le)
  have run: "efold (accept_history_chunk batch_id) chunks validator = Inr validator'"
    using accept_history_chunks [OF h(3)] h(6) by simp
  have fields: "string_field (vv_payload start) ''causal_frontier_hash'' = Inr (vv_causal_frontier_hash start)"
    "completion_of complete = Inr completion" "check_complete batch_id complete = Inr ()"
    using h(2,4) by (simp_all add: start_ok_def complete_ok_def check_complete_Inr)
  show ?thesis
    unfolding verify_batch_def r batch_records.simps ok_or_simps ebind_simps Let_def ebind_ensure if_P [OF order]
      fields h(5) map_err_simps run h(7) by simp
qed

lemma efold_checks: "efold (\<lambda>x _. f x) xs () = Inr () \<longleftrightarrow> (\<forall>x \<in> set xs. f x = Inr ())"
proof (induction xs)
  case (Cons x xs)
  then show ?case by (cases "f x") simp_all
qed simp

lemma sealed_ids: "sealed_batch oc batch_id b \<Longrightarrow> v \<in> set b \<Longrightarrow> ve_batch_id (vv_envelope v) = batch_id"
proof -
  assume "sealed_batch oc batch_id b" and v: "v \<in> set b"
  then obtain start chunks complete ds completion where h: "b = start # chunks @ [complete]"
    "start_ok batch_id start" "chunks_ok batch_id chunks ds" "complete_ok batch_id complete completion"
    unfolding sealed_batch_def by blast
  have "ve_batch_id (vv_envelope c) = batch_id" if "c \<in> set chunks" for c
    using h(3) that by (auto simp: chunks_ok_def list_all2_conv_all_nth in_set_conv_nth)
  with h v show ?thesis by (auto simp: start_ok_def complete_ok_def)
qed

abbreviation batch_starts :: "verified_v2_record list \<Rightarrow> bytes list" where
  "batch_starts vs \<equiv> map (\<lambda>v. ve_batch_id (vv_envelope v)) (filter (\<lambda>v. ve_record_kind (vv_envelope v) = BatchStart) vs)"

lemma sealed_starts: "sealed_batch oc batch_id b \<Longrightarrow> batch_starts b = [batch_id]"
proof -
  assume "sealed_batch oc batch_id b"
  then obtain start chunks complete ds completion where h: "b = start # chunks @ [complete]"
    "start_ok batch_id start" "chunks_ok batch_id chunks ds" "complete_ok batch_id complete completion"
    unfolding sealed_batch_def by blast
  have "filter (\<lambda>v. ve_record_kind (vv_envelope v) = BatchStart) chunks = []"
    using h(3) by (auto simp: chunks_ok_def list_all2_conv_all_nth in_set_conv_nth filter_empty_conv)
  with h show ?thesis by (simp add: start_ok_def complete_ok_def)
qed

lemma starts_of_batches: "all_sealed oc bs \<Longrightarrow> batch_starts (concat (map snd bs)) = map fst bs"
proof (induction bs)
  case (Cons ib bs)
  then show ?case using sealed_starts by (cases ib) auto
qed simp

lemma verify_all_sealed:
  assumes "all_sealed oc bs" "distinct (map fst bs)" "list_all (\<lambda>(batch_id, b). in_order b) bs"
  shows "verify_batches oc (concat (map snd bs)) = Inr ()"
proof -
  let ?batches = "map_of (rev (map (\<lambda>(i, b). (i, records_of b)) bs))"
  have sorted: "efold sort_into_batch (concat (map snd bs)) Map.empty = Inr ?batches"
    using sort_batches [OF assms(1,2), of Map.empty] by simp
  have "verify_batch oc i (the (?batches i)) = Inr ()"
    if "i \<in> (\<lambda>v. ve_batch_id (vv_envelope v)) ` set (concat (map snd bs))" for i
  proof -
    from that obtain j b v where b: "(j, b) \<in> set bs" "v \<in> set b" "i = ve_batch_id (vv_envelope v)" by auto
    have sealed: "sealed_batch oc j b" and order: "in_order b" using assms(1,3) b(1) by (auto simp: list_all_iff)
    have i: "i = j" using sealed_ids [OF sealed b(2)] b(3) by simp
    have "(j, records_of b) \<in> set (rev (map (\<lambda>(i, b). (i, records_of b)) bs))" using b(1) by force
    moreover have "distinct (map fst (rev (map (\<lambda>(i, b). (i, records_of b)) bs)))"
      using assms(2) by (simp add: rev_map [symmetric] comp_def case_prod_unfold)
    ultimately have "?batches j = Some (records_of b)" by (metis map_of_is_SomeI)
    then show ?thesis using verify_sealed [OF sealed order] by (simp add: i)
  qed
  then show ?thesis unfolding verify_batches_def sorted ebind_simps efold_checks by simp
qed

text \<open>A piece of an origin's chain is in order.\<close>

lemma chain_in_order:
  assumes "origin_chain cr rc origin seq prev vs"
  shows "in_order vs" and "\<forall>v \<in> set vs. ve_origin_id (vv_envelope v) = origin"
proof -
  have o: "ve_origin_id (vv_envelope v) = origin" if "v \<in> set vs" for v
    using assms that
  proof (induction vs arbitrary: seq prev)
    case (Cons w vs)
    have "ve_origin_id (vv_envelope w) = origin"
      using Cons.prems(1) by (auto simp: parse_v2_record_Inr record_line_def envelope_ok_def)
    with Cons show ?case by auto
  qed simp
  then show "\<forall>v \<in> set vs. ve_origin_id (vv_envelope v) = origin" by blast
  have "sorted_wrt (\<lambda>v w. ve_origin_seq (vv_envelope v) < ve_origin_seq (vv_envelope w)) vs"
    using origin_chain_seq [OF assms] by (simp add: sorted_wrt_iff_nth_less word_less_nat_alt)
  with o show "in_order vs" by (cases vs) (auto simp: in_order_def)
qed

lemma in_order_part: "in_order (a @ b @ c) \<Longrightarrow> in_order b"
proof -
  assume h: "in_order (a @ b @ c)"
  then have "\<forall>v \<in> set b. \<forall>w \<in> set b. ve_origin_id (vv_envelope v) = ve_origin_id (vv_envelope w)"
    by (auto simp: in_order_def)
  with h show ?thesis by (cases b) (auto simp: in_order_def sorted_wrt_append)
qed

lemma parts_in_order: "in_order (concat (map snd bs)) \<Longrightarrow> list_all (\<lambda>(batch_id, b). in_order b) bs"
proof (induction bs)
  case (Cons ib bs)
  obtain i b where ib: "ib = (i, b)" by (cases ib)
  have "in_order b" using in_order_part [of "[]" b "concat (map snd bs)"] Cons.prems by (simp add: ib)
  moreover have "in_order (concat (map snd bs))"
    using in_order_part [of b "concat (map snd bs)" "[]"] Cons.prems by (simp add: ib)
  ultimately show ?case using Cons.IH by (simp add: ib)
qed simp

text \<open>Sorting succeeds only if no batch has two starts.\<close>

lemma sort_into_batch_starts:
  assumes "sort_into_batch v batches = Inr batches'"
  shows "(ve_record_kind (vv_envelope v) = BatchStart \<longrightarrow>
      (\<forall>e. batches (ve_batch_id (vv_envelope v)) = Some e \<longrightarrow> br_start e = None))
    \<and> {i. \<exists>e. batches' i = Some e \<and> br_start e \<noteq> None}
      = {i. \<exists>e. batches i = Some e \<and> br_start e \<noteq> None} \<union> set (batch_starts [v])"
proof (cases "ve_record_kind (vv_envelope v)")
  case BatchStart
  then show ?thesis
    using assms by (auto simp: sort_into_batch_def Let_def no_batch_records_def split: option.splits if_splits)
next
  case BatchChunk
  then show ?thesis
    using assms by (auto simp: sort_into_batch_def Let_def no_batch_records_def split: option.splits if_splits)
next
  case BatchComplete
  then show ?thesis
    using assms by (auto simp: sort_into_batch_def Let_def no_batch_records_def split: option.splits if_splits)
qed

lemma sorted_starts_distinct:
  assumes "efold sort_into_batch vs batches = Inr batches'"
  shows "distinct (batch_starts vs) \<and> set (batch_starts vs) \<inter> {i. \<exists>e. batches i = Some e \<and> br_start e \<noteq> None} = {}"
  using assms
proof (induction vs arbitrary: batches)
  case (Cons v vs)
  then obtain b where b: "sort_into_batch v batches = Inr b" "efold sort_into_batch vs b = Inr batches'"
    by (auto simp: ebind_eq_Inr)
  note s = sort_into_batch_starts [OF b(1)]
  from Cons.IH [OF b(2)] s show ?case
    by (cases "ve_record_kind (vv_envelope v) = BatchStart") auto
qed simp

text \<open>
  C12. Following a segment record by record accepts exactly the sequences of sealed batches: the
  run over the records ends without an open batch if and only if they are one batch after the
  other, each of them a start that names its causal frontier, chunks that tile the item numbers,
  and a completion with the number of items and their digest.
\<close>

theorem streaming_accepts_sealed_batches:
  "efold (validate_streamed_batch_record oc) vs None = Inr None \<longleftrightarrow>
     (\<exists>bs. vs = concat (map snd bs) \<and> list_all (\<lambda>(batch_id, b). sealed_batch oc batch_id b) bs)"
  using stream_batches_split stream_batches_join by blast

lemma segments_split:
  assumes "\<forall>vs \<in> set vss. (\<exists>origin seq prev. origin_chain cr rc origin seq prev vs)
      \<and> efold (validate_streamed_batch_record oc) vs None = Inr None"
  shows "\<exists>bs. concat vss = concat (map snd bs) \<and> all_sealed oc bs \<and> list_all (\<lambda>(batch_id, b). in_order b) bs"
  using assms
proof (induction vss)
  case Nil
  show ?case by (intro exI [of _ "[]"]) simp
next
  case (Cons vs vss)
  then obtain bs where bs: "concat vss = concat (map snd bs)" "all_sealed oc bs" "list_all (\<lambda>(batch_id, b). in_order b) bs"
    by auto
  from Cons.prems obtain origin seq prev where c: "origin_chain cr rc origin seq prev vs"
    and st: "efold (validate_streamed_batch_record oc) vs None = Inr None" by auto
  from stream_batches_split [OF st] obtain as where as: "vs = concat (map snd as)" "all_sealed oc as" by blast
  have "list_all (\<lambda>(batch_id, b). in_order b) as" using chain_in_order(1) [OF c] parts_in_order as(1) by blast
  with as bs show ?case by (intro exI [of _ "as @ bs"]) simp
qed

text \<open>
  C21. The two validations of batches differ in one thing only: for segments that each verify as a
  piece of an origin's chain and pass the streaming validation, the validation of the whole
  history succeeds if and only if no two batches in it have the same identifier.
\<close>

theorem history_validation_agrees:
  assumes "\<forall>vs \<in> set vss. (\<exists>origin seq prev. origin_chain cr rc origin seq prev vs)
      \<and> efold (validate_streamed_batch_record oc) vs None = Inr None"
  shows "verify_batches oc (concat vss) = Inr () \<longleftrightarrow>
    distinct (map (\<lambda>v. ve_batch_id (vr_envelope (vv_record v)))
      (filter (\<lambda>v. ve_record_kind (vr_envelope (vv_record v)) = BatchStart) (concat vss)))"
proof
  assume "verify_batches oc (concat vss) = Inr ()"
  then obtain batches where "efold sort_into_batch (concat vss) Map.empty = Inr batches"
    unfolding verify_batches_def ebind_eq_Inr by blast
  from sorted_starts_distinct [OF this] show "distinct (batch_starts (concat vss))" by blast
next
  assume d: "distinct (batch_starts (concat vss))"
  from segments_split [OF assms] obtain bs where bs: "concat vss = concat (map snd bs)" "all_sealed oc bs"
    "list_all (\<lambda>(batch_id, b). in_order b) bs" by blast
  have "distinct (map fst bs)" using d unfolding bs(1) starts_of_batches [OF bs(2)] .
  with verify_all_sealed [OF bs(2) _ bs(3)] show "verify_batches oc (concat vss) = Inr ()" unfolding bs(1) by blast
qed

theorem history_validation_agrees_witness:
  "verify_batches archive_codec (concat [records_1, records_2]) = Inr () \<longleftrightarrow>
    distinct (map (\<lambda>v. ve_batch_id (vr_envelope (vv_record v)))
      (filter (\<lambda>v. ve_record_kind (vr_envelope (vv_record v)) = BatchStart) (concat [records_1, records_2])))"
proof (rule history_validation_agrees)
  have "origin_chain (oc_crypto archive_codec) (oc_records archive_codec) client_a 1 None (records_1 @ records_2)"
    using verify_origin_chain [OF sample_origin_verifies [unfolded verify_sample_def]] by (simp add: tail_at_def)
  then have "origin_chain (oc_crypto archive_codec) (oc_records archive_codec) client_a 1 None records_1"
    "origin_chain (oc_crypto archive_codec) (oc_records archive_codec) client_a (1 + of_nat (length records_1))
       (chain_hash None records_1) records_2" by simp_all
  moreover have "efold (validate_streamed_batch_record archive_codec) records_1 None = Inr None"
    "efold (validate_streamed_batch_record archive_codec) records_2 None = Inr None" by code_simp+
  ultimately show "\<forall>vs \<in> set [records_1, records_2].
      (\<exists>origin seq prev. origin_chain (oc_crypto archive_codec) (oc_records archive_codec) origin seq prev vs)
      \<and> efold (validate_streamed_batch_record archive_codec) vs None = Inr None" by auto
qed

end
