(* ===== verification/Origin_Clients.thy ===== *)
theory Origin_Clients
  imports Origin_Batches
begin

text \<open>
  The clients of an Archive (\<open>src/src/v2_store.rs\<close>, \<open>src/src/git.rs\<close>): enrolment and revocation
  read from the records, the causal check of a client's records against its enrolment, and the
  check of coordination leases. A client registry is a map from client identifiers.
\<close>

section \<open>Enrolment and revocation\<close>

definition item_kind :: "json \<Rightarrow> bytes option" where
  "item_kind item = Option.bind (json_member item ''kind'') json_as_str"

definition record_items :: "verified_v2_record \<Rightarrow> json list option" where
  "record_items v = (if ve_record_kind (vv_envelope v) = BatchChunk
     then Option.bind (json_member (vv_payload v) ''items'') json_as_array else None)"

definition record_contains_item_kind :: "verified_v2_record \<Rightarrow> bytes \<Rightarrow> bool" where
  "record_contains_item_kind v expected =
     (case record_items v of None \<Rightarrow> False | Some items \<Rightarrow> list_ex (\<lambda>item. item_kind item = Some expected) items)"

definition required_string :: "json \<Rightarrow> bytes \<Rightarrow> v2_store_error + bytes" where
  "required_string item field = ok_or (Option.bind (json_member item field) json_as_str)
     (VsInvalid (''client_enrolled lacks '' @ field))"

definition enrolled_client_from_item ::
  "origin_codec \<Rightarrow> json \<Rightarrow> verified_v2_record \<Rightarrow> v2_store_error + v2_client" where
  "enrolled_client_from_item oc item v =
     ebind (required_string item ''client_id'') (\<lambda>client.
     ebind (validate_origin_id client) (\<lambda>_.
     ebind (required_string item ''display_name'') (\<lambda>display_name.
     ebind (ensure (\<not> is_blank display_name) (VsInvalid ''client_enrolled display name is empty'')) (\<lambda>_.
     ebind (required_string item ''public_key'') (\<lambda>encoded.
     ebind (ok_or (base64_decode (oc_crypto oc) encoded) (VsInvalid ''client public key is not base64'')) (\<lambda>public_key.
     ebind (ensure (length public_key = 32) (VsInvalid ''client public key has the wrong length'')) (\<lambda>_.
     ebind (ensure (verifying_key_ok (oc_crypto oc) public_key) (VsInvalid ''client public key is invalid'')) (\<lambda>_.
     ebind (ensure (client = client_id (oc_crypto oc) public_key)
       (VsInvalid ''client ID does not match its public key'')) (\<lambda>_.
     ebind (ok_or (Option.bind (json_member item ''capabilities'') json_as_array)
       (VsInvalid ''client_enrolled lacks capabilities'')) (\<lambda>values.
     ebind (emap (\<lambda>j. ok_or (json_as_str j) (VsInvalid ''client capability is not a string'')) values) (\<lambda>capabilities.
     ebind (ensure (capabilities \<noteq> []) (VsInvalid ''client_enrolled capabilities are empty'')) (\<lambda>_.
     Inr \<lparr>cl_client_id = client, cl_display_name = display_name, cl_public_key = public_key,
          cl_capabilities = capabilities, cl_approved_origin_id = ve_origin_id (vv_envelope v),
          cl_approved_origin_seq = ve_origin_seq (vv_envelope v),
          cl_revoked_origin_id = None, cl_revoked_origin_seq = None\<rparr>))))))))))))"

type_synonym client_map = "bytes \<rightharpoonup> v2_client"

definition apply_client_item ::
  "origin_codec \<Rightarrow> verified_v2_record \<Rightarrow> json \<Rightarrow> client_map \<Rightarrow> v2_store_error + client_map" where
  "apply_client_item oc v item clients =
     (case item_kind item of
        None \<Rightarrow> Inr clients
      | Some kind \<Rightarrow>
          if kind = ''client_enrolled'' then
            ebind (ensure (json_is_object item) (VsInvalid ''client_enrolled item is not an object'')) (\<lambda>_.
            ebind (enrolled_client_from_item oc item v) (\<lambda>client.
            ebind (ensure (clients (cl_client_id client) = None)
              (VsInvalid ''a client ID was enrolled more than once'')) (\<lambda>_.
            Inr (clients(cl_client_id client \<mapsto> client)))))
          else if kind = ''client_revoked'' then
            ebind (ok_or (Option.bind (json_member item ''client_id'') json_as_str)
              (VsInvalid ''client_revoked item lacks client_id'')) (\<lambda>name.
            ebind (validate_origin_id name) (\<lambda>_.
            ebind (ok_or (clients name)
              (VsInvalid (''client_revoked names an unenrolled client '' @ name))) (\<lambda>client.
            ebind (ensure (cl_revoked_origin_id client = None)
              (VsInvalid (''client '' @ name @ '' was revoked more than once''))) (\<lambda>_.
            Inr (clients(name \<mapsto> client\<lparr>cl_revoked_origin_id := Some (ve_origin_id (vv_envelope v)),
              cl_revoked_origin_seq := Some (ve_origin_seq (vv_envelope v))\<rparr>))))))
          else Inr clients)"

definition apply_record_items ::
  "origin_codec \<Rightarrow> verified_v2_record \<Rightarrow> client_map \<Rightarrow> v2_store_error + client_map" where
  "apply_record_items oc v clients =
     (case record_items v of None \<Rightarrow> Inr clients
      | Some items \<Rightarrow> efold (apply_client_item oc v) items clients)"

definition apply_client_registry_items ::
  "origin_codec \<Rightarrow> verified_v2_record list \<Rightarrow> client_map \<Rightarrow> v2_store_error + client_map" where
  "apply_client_registry_items oc records clients = efold (apply_record_items oc) records clients"

section \<open>Causality\<close>

definition frontier_includes_dot :: "causal_frontier \<Rightarrow> bytes \<Rightarrow> u64 \<Rightarrow> bool" where
  "frontier_includes_dot frontier origin_id origin_seq =
     list_ex (\<lambda>origin. of_origin_id origin = origin_id \<and> origin_seq \<le> of_seq origin) (cf_origins frontier)"

definition validate_client_record ::
  "v2_client \<Rightarrow> (bytes \<rightharpoonup> causal_frontier) \<Rightarrow> verified_v2_record \<Rightarrow> v2_store_error + unit" where
  "validate_client_record client frontiers v =
     ebind (ok_or (frontiers (vv_causal_frontier_hash v))
       (VsInvalid (''client origin '' @ cl_client_id client @ '' depends on an unknown frontier''))) (\<lambda>base.
     ebind (ensure (frontier_includes_dot base (cl_approved_origin_id client) (cl_approved_origin_seq client))
       (VsInvalid (''client origin '' @ cl_client_id client @ '' does not causally follow its enrollment''))) (\<lambda>_.
     (case (cl_revoked_origin_id client, cl_revoked_origin_seq client) of
        (Some origin_id, Some origin_seq) \<Rightarrow>
          ensure (\<not> frontier_includes_dot base origin_id origin_seq)
            (VsInvalid (''revoked client '' @ cl_client_id client @ '' appended from a post-revocation frontier''))
      | _ \<Rightarrow> Inr ())))"

definition validate_client_origin_records ::
  "verified_v2_record list \<Rightarrow> v2_client \<Rightarrow> (bytes \<rightharpoonup> causal_frontier) \<Rightarrow> v2_store_error + unit" where
  "validate_client_origin_records records client frontiers =
     ebind (ensure (records \<noteq> [])
       (VsInvalid (''accepted client origin '' @ cl_client_id client @ '' has no records''))) (\<lambda>_.
     efold (\<lambda>v _. validate_client_record client frontiers v) records ())"

definition client_verifying_key :: "origin_codec \<Rightarrow> v2_client \<Rightarrow> v2_store_error + bytes" where
  "client_verifying_key oc client =
     ebind (ensure (verifying_key_ok (oc_crypto oc) (cl_public_key client))
       (VsInvalid ''enrolled client public key is invalid'')) (\<lambda>_. Inr (cl_public_key client))"

section \<open>Coordination leases\<close>

definition COORDINATION_LEASE_VERSION :: u32 where "COORDINATION_LEASE_VERSION = 1"

text \<open>The text of the error leaves the quoted name out.\<close>

definition validate_git_remote_name :: "bytes \<Rightarrow> bytes + unit" where
  "validate_git_remote_name name =
     ensure (\<not> (name = [] \<or> starts_with name ''-'' \<or> starts_with name ''.'' \<or> ends_with name ''.''
         \<or> str_contains name ''..''
         \<or> \<not> list_all (\<lambda>b. is_ascii_alphanumeric b \<or> b = CHR ''-'' \<or> b = CHR ''_'' \<or> b = CHR ''.'') name))
       ''invalid Git remote name''"

definition validate_remote_name :: "bytes \<Rightarrow> v2_store_error + unit" where
  "validate_remote_name name = map_err VsInvalid (validate_git_remote_name name)"

definition validate_coordination_lease_body :: "coordination_lease_body \<Rightarrow> v2_store_error + unit" where
  "validate_coordination_lease_body b =
     ebind (ensure (\<not> (lb_lease_v b \<noteq> COORDINATION_LEASE_VERSION \<or> lb_archive_id b = []
         \<or> lb_scope_kind b \<noteq> ''archive'' \<or> lb_scope_id b \<noteq> lb_archive_id b
         \<or> \<not> starts_with (lb_token_id b) ''lease_''
         \<or> lb_not_after_utc_ms b < lb_not_before_utc_ms b
         \<or> \<not> (lb_state b = ''acquired'' \<or> lb_state b = ''renewed'' \<or> lb_state b = ''released'' \<or> lb_state b = ''broken'')))
       (VsInvalid ''coordination lease has invalid structural fields'')) (\<lambda>_.
     ebind (validate_origin_id (lb_holder_client_id b)) (\<lambda>_.
     ebind (validate_blake3_id ''coordination genesis hash'' (lb_genesis_hash b)) (\<lambda>_.
     validate_blake3_id ''coordination base frontier hash'' (lb_base_frontier_hash b))))"

definition verify_lease_proof ::
  "origin_codec \<Rightarrow> client_map \<Rightarrow> signed_coordination_lease \<Rightarrow> v2_store_error + unit" where
  "verify_lease_proof oc clients lease =
     ebind (validate_coordination_lease_body (sl_body lease)) (\<lambda>_.
     ebind (ok_or (clients (lb_holder_client_id (sl_body lease)))
       (VsInvalid ''coordination proof holder is not enrolled'')) (\<lambda>client.
     ebind (ok_or (base64_decode (oc_crypto oc) (sl_signature lease))
       (VsInvalid ''coordination proof signature is not base64'')) (\<lambda>s.
     ebind (ensure (signature_ok (oc_crypto oc) s)
       (VsInvalid ''coordination proof signature has the wrong length'')) (\<lambda>_.
     ebind (client_verifying_key oc client) (\<lambda>key.
     ebind (canonical_json (lease_body_to_vec oc) (sl_body lease)) (\<lambda>message.
     ensure (verify_strict (oc_crypto oc) key message s)
       (VsInvalid ''coordination proof signature is invalid'')))))))"

definition lease_mismatch :: v2_store_error where
  "lease_mismatch = VsInvalid ''batch coordination context does not match its signed lease''"

definition coordination_string :: "json \<Rightarrow> bytes \<Rightarrow> v2_store_error + bytes" where
  "coordination_string c field = ok_or (Option.bind (json_member c field) json_as_str)
     (VsInvalid (''batch coordination context lacks '' @ field))"

definition coordination_number :: "json \<Rightarrow> bytes \<Rightarrow> v2_store_error + u64" where
  "coordination_number c field = ok_or (Option.bind (json_member c field) json_as_u64)
     (VsInvalid (''batch coordination context lacks '' @ field))"

text \<open>One operand of the long disjunction: reading the field may fail before it is compared.\<close>

definition same_string :: "json \<Rightarrow> bytes \<Rightarrow> bytes \<Rightarrow> v2_store_error + unit" where
  "same_string c field expected =
     ebind (coordination_string c field) (\<lambda>s. ensure (s = expected) lease_mismatch)"

definition same_number :: "json \<Rightarrow> bytes \<Rightarrow> u64 \<Rightarrow> v2_store_error + unit" where
  "same_number c field expected =
     ebind (coordination_number c field) (\<lambda>n. ensure (n = expected) lease_mismatch)"

definition is_ascii_hexdigit :: "char \<Rightarrow> bool" where
  "is_ascii_hexdigit b \<longleftrightarrow> is_ascii_digit b \<or> CHR ''a'' \<le> b \<and> b \<le> CHR ''f'' \<or> CHR ''A'' \<le> b \<and> b \<le> CHR ''F''"

definition validate_coordination_context ::
  "origin_codec \<Rightarrow> client_map \<Rightarrow> verified_v2_record \<Rightarrow> v2_store_error + unit" where
  "validate_coordination_context oc clients v =
     (if ve_record_kind (vv_envelope v) \<noteq> BatchStart then Inr ()
      else case Option.bind (json_member (vv_payload v) ''context'') (\<lambda>context. json_member context ''coordination'') of
        None \<Rightarrow> Inr ()
      | Some c \<Rightarrow>
          ebind (ensure (json_is_object c) (VsInvalid ''batch coordination context is not an object'')) (\<lambda>_.
          ebind (ok_or (json_member c ''lease_proof'')
            (VsInvalid ''batch coordination context lacks lease proof'')) (\<lambda>proof_value.
          ebind (ok_or (lease_from_value oc proof_value) (VsInvalid ''batch coordination proof is invalid'')) (\<lambda>proof.
          let b = sl_body proof in
          ebind (verify_lease_proof oc clients proof) (\<lambda>_.
          ebind (ensure (lb_state b = ''acquired'') lease_mismatch) (\<lambda>_.
          ebind (same_string c ''scope_kind'' (lb_scope_kind b)) (\<lambda>_.
          ebind (same_string c ''scope_id'' (lb_scope_id b)) (\<lambda>_.
          ebind (same_string c ''token_id'' (lb_token_id b)) (\<lambda>_.
          ebind (same_string c ''holder_client_id'' (lb_holder_client_id b)) (\<lambda>_.
          ebind (same_string c ''base_frontier_hash'' (lb_base_frontier_hash b)) (\<lambda>_.
          ebind (same_number c ''not_before_utc_ms'' (lb_not_before_utc_ms b)) (\<lambda>_.
          ebind (same_number c ''not_after_utc_ms'' (lb_not_after_utc_ms b)) (\<lambda>_.
          ebind (ensure (ve_origin_id (vv_envelope v) = lb_holder_client_id b
              \<and> vv_causal_frontier_hash v = lb_base_frontier_hash b
              \<and> lb_not_before_utc_ms b \<le> ve_time_utc_ms (vv_envelope v)
              \<and> ve_time_utc_ms (vv_envelope v) \<le> lb_not_after_utc_ms b) lease_mismatch) (\<lambda>_.
          ebind (coordination_string c ''lease_commit'') (\<lambda>lease_commit.
          ebind (ensure ((length lease_commit = 40 \<or> length lease_commit = 64) \<and> list_all is_ascii_hexdigit lease_commit)
            (VsInvalid ''batch coordination lease commit is invalid'')) (\<lambda>_.
          ebind (coordination_string c ''remote'') (\<lambda>remote.
          validate_remote_name remote)))))))))))))))))"

definition validate_coordination_contexts ::
  "origin_codec \<Rightarrow> verified_v2_record list \<Rightarrow> client_map \<Rightarrow> v2_store_error + unit" where
  "validate_coordination_contexts oc records clients =
     efold (\<lambda>v _. validate_coordination_context oc clients v) records ()"

section \<open>What the registry knows\<close>

text \<open>A record that enrols a client with a key.\<close>

definition enrols :: "origin_codec \<Rightarrow> verified_v2_record \<Rightarrow> bytes \<Rightarrow> bytes \<Rightarrow> bool" where
  "enrols oc v name key \<longleftrightarrow>
     (\<exists>items item client. record_items v = Some items \<and> item \<in> set items \<and> item_kind item = Some ''client_enrolled''
        \<and> enrolled_client_from_item oc item v = Inr client \<and> cl_client_id client = name \<and> cl_public_key client = key)"

text \<open>
  The registry refers to the records: a client is one of the first ones, or a record enrols it
  with its key, at the place the registry has for its approval.
\<close>

definition registry_backed :: "origin_codec \<Rightarrow> client_map \<Rightarrow> verified_v2_record list \<Rightarrow> client_map \<Rightarrow> bool" where
  "registry_backed oc initial vs clients \<longleftrightarrow>
     (\<forall>name cl. clients name = Some cl \<longrightarrow>
        (\<exists>c. initial name = Some c \<and> cl_public_key c = cl_public_key cl
           \<and> cl_approved_origin_id c = cl_approved_origin_id cl \<and> cl_approved_origin_seq c = cl_approved_origin_seq cl)
        \<or> (\<exists>v \<in> set vs. enrols oc v name (cl_public_key cl) \<and> cl_approved_origin_id cl = ve_origin_id (vv_envelope v)
             \<and> cl_approved_origin_seq cl = ve_origin_seq (vv_envelope v)))"

lemma enrolled_client_from_item_Inr:
  assumes "enrolled_client_from_item oc item v = Inr client"
  shows "cl_client_id client = client_id (oc_crypto oc) (cl_public_key client)"
    and "cl_approved_origin_id client = ve_origin_id (vv_envelope v)"
    and "cl_approved_origin_seq client = ve_origin_seq (vv_envelope v)"
    and "verifying_key_ok (oc_crypto oc) (cl_public_key client)"
  using assms unfolding enrolled_client_from_item_def ebind_eq_Inr ensure_eq_Inr sum.inject by auto

lemma apply_client_item_Inr:
  assumes "apply_client_item oc v item clients = Inr clients'"
  shows "clients' = clients
    \<or> (\<exists>client. item_kind item = Some ''client_enrolled'' \<and> enrolled_client_from_item oc item v = Inr client
         \<and> clients (cl_client_id client) = None \<and> clients' = clients(cl_client_id client \<mapsto> client))
    \<or> (\<exists>name client. clients name = Some client \<and> cl_revoked_origin_id client = None
         \<and> clients' = clients(name \<mapsto> client\<lparr>cl_revoked_origin_id := Some (ve_origin_id (vv_envelope v)),
              cl_revoked_origin_seq := Some (ve_origin_seq (vv_envelope v))\<rparr>))"
proof (cases "item_kind item")
  case None
  then show ?thesis using assms by (simp add: apply_client_item_def)
next
  case (Some kind)
  consider "kind = ''client_enrolled''" | "kind = ''client_revoked''" "kind \<noteq> ''client_enrolled''"
    | "kind \<noteq> ''client_enrolled''" "kind \<noteq> ''client_revoked''" by blast
  then show ?thesis
  proof cases
    case 1
    then show ?thesis
      using assms Some unfolding apply_client_item_def
      by (simp only: option.case if_True simp_thms ebind_eq_Inr ensure_eq_Inr sum.inject) blast
  next
    case 2
    then show ?thesis
      using assms Some unfolding apply_client_item_def
      by (simp only: option.case if_True if_False simp_thms ebind_eq_Inr ensure_eq_Inr ok_or_eq_Inr sum.inject) blast
  next
    case 3
    then show ?thesis
      using assms Some unfolding apply_client_item_def
      by (simp only: option.case if_True if_False simp_thms sum.inject)
  qed
qed

text \<open>
  Entries of the registry are permanent: a client keeps its name, key, capabilities and approval,
  and once it is revoked nothing of it changes.
\<close>

definition client_kept :: "v2_client \<Rightarrow> v2_client \<Rightarrow> bool" where
  "client_kept c c' \<longleftrightarrow> c' = c\<lparr>cl_revoked_origin_id := cl_revoked_origin_id c', cl_revoked_origin_seq := cl_revoked_origin_seq c'\<rparr>
     \<and> (cl_revoked_origin_id c \<noteq> None \<longrightarrow> c' = c)"

definition registry_grows :: "client_map \<Rightarrow> client_map \<Rightarrow> bool" where
  "registry_grows clients clients' \<longleftrightarrow> (\<forall>name c. clients name = Some c \<longrightarrow> (\<exists>c'. clients' name = Some c' \<and> client_kept c c'))"

lemma client_kept_refl [simp]: "client_kept c c"
  by (simp add: client_kept_def)

lemma client_kept_trans: "client_kept a b \<Longrightarrow> client_kept b c \<Longrightarrow> client_kept a c"
  by (cases a; cases b; cases c) (auto simp: client_kept_def)

lemma client_kept_fields:
  "client_kept c c' \<Longrightarrow> cl_client_id c' = cl_client_id c \<and> cl_public_key c' = cl_public_key c
     \<and> cl_approved_origin_id c' = cl_approved_origin_id c \<and> cl_approved_origin_seq c' = cl_approved_origin_seq c"
  by (cases c; cases c') (auto simp: client_kept_def)

lemma registry_grows_refl [simp]: "registry_grows clients clients"
  by (auto simp: registry_grows_def)

lemma registry_grows_trans: "registry_grows a b \<Longrightarrow> registry_grows b c \<Longrightarrow> registry_grows a c"
  unfolding registry_grows_def using client_kept_trans by meson

lemma apply_client_item_grows:
  assumes "apply_client_item oc v item clients = Inr clients'"
  shows "registry_grows clients clients'"
  using apply_client_item_Inr [OF assms] by (auto simp: registry_grows_def client_kept_def)

lemma registry_backed_refl: "registry_backed oc clients vs clients"
  by (auto simp: registry_backed_def)

lemma registry_backed_mono:
  assumes "registry_backed oc initial vs clients" "set vs \<subseteq> set vs'"
  shows "registry_backed oc initial vs' clients"
  using assms unfolding registry_backed_def by blast

lemma apply_client_item_backed:
  assumes "apply_client_item oc v item clients = Inr clients'" "record_items v = Some items" "item \<in> set items"
    "v \<in> set vs" "registry_backed oc initial vs clients"
  shows "registry_backed oc initial vs clients'"
  using apply_client_item_Inr [OF assms(1)]
proof (elim disjE exE conjE)
  assume "clients' = clients"
  then show ?thesis using assms(5) by simp
next
  fix client
  assume c: "item_kind item = Some ''client_enrolled''" "enrolled_client_from_item oc item v = Inr client"
    "clients' = clients(cl_client_id client \<mapsto> client)"
  have "enrols oc v (cl_client_id client) (cl_public_key client)"
    unfolding enrols_def using c assms(2,3) by blast
  then show ?thesis
    using assms(4,5) enrolled_client_from_item_Inr(2,3) [OF c(2)] unfolding registry_backed_def c(3)
    by (metis fun_upd_apply option.inject)
next
  fix name client
  assume c: "clients name = Some client"
    "clients' = clients(name \<mapsto> client\<lparr>cl_revoked_origin_id := Some (ve_origin_id (vv_envelope v)),
       cl_revoked_origin_seq := Some (ve_origin_seq (vv_envelope v))\<rparr>)"
  show ?thesis
    using assms(5) c(1) unfolding registry_backed_def c(2) by simp
qed

lemma apply_record_items_ok:
  assumes "apply_record_items oc v clients = Inr clients'"
  shows "registry_grows clients clients'"
    and "v \<in> set vs \<Longrightarrow> registry_backed oc initial vs clients \<Longrightarrow> registry_backed oc initial vs clients'"
proof -
  have *: "registry_grows cs cs' \<and> (v \<in> set vs \<longrightarrow> registry_backed oc initial vs cs \<longrightarrow> registry_backed oc initial vs cs')"
    if "record_items v = Some all" "set items \<subseteq> set all" "efold (apply_client_item oc v) items cs = Inr cs'"
    for all items cs cs'
    using that
  proof (induction items arbitrary: cs)
    case (Cons item items)
    then obtain c where c: "apply_client_item oc v item cs = Inr c" "efold (apply_client_item oc v) items c = Inr cs'"
      by (auto simp: ebind_eq_Inr)
    from Cons.IH [OF Cons.prems(1) _ c(2)] Cons.prems(2)
    have IH: "registry_grows c cs' \<and> (v \<in> set vs \<longrightarrow> registry_backed oc initial vs c \<longrightarrow> registry_backed oc initial vs cs')"
      by simp
    have "item \<in> set all" using Cons.prems(2) by simp
    with IH registry_grows_trans [OF apply_client_item_grows [OF c(1)]]
      apply_client_item_backed [OF c(1) Cons.prems(1)] show ?case by blast
  qed simp
  show "registry_grows clients clients'"
    and "v \<in> set vs \<Longrightarrow> registry_backed oc initial vs clients \<Longrightarrow> registry_backed oc initial vs clients'"
    using assms * [OF _ subset_refl] unfolding apply_record_items_def by (auto split: option.splits)
qed

lemma apply_client_registry_items_ok:
  assumes "apply_client_registry_items oc records clients = Inr clients'"
  shows "registry_grows clients clients'"
    and "registry_backed oc initial vs clients \<Longrightarrow> set vs \<union> set records \<subseteq> set vs' \<Longrightarrow> registry_backed oc initial vs' clients'"
proof -
  have *: "registry_grows clients clients'
      \<and> (registry_backed oc initial vs' clients \<longrightarrow> set records \<subseteq> set vs' \<longrightarrow> registry_backed oc initial vs' clients')"
    using assms unfolding apply_client_registry_items_def
  proof (induction records arbitrary: clients)
    case (Cons v records)
    then obtain c where c: "apply_record_items oc v clients = Inr c" "efold (apply_record_items oc) records c = Inr clients'"
      by (auto simp: ebind_eq_Inr)
    from Cons.IH [OF c(2)] registry_grows_trans [OF apply_record_items_ok(1) [OF c(1)]]
      apply_record_items_ok(2) [OF c(1), of vs'] show ?case by auto
  qed simp
  show "registry_grows clients clients'" using * by blast
  show "registry_backed oc initial vs' clients'"
    if "registry_backed oc initial vs clients" "set vs \<union> set records \<subseteq> set vs'"
    using * registry_backed_mono [OF that(1)] that(2) by blast
qed

section \<open>Leases\<close>

definition coordination_of :: "verified_v2_record \<Rightarrow> json option" where
  "coordination_of v = Option.bind (json_member (vv_payload v) ''context'') (\<lambda>context. json_member context ''coordination'')"

text \<open>What a lease proof attests: its holder is enrolled and has signed it with the enrolled key.\<close>

definition lease_signed_by :: "origin_codec \<Rightarrow> signed_coordination_lease \<Rightarrow> v2_client \<Rightarrow> bool" where
  "lease_signed_by oc proof client \<longleftrightarrow>
     (\<exists>message s. lease_body_to_vec oc (sl_body proof) = Inr message
        \<and> base64_decode (oc_crypto oc) (sl_signature proof) = Some s
        \<and> verify_strict (oc_crypto oc) (cl_public_key client) message s)"

lemma verify_lease_proof_Inr:
  assumes "verify_lease_proof oc clients proof = Inr u"
  obtains client where "clients (lb_holder_client_id (sl_body proof)) = Some client" "lease_signed_by oc proof client"
  using assms unfolding verify_lease_proof_def client_verifying_key_def canonical_json_def ebind_eq_Inr ensure_eq_Inr
    ok_or_eq_Inr map_err_eq_Inr sum.inject lease_signed_by_def by blast

lemma validate_coordination_context_Inr:
  assumes "validate_coordination_context oc clients v = Inr u" "ve_record_kind (vv_envelope v) = BatchStart"
    "coordination_of v = Some c"
  obtains j lease w where "json_member c ''lease_proof'' = Some j" "lease_from_value oc j = Some lease"
    "verify_lease_proof oc clients lease = Inr w" "lb_state (sl_body lease) = ''acquired''"
    "ve_origin_id (vv_envelope v) = lb_holder_client_id (sl_body lease)"
    "vv_causal_frontier_hash v = lb_base_frontier_hash (sl_body lease)"
    "lb_not_before_utc_ms (sl_body lease) \<le> ve_time_utc_ms (vv_envelope v)"
    "ve_time_utc_ms (vv_envelope v) \<le> lb_not_after_utc_ms (sl_body lease)"
  using assms(1) unfolding validate_coordination_context_def assms(2) coordination_of_def [symmetric] assms(3) Let_def
  by (simp only: simp_thms if_False option.case ebind_eq_Inr ensure_eq_Inr ok_or_eq_Inr sum.inject) blast

text \<open>
  C23. A batch that claims a lease holds one: its start carries a proof that the writing client, by
  its enrolled key, signed a lease in state acquired, on the causal frontier the batch is based
  on, and the batch was started within the time of the lease.
\<close>

theorem coordinated_batches_hold_leases:
  assumes "validate_coordination_contexts oc records clients = Inr ()" "v \<in> set records"
    "ve_record_kind (vr_envelope (vv_record v)) = BatchStart" "coordination_of v = Some c"
  shows "\<exists>j lease client. json_member c ''lease_proof'' = Some j \<and> lease_from_value oc j = Some lease
    \<and> clients (ve_origin_id (vr_envelope (vv_record v))) = Some client \<and> lease_signed_by oc lease client
    \<and> lb_holder_client_id (sl_body lease) = ve_origin_id (vr_envelope (vv_record v))
    \<and> lb_state (sl_body lease) = ''acquired'' \<and> lb_base_frontier_hash (sl_body lease) = vv_causal_frontier_hash v
    \<and> lb_not_before_utc_ms (sl_body lease) \<le> ve_time_utc_ms (vr_envelope (vv_record v))
    \<and> ve_time_utc_ms (vr_envelope (vv_record v)) \<le> lb_not_after_utc_ms (sl_body lease)"
proof -
  have "validate_coordination_context oc clients v = Inr ()"
    using assms(1,2) unfolding validate_coordination_contexts_def efold_checks by blast
  from validate_coordination_context_Inr [OF this assms(3,4)] obtain j lease w where
    l: "json_member c ''lease_proof'' = Some j" "lease_from_value oc j = Some lease"
      "verify_lease_proof oc clients lease = Inr w" "lb_state (sl_body lease) = ''acquired''"
      "ve_origin_id (vv_envelope v) = lb_holder_client_id (sl_body lease)"
      "vv_causal_frontier_hash v = lb_base_frontier_hash (sl_body lease)"
      "lb_not_before_utc_ms (sl_body lease) \<le> ve_time_utc_ms (vv_envelope v)"
      "ve_time_utc_ms (vv_envelope v) \<le> lb_not_after_utc_ms (sl_body lease)" by blast
  from verify_lease_proof_Inr [OF l(3)] obtain client where
    "clients (lb_holder_client_id (sl_body lease)) = Some client" "lease_signed_by oc lease client" by blast
  then show ?thesis
    using l by (intro exI [of _ j] exI [of _ lease] exI [of _ client]) (simp only: simp_thms)
qed

text \<open>A batch start of the initial client under a lease.\<close>

definition sample_lease :: signed_coordination_lease where
  "sample_lease = \<lparr>sl_body = \<lparr>lb_lease_v = COORDINATION_LEASE_VERSION, lb_archive_id = ''arc'',
     lb_genesis_hash = id_of ''genesis'', lb_scope_kind = ''archive'', lb_scope_id = ''arc'', lb_token_id = ''lease_1'',
     lb_holder_client_id = client_a, lb_base_frontier_hash = id_of ''f1'', lb_state = ''acquired'',
     lb_not_before_utc_ms = 5, lb_not_after_utc_ms = 9, lb_previous_lease_commit = None\<rparr>,
     sl_signature = key_a\<rparr>"

definition lease_context :: json where
  "lease_context = JObj [(''lease_proof'', JStr ''proof''), (''scope_kind'', JStr ''archive''), (''scope_id'', JStr ''arc''),
     (''token_id'', JStr ''lease_1''), (''holder_client_id'', JStr client_a), (''base_frontier_hash'', JStr (id_of ''f1'')),
     (''not_before_utc_ms'', JNum 5), (''not_after_utc_ms'', JNum 9), (''lease_commit'', JStr (replicate 40 (CHR ''a''))),
     (''remote'', JStr ''origin'')]"

definition leased_start :: verified_v2_record where
  "leased_start = \<lparr>vv_record = \<lparr>vr_envelope = envelope_at client_a 4 ''d'' BatchStart ''2'' (Some ''c'')
       (JObj [(''context'', JObj [(''coordination'', lease_context)])]), vr_record_hash = id_of ''d''\<rparr>,
     vv_line = ''d'', vv_segment_manifest_hash = id_of ''m2'', vv_causal_frontier_hash = id_of ''f1''\<rparr>"

definition lease_codec :: origin_codec where
  "lease_codec = archive_codec\<lparr>lease_from_value := (\<lambda>j. if j = JStr ''proof'' then Some sample_lease else None)\<rparr>"

definition initial_client :: v2_client where
  "initial_client = \<lparr>cl_client_id = client_a, cl_display_name = ''Initial client'', cl_public_key = key_a,
     cl_capabilities = [''additive_observation'', ''coordination''], cl_approved_origin_id = client_a,
     cl_approved_origin_seq = 2, cl_revoked_origin_id = None, cl_revoked_origin_seq = None\<rparr>"

theorem coordinated_batches_hold_leases_witness:
  "\<exists>j lease client. json_member lease_context ''lease_proof'' = Some j \<and> lease_from_value lease_codec j = Some lease
    \<and> [client_a \<mapsto> initial_client] (ve_origin_id (vr_envelope (vv_record leased_start))) = Some client
    \<and> lease_signed_by lease_codec lease client
    \<and> lb_holder_client_id (sl_body lease) = ve_origin_id (vr_envelope (vv_record leased_start))
    \<and> lb_state (sl_body lease) = ''acquired'' \<and> lb_base_frontier_hash (sl_body lease) = vv_causal_frontier_hash leased_start
    \<and> lb_not_before_utc_ms (sl_body lease) \<le> ve_time_utc_ms (vr_envelope (vv_record leased_start))
    \<and> ve_time_utc_ms (vr_envelope (vv_record leased_start)) \<le> lb_not_after_utc_ms (sl_body lease)"
proof (rule coordinated_batches_hold_leases)
  show "validate_coordination_contexts lease_codec [leased_start] [client_a \<mapsto> initial_client] = Inr ()" by code_simp
  show "leased_start \<in> set [leased_start]" by simp
  show "ve_record_kind (vr_envelope (vv_record leased_start)) = BatchStart" by code_simp
  show "coordination_of leased_start = Some lease_context" by code_simp
qed

end
