(* ===== verification/Origin_Frontiers.thy ===== *)
theory Origin_Frontiers
  imports Origin_Clients
begin

text \<open>
  The graph of causal frontiers in the version 2 event tree (\<open>src/src/v2_store.rs\<close>): reading a
  frontier by its hash and loading all ancestors of the accepted one. The recursion of
  \<open>load_frontier_graph\<close> follows hashes in files; its model takes fuel and has no result when it
  runs out, or where the code would index a map with an absent key. Fuel beyond the rank of the
  first hash is enough when the parents of every readable frontier have a smaller rank.
\<close>

section \<open>Definitions\<close>

definition frontier_path :: "bytes \<Rightarrow> v2_store_error + bytes" where
  "frontier_path hash =
     ebind (ok_or (strip_prefix ''blake3:'' hash) (VsInvalid ''frontier hash has the wrong algorithm'')) (\<lambda>hex.
     ebind (validate_blake3_id ''frontier hash'' hash) (\<lambda>_.
     Inr (''frontiers/v2/frontier-'' @ hex @ ''.json'')))"

abbreviation oc_frontier_bytes :: "origin_codec \<Rightarrow> causal_frontier \<Rightarrow> frontier_error + bytes" where
  "oc_frontier_bytes oc \<equiv> frontier_canonical_bytes (frontier_to_vec oc)"

abbreviation oc_frontier_hash :: "origin_codec \<Rightarrow> causal_frontier \<Rightarrow> frontier_error + bytes" where
  "oc_frontier_hash oc \<equiv> frontier_hash (frontier_to_vec oc) (hash_hex (oc_crypto oc))"

abbreviation oc_successor :: "origin_codec \<Rightarrow> causal_frontier \<Rightarrow> causal_frontier \<Rightarrow> bool" where
  "oc_successor oc \<equiv> accepted_successor (frontier_to_vec oc) (hash_hex (oc_crypto oc))"

abbreviation oc_chain :: "origin_codec \<Rightarrow> causal_frontier \<Rightarrow> causal_frontier \<Rightarrow> bool" where
  "oc_chain oc \<equiv> accepted_chain (frontier_to_vec oc) (hash_hex (oc_crypto oc))"

definition read_frontier ::
  "origin_codec \<Rightarrow> tree \<Rightarrow> bytes \<Rightarrow> bytes \<Rightarrow> bytes \<Rightarrow> v2_store_error + causal_frontier" where
  "read_frontier oc t hash archive gh =
     ebind (frontier_path hash) (\<lambda>path.
     ebind (read_file t path) (\<lambda>b.
     ebind (ok_or (frontier_from_slice oc b) (VsJson path)) (\<lambda>frontier.
     ebind (map_err VsFrontier (oc_frontier_bytes oc frontier)) (\<lambda>canonical.
     let mismatch = VsInvalid (''frontier bytes or name do not match at '' @ path) in
     ebind (ensure (canonical = b) mismatch) (\<lambda>_.
     ebind (map_err VsFrontier (oc_frontier_hash oc frontier)) (\<lambda>actual.
     ebind (ensure (actual = hash) mismatch) (\<lambda>_.
     ebind (ensure (cf_archive_id frontier = archive \<and> cf_genesis_hash frontier = gh)
       (VsInvalid (''frontier belongs to another Archive at '' @ path))) (\<lambda>_.
     Inr frontier))))))))"

type_synonym frontier_map = "bytes \<rightharpoonup> causal_frontier"

text \<open>The parents of a frontier, and the frontier itself.\<close>

fun load_frontier_graph ::
  "nat \<Rightarrow> origin_codec \<Rightarrow> tree \<Rightarrow> bytes \<Rightarrow> bytes \<Rightarrow> bytes \<Rightarrow> frontier_map \<Rightarrow> (v2_store_error + frontier_map) option"
and load_parents ::
  "nat \<Rightarrow> origin_codec \<Rightarrow> tree \<Rightarrow> bytes \<Rightarrow> bytes \<Rightarrow> causal_frontier \<Rightarrow> bytes list \<Rightarrow> frontier_map
   \<Rightarrow> (v2_store_error + frontier_map) option" where
  "load_frontier_graph 0 oc t archive gh hash visited = None"
| "load_frontier_graph (Suc n) oc t archive gh hash visited =
     (if visited hash \<noteq> None then Some (Inr visited)
      else case read_frontier oc t hash archive gh of
        Inl e \<Rightarrow> Some (Inl e)
      | Inr frontier \<Rightarrow>
          (case load_parents n oc t archive gh frontier (cf_previous_frontiers frontier) visited of
             None \<Rightarrow> None
           | Some (Inl e) \<Rightarrow> Some (Inl e)
           | Some (Inr visited) \<Rightarrow>
               if cf_previous_frontiers frontier = [] \<and> cf_origins frontier \<noteq> []
               then Some (Inl (VsInvalid ''the parentless genesis frontier must have no origins''))
               else Some (Inr (visited(hash \<mapsto> frontier)))))"
| "load_parents n oc t archive gh frontier [] visited = Some (Inr visited)"
| "load_parents n oc t archive gh frontier (parent # parents) visited =
     (case load_frontier_graph n oc t archive gh parent visited of
        None \<Rightarrow> None
      | Some (Inl e) \<Rightarrow> Some (Inl e)
      | Some (Inr visited) \<Rightarrow>
          (case visited parent of
             None \<Rightarrow> None
           | Some base \<Rightarrow>
               (case validate_successor_of (frontier_to_vec oc) (hash_hex (oc_crypto oc)) frontier base of
                  Inl e \<Rightarrow> Some (Inl (VsFrontier e))
                | Inr _ \<Rightarrow> load_parents n oc t archive gh frontier parents visited)))"

section \<open>What loading accepts\<close>

lemma read_frontier_Inr:
  assumes "read_frontier oc t hash archive gh = Inr f"
  shows "oc_frontier_hash oc f = Inr hash \<and> cf_archive_id f = archive \<and> cf_genesis_hash f = gh"
  using assms unfolding read_frontier_def Let_def ebind_eq_Inr ensure_eq_Inr map_err_eq_Inr sum.inject by auto

definition loaded_ok :: "origin_codec \<Rightarrow> tree \<Rightarrow> bytes \<Rightarrow> bytes \<Rightarrow> frontier_map \<Rightarrow> bool" where
  "loaded_ok oc t archive gh visited \<longleftrightarrow> (\<forall>hash f. visited hash = Some f \<longrightarrow>
     read_frontier oc t hash archive gh = Inr f
     \<and> (\<forall>p \<in> set (cf_previous_frontiers f). \<exists>base. visited p = Some base \<and> oc_successor oc f base)
     \<and> (cf_previous_frontiers f = [] \<longrightarrow> cf_origins f = []))"

definition only_ancestors :: "origin_codec \<Rightarrow> frontier_map \<Rightarrow> frontier_map \<Rightarrow> causal_frontier \<Rightarrow> bool" where
  "only_ancestors oc visited visited' f \<longleftrightarrow> (\<forall>k g. visited' k = Some g \<longrightarrow> visited k = Some g \<or> oc_chain oc g f)"

lemma only_ancestors_trans:
  assumes "only_ancestors oc a b f" "only_ancestors oc b c f"
  shows "only_ancestors oc a c f"
  using assms unfolding only_ancestors_def by blast

lemma only_ancestors_step:
  assumes "only_ancestors oc a b base" "oc_successor oc f base"
  shows "only_ancestors oc a b f"
  using assms chain_step unfolding only_ancestors_def by metis

lemma accepted_successorI: "validate_successor_of tv hx f base = Inr adv \<Longrightarrow> accepted_successor tv hx f base"
  by (simp add: accepted_successor_def)

lemma loaded_ok_insert:
  assumes "loaded_ok oc t archive gh vis" "read_frontier oc t hash archive gh = Inr f" "vis \<subseteq>\<^sub>m vis(hash \<mapsto> f)"
    "\<forall>p \<in> set (cf_previous_frontiers f). \<exists>base. vis p = Some base \<and> oc_successor oc f base"
    "cf_previous_frontiers f = [] \<longrightarrow> cf_origins f = []"
  shows "loaded_ok oc t archive gh (vis(hash \<mapsto> f))"
proof -
  have le: "(vis(hash \<mapsto> f)) p = Some base" if "vis p = Some base" for p base
    using that assms(3) by (metis domI map_le_def)
  have parents: "\<exists>base. (vis(hash \<mapsto> f)) p = Some base \<and> oc_successor oc g base"
    if "\<exists>base. vis p = Some base \<and> oc_successor oc g base" for p g using that le by blast
  show ?thesis
    unfolding loaded_ok_def
  proof (intro allI impI)
    fix k g
    assume g: "(vis(hash \<mapsto> f)) k = Some g"
    show "read_frontier oc t k archive gh = Inr g
      \<and> (\<forall>p \<in> set (cf_previous_frontiers g). \<exists>base. (vis(hash \<mapsto> f)) p = Some base \<and> oc_successor oc g base)
      \<and> (cf_previous_frontiers g = [] \<longrightarrow> cf_origins g = [])"
    proof (cases "k = hash")
      case True
      then show ?thesis using g assms(2,4,5) parents [of _ f] by simp
    next
      case False
      then have "vis k = Some g" using g by simp
      then show ?thesis using assms(1) parents [of _ g] unfolding loaded_ok_def by blast
    qed
  qed
qed

lemma load_ok:
  "load_frontier_graph n oc t archive gh hash visited = Some (Inr visited') \<Longrightarrow> loaded_ok oc t archive gh visited
     \<Longrightarrow> loaded_ok oc t archive gh visited' \<and> visited \<subseteq>\<^sub>m visited'
       \<and> (\<exists>f. visited' hash = Some f \<and> only_ancestors oc visited visited' f)"
  "load_parents n oc t archive gh f ps visited = Some (Inr visited') \<Longrightarrow> loaded_ok oc t archive gh visited
     \<Longrightarrow> loaded_ok oc t archive gh visited' \<and> visited \<subseteq>\<^sub>m visited' \<and> only_ancestors oc visited visited' f
       \<and> (\<forall>p \<in> set ps. \<exists>base. visited' p = Some base \<and> oc_successor oc f base)"
proof (induction n oc t archive gh hash visited and n oc t archive gh f ps visited
    arbitrary: visited' and visited' rule: load_frontier_graph_load_parents.induct)
  case (2 n oc t archive gh hash visited)
  show ?case
  proof (cases "visited hash")
    case (Some f)
    then show ?thesis using 2 by (auto simp: only_ancestors_def)
  next
    case None
    with 2(2) obtain f vis where f: "read_frontier oc t hash archive gh = Inr f"
      and l: "load_parents n oc t archive gh f (cf_previous_frontiers f) visited = Some (Inr vis)"
      and o: "cf_previous_frontiers f = [] \<longrightarrow> cf_origins f = []" and v: "visited' = vis(hash \<mapsto> f)"
      by (auto split: sum.splits option.splits if_splits)
    from 2(1) [OF _ f l 2(3)] None have IH: "loaded_ok oc t archive gh vis" "visited \<subseteq>\<^sub>m vis"
      "only_ancestors oc visited vis f"
      "\<forall>p \<in> set (cf_previous_frontiers f). \<exists>base. vis p = Some base \<and> oc_successor oc f base" by auto
    have same: "g = f" if "vis hash = Some g" for g using IH(1) that f unfolding loaded_ok_def by fastforce
    then have le: "vis \<subseteq>\<^sub>m vis(hash \<mapsto> f)" by (auto simp: map_le_def dom_def)
    have "visited \<subseteq>\<^sub>m visited'" unfolding v using map_le_trans [OF IH(2) le] .
    moreover have "only_ancestors oc visited visited' f"
      using IH(3) chain_refl unfolding v only_ancestors_def by (metis fun_upd_apply option.inject)
    moreover have "loaded_ok oc t archive gh visited'"
      using loaded_ok_insert [OF IH(1) f le IH(4) o] unfolding v .
    moreover have "visited' hash = Some f" by (simp add: v)
    ultimately show ?thesis by blast
  qed
next
  case (4 n oc t archive gh f p ps visited)
  from 4(3) obtain vis base adv where l: "load_frontier_graph n oc t archive gh p visited = Some (Inr vis)"
    and b: "vis p = Some base"
    and a: "validate_successor_of (frontier_to_vec oc) (hash_hex (oc_crypto oc)) f base = Inr adv"
    and r: "load_parents n oc t archive gh f ps vis = Some (Inr visited')"
    by (auto split: sum.splits option.splits)
  from 4(1) [OF l 4(4)] b have IH: "loaded_ok oc t archive gh vis" "visited \<subseteq>\<^sub>m vis" "only_ancestors oc visited vis base"
    by auto
  from 4(2) [OF l _ b a r IH(1)] have IH': "loaded_ok oc t archive gh visited'" "vis \<subseteq>\<^sub>m visited'"
    "only_ancestors oc vis visited' f" "\<forall>p \<in> set ps. \<exists>base. visited' p = Some base \<and> oc_successor oc f base" by auto
  have s: "oc_successor oc f base" using a by (rule accepted_successorI)
  have "visited' p = Some base" using b IH'(2) by (metis domI map_le_def)
  with s IH' map_le_trans [OF IH(2) IH'(2)] only_ancestors_trans [OF only_ancestors_step [OF IH(3) s] IH'(3)]
  show ?case by auto
qed (auto simp: only_ancestors_def)

section \<open>Fuel\<close>

lemma load_more_fuel:
  "load_frontier_graph n oc t archive gh hash visited = Some r \<Longrightarrow> n \<le> m \<Longrightarrow> load_frontier_graph m oc t archive gh hash visited = Some r"
  "load_parents n oc t archive gh f ps visited = Some r \<Longrightarrow> n \<le> m \<Longrightarrow> load_parents m oc t archive gh f ps visited = Some r"
proof (induction n oc t archive gh hash visited and n oc t archive gh f ps visited
    arbitrary: r m and r m rule: load_frontier_graph_load_parents.induct)
  case (2 n oc t archive gh hash visited)
  from 2(3) obtain m' where m: "m = Suc m'" "n \<le> m'" by (cases m) auto
  show ?case
  proof (cases "visited hash = None")
    case True
    show ?thesis
    proof (cases "read_frontier oc t hash archive gh")
      case (Inl e)
      then show ?thesis using 2(2) True m(1) by simp
    next
      case (Inr f)
      then obtain r' where r': "load_parents n oc t archive gh f (cf_previous_frontiers f) visited = Some r'"
        using 2(2) True by (auto split: option.splits)
      have "load_parents m' oc t archive gh f (cf_previous_frontiers f) visited = Some r'"
        using 2(1) [OF _ Inr r' m(2)] True by simp
      then show ?thesis using 2(2) True Inr r' m(1) by simp
    qed
  qed (use 2(2) m(1) in simp)
next
  case (4 n oc t archive gh f p ps visited)
  from 4(3) obtain r' where r': "load_frontier_graph n oc t archive gh p visited = Some r'" by (auto split: option.splits)
  note more = 4(1) [OF r' 4(4)]
  show ?case
  proof (cases r')
    case (Inr vis)
    then obtain base where b: "vis p = Some base" using 4(3) r' by (auto split: option.splits)
    show ?thesis
    proof (cases "validate_successor_of (frontier_to_vec oc) (hash_hex (oc_crypto oc)) f base")
      case (Inr adv)
      with 4(2) [OF r' \<open>r' = Inr vis\<close> b Inr _ 4(4)] 4(3) r' b \<open>r' = Inr vis\<close> more show ?thesis by simp
    qed (use 4(3) r' b Inr more in simp)
  next
    case (Inl e)
    then show ?thesis using 4(3) r' more by auto
  qed
qed simp_all

text \<open>A loaded hash is in the map, whatever the map held before.\<close>

lemma load_present:
  "load_frontier_graph n oc t archive gh hash visited = Some (Inr visited') \<Longrightarrow> \<exists>f. visited' hash = Some f"
  by (cases n) (auto split: if_splits sum.splits option.splits)

definition parents_below :: "origin_codec \<Rightarrow> tree \<Rightarrow> bytes \<Rightarrow> bytes \<Rightarrow> (bytes \<Rightarrow> nat) \<Rightarrow> bool" where
  "parents_below oc t archive gh rank \<longleftrightarrow>
     (\<forall>hash f. read_frontier oc t hash archive gh = Inr f \<longrightarrow> (\<forall>p \<in> set (cf_previous_frontiers f). rank p < rank hash))"

lemma load_returns:
  assumes "parents_below oc t archive gh rank"
  shows "rank hash < n \<Longrightarrow> \<exists>r. load_frontier_graph n oc t archive gh hash visited = Some r"
proof (induction n arbitrary: hash visited)
  case (Suc n)
  have parents: "\<exists>r. load_parents n oc t archive gh f ps vis = Some r" if "\<forall>p \<in> set ps. rank p < n" for f ps vis
    using that
  proof (induction ps arbitrary: vis)
    case (Cons p ps)
    from Suc.IH [of p vis] Cons.prems obtain r where r: "load_frontier_graph n oc t archive gh p vis = Some r" by auto
    show ?case
    proof (cases r)
      case (Inr vis')
      with r load_present obtain base where "vis' p = Some base" by metis
      with r Inr Cons show ?thesis by (auto split: sum.splits)
    qed (use r in auto)
  qed simp
  show ?case
  proof (cases "visited hash = None")
    case True
    show ?thesis
    proof (cases "read_frontier oc t hash archive gh")
      case (Inr f)
      have "\<forall>p \<in> set (cf_previous_frontiers f). rank p < n" using assms Inr Suc.prems unfolding parents_below_def by fastforce
      from parents [OF this, of f visited] obtain r where
        "load_parents n oc t archive gh f (cf_previous_frontiers f) visited = Some r" by blast
      with True Inr show ?thesis by (cases r) auto
    qed (use True in auto)
  qed auto
qed simp

text \<open>
  C24. Loading the frontier graph returns: if the parents of every readable frontier have a smaller
  rank, there is one result, with or without an error, which every amount of fuel beyond the
  rank of the hash gives.
\<close>

theorem frontier_graph_load_returns:
  assumes "parents_below oc t archive gh rank"
  shows "\<exists>r. \<forall>n > rank head. load_frontier_graph n oc t archive gh head visited = Some r"
proof -
  obtain r where "load_frontier_graph (Suc (rank head)) oc t archive gh head visited = Some r"
    using load_returns [OF assms lessI] by blast
  then show ?thesis using load_more_fuel(1) by (metis Suc_leI)
qed

text \<open>
  C22. What is loaded is a history: from an accepted hash, every loaded frontier is stored under its
  own hash, belongs to the archive, and has all its parents loaded, of which it is an accepted
  successor; and the accepted frontier covers every loaded one, so no ancestor has a record that
  the accepted frontier lacks or replaces.
\<close>

theorem loaded_frontiers_are_history:
  assumes "load_frontier_graph n oc t archive gh head Map.empty = Some (Inr visited)"
  shows "\<exists>accepted. visited head = Some accepted \<and> (\<forall>hash f. visited hash = Some f \<longrightarrow>
     frontier_hash (frontier_to_vec oc) (hash_hex (oc_crypto oc)) f = Inr hash
     \<and> cf_archive_id f = archive \<and> cf_genesis_hash f = gh
     \<and> (\<forall>p \<in> set (cf_previous_frontiers f). \<exists>base. visited p = Some base
          \<and> accepted_successor (frontier_to_vec oc) (hash_hex (oc_crypto oc)) f base)
     \<and> (\<forall>i m x. dots f i = Some (m, x) \<longrightarrow>
          (\<exists>m' x'. dots accepted i = Some (m', x') \<and> m \<le> m' \<and> (m = m' \<longrightarrow> x = x'))))"
proof -
  have "loaded_ok oc t archive gh Map.empty" by (simp add: loaded_ok_def)
  from load_ok(1) [OF assms this] obtain accepted where ok: "loaded_ok oc t archive gh visited"
    and head: "visited head = Some accepted" and anc: "only_ancestors oc Map.empty visited accepted"
    by blast
  have covered: "\<exists>m' x'. dots accepted i = Some (m', x') \<and> m \<le> m' \<and> (m = m' \<longrightarrow> x = x')"
    if "visited hash = Some f" "dots f i = Some (m, x)" for hash f i m x
  proof -
    have "oc_chain oc f accepted" using anc that(1) unfolding only_ancestors_def by auto
    from frontier.chain_keeps [OF accepted_chain_rtranclp [OF this] that(2)] show ?thesis .
  qed
  show ?thesis
  proof (intro exI [of _ accepted] conjI allI impI)
    fix hash f
    assume f: "visited hash = Some f"
    with ok have r: "read_frontier oc t hash archive gh = Inr f"
      "\<forall>p \<in> set (cf_previous_frontiers f). \<exists>base. visited p = Some base \<and> oc_successor oc f base"
      unfolding loaded_ok_def by blast+
    show "oc_frontier_hash oc f = Inr hash" "cf_archive_id f = archive" "cf_genesis_hash f = gh"
      using read_frontier_Inr [OF r(1)] by blast+
    show "\<forall>p \<in> set (cf_previous_frontiers f). \<exists>base. visited p = Some base \<and> oc_successor oc f base" by (rule r(2))
    show "\<exists>m' x'. dots accepted i = Some (m', x') \<and> m \<le> m' \<and> (m = m' \<longrightarrow> x = x')"
      if "dots f i = Some (m, x)" for i m x by (rule covered [OF f that])
  qed (rule head)
qed

text \<open>The frontiers of the sample archive, each with the one before it as its parent.\<close>

lemma load_first:
  assumes "read_frontier oc t hash archive gh = Inr f" "cf_previous_frontiers f = []" "cf_origins f = []"
  shows "load_frontier_graph (Suc n) oc t archive gh hash Map.empty = Some (Inr [hash \<mapsto> f])"
  using assms by simp

lemma load_next:
  assumes "read_frontier oc t hash archive gh = Inr f" "cf_previous_frontiers f = [p]" "oc_successor oc f base"
    "load_frontier_graph n oc t archive gh p Map.empty = Some (Inr (visited(p \<mapsto> base)))"
  shows "load_frontier_graph (Suc n) oc t archive gh hash Map.empty = Some (Inr (visited(p \<mapsto> base, hash \<mapsto> f)))"
  using assms by (auto simp: accepted_successor_def split: sum.splits)

abbreviation read_sample :: "bytes \<Rightarrow> v2_store_error + causal_frontier" where
  "read_sample b \<equiv> read_frontier archive_codec archive_tree (id_of b) ''arc'' (id_of ''genesis'')"

abbreviation load_sample :: "nat \<Rightarrow> (v2_store_error + frontier_map) option" where
  "load_sample n \<equiv> load_frontier_graph n archive_codec archive_tree ''arc'' (id_of ''genesis'') (id_of ''f5'') Map.empty"

definition sample_visited :: frontier_map where
  "sample_visited = [id_of ''f0'' \<mapsto> frontier_0, id_of ''f1'' \<mapsto> frontier_1, id_of ''f2'' \<mapsto> frontier_2,
     id_of ''f3'' \<mapsto> frontier_3, id_of ''f4'' \<mapsto> frontier_4, id_of ''f5'' \<mapsto> frontier_5]"

lemma sample_frontiers_read:
  "read_sample ''f0'' = Inr frontier_0" "read_sample ''f1'' = Inr frontier_1" "read_sample ''f2'' = Inr frontier_2"
  "read_sample ''f3'' = Inr frontier_3" "read_sample ''f4'' = Inr frontier_4" "read_sample ''f5'' = Inr frontier_5"
  by code_simp+

lemma sample_frontiers_linked:
  "oc_successor archive_codec frontier_1 frontier_0" "oc_successor archive_codec frontier_2 frontier_1"
  "oc_successor archive_codec frontier_3 frontier_2" "oc_successor archive_codec frontier_4 frontier_3"
  "oc_successor archive_codec frontier_5 frontier_4"
  by code_simp+

lemma sample_graph_loads: "load_sample (Suc (Suc (Suc (Suc (Suc (Suc n)))))) = Some (Inr sample_visited)"
proof -
  have prev: "cf_previous_frontiers frontier_0 = []" "cf_origins frontier_0 = []"
    "cf_previous_frontiers frontier_1 = [id_of ''f0'']" "cf_previous_frontiers frontier_2 = [id_of ''f1'']"
    "cf_previous_frontiers frontier_3 = [id_of ''f2'']" "cf_previous_frontiers frontier_4 = [id_of ''f3'']"
    "cf_previous_frontiers frontier_5 = [id_of ''f4'']"
    by (simp_all add: frontier_0_def frontier_1_def frontier_2_def frontier_3_def frontier_4_def frontier_5_def frontier_with_def)
  note r = sample_frontiers_read and l = sample_frontiers_linked
  note f1 = load_next [OF r(2) prev(3) l(1) load_first [OF r(1) prev(1,2)]]
  note f2 = load_next [OF r(3) prev(4) l(2) f1]
  note f3 = load_next [OF r(4) prev(5) l(3) f2]
  note f4 = load_next [OF r(5) prev(6) l(4) f3]
  note f5 = load_next [OF r(6) prev(7) l(5) f4]
  show ?thesis unfolding sample_visited_def by (rule f5)
qed

definition sample_frontiers :: "causal_frontier list" where
  "sample_frontiers = [frontier_0, frontier_1, frontier_2, frontier_3, frontier_4, frontier_5]"

definition sample_rank :: "bytes \<Rightarrow> nat" where
  "sample_rank hash = index_in [id_of ''f0'', id_of ''f1'', id_of ''f2'', id_of ''f3'', id_of ''f4'', id_of ''f5''] hash"

lemma sample_frontier_hashes:
  "list_all (\<lambda>f. case oc_frontier_hash archive_codec f of Inl e \<Rightarrow> False
     | Inr hash \<Rightarrow> list_all (\<lambda>p. sample_rank p < sample_rank hash) (cf_previous_frontiers f)) sample_frontiers"
  by code_simp

lemma sample_parents_below: "parents_below archive_codec t archive gh sample_rank"
  unfolding parents_below_def
proof (intro allI impI)
  fix hash f
  assume r: "read_frontier archive_codec t hash archive gh = Inr f"
  then obtain b where "frontier_from_slice archive_codec b = Some f"
    unfolding read_frontier_def Let_def ebind_eq_Inr ok_or_eq_Inr ensure_eq_Inr by auto
  then have "f \<in> set sample_frontiers"
    by (auto simp: archive_codec_def frontier_of_def sample_frontiers_def split: if_splits)
  with sample_frontier_hashes read_frontier_Inr [OF r]
  show "\<forall>p \<in> set (cf_previous_frontiers f). sample_rank p < sample_rank hash" by (fastforce simp: list_all_iff)
qed

theorem frontier_graph_load_returns_witness: "\<exists>r. \<forall>n > sample_rank (id_of ''f5''). load_sample n = Some r"
  by (rule frontier_graph_load_returns [OF sample_parents_below])

theorem loaded_frontiers_are_history_witness:
  "\<exists>accepted. sample_visited (id_of ''f5'') = Some accepted \<and> (\<forall>hash f. sample_visited hash = Some f \<longrightarrow>
     frontier_hash (frontier_to_vec archive_codec) (hash_hex (oc_crypto archive_codec)) f = Inr hash
     \<and> cf_archive_id f = ''arc'' \<and> cf_genesis_hash f = id_of ''genesis''
     \<and> (\<forall>p \<in> set (cf_previous_frontiers f). \<exists>base. sample_visited p = Some base
          \<and> accepted_successor (frontier_to_vec archive_codec) (hash_hex (oc_crypto archive_codec)) f base)
     \<and> (\<forall>i m x. dots f i = Some (m, x) \<longrightarrow>
          (\<exists>m' x'. dots accepted i = Some (m', x') \<and> m \<le> m' \<and> (m = m' \<longrightarrow> x = x'))))"
  by (rule loaded_frontiers_are_history [OF sample_graph_loads])

end
