(* ===== verification/Origin_Store.thy ===== *)
theory Origin_Store
  imports Origin_Frontiers
begin

text \<open>
  The verification of a whole version 2 archive (\<open>verify\<close> of \<open>src/src/v2_store.rs\<close>): the genesis,
  the accepted frontier and its ancestors, the initial client's origin, then the origins of
  enrolled clients in whatever order their enrolments become known, and the batches. A conversion
  of a length to 64 bits cannot fail and is not a branch of the model; the loading of frontiers
  takes the fuel of \<open>Origin_Frontiers\<close>.
\<close>

section \<open>Definitions\<close>

record verified_v2_archive =
  va_genesis :: signed_genesis
  va_genesis_hash :: bytes
  va_accepted_frontier :: causal_frontier
  va_accepted_frontier_hash :: bytes
  va_records :: "verified_v2_record list"
  va_record_count :: u64
  va_clients :: client_map
  va_frontiers :: frontier_map
  va_segment_count :: u64
  va_frontier_count :: u64

lemma saturating_add_code [code]:
  "saturating_add a b = (case checked_add a b of None \<Rightarrow> - 1 | Some c \<Rightarrow> c)"
  by (simp add: saturating_add_def checked_add_def)

definition load_genesis :: "origin_codec \<Rightarrow> tree \<Rightarrow> v2_store_error + (signed_genesis \<times> bytes)" where
  "load_genesis oc t =
     ebind (read_file t ''genesis.json'') (\<lambda>b.
     ebind (ok_or (genesis_from_slice oc b) (VsJson ''genesis.json'')) (\<lambda>genesis.
     ebind (map_err VsGenesis (genesis_verify (oc_crypto oc) (oc_genesis oc) genesis)) (\<lambda>_.
     ebind (map_err VsGenesis (genesis_canonical_bytes (oc_crypto oc) (oc_genesis oc) genesis)) (\<lambda>canonical.
     ebind (ensure (canonical = b) (VsInvalid ''genesis.json does not use deterministic bytes'')) (\<lambda>_.
     ebind (map_err VsGenesis (genesis_hash (oc_crypto oc) (oc_genesis oc) genesis)) (\<lambda>gh.
     Inr (genesis, gh)))))))"

definition trim_end_newlines :: "bytes \<Rightarrow> bytes" where
  "trim_end_newlines s = rev (dropWhile (\<lambda>b. b = NL) (rev s))"

definition read_head :: "tree \<Rightarrow> v2_store_error + bytes" where
  "read_head t =
     ebind (read_file t ''frontiers/v2/HEAD'') (\<lambda>head.
     ebind (ensure (is_utf8 head) (VsInvalid ''frontier HEAD is not UTF-8'')) (\<lambda>_.
     let hash = trim_end_newlines head in
     ebind (validate_blake3_id ''frontier HEAD'' hash) (\<lambda>_.
     ebind (ensure (head = hash @ [NL]) (VsInvalid ''frontier HEAD must contain one hash and a newline'')) (\<lambda>_.
     Inr hash))))"

definition initial_client_of :: "genesis_body \<Rightarrow> bytes \<Rightarrow> bytes \<Rightarrow> u64 \<Rightarrow> v2_client" where
  "initial_client_of g key approved_id approved_seq =
     \<lparr>cl_client_id = ge_initial_client_id g, cl_display_name = ''Initial client'', cl_public_key = key,
      cl_capabilities = [''additive_observation'', ''coordination''], cl_approved_origin_id = approved_id,
      cl_approved_origin_seq = approved_seq, cl_revoked_origin_id = None, cl_revoked_origin_seq = None\<rparr>"

text \<open>The variables of the loop over the pending origins.\<close>

record origins_state =
  vt_pending :: "bytes list"
  vt_clients :: client_map
  vt_records :: "verified_v2_record list"
  vt_segments :: u64
  vt_progressed :: bool

text \<open>The body of the inner loop. That a pending origin is in the frontier is an \<open>expect\<close> in the code.\<close>

definition visit_candidate ::
  "origin_codec \<Rightarrow> tree \<Rightarrow> genesis_body \<Rightarrow> bytes \<Rightarrow> causal_frontier \<Rightarrow> frontier_map \<Rightarrow> bytes \<Rightarrow> origins_state
   \<Rightarrow> v2_store_error + origins_state" where
  "visit_candidate oc t genesis gh accepted visited origin_id st =
     (case vt_clients st origin_id of
        None \<Rightarrow> Inr st
      | Some client \<Rightarrow>
          ebind (ok_or (find (\<lambda>origin. of_origin_id origin = origin_id) (cf_origins accepted))
            (VsInvalid ''pending origin came from the accepted frontier'')) (\<lambda>origin.
          ebind (client_verifying_key oc client) (\<lambda>key.
          ebind (verify_origin oc t genesis gh key origin) (\<lambda>r.
          ebind (validate_client_origin_records (fst r) client visited) (\<lambda>_.
          ebind (apply_client_registry_items oc (fst r) (vt_clients st)) (\<lambda>clients.
          Inr \<lparr>vt_pending = removeAll origin_id (vt_pending st), vt_clients = clients,
               vt_records = vt_records st @ fst r,
               vt_segments = saturating_add (vt_segments st) (of_nat (snd r)), vt_progressed = True\<rparr>))))))"

definition verify_pass ::
  "origin_codec \<Rightarrow> tree \<Rightarrow> genesis_body \<Rightarrow> bytes \<Rightarrow> causal_frontier \<Rightarrow> frontier_map \<Rightarrow> origins_state
   \<Rightarrow> v2_store_error + origins_state" where
  "verify_pass oc t genesis gh accepted visited st =
     efold (visit_candidate oc t genesis gh accepted visited) (vt_pending st) (st\<lparr>vt_progressed := False\<rparr>)"

definition join_names :: "bytes list \<Rightarrow> bytes" where
  "join_names names = (case names of [] \<Rightarrow> [] | n # ns \<Rightarrow> n @ concat (map (\<lambda>m. '', '' @ m) ns))"

lemma visit_candidate_Inr:
  "visit_candidate oc t genesis gh accepted visited origin_id st = Inr st' \<longleftrightarrow>
     (case vt_clients st origin_id of
        None \<Rightarrow> st' = st
      | Some client \<Rightarrow> \<exists>origin recs n clients.
          find (\<lambda>origin. of_origin_id origin = origin_id) (cf_origins accepted) = Some origin
          \<and> verify_origin oc t genesis gh (cl_public_key client) origin = Inr (recs, n)
          \<and> verifying_key_ok (oc_crypto oc) (cl_public_key client)
          \<and> validate_client_origin_records recs client visited = Inr ()
          \<and> apply_client_registry_items oc recs (vt_clients st) = Inr clients
          \<and> st' = \<lparr>vt_pending = removeAll origin_id (vt_pending st), vt_clients = clients,
               vt_records = vt_records st @ recs,
               vt_segments = saturating_add (vt_segments st) (of_nat n), vt_progressed = True\<rparr>)"
proof (cases "vt_clients st origin_id")
  case None
  then show ?thesis by (auto simp: visit_candidate_def)
next
  case (Some client)
  show ?thesis
    unfolding visit_candidate_def Some client_verifying_key_def option.case ebind_eq_Inr ensure_eq_Inr ok_or_eq_Inr sum.inject
      split_paired_Ex fst_conv snd_conv by auto
qed

text \<open>A pass that made progress leaves fewer origins pending.\<close>

lemma pass_shrinks:
  assumes "efold (visit_candidate oc t genesis gh accepted visited) cs st = Inr st'" "set cs \<subseteq> set P"
    "\<not> vt_progressed st \<and> vt_pending st = P \<or> length (vt_pending st) < length P"
  shows "\<not> vt_progressed st' \<and> vt_pending st' = P \<or> length (vt_pending st') < length P"
  using assms
proof (induction cs arbitrary: st)
  case (Cons c cs)
  then obtain s where s: "visit_candidate oc t genesis gh accepted visited c st = Inr s"
    "efold (visit_candidate oc t genesis gh accepted visited) cs s = Inr st'"
    by (auto simp: ebind_eq_Inr)
  have "length (removeAll c P) < length P" using Cons.prems(2) by (intro length_removeAll_less) simp
  moreover have "length (vt_pending st) < length P \<Longrightarrow> length (removeAll c (vt_pending st)) < length P"
    unfolding removeAll_filter_not_eq by (rule le_less_trans [OF length_filter_le])
  ultimately have "\<not> vt_progressed s \<and> vt_pending s = P \<or> length (vt_pending s) < length P"
    using s(1) Cons.prems(3) unfolding visit_candidate_Inr by (auto split: option.splits)
  with Cons.IH [OF s(2)] Cons.prems(2) show ?case by simp
qed simp

lemma verify_pass_shrinks:
  assumes "verify_pass oc t genesis gh accepted visited st = Inr st'" "vt_progressed st'"
  shows "length (vt_pending st') < length (vt_pending st)"
  using pass_shrinks [OF assms(1) [unfolded verify_pass_def] subset_refl] assms(2) by simp

function verify_pending ::
  "origin_codec \<Rightarrow> tree \<Rightarrow> genesis_body \<Rightarrow> bytes \<Rightarrow> causal_frontier \<Rightarrow> frontier_map \<Rightarrow> origins_state
   \<Rightarrow> v2_store_error + origins_state" where
  "verify_pending oc t genesis gh accepted visited st =
     (if vt_pending st = [] then Inr st
      else ebind (verify_pass oc t genesis gh accepted visited st) (\<lambda>st'.
        if \<not> vt_progressed st'
        then Inl (VsInvalid (''accepted frontier contains origins without trusted enrollment: '' @ join_names (vt_pending st')))
        else verify_pending oc t genesis gh accepted visited st'))"
  by pat_completeness auto
termination
  by (relation "measure (\<lambda>(oc, t, genesis, gh, accepted, visited, st). length (vt_pending st))")
    (simp_all add: verify_pass_shrinks)

declare verify_pending.simps [simp del]

fun sum_seqs :: "origin_frontier list \<Rightarrow> u64 \<Rightarrow> u64 option" where
  "sum_seqs [] acc = Some acc"
| "sum_seqs (origin # origins) acc = Option.bind (checked_add acc (of_seq origin)) (sum_seqs origins)"

text \<open>From the loaded frontiers to the end of the loop over the origins.\<close>

definition verify_origins ::
  "origin_codec \<Rightarrow> tree \<Rightarrow> genesis_body \<Rightarrow> bytes \<Rightarrow> causal_frontier \<Rightarrow> frontier_map \<Rightarrow> v2_store_error + origins_state" where
  "verify_origins oc t genesis gh accepted visited =
     ebind (ok_or (find (\<lambda>origin. of_origin_id origin = ge_initial_client_id genesis) (cf_origins accepted))
       (VsInvalid ''accepted frontier omits the genesis client'')) (\<lambda>initial_origin.
     ebind (map_err VsGenesis (genesis_validate (oc_crypto oc) genesis)) (\<lambda>key.
     ebind (verify_origin oc t genesis gh key initial_origin) (\<lambda>r.
     ebind (ok_or (find (\<lambda>v. record_contains_item_kind v ''archive_initialized'') (fst r))
       (VsInvalid ''genesis origin lacks archive_initialized'')) (\<lambda>approval.
     ebind (apply_client_registry_items oc (fst r)
       [ge_initial_client_id genesis \<mapsto> initial_client_of genesis key (ve_origin_id (vv_envelope approval))
          (ve_origin_seq (vv_envelope approval))]) (\<lambda>clients.
     verify_pending oc t genesis gh accepted visited
       \<lparr>vt_pending = sort (remdups (map of_origin_id
            (filter (\<lambda>origin. of_origin_id origin \<noteq> ge_initial_client_id genesis) (cf_origins accepted)))),
        vt_clients = clients, vt_records = fst r, vt_segments = saturating_add 0 (of_nat (snd r)),
        vt_progressed = False\<rparr>)))))"

definition check_causal_bases :: "frontier_map \<Rightarrow> verified_v2_record list \<Rightarrow> v2_store_error + unit" where
  "check_causal_bases visited records =
     efold (\<lambda>v _. ensure (visited (vv_causal_frontier_hash v) \<noteq> None)
       (VsInvalid (''record '' @ ve_record_id (vv_envelope v) @ '' depends on an unknown causal frontier''))) records ()"

definition verify_history ::
  "origin_codec \<Rightarrow> tree \<Rightarrow> genesis_body \<Rightarrow> bytes \<Rightarrow> causal_frontier \<Rightarrow> frontier_map \<Rightarrow> v2_store_error + (origins_state \<times> u64)" where
  "verify_history oc t genesis gh accepted visited =
     ebind (verify_origins oc t genesis gh accepted visited) (\<lambda>st.
     ebind (check_causal_bases visited (vt_records st)) (\<lambda>_.
     ebind (validate_coordination_contexts oc (vt_records st) (vt_clients st)) (\<lambda>_.
     ebind (verify_batches oc (vt_records st)) (\<lambda>_.
     ebind (ok_or (sum_seqs (cf_origins accepted) 0) (VsInvalid ''record count overflow'')) (\<lambda>record_count.
     Inr (st, record_count))))))"

definition verify_archive :: "nat \<Rightarrow> origin_codec \<Rightarrow> tree \<Rightarrow> (v2_store_error + verified_v2_archive) option" where
  "verify_archive fuel oc t =
     (case load_genesis oc t of
        Inl e \<Rightarrow> Some (Inl e)
      | Inr (genesis, gh) \<Rightarrow>
     (case read_head t of
        Inl e \<Rightarrow> Some (Inl e)
      | Inr head \<Rightarrow>
     (case load_frontier_graph fuel oc t (ge_archive_id (sg_body genesis)) gh head Map.empty of
        None \<Rightarrow> None
      | Some (Inl e) \<Rightarrow> Some (Inl e)
      | Some (Inr visited) \<Rightarrow>
          Some (ebind (ok_or (visited head) (VsInvalid ''accepted frontier was not loaded'')) (\<lambda>accepted.
          ebind (verify_history oc t (sg_body genesis) gh accepted visited) (\<lambda>(st, record_count).
          Inr \<lparr>va_genesis = genesis, va_genesis_hash = gh, va_accepted_frontier = accepted,
               va_accepted_frontier_hash = head, va_records = vt_records st, va_record_count = record_count,
               va_clients = vt_clients st, va_frontiers = visited, va_segment_count = vt_segments st,
               va_frontier_count = of_nat (card (dom visited))\<rparr>))))))"

section \<open>The chain of trust\<close>

text \<open>
  Who may write: the genesis names the first client and its key; a client that may write enrols
  another one with a record in a segment it has signed.
\<close>

inductive trusted ::
  "origin_codec \<Rightarrow> tree \<Rightarrow> genesis_body \<Rightarrow> bytes \<Rightarrow> verified_v2_record set \<Rightarrow> bytes \<Rightarrow> bytes \<Rightarrow> bool"
  for oc t genesis gh records where
  trusted_genesis: "genesis_names_key (oc_crypto oc) genesis key \<Longrightarrow> trusted oc t genesis gh records (ge_initial_client_id genesis) key"
| trusted_enrolled: "trusted oc t genesis gh records origin key \<Longrightarrow> v \<in> records \<Longrightarrow> ve_origin_id (vr_envelope (vv_record v)) = origin
    \<Longrightarrow> attested oc t genesis gh key origin v \<Longrightarrow> enrols oc v name key' \<Longrightarrow> trusted oc t genesis gh records name key'"

lemma trusted_mono:
  assumes "trusted oc t genesis gh records name key" "records \<subseteq> records'"
  shows "trusted oc t genesis gh records' name key"
  using assms(1)
proof induction
  case (trusted_genesis key)
  then show ?case by (rule trusted.trusted_genesis)
next
  case (trusted_enrolled origin key v name key')
  with assms(2) show ?case by (blast intro: trusted.trusted_enrolled)
qed

lemma chain_origin:
  "origin_chain cr rc origin seq prev vs \<Longrightarrow> v \<in> set vs \<Longrightarrow> ve_origin_id (vr_envelope (vv_record v)) = origin"
  by (induction vs arbitrary: seq prev) (auto simp: parse_v2_record_Inr record_line_def envelope_ok_def)

definition clients_trusted ::
  "origin_codec \<Rightarrow> tree \<Rightarrow> genesis_body \<Rightarrow> bytes \<Rightarrow> verified_v2_record set \<Rightarrow> client_map \<Rightarrow> bool" where
  "clients_trusted oc t genesis gh records clients \<longleftrightarrow>
     (\<forall>name c. clients name = Some c \<longrightarrow> trusted oc t genesis gh records name (cl_public_key c))"

text \<open>The records of a verified origin enrol only trusted clients.\<close>

lemma registry_stays_trusted:
  assumes "verify_origin oc t genesis gh key origin = Inr (recs, n)" "trusted oc t genesis gh records (of_origin_id origin) key"
    and "apply_client_registry_items oc recs clients = Inr clients'" "clients_trusted oc t genesis gh records clients"
  shows "clients_trusted oc t genesis gh (records \<union> set recs) clients'"
  unfolding clients_trusted_def
proof (intro allI impI)
  fix name c
  assume c: "clients' name = Some c"
  note v = verify_origin_chain [OF assms(1)]
  have "registry_backed oc clients recs clients'"
    using apply_client_registry_items_ok(2) [OF assms(3) registry_backed_refl [of oc clients "[]"]] by simp
  with c consider (old) c0 where "clients name = Some c0" "cl_public_key c0 = cl_public_key c"
    | (new) v where "v \<in> set recs" "enrols oc v name (cl_public_key c)"
    unfolding registry_backed_def by blast
  then show "trusted oc t genesis gh (records \<union> set recs) name (cl_public_key c)"
  proof cases
    case old
    then show ?thesis using assms(4) trusted_mono unfolding clients_trusted_def by (metis Un_upper1)
  next
    case (new u)
    have "trusted oc t genesis gh (records \<union> set recs) (of_origin_id origin) key"
      using trusted_mono [OF assms(2)] by blast
    moreover have "ve_origin_id (vv_envelope u) = of_origin_id origin" using chain_origin v new(1) by blast
    moreover have "attested oc t genesis gh key (of_origin_id origin) u" using v new(1) by blast
    ultimately show ?thesis using new trusted_enrolled by blast
  qed
qed

text \<open>An origin that was accepted: its records verify with a trusted key and follow the enrolment.\<close>

definition origin_accepted ::
  "origin_codec \<Rightarrow> tree \<Rightarrow> genesis_body \<Rightarrow> bytes \<Rightarrow> frontier_map \<Rightarrow> verified_v2_record set \<Rightarrow> client_map \<Rightarrow> origin_frontier \<Rightarrow> bool" where
  "origin_accepted oc t genesis gh visited records clients origin \<longleftrightarrow>
     (\<exists>client recs n. clients (of_origin_id origin) = Some client
        \<and> trusted oc t genesis gh records (of_origin_id origin) (cl_public_key client)
        \<and> verify_origin oc t genesis gh (cl_public_key client) origin = Inr (recs, n) \<and> set recs \<subseteq> records
        \<and> (of_origin_id origin \<noteq> ge_initial_client_id genesis \<longrightarrow>
             (\<forall>v \<in> set recs. \<exists>base. visited (vv_causal_frontier_hash v) = Some base
                \<and> frontier_includes_dot base (cl_approved_origin_id client) (cl_approved_origin_seq client))))"

lemma origin_accepted_mono:
  assumes "origin_accepted oc t genesis gh visited records clients origin" "records \<subseteq> records'" "registry_grows clients clients'"
  shows "origin_accepted oc t genesis gh visited records' clients' origin"
proof -
  from assms(1) obtain client recs n where c: "clients (of_origin_id origin) = Some client"
    "trusted oc t genesis gh records (of_origin_id origin) (cl_public_key client)"
    "verify_origin oc t genesis gh (cl_public_key client) origin = Inr (recs, n)" "set recs \<subseteq> records"
    "of_origin_id origin \<noteq> ge_initial_client_id genesis \<longrightarrow>
       (\<forall>v \<in> set recs. \<exists>base. visited (vv_causal_frontier_hash v) = Some base
          \<and> frontier_includes_dot base (cl_approved_origin_id client) (cl_approved_origin_seq client))"
    unfolding origin_accepted_def by blast
  from assms(3) c(1) obtain client' where c': "clients' (of_origin_id origin) = Some client'" "client_kept client client'"
    unfolding registry_grows_def by blast
  note k = client_kept_fields [OF c'(2)]
  show ?thesis
    unfolding origin_accepted_def
    by (intro exI [of _ client'] exI [of _ recs] exI [of _ n])
      (use c c'(1) k trusted_mono [OF c(2) assms(2)] assms(2) in auto)
qed

text \<open>A record lies in a segment signed with the key that the registry has for its origin.\<close>

definition record_attributed ::
  "origin_codec \<Rightarrow> tree \<Rightarrow> genesis_body \<Rightarrow> bytes \<Rightarrow> client_map \<Rightarrow> verified_v2_record \<Rightarrow> bool" where
  "record_attributed oc t genesis gh clients v \<longleftrightarrow>
     (\<exists>c. clients (ve_origin_id (vr_envelope (vv_record v))) = Some c
        \<and> attested oc t genesis gh (cl_public_key c) (ve_origin_id (vr_envelope (vv_record v))) v)"

text \<open>One candidate, one pass, and the loop.\<close>

definition verify_invariant ::
  "origin_codec \<Rightarrow> tree \<Rightarrow> genesis_body \<Rightarrow> bytes \<Rightarrow> causal_frontier \<Rightarrow> frontier_map \<Rightarrow> origins_state \<Rightarrow> bool" where
  "verify_invariant oc t genesis gh accepted visited st \<longleftrightarrow>
     clients_trusted oc t genesis gh (set (vt_records st)) (vt_clients st)
     \<and> (\<forall>origin \<in> set (cf_origins accepted). of_origin_id origin \<notin> set (vt_pending st) \<longrightarrow>
          origin_accepted oc t genesis gh visited (set (vt_records st)) (vt_clients st) origin)
     \<and> (\<forall>v \<in> set (vt_records st). record_attributed oc t genesis gh (vt_clients st) v)"

lemma record_attributed_mono:
  "record_attributed oc t genesis gh clients v \<Longrightarrow> registry_grows clients clients' \<Longrightarrow> record_attributed oc t genesis gh clients' v"
  unfolding record_attributed_def registry_grows_def using client_kept_fields by metis

lemma origin_records_attributed:
  assumes "verify_origin oc t genesis gh (cl_public_key c) origin = Inr (recs, n)" "clients (of_origin_id origin) = Some c"
    "v \<in> set recs"
  shows "record_attributed oc t genesis gh clients v"
  using verify_origin_chain [OF assms(1)] chain_origin assms(2,3) unfolding record_attributed_def by metis

lemma validate_client_origin_records_Inr:
  assumes "validate_client_origin_records recs client visited = Inr u" "v \<in> set recs"
  shows "\<exists>base. visited (vv_causal_frontier_hash v) = Some base
    \<and> frontier_includes_dot base (cl_approved_origin_id client) (cl_approved_origin_seq client)"
proof -
  have "validate_client_record client visited v = Inr ()"
    using assms unfolding validate_client_origin_records_def ebind_eq_Inr ensure_eq_Inr by (auto simp: efold_checks)
  then show ?thesis unfolding validate_client_record_def ebind_eq_Inr ensure_eq_Inr ok_or_eq_Inr by blast
qed

lemma find_origin:
  assumes "distinct (map of_origin_id origins)" "origin \<in> set origins"
  shows "find (\<lambda>x. of_origin_id x = of_origin_id origin) origins = Some origin"
  using assms by (induction origins) (auto simp: image_iff)

lemma visit_candidate_invariant:
  assumes "visit_candidate oc t genesis gh accepted visited c st = Inr st'" "verify_invariant oc t genesis gh accepted visited st"
    "distinct (map of_origin_id (cf_origins accepted))"
  shows "verify_invariant oc t genesis gh accepted visited st'"
proof (cases "vt_clients st c")
  case None
  then show ?thesis using assms(1,2) by (simp add: visit_candidate_Inr)
next
  case (Some client)
  with assms(1) obtain origin recs n clients where
    f: "find (\<lambda>origin. of_origin_id origin = c) (cf_origins accepted) = Some origin"
    and v: "verify_origin oc t genesis gh (cl_public_key client) origin = Inr (recs, n)"
    and r: "validate_client_origin_records recs client visited = Inr ()"
    and a: "apply_client_registry_items oc recs (vt_clients st) = Inr clients"
    and st': "st' = \<lparr>vt_pending = removeAll c (vt_pending st), vt_clients = clients,
      vt_records = vt_records st @ recs, vt_segments = saturating_add (vt_segments st) (of_nat n), vt_progressed = True\<rparr>"
    unfolding visit_candidate_Inr by auto
  have c: "of_origin_id origin = c" using f by (auto simp: find_Some_iff)
  from assms(2) have ct: "clients_trusted oc t genesis gh (set (vt_records st)) (vt_clients st)"
    and acc: "\<forall>origin \<in> set (cf_origins accepted). of_origin_id origin \<notin> set (vt_pending st) \<longrightarrow>
      origin_accepted oc t genesis gh visited (set (vt_records st)) (vt_clients st) origin"
    and at: "\<forall>v \<in> set (vt_records st). record_attributed oc t genesis gh (vt_clients st) v"
    unfolding verify_invariant_def by blast+
  have tr: "trusted oc t genesis gh (set (vt_records st)) (of_origin_id origin) (cl_public_key client)"
    using ct Some unfolding clients_trusted_def c by blast
  note grows = apply_client_registry_items_ok(1) [OF a]
  have "origin_accepted oc t genesis gh visited (set (vt_records st) \<union> set recs) (vt_clients st) origin"
    unfolding origin_accepted_def
    by (intro exI [of _ client] exI [of _ recs] exI [of _ n])
      (use Some c v trusted_mono [OF tr] validate_client_origin_records_Inr [OF r] in auto)
  then have new: "origin_accepted oc t genesis gh visited (set (vt_records st) \<union> set recs) clients origin"
    using origin_accepted_mono grows by blast
  have "origin_accepted oc t genesis gh visited (set (vt_records st) \<union> set recs) clients x"
    if "x \<in> set (cf_origins accepted)" "of_origin_id x \<notin> set (vt_pending st) \<or> of_origin_id x = c" for x
  proof (cases "of_origin_id x = c")
    case True
    then have "x = origin" using find_origin [OF assms(3) that(1)] f by simp
    with new show ?thesis by simp
  next
    case False
    with that acc origin_accepted_mono [OF _ _ grows] show ?thesis by blast
  qed
  moreover have "\<forall>u \<in> set (vt_records st) \<union> set recs. record_attributed oc t genesis gh clients u"
    using at origin_records_attributed [OF v, of "vt_clients st"] Some c record_attributed_mono [OF _ grows] by blast
  ultimately show ?thesis using registry_stays_trusted [OF v tr a ct] unfolding st' verify_invariant_def by auto
qed

lemma verify_pass_invariant:
  assumes "verify_pass oc t genesis gh accepted visited st = Inr st'" "verify_invariant oc t genesis gh accepted visited st"
    "distinct (map of_origin_id (cf_origins accepted))"
  shows "verify_invariant oc t genesis gh accepted visited st'"
proof (rule efold_invariant [OF assms(1) [unfolded verify_pass_def]])
  show "verify_invariant oc t genesis gh accepted visited (st\<lparr>vt_progressed := False\<rparr>)"
    using assms(2) by (simp add: verify_invariant_def)
qed (use visit_candidate_invariant assms(3) in blast)

lemma verify_pending_invariant:
  assumes "verify_pending oc t genesis gh accepted visited st = Inr st'" "verify_invariant oc t genesis gh accepted visited st"
    "distinct (map of_origin_id (cf_origins accepted))"
  shows "verify_invariant oc t genesis gh accepted visited st' \<and> vt_pending st' = []"
  using assms
proof (induction oc t genesis gh accepted visited st rule: verify_pending.induct)
  case (1 oc t genesis gh accepted visited st)
  show ?case
  proof (cases "vt_pending st = []")
    case True
    with 1(2,3) show ?thesis by (auto simp: verify_pending.simps)
  next
    case False
    with 1(2) obtain s where s: "verify_pass oc t genesis gh accepted visited st = Inr s" "vt_progressed s"
      "verify_pending oc t genesis gh accepted visited s = Inr st'"
      unfolding verify_pending.simps [of _ _ _ _ _ _ st] by (auto simp: ebind_eq_Inr split: if_splits)
    from 1(1) [OF False s(1) _ s(3) verify_pass_invariant [OF s(1) 1(3,4)] 1(4)] s(2) show ?thesis by simp
  qed
qed

lemma verify_origins_invariant:
  assumes "verify_origins oc t genesis gh accepted visited = Inr st" "distinct (map of_origin_id (cf_origins accepted))"
  shows "verify_invariant oc t genesis gh accepted visited st \<and> vt_pending st = []"
proof -
  from assms(1) obtain origin key recs n approval clients where
    f: "find (\<lambda>origin. of_origin_id origin = ge_initial_client_id genesis) (cf_origins accepted) = Some origin"
    and k: "genesis_validate (oc_crypto oc) genesis = Inr key"
    and v: "verify_origin oc t genesis gh key origin = Inr (recs, n)"
    and a: "apply_client_registry_items oc recs [ge_initial_client_id genesis \<mapsto>
      initial_client_of genesis key (ve_origin_id (vv_envelope approval)) (ve_origin_seq (vv_envelope approval))] = Inr clients"
    and p: "verify_pending oc t genesis gh accepted visited
      \<lparr>vt_pending = sort (remdups (map of_origin_id
            (filter (\<lambda>origin. of_origin_id origin \<noteq> ge_initial_client_id genesis) (cf_origins accepted)))),
        vt_clients = clients, vt_records = recs, vt_segments = saturating_add 0 (of_nat n),
        vt_progressed = False\<rparr> = Inr st"
    unfolding verify_origins_def ebind_eq_Inr ok_or_eq_Inr map_err_eq_Inr split_paired_Ex fst_conv snd_conv by blast
  let ?c0 = "initial_client_of genesis key (ve_origin_id (vv_envelope approval)) (ve_origin_seq (vv_envelope approval))"
  let ?cs0 = "[ge_initial_client_id genesis \<mapsto> ?c0]"
  have o: "of_origin_id origin = ge_initial_client_id genesis" using f by (auto simp: find_Some_iff)
  have key: "cl_public_key ?c0 = key" by (simp add: initial_client_of_def)
  have tr: "trusted oc t genesis gh {} (of_origin_id origin) key"
    using k genesis_validate_Inr trusted_genesis unfolding o by blast
  have ct: "clients_trusted oc t genesis gh {} ?cs0" using tr by (auto simp: clients_trusted_def o key)
  note grows = apply_client_registry_items_ok(1) [OF a]
  have "origin_accepted oc t genesis gh visited (set recs) ?cs0 origin"
    unfolding origin_accepted_def
    by (intro exI [of _ ?c0] exI [of _ recs] exI [of _ n]) (use v trusted_mono [OF tr] in \<open>auto simp: o key\<close>)
  then have acc: "origin_accepted oc t genesis gh visited (set recs) clients origin"
    using origin_accepted_mono grows by blast
  have "x = origin" if "x \<in> set (cf_origins accepted)" "of_origin_id x = ge_initial_client_id genesis" for x
    using find_origin [OF assms(2) that(1)] f that(2) by simp
  with acc have *: "origin_accepted oc t genesis gh visited (set recs) clients x"
    if "x \<in> set (cf_origins accepted)" "of_origin_id x = ge_initial_client_id genesis" for x using that by blast
  have at: "record_attributed oc t genesis gh clients u" if "u \<in> set recs" for u
    using origin_records_attributed [of oc t genesis gh ?c0 origin recs n ?cs0 u] v that record_attributed_mono [OF _ grows]
    by (simp add: o key)
  show ?thesis
  proof (rule verify_pending_invariant [OF p _ assms(2)])
    show "verify_invariant oc t genesis gh accepted visited
      \<lparr>vt_pending = sort (remdups (map of_origin_id
            (filter (\<lambda>origin. of_origin_id origin \<noteq> ge_initial_client_id genesis) (cf_origins accepted)))),
        vt_clients = clients, vt_records = recs, vt_segments = saturating_add 0 (of_nat n),
        vt_progressed = False\<rparr>"
      using registry_stays_trusted [OF v tr a ct] * at unfolding verify_invariant_def by auto
  qed
qed

lemma loaded_frontier_wf:
  assumes "load_frontier_graph n oc t archive gh head Map.empty = Some (Inr visited)" "visited hash = Some f"
  shows "wf_frontier f"
proof -
  have "loaded_ok oc t archive gh Map.empty" by (simp add: loaded_ok_def)
  with load_ok(1) [OF assms(1)] assms(2) have "read_frontier oc t hash archive gh = Inr f" unfolding loaded_ok_def by blast
  from read_frontier_Inr [OF this] have "frontier_validate f = Inr ()"
    unfolding frontier_hash_def frontier_canonical_bytes_def ebind_eq_Inr by auto
  then show ?thesis by (simp add: frontier_validate_ok)
qed

lemma verify_archive_Inr:
  assumes "verify_archive fuel oc t = Some (Inr a)"
  obtains st where "load_genesis oc t = Inr (va_genesis a, va_genesis_hash a)" "read_head t = Inr (va_accepted_frontier_hash a)"
    "load_frontier_graph fuel oc t (ge_archive_id (sg_body (va_genesis a))) (va_genesis_hash a)
       (va_accepted_frontier_hash a) Map.empty = Some (Inr (va_frontiers a))"
    "va_frontiers a (va_accepted_frontier_hash a) = Some (va_accepted_frontier a)"
    "verify_history oc t (sg_body (va_genesis a)) (va_genesis_hash a) (va_accepted_frontier a) (va_frontiers a)
       = Inr (st, va_record_count a)" "va_records a = vt_records st" "va_clients a = vt_clients st"
  using assms unfolding verify_archive_def by (auto simp: ebind_eq_Inr ok_or_eq_Inr split: sum.splits prod.splits option.splits)

text \<open>
  C9. The chain of trust: when a version 2 archive verifies, every origin of the accepted frontier
  belongs to a client with a trusted key (the genesis key, or a key enrolled by a signed record of
  a trusted client), its records up to the accepted tail verify with that key, and unless it is
  the initial client every record is based on a frontier that includes its enrolment. Every
  record of the result lies in a segment signed with the key of its origin.
\<close>

theorem verified_archive_is_trusted:
  assumes "verify_archive fuel oc t = Some (Inr a)"
  shows "(\<forall>origin \<in> set (cf_origins (va_accepted_frontier a)).
      origin_accepted oc t (sg_body (va_genesis a)) (va_genesis_hash a) (va_frontiers a) (set (va_records a)) (va_clients a) origin)
    \<and> (\<forall>v \<in> set (va_records a). record_attributed oc t (sg_body (va_genesis a)) (va_genesis_hash a) (va_clients a) v)"
proof -
  from verify_archive_Inr [OF assms] obtain st where
    l: "load_frontier_graph fuel oc t (ge_archive_id (sg_body (va_genesis a))) (va_genesis_hash a)
       (va_accepted_frontier_hash a) Map.empty = Some (Inr (va_frontiers a))"
    and f: "va_frontiers a (va_accepted_frontier_hash a) = Some (va_accepted_frontier a)"
    and h: "verify_history oc t (sg_body (va_genesis a)) (va_genesis_hash a) (va_accepted_frontier a) (va_frontiers a)
       = Inr (st, va_record_count a)" and st: "va_records a = vt_records st" "va_clients a = vt_clients st" by metis
  have d: "distinct (map of_origin_id (cf_origins (va_accepted_frontier a)))"
    using loaded_frontier_wf [OF l f] strict_sorted_iff unfolding wf_frontier_def by blast
  from h have "verify_origins oc t (sg_body (va_genesis a)) (va_genesis_hash a) (va_accepted_frontier a) (va_frontiers a) = Inr st"
    unfolding verify_history_def ebind_eq_Inr by auto
  from verify_origins_invariant [OF this d] show ?thesis unfolding verify_invariant_def st by simp
qed

section \<open>The sample archive\<close>

text \<open>
  The origins verify in the order A, B, C. When B is verified the registry does not have its
  revocation yet, which is in the journal of C.
\<close>

abbreviation verify_sample_origin :: "bytes \<Rightarrow> origin_frontier \<Rightarrow> v2_store_error + (verified_v2_record list \<times> nat)" where
  "verify_sample_origin key tail \<equiv>
     verify_origin archive_codec archive_tree (sg_body archive_genesis) (id_of ''genesis'') key tail"

lemma sample_b_verifies: "verify_sample_origin key_b (tail_at client_b 6 ''o'' ''m5'') = Inr (records_3 @ records_5, 2)"
  by code_simp

lemma sample_c_verifies: "verify_sample_origin key_c (tail_at client_c 3 ''l'' ''m4'') = Inr (records_4, 1)"
  by code_simp

definition enrolled_by :: "bytes \<Rightarrow> bytes \<Rightarrow> bytes \<Rightarrow> u64 \<Rightarrow> v2_client" where
  "enrolled_by name key origin seq = \<lparr>cl_client_id = name, cl_display_name = ''Laptop'', cl_public_key = key,
     cl_capabilities = [''additive_observation''], cl_approved_origin_id = origin, cl_approved_origin_seq = seq,
     cl_revoked_origin_id = None, cl_revoked_origin_seq = None\<rparr>"

definition client_row_b :: v2_client where "client_row_b = enrolled_by client_b key_b client_a 5"
definition client_row_c :: v2_client where "client_row_c = enrolled_by client_c key_c client_b 2"

definition registered :: "verified_v2_record list \<Rightarrow> client_map \<Rightarrow> client_map" where
  "registered recs clients = (case apply_client_registry_items archive_codec recs clients of Inr c \<Rightarrow> c | Inl _ \<Rightarrow> Map.empty)"

definition clients_1 :: client_map where
  "clients_1 = registered (records_1 @ records_2) [client_a \<mapsto> initial_client]"
definition clients_2 :: client_map where "clients_2 = registered (records_3 @ records_5) clients_1"
definition clients_3 :: client_map where "clients_3 = registered records_4 clients_2"

lemma registered_Inr:
  assumes "case apply_client_registry_items archive_codec recs clients of Inr c \<Rightarrow> P c | Inl _ \<Rightarrow> False"
  shows "apply_client_registry_items archive_codec recs clients = Inr (registered recs clients) \<and> P (registered recs clients)"
  using assms unfolding registered_def by (auto split: sum.splits)

lemma clients_1: "apply_client_registry_items archive_codec (records_1 @ records_2) [client_a \<mapsto> initial_client] = Inr clients_1
    \<and> clients_1 client_b = Some client_row_b"
  unfolding clients_1_def by (rule registered_Inr [where P = "\<lambda>c. c client_b = Some client_row_b"]) code_simp

lemma clients_2: "apply_client_registry_items archive_codec (records_3 @ records_5) clients_1 = Inr clients_2
    \<and> clients_2 client_c = Some client_row_c"
  unfolding clients_2_def by (rule registered_Inr [where P = "\<lambda>c. c client_c = Some client_row_c"]) code_simp

lemma clients_3: "apply_client_registry_items archive_codec records_4 clients_2 = Inr clients_3
    \<and> map_option (\<lambda>c. (cl_revoked_origin_id c, cl_revoked_origin_seq c)) (clients_3 client_b) = Some (Some client_c, Some 2)"
  unfolding clients_3_def
  by (rule registered_Inr [where P = "\<lambda>cs. map_option (\<lambda>c. (cl_revoked_origin_id c, cl_revoked_origin_seq c)) (cs client_b)
      = Some (Some client_c, Some 2)"]) code_simp

abbreviation sample_body :: genesis_body where "sample_body \<equiv> sg_body archive_genesis"

definition sample_start :: origins_state where
  "sample_start = \<lparr>vt_pending = [client_b, client_c], vt_clients = clients_1, vt_records = records_1 @ records_2,
     vt_segments = saturating_add 0 (of_nat 2), vt_progressed = False\<rparr>"

definition sample_middle :: origins_state where
  "sample_middle = \<lparr>vt_pending = [client_c], vt_clients = clients_2, vt_records = (records_1 @ records_2) @ records_3 @ records_5,
     vt_segments = saturating_add (saturating_add 0 (of_nat 2)) (of_nat 2), vt_progressed = True\<rparr>"

definition sample_end :: origins_state where
  "sample_end = \<lparr>vt_pending = [], vt_clients = clients_3,
     vt_records = ((records_1 @ records_2) @ records_3 @ records_5) @ records_4,
     vt_segments = saturating_add (saturating_add (saturating_add 0 (of_nat 2)) (of_nat 2)) (of_nat 1), vt_progressed = True\<rparr>"

lemma sample_origins_found:
  "find (\<lambda>origin. of_origin_id origin = client_a) (cf_origins frontier_5) = Some (tail_at client_a 6 ''f'' ''m2'')"
  "find (\<lambda>origin. of_origin_id origin = client_b) (cf_origins frontier_5) = Some (tail_at client_b 6 ''o'' ''m5'')"
  "find (\<lambda>origin. of_origin_id origin = client_c) (cf_origins frontier_5) = Some (tail_at client_c 3 ''l'' ''m4'')"
  by code_simp+

lemma sample_clients_distinct: "client_b \<noteq> client_c" by code_simp

lemma sample_rows: "cl_public_key client_row_b = key_b" "cl_public_key client_row_c = key_c"
  by (simp_all add: client_row_b_def client_row_c_def enrolled_by_def)

lemma sample_records_follow:
  "validate_client_origin_records (records_3 @ records_5) client_row_b sample_visited = Inr ()"
  "validate_client_origin_records records_4 client_row_c sample_visited = Inr ()"
  by code_simp+

lemma sample_visit_b:
  "visit_candidate archive_codec archive_tree sample_body (id_of ''genesis'') frontier_5 sample_visited client_b sample_start = Inr sample_middle"
proof -
  have k: "verifying_key_ok (oc_crypto archive_codec) key_b" by code_simp
  show ?thesis
    unfolding visit_candidate_Inr sample_start_def origins_state.simps conjunct2 [OF clients_1] option.case sample_rows
    using sample_origins_found(2) sample_b_verifies k sample_records_follow(1) clients_2 sample_clients_distinct
    by (intro exI [of _ "tail_at client_b 6 ''o'' ''m5''"] exI [of _ "records_3 @ records_5"] exI [of _ 2] exI [of _ clients_2])
      (simp add: sample_middle_def)
qed

lemma sample_visit_c:
  "visit_candidate archive_codec archive_tree sample_body (id_of ''genesis'') frontier_5 sample_visited client_c sample_middle = Inr sample_end"
proof -
  have k: "verifying_key_ok (oc_crypto archive_codec) key_c" by code_simp
  show ?thesis
    unfolding visit_candidate_Inr sample_middle_def origins_state.simps conjunct2 [OF clients_2] option.case sample_rows
    using sample_origins_found(3) sample_c_verifies k sample_records_follow(2) clients_3
    by (intro exI [of _ "tail_at client_c 3 ''l'' ''m4''"] exI [of _ records_4] exI [of _ 1] exI [of _ clients_3])
      (simp add: sample_end_def)
qed

lemma sample_pending:
  "verify_pending archive_codec archive_tree sample_body (id_of ''genesis'') frontier_5 sample_visited sample_start = Inr sample_end"
proof -
  have "verify_pass archive_codec archive_tree sample_body (id_of ''genesis'') frontier_5 sample_visited sample_start = Inr sample_end"
  proof -
    have "sample_start\<lparr>vt_progressed := False\<rparr> = sample_start" "vt_pending sample_start = [client_b, client_c]"
      by (simp_all add: sample_start_def)
    then show ?thesis unfolding verify_pass_def by (simp add: sample_visit_b sample_visit_c)
  qed
  moreover have "vt_pending sample_start \<noteq> []" "vt_progressed sample_end" "vt_pending sample_end = []"
    by (simp_all add: sample_start_def sample_end_def)
  ultimately show ?thesis by (simp add: verify_pending.simps)
qed

lemma sample_origins_verify:
  "verify_origins archive_codec archive_tree sample_body (id_of ''genesis'') frontier_5 sample_visited = Inr sample_end"
proof -
  let ?approval = "verified_of ''m1'' ''f0'' ''b''"
  have g: "genesis_validate (oc_crypto archive_codec) sample_body = Inr key_a" by code_simp
  have f: "find (\<lambda>v. record_contains_item_kind v ''archive_initialized'') (records_1 @ records_2) = Some ?approval" by code_simp
  have c: "ge_initial_client_id sample_body = client_a"
    "initial_client_of sample_body key_a (ve_origin_id (vv_envelope ?approval)) (ve_origin_seq (vv_envelope ?approval)) = initial_client"
    by code_simp+
  have p: "sort (remdups (map of_origin_id
      (filter (\<lambda>origin. of_origin_id origin \<noteq> client_a) (cf_origins frontier_5)))) = [client_b, client_c]" by code_simp
  show ?thesis
    unfolding verify_origins_def sample_origins_found(1) ok_or_simps map_err_simps g ebind_simps
      sample_origin_verifies [unfolded verify_sample_def] fst_conv snd_conv f c conjunct1 [OF clients_1] p
      sample_start_def [symmetric] by (rule sample_pending)
qed

lemma no_coordination:
  assumes "list_all (\<lambda>v. coordination_of v = None) records"
  shows "validate_coordination_contexts oc records clients = Inr ()"
  using assms unfolding validate_coordination_contexts_def efold_checks validate_coordination_context_def
  by (auto simp: list_all_iff coordination_of_def)

abbreviation all_sample_records :: "verified_v2_record list" where
  "all_sample_records \<equiv> ((records_1 @ records_2) @ records_3 @ records_5) @ records_4"

lemma sample_bases_known: "check_causal_bases sample_visited all_sample_records = Inr ()"
  by code_simp

lemma sample_uncoordinated: "list_all (\<lambda>v. coordination_of v = None) all_sample_records"
  by code_simp

lemma sample_batches_verify: "verify_batches archive_codec all_sample_records = Inr ()"
  by code_simp

lemma sample_record_count: "sum_seqs (cf_origins frontier_5) 0 = Some 15"
  by code_simp

lemma sample_history_verifies:
  "verify_history archive_codec archive_tree sample_body (id_of ''genesis'') frontier_5 sample_visited = Inr (sample_end, 15)"
proof -
  have r: "vt_records sample_end = all_sample_records" by (simp add: sample_end_def)
  show ?thesis
    unfolding verify_history_def sample_origins_verify ebind_simps r sample_bases_known no_coordination [OF sample_uncoordinated]
      sample_batches_verify sample_record_count ok_or_simps ..
qed

definition sample_archive :: verified_v2_archive where
  "sample_archive = \<lparr>va_genesis = archive_genesis, va_genesis_hash = id_of ''genesis'', va_accepted_frontier = frontier_5,
     va_accepted_frontier_hash = id_of ''f5'', va_records = vt_records sample_end, va_record_count = 15,
     va_clients = clients_3, va_frontiers = sample_visited, va_segment_count = vt_segments sample_end,
     va_frontier_count = of_nat (card (dom sample_visited))\<rparr>"

lemma sample_archive_verifies: "verify_archive (Suc (Suc (Suc (Suc (Suc (Suc n)))))) archive_codec archive_tree = Some (Inr sample_archive)"
proof -
  have g: "load_genesis archive_codec archive_tree = Inr (archive_genesis, id_of ''genesis'')" by code_simp
  have h: "read_head archive_tree = Inr (id_of ''f5'')" by code_simp
  have i: "ge_archive_id sample_body = ''arc''" by code_simp
  have f: "sample_visited (id_of ''f5'') = Some frontier_5" by (simp add: sample_visited_def)
  have c: "vt_clients sample_end = clients_3" by (simp add: sample_end_def)
  show ?thesis
    unfolding verify_archive_def g h sum.case prod.case i sample_graph_loads option.case f ok_or_simps ebind_simps
      sample_history_verifies sample_archive_def c ..
qed

theorem verified_archive_is_trusted_witness:
  "origin_accepted archive_codec archive_tree sample_body (id_of ''genesis'') sample_visited (set (va_records sample_archive))
     (va_clients sample_archive) (tail_at client_b 6 ''o'' ''m5'')
   \<and> record_attributed archive_codec archive_tree sample_body (id_of ''genesis'') (va_clients sample_archive)
     (verified_of ''m5'' ''f4'' ''m'')"
proof -
  have "tail_at client_b 6 ''o'' ''m5'' \<in> set (cf_origins (va_accepted_frontier sample_archive))"
    by (simp add: sample_archive_def frontier_5_def frontier_with_def)
  moreover have "verified_of ''m5'' ''f4'' ''m'' \<in> set (va_records sample_archive)"
    by (simp add: sample_archive_def sample_end_def records_5_def lines_b2_def)
  moreover have "va_genesis sample_archive = archive_genesis" "va_genesis_hash sample_archive = id_of ''genesis''"
    "va_frontiers sample_archive = sample_visited" by (simp_all add: sample_archive_def)
  ultimately show ?thesis using verified_archive_is_trusted [OF sample_archive_verifies] by metis
qed

text \<open>
  C39. Whether a revocation counts depends on the order in which origins are verified: the sample
  archive verifies, the registry of the result has client B revoked by C, and still the result
  holds a record of B that is based on a frontier which includes the revocation. The
  specification of the event stream says that such a segment is not accepted.
\<close>

theorem revoked_client_still_accepted:
  "verify_archive (Suc (Suc (Suc (Suc (Suc (Suc n)))))) archive_codec archive_tree = Some (Inr sample_archive)
   \<and> map_option (\<lambda>c. (cl_revoked_origin_id c, cl_revoked_origin_seq c)) (va_clients sample_archive client_b)
       = Some (Some client_c, Some 2)
   \<and> (\<exists>v \<in> set (va_records sample_archive). ve_origin_id (vr_envelope (vv_record v)) = client_b
        \<and> (\<exists>base. va_frontiers sample_archive (vv_causal_frontier_hash v) = Some base \<and> frontier_includes_dot base client_c 2))"
proof (intro conjI bexI exI)
  let ?v = "verified_of ''m5'' ''f4'' ''m''"
  show "map_option (\<lambda>c. (cl_revoked_origin_id c, cl_revoked_origin_seq c)) (va_clients sample_archive client_b)
      = Some (Some client_c, Some 2)"
    using clients_3 by (simp add: sample_archive_def)
  show "?v \<in> set (va_records sample_archive)"
    by (simp add: sample_archive_def sample_end_def records_5_def lines_b2_def)
  show "ve_origin_id (vr_envelope (vv_record ?v)) = client_b" by code_simp
  have "sample_visited (vv_causal_frontier_hash ?v) = Some frontier_4" by code_simp
  then show "va_frontiers sample_archive (vv_causal_frontier_hash ?v) = Some frontier_4" by (simp add: sample_archive_def)
  show "frontier_includes_dot frontier_4 client_c 2" by code_simp
qed (rule sample_archive_verifies)

end
