(* ===== verification/Origin_Writer.thy ===== *)
theory Origin_Writer
  imports Origin_Store Event_Append
begin

text \<open>
  The writer of a version 2 batch (\<open>append_batch_iter\<close> and \<open>append_batch_locked\<close> of
  \<open>src/src/v2_store.rs\<close>): items are packed into chunk records of bounded size between a start and a
  completion. The lines written to the segment file are the state; the file operations around them
  are not modelled. The serializers and the source of ULIDs are parameters.
\<close>

section \<open>Items\<close>

record writer_codec =
  wc_origin :: origin_codec
  envelope_to_vec :: "v2_record_envelope \<Rightarrow> bytes + bytes"
  value_to_vec :: "json \<Rightarrow> bytes + bytes"
  new_ulid :: "nat \<Rightarrow> bytes"

definition prefixed_ulid :: "writer_codec \<Rightarrow> bytes \<Rightarrow> nat \<Rightarrow> bytes" where
  "prefixed_ulid wc pre n = pre @ to_ascii_lowercase (new_ulid wc n)"

text \<open>Escapes inside the quoted name of a kind are not modelled.\<close>

definition check_defaults :: "bytes \<times> json \<Rightarrow> v2_store_error + unit" where
  "check_defaults d =
     ebind (ensure (json_is_object (snd d))
       (VsInvalid (''schema-2 defaults for item kind '' @ [CHR 0x22] @ fst d @ [CHR 0x22] @ '' must be an object''))) (\<lambda>_.
     ensure (json_member (snd d) ''kind'' = None)
       (VsInvalid (''schema-2 defaults for item kind '' @ [CHR 0x22] @ fst d @ [CHR 0x22] @ '' cannot default kind'')))"

definition validate_item_defaults :: "u32 \<Rightarrow> json \<Rightarrow> v2_store_error + unit" where
  "validate_item_defaults version defaults =
     (if version = 1 then Inr ()
      else if version = 2 then
        (case defaults of
           JObj members \<Rightarrow> efold (\<lambda>d _. check_defaults d) members ()
         | _ \<Rightarrow> Inl (VsInvalid ''schema-2 batch defaults must be an object''))
      else Inl (VsInvalid (''unsupported batch item schema version '' @ decimal (unat version))))"

fun drop_default :: "bytes \<times> json \<Rightarrow> (bytes \<times> json) list \<Rightarrow> (bytes \<times> json) list" where
  "drop_default (key, std) members =
     (if map_of members key = Some std then filter (\<lambda>m. fst m \<noteq> key) members else members)"

definition compact_batch_item :: "json \<Rightarrow> u32 \<Rightarrow> json \<Rightarrow> v2_store_error + json" where
  "compact_batch_item item version defaults =
     (if version = 1 then Inr item
      else case item of
        JObj members \<Rightarrow>
          ebind (ok_or (Option.bind (json_member item ''kind'') json_as_str)
            (VsInvalid ''schema-2 batch item is missing kind'')) (\<lambda>kind.
          (case json_member defaults kind of
             Some (JObj kind_defaults) \<Rightarrow> Inr (JObj (fold drop_default kind_defaults members))
           | _ \<Rightarrow> Inr item))
      | _ \<Rightarrow> Inl (VsInvalid ''schema-2 batch item must be an object''))"

section \<open>Packing items into a chunk\<close>

record packing =
  pk_pending :: "json list"
  pk_source :: "(v2_store_error + json) list"
  pk_exhausted :: bool

definition next_item :: "packing \<Rightarrow> (v2_store_error + json) option \<times> packing" where
  "next_item p = (case pk_pending p of
     item # rest \<Rightarrow> (Some (Inr item), p\<lparr>pk_pending := rest\<rparr>)
   | [] \<Rightarrow> if pk_exhausted p then (None, p)
       else (case pk_source p of
          [] \<Rightarrow> (None, p\<lparr>pk_exhausted := True\<rparr>)
        | item # rest \<Rightarrow> (Some item, p\<lparr>pk_source := rest\<rparr>)))"

definition items_left :: "packing \<Rightarrow> nat" where
  "items_left p = length (pk_pending p) + length (pk_source p)"

lemma next_item_left: "next_item p = (Some item, p') \<Longrightarrow> items_left p = Suc (items_left p')"
  by (auto simp: next_item_def items_left_def split: list.splits if_splits)

record batch_request =
  rq_operation_kind :: bytes
  rq_item_schema_version :: u32
  rq_context :: json
  rq_defaults :: json

text \<open>\<open>accept_item\<close> is the part of the loop body that checks and measures an item.\<close>

definition accept_item :: "writer_codec \<Rightarrow> batch_request \<Rightarrow> u64 \<Rightarrow> v2_store_error + json \<Rightarrow> v2_store_error + (json \<times> u64)" where
  "accept_item wc rq index item =
     ebind item (\<lambda>item.
     ebind (compact_batch_item item (rq_item_schema_version rq) (rq_defaults rq)) (\<lambda>item.
     if \<not> json_is_object item
     then Inl (VsInvalid (''batch item '' @ decimal (unat index) @ '' is not a JSON object''))
     else ebind (canonical_json (value_to_vec wc) item) (\<lambda>b.
     Inr (item, saturating_add (of_nat (length b)) 1))))"

definition PACKING_LIMIT :: u64 where
  "PACKING_LIMIT = saturating_sub DEFAULT_MAX_V2_RECORD_BYTES (8 * 1024)"

function fill_chunk ::
  "writer_codec \<Rightarrow> batch_request \<Rightarrow> u64 \<Rightarrow> json list \<Rightarrow> u64 \<Rightarrow> packing \<Rightarrow> v2_store_error + (json list \<times> packing)" where
  "fill_chunk wc rq index chunk approximate p =
     (if \<not> int (length chunk) < uint (bl_max_items default_limits) then Inr (chunk, p)
      else (case next_item p of
         (None, p') \<Rightarrow> Inr (chunk, p')
       | (Some item, p') \<Rightarrow>
           ebind (accept_item wc rq index item) (\<lambda>r.
           if chunk \<noteq> [] \<and> PACKING_LIMIT < saturating_add approximate (snd r)
           then Inr (chunk, p'\<lparr>pk_pending := fst r # pk_pending p'\<rparr>)
           else fill_chunk wc rq index (chunk @ [fst r]) (saturating_add approximate (snd r)) p')))"
  by pat_completeness auto
termination
  by (relation "measure (\<lambda>(wc, rq, index, chunk, approximate, p). items_left p)") (auto dest: next_item_left [OF sym])

declare fill_chunk.simps [simp del]

section \<open>One chunk record\<close>

record batch_writer =
  bw_origin_id :: bytes
  bw_batch_id :: bytes
  bw_time_utc_ms :: u64
  bw_causal_frontier_hash :: bytes

definition envelope_for ::
  "batch_writer \<Rightarrow> v2_record_kind \<Rightarrow> u64 \<Rightarrow> bytes \<Rightarrow> bytes option \<Rightarrow> json \<Rightarrow> v2_record_envelope" where
  "envelope_for bw kind seq record_id previous payload =
     \<lparr>ve_v = V2_RECORD_VERSION, ve_origin_id = bw_origin_id bw, ve_origin_seq = seq, ve_record_id = record_id,
      ve_record_kind = kind, ve_time_utc_ms = bw_time_utc_ms bw, ve_batch_id = bw_batch_id bw,
      ve_previous_record_hash = previous, ve_payload = payload\<rparr>"

definition start_payload_of :: "batch_writer \<Rightarrow> batch_request \<Rightarrow> json" where
  "start_payload_of bw rq = JObj [(''operation_kind'', JStr (rq_operation_kind rq)),
     (''item_schema_version'', JNum (uint (rq_item_schema_version rq))),
     (''causal_frontier_hash'', JStr (bw_causal_frontier_hash bw)), (''context'', rq_context rq), (''defaults'', rq_defaults rq)]"

definition chunk_payload_of :: "u64 \<Rightarrow> json list \<Rightarrow> json" where
  "chunk_payload_of index items = JObj [(''first_item_index'', JNum (uint index)), (''items'', JArr items)]"

definition complete_payload_of :: "u64 \<Rightarrow> bytes \<Rightarrow> json" where
  "complete_payload_of items digest = JObj [(''total_items'', JNum (uint items)), (''ordered_item_digest'', JStr digest),
     (''status'', JStr ''complete''), (''errors'', JArr []), (''coverage'', JNull)]"

text \<open>
  The loop that takes items back until the record fits. The chunk is not empty, so one item is
  the least.
\<close>

function fit_chunk ::
  "writer_codec \<Rightarrow> batch_writer \<Rightarrow> u64 \<Rightarrow> bytes option \<Rightarrow> u64 \<Rightarrow> json list \<Rightarrow> packing \<Rightarrow> nat
   \<Rightarrow> v2_store_error + (v2_record_envelope \<times> bytes \<times> json list \<times> packing \<times> nat)" where
  "fit_chunk wc bw seq previous index chunk p n =
     (let e = envelope_for bw BatchChunk seq (prefixed_ulid wc ''rec_'' n) previous (chunk_payload_of index chunk) in
      ebind (canonical_json (envelope_to_vec wc) e) (\<lambda>line.
      if int (length line) \<le> uint DEFAULT_MAX_V2_RECORD_BYTES then Inr (e, line, chunk, p, Suc n)
      else if length chunk \<le> 1
      then Inl (VsInvalid (''batch item '' @ decimal (unat index) @ '' cannot fit in one bounded record''))
      else fit_chunk wc bw seq previous index (butlast chunk) (p\<lparr>pk_pending := last chunk # pk_pending p\<rparr>) (Suc n)))"
  by pat_completeness auto
termination
  by (relation "measure (\<lambda>(wc, bw, seq, previous, index, chunk, p, n). length chunk)") auto

declare fit_chunk.simps [simp del]

section \<open>The segment\<close>

record segment_writer =
  sw_next_seq :: u64
  sw_previous_hash :: "bytes option"
  sw_validator :: batch_validator
  sw_item_index :: u64
  sw_records :: "(v2_record_envelope \<times> bytes) list"
  sw_segment_bytes :: u64
  sw_record_count :: u64
  sw_packing :: packing
  sw_ulids :: nat

definition ensure_record_size :: "bytes \<Rightarrow> v2_store_error + unit" where
  "ensure_record_size line =
     (if int (length line) \<le> uint DEFAULT_MAX_V2_RECORD_BYTES then Inr ()
      else Inl (VsInvalid (''record contains '' @ decimal (length line) @ '' bytes; maximum is ''
        @ decimal (unat DEFAULT_MAX_V2_RECORD_BYTES))))"

definition write_streamed_record ::
  "v2_record_envelope \<Rightarrow> bytes \<Rightarrow> segment_writer \<Rightarrow> v2_store_error + segment_writer" where
  "write_streamed_record e line w =
     ebind (ensure_record_size line) (\<lambda>_.
     ebind (ok_or (checked_add (sw_segment_bytes w) (saturating_add (of_nat (length line)) 1))
       (VsInvalid ''segment byte count overflow'')) (\<lambda>size.
     Inr (w\<lparr>sw_records := sw_records w @ [(e, line)], sw_segment_bytes := size\<rparr>)))"

definition advance_seq :: "segment_writer \<Rightarrow> v2_store_error + segment_writer" where
  "advance_seq w =
     ebind (ok_or (checked_add (sw_next_seq w) 1) (VsInvalid ''origin sequence overflow'')) (\<lambda>seq.
     Inr (w\<lparr>sw_next_seq := seq\<rparr>))"

definition count_record :: "segment_writer \<Rightarrow> v2_store_error + segment_writer" where
  "count_record w =
     ebind (ok_or (checked_add (sw_record_count w) 1) (VsInvalid ''record count overflow'')) (\<lambda>count.
     Inr (w\<lparr>sw_record_count := count\<rparr>))"

text \<open>The part of an iteration after the chunk has been packed.\<close>

definition write_chunk ::
  "writer_codec \<Rightarrow> batch_writer \<Rightarrow> json list \<Rightarrow> packing \<Rightarrow> segment_writer \<Rightarrow> v2_store_error + segment_writer" where
  "write_chunk wc bw chunk p w =
     ebind (fit_chunk wc bw (sw_next_seq w) (sw_previous_hash w) (sw_item_index w) chunk p (sw_ulids w)) (\<lambda>(e, line, items, p, n).
     ebind (ensure (int (length items) < 2 ^ 32) (VsInvalid ''batch chunk count overflow'')) (\<lambda>_.
     let count = of_nat (length items) :: u32; hash = blake3_id (oc_crypto (wc_origin wc)) line in
     ebind (map_err VsBatch (accept_chunk \<lparr>bc_batch_id = bw_batch_id bw, bc_first_item_index = sw_item_index w,
        bc_item_count = count, bc_serialized_bytes = of_nat (length line), bc_record_hash = hash\<rparr> (sw_validator w))) (\<lambda>validator.
     ebind (write_streamed_record e line w) (\<lambda>w.
     ebind (count_record w) (\<lambda>w.
     ebind (ok_or (checked_add (sw_item_index w) (ucast count)) (VsInvalid ''batch item count overflow'')) (\<lambda>index.
     advance_seq (w\<lparr>sw_previous_hash := Some hash, sw_validator := validator, sw_item_index := index,
       sw_packing := p, sw_ulids := n\<rparr>)))))))"

text \<open>Packing and taking back neither lose nor invent items.\<close>

lemma fill_chunk_left:
  "fill_chunk wc rq index chunk approximate p = Inr (chunk', p') \<Longrightarrow> length chunk' + items_left p' = length chunk + items_left p"
proof (induction wc rq index chunk approximate p rule: fill_chunk.induct)
  case (1 wc rq index chunk approximate p)
  obtain next_one rest where n: "next_item p = (next_one, rest)" by (cases "next_item p")
  have exhausted: "next_one = None \<Longrightarrow> items_left rest = items_left p"
    using n by (auto simp: next_item_def items_left_def split: list.splits if_splits)
  show ?case
  proof (cases next_one)
    case None
    then show ?thesis
      using "1.prems" n exhausted by (auto simp: fill_chunk.simps [of _ _ _ chunk] split: if_splits)
  next
    case (Some item)
    note l = next_item_left [OF n [unfolded Some]]
    show ?thesis
    proof (cases "int (length chunk) < uint (bl_max_items default_limits)")
      case True
      with "1.prems" n Some obtain r where r: "accept_item wc rq index item = Inr r"
        and e: "(if chunk \<noteq> [] \<and> PACKING_LIMIT < saturating_add approximate (snd r)
           then Inr (chunk, rest\<lparr>pk_pending := fst r # pk_pending rest\<rparr>)
           else fill_chunk wc rq index (chunk @ [fst r]) (saturating_add approximate (snd r)) rest) = Inr (chunk', p')"
        by (auto simp: fill_chunk.simps [of _ _ _ chunk] ebind_eq_Inr)
      show ?thesis
      proof (cases "chunk \<noteq> [] \<and> PACKING_LIMIT < saturating_add approximate (snd r)")
        case True
        then show ?thesis using e l by (auto simp: items_left_def)
      next
        case False
        with "1.IH" [OF _ n [symmetric] Some r False] True e l show ?thesis by auto
      qed
    qed (use "1.prems" in \<open>simp add: fill_chunk.simps [of _ _ _ chunk]\<close>)
  qed
qed

lemma fit_chunk_Inr:
  "fit_chunk wc bw seq previous index chunk p n = Inr (e, line, items, p', n') \<Longrightarrow> chunk \<noteq> [] \<Longrightarrow>
     \<exists>taken m. chunk = items @ taken \<and> p' = p\<lparr>pk_pending := taken @ pk_pending p\<rparr> \<and> items \<noteq> []
       \<and> e = envelope_for bw BatchChunk seq (prefixed_ulid wc ''rec_'' m) previous (chunk_payload_of index items)
       \<and> int (length line) \<le> uint DEFAULT_MAX_V2_RECORD_BYTES"
proof (induction wc bw seq previous index chunk p n rule: fit_chunk.induct)
  case (1 wc bw seq previous index chunk p n)
  let ?e = "envelope_for bw BatchChunk seq (prefixed_ulid wc ''rec_'' n) previous (chunk_payload_of index chunk)"
  from "1.prems"(1) obtain l where l: "canonical_json (envelope_to_vec wc) ?e = Inr l"
    unfolding fit_chunk.simps [of _ _ _ _ _ chunk] Let_def ebind_eq_Inr by blast
  show ?case
  proof (cases "int (length l) \<le> uint DEFAULT_MAX_V2_RECORD_BYTES")
    case True
    then show ?thesis using "1.prems" l by (auto simp: fit_chunk.simps [of _ _ _ _ _ chunk] intro!: exI [of _ n])
  next
    case False
    with "1.prems"(1) l have long: "\<not> length chunk \<le> 1"
      and r: "fit_chunk wc bw seq previous index (butlast chunk) (p\<lparr>pk_pending := last chunk # pk_pending p\<rparr>) (Suc n)
        = Inr (e, line, items, p', n')"
      by (auto simp: fit_chunk.simps [of _ _ _ _ _ chunk] split: if_splits)
    have b: "butlast chunk \<noteq> []" using long by (cases chunk rule: rev_cases) auto
    from "1.IH" [OF refl l False long r b] obtain taken m where t: "butlast chunk = items @ taken"
      "p' = p\<lparr>pk_pending := taken @ last chunk # pk_pending p\<rparr>" "items \<noteq> []"
      "e = envelope_for bw BatchChunk seq (prefixed_ulid wc ''rec_'' m) previous (chunk_payload_of index items)"
      "int (length line) \<le> uint DEFAULT_MAX_V2_RECORD_BYTES" by auto
    have "chunk = butlast chunk @ [last chunk]" using "1.prems"(2) by simp
    with t show ?thesis by (intro exI [of _ "taken @ [last chunk]"] exI [of _ m]) auto
  qed
qed

lemma write_chunk_left:
  assumes "write_chunk wc bw chunk p w = Inr w'" "chunk \<noteq> []"
  shows "items_left (sw_packing w') < length chunk + items_left p"
proof -
  from assms(1) obtain e line items p' n where
    f: "fit_chunk wc bw (sw_next_seq w) (sw_previous_hash w) (sw_item_index w) chunk p (sw_ulids w) = Inr (e, line, items, p', n)"
    and "sw_packing w' = p'"
    unfolding write_chunk_def ebind_eq_Inr Let_def split_paired_Ex case_prod_conv advance_seq_def by auto
  with fit_chunk_Inr [OF f assms(2)] show ?thesis by (cases items) (auto simp: items_left_def)
qed

function write_chunks ::
  "writer_codec \<Rightarrow> batch_writer \<Rightarrow> batch_request \<Rightarrow> segment_writer \<Rightarrow> v2_store_error + segment_writer" where
  "write_chunks wc bw rq w =
     ebind (fill_chunk wc rq (sw_item_index w) [] 0 (sw_packing w)) (\<lambda>r.
     if fst r = []
     then (if pk_exhausted (snd r) \<and> pk_pending (snd r) = [] then Inr (w\<lparr>sw_packing := snd r\<rparr>)
           else Inl (VsInvalid ''batch item packing made no progress''))
     else ebind (write_chunk wc bw (fst r) (snd r) w) (\<lambda>w. write_chunks wc bw rq w))"
  by pat_completeness auto
termination
proof (relation "measure (\<lambda>(wc, bw, rq, w). items_left (sw_packing w))")
  fix wc bw rq w r w'
  assume f: "fill_chunk wc rq (sw_item_index w) [] 0 (sw_packing w) = Inr r" and "fst r \<noteq> []"
    "write_chunk wc bw (fst r) (snd r) w = Inr w'"
  with write_chunk_left fill_chunk_left [of wc rq "sw_item_index w" "[]" 0 "sw_packing w" "fst r" "snd r"]
  show "((wc, bw, rq, w'), wc, bw, rq, w) \<in> measure (\<lambda>(wc, bw, rq, w). items_left (sw_packing w))"
    by fastforce
qed simp

declare write_chunks.simps [simp del]

text \<open>The whole segment: the start, the chunks and the completion.\<close>

definition write_start ::
  "writer_codec \<Rightarrow> batch_writer \<Rightarrow> batch_request \<Rightarrow> u64 \<Rightarrow> bytes option \<Rightarrow> (v2_store_error + json) list \<Rightarrow> nat
   \<Rightarrow> v2_store_error + segment_writer" where
  "write_start wc bw rq first_seq previous source n =
     (let e = envelope_for bw BatchStart first_seq (prefixed_ulid wc ''rec_'' n) previous (start_payload_of bw rq) in
      ebind (canonical_json (envelope_to_vec wc) e) (\<lambda>line.
      ebind (ensure_record_size line) (\<lambda>_.
      ebind (ok_or (checked_add 0 (saturating_add (of_nat (length line)) 1)) (VsInvalid ''segment byte count overflow'')) (\<lambda>bytes.
      ebind (ok_or (checked_add first_seq 1) (VsInvalid ''origin sequence overflow'')) (\<lambda>seq.
      ebind (map_err VsBatch (batch_validator_new (bw_batch_id bw) default_limits)) (\<lambda>validator.
      Inr \<lparr>sw_next_seq = seq, sw_previous_hash = Some (blake3_id (oc_crypto (wc_origin wc)) line),
        sw_validator = validator, sw_item_index = 0, sw_records = [(e, line)], sw_segment_bytes = bytes,
        sw_record_count = 1, sw_packing = \<lparr>pk_pending = [], pk_source = source, pk_exhausted = False\<rparr>,
        sw_ulids = Suc n\<rparr>))))))"

definition write_complete :: "writer_codec \<Rightarrow> batch_writer \<Rightarrow> segment_writer \<Rightarrow> v2_store_error + segment_writer" where
  "write_complete wc bw w =
     ebind (ensure (sw_item_index w \<noteq> 0)
       (VsInvalid ''a mutation batch must contain one or more object items'')) (\<lambda>_.
     ebind (map_err VsBatch (ordered_item_digest (hash_hex (oc_crypto (wc_origin wc))) (sw_validator w))) (\<lambda>digest.
     let e = envelope_for bw BatchComplete (sw_next_seq w) (prefixed_ulid wc ''rec_'' (sw_ulids w)) (sw_previous_hash w)
        (complete_payload_of (sw_item_index w) digest) in
     ebind (canonical_json (envelope_to_vec wc) e) (\<lambda>line.
     ebind (ensure_record_size line) (\<lambda>_.
     ebind (write_streamed_record e line w) (\<lambda>w.
     count_record (w\<lparr>sw_ulids := Suc (sw_ulids w)\<rparr>))))))"

definition write_batch ::
  "writer_codec \<Rightarrow> batch_writer \<Rightarrow> batch_request \<Rightarrow> u64 \<Rightarrow> bytes option \<Rightarrow> (v2_store_error + json) list \<Rightarrow> nat
   \<Rightarrow> v2_store_error + segment_writer" where
  "write_batch wc bw rq first_seq previous source n =
     ebind (write_start wc bw rq first_seq previous source n) (\<lambda>w.
     ebind (write_chunks wc bw rq w) (\<lambda>w.
     write_complete wc bw w))"

section \<open>No item is lost\<close>

definition compact_item :: "batch_request \<Rightarrow> v2_store_error + json \<Rightarrow> v2_store_error + json" where
  "compact_item rq s = ebind s (\<lambda>item. compact_batch_item item (rq_item_schema_version rq) (rq_defaults rq))"

text \<open>The items still to come, as they will be written.\<close>

definition coming :: "batch_request \<Rightarrow> packing \<Rightarrow> v2_store_error + json list" where
  "coming rq p = emap (compact_item rq) (map Inr (pk_pending p) @ pk_source p)"

text \<open>Compacting twice is compacting once, because defaults never name the kind.\<close>

definition compacts_once :: "batch_request \<Rightarrow> bool" where
  "compacts_once rq \<longleftrightarrow> (\<forall>s item. compact_item rq s = Inr item \<longrightarrow> compact_item rq (Inr item) = Inr item)"

lemma map_of_filter_key: "map_of (filter (\<lambda>m. fst m \<noteq> key) members) k = (if k = key then None else map_of members k)"
  by (induction members) auto

lemma drop_default_lookup:
  "map_of (drop_default d members) k = (if map_of members (fst d) = Some (snd d) \<and> k = fst d then None else map_of members k)"
  by (cases d) (simp add: map_of_filter_key)

declare drop_default.simps [simp del]

lemma fold_drop_lookup:
  "map_of (fold drop_default ds members) k = None \<or> map_of (fold drop_default ds members) k = map_of members k"
proof (induction ds arbitrary: members)
  case (Cons d ds)
  from Cons.IH [of "drop_default d members"] show ?case by (auto simp: drop_default_lookup split: if_splits)
qed simp

lemma fold_drop_fixed:
  assumes "\<forall>d \<in> set ds. map_of members (fst d) \<noteq> Some (snd d)"
  shows "fold drop_default ds members = members"
  using assms by (induction ds) (auto simp: drop_default.simps)

lemma fold_drop_default:
  "d \<in> set ds \<Longrightarrow> map_of (fold drop_default ds members) (fst d) \<noteq> Some (snd d)"
proof (induction ds arbitrary: members)
  case (Cons x ds)
  show ?case
  proof (cases "d \<in> set ds")
    case True
    then show ?thesis using Cons.IH by simp
  next
    case False
    then have "d = x" using Cons.prems by simp
    then show ?thesis
      using fold_drop_lookup [of ds "drop_default x members" "fst d"] by (auto simp: drop_default_lookup split: if_splits)
  qed
qed simp

lemma fold_drop_keeps:
  assumes "\<forall>d \<in> set ds. fst d \<noteq> k"
  shows "map_of (fold drop_default ds members) k = map_of members k"
  using assms by (induction ds arbitrary: members) (auto simp: drop_default_lookup)

lemma validated_defaults_compact_once:
  assumes "validate_item_defaults (rq_item_schema_version rq) (rq_defaults rq) = Inr ()"
  shows "compacts_once rq"
  unfolding compacts_once_def
proof (intro allI impI)
  fix s item
  assume c: "compact_item rq s = Inr item"
  then obtain x where x: "compact_batch_item x (rq_item_schema_version rq) (rq_defaults rq) = Inr item"
    unfolding compact_item_def ebind_eq_Inr by blast
  show "compact_item rq (Inr item) = Inr item"
  proof (cases "rq_item_schema_version rq = 1")
    case True
    then show ?thesis by (simp add: compact_item_def compact_batch_item_def)
  next
    case False
    with x obtain members kind where m: "x = JObj members" "Option.bind (map_of members ''kind'') json_as_str = Some kind"
      and i: "(case json_member (rq_defaults rq) kind of
             Some (JObj kind_defaults) \<Rightarrow> Inr (JObj (fold drop_default kind_defaults members))
           | _ \<Rightarrow> Inr x) = (Inr item :: v2_store_error + json)"
      unfolding compact_batch_item_def by (auto simp: ebind_eq_Inr ok_or_eq_Inr split: json.splits)
    show ?thesis
    proof (cases "\<exists>ds. json_member (rq_defaults rq) kind = Some (JObj ds)")
      case True
      then obtain ds where ds: "json_member (rq_defaults rq) kind = Some (JObj ds)" by blast
      with i have item: "item = JObj (fold drop_default ds members)" by simp
      have "rq_item_schema_version rq = 2" using assms False unfolding validate_item_defaults_def by (auto split: if_splits)
      with assms ds have "check_defaults (kind, JObj ds) = Inr ()"
        unfolding validate_item_defaults_def
        by (cases "rq_defaults rq") (auto simp: efold_checks dest: map_of_SomeD)
      then have "map_of ds ''kind'' = None" unfolding check_defaults_def ebind_eq_Inr ensure_eq_Inr by simp
      then have "\<forall>d \<in> set ds. fst d \<noteq> ''kind''" unfolding map_of_eq_None_iff by force
      then have "map_of (fold drop_default ds members) ''kind'' = map_of members ''kind''" by (rule fold_drop_keeps)
      moreover have "fold drop_default ds (fold drop_default ds members) = fold drop_default ds members"
        by (rule fold_drop_fixed) (simp add: fold_drop_default)
      ultimately show ?thesis
        using m(2) ds by (simp add: item compact_item_def compact_batch_item_def False)
    next
      case False
      with i have "item = x" by (auto split: option.splits json.splits)
      with x show ?thesis by (simp add: compact_item_def)
    qed
  qed
qed

definition kept_as_is :: "batch_request \<Rightarrow> json \<Rightarrow> bool" where
  "kept_as_is rq item \<longleftrightarrow> compact_item rq (Inr item) = Inr item"

lemma ebind_Inr: "ebind x Inr = x"
  by (cases x) simp_all

lemma coming_next:
  assumes "next_item p = (Some s, p')" "compact_item rq s = Inr item"
  shows "coming rq p = ebind (coming rq p') (\<lambda>rest. Inr (item # rest))"
  using assms by (auto simp: next_item_def coming_def split: list.splits if_splits)

lemma coming_none:
  assumes "next_item p = (None, p')" "pk_exhausted p \<longrightarrow> pk_source p = []"
  shows "coming rq p = Inr [] \<and> coming rq p' = Inr [] \<and> pk_exhausted p' \<and> pk_source p' = []"
  using assms by (auto simp: next_item_def coming_def split: list.splits if_splits)

lemma coming_pending:
  assumes "list_all (kept_as_is rq) items"
  shows "coming rq (p\<lparr>pk_pending := items @ pk_pending p\<rparr>) = ebind (coming rq p) (\<lambda>rest. Inr (items @ rest))"
  using assms
proof (induction items)
  case Nil
  then show ?case by (cases "coming rq p") simp_all
next
  case (Cons item items)
  then show ?case by (cases "coming rq p") (simp_all add: coming_def kept_as_is_def)
qed

lemma next_item_source: "next_item p = (Some s, p') \<Longrightarrow> pk_exhausted p \<longrightarrow> pk_source p = [] \<Longrightarrow> pk_exhausted p' \<longrightarrow> pk_source p' = []"
  by (auto simp: next_item_def split: list.splits if_splits)

lemma accept_item_Inr:
  "accept_item wc rq index s = Inr r \<Longrightarrow> compact_item rq s = Inr (fst r) \<and> json_is_object (fst r)"
  unfolding accept_item_def compact_item_def ebind_eq_Inr by (auto simp: ebind_eq_Inr split: if_splits)

lemma fill_chunk_items:
  assumes "fill_chunk wc rq index chunk approximate p = Inr (chunk', p')" "compacts_once rq"
    "pk_exhausted p \<longrightarrow> pk_source p = []" "list_all (kept_as_is rq) chunk"
  shows "\<exists>new. chunk' = chunk @ new \<and> coming rq p = ebind (coming rq p') (\<lambda>rest. Inr (new @ rest)) \<and> list_all (kept_as_is rq) chunk'
    \<and> (pk_exhausted p' \<longrightarrow> pk_source p' = [])"
  using assms
proof (induction wc rq index chunk approximate p rule: fill_chunk.induct)
  case (1 wc rq index chunk approximate p)
  obtain next_one p1 where n: "next_item p = (next_one, p1)" by (cases "next_item p")
  show ?case
  proof (cases "int (length chunk) < uint (bl_max_items default_limits)")
    case False
    then show ?thesis using "1.prems" by (simp add: fill_chunk.simps [of _ _ _ chunk] ebind_Inr)
  next
    case size: True
    show ?thesis
    proof (cases next_one)
      case None
      with "1.prems" n size coming_none [OF n [unfolded None] "1.prems"(3), of rq] show ?thesis
        by (simp add: fill_chunk.simps [of _ _ _ chunk])
    next
      case (Some s)
      with "1.prems"(1) n size obtain r where r: "accept_item wc rq index s = Inr r"
        and e: "(if chunk \<noteq> [] \<and> PACKING_LIMIT < saturating_add approximate (snd r)
           then Inr (chunk, p1\<lparr>pk_pending := fst r # pk_pending p1\<rparr>)
           else fill_chunk wc rq index (chunk @ [fst r]) (saturating_add approximate (snd r)) p1) = Inr (chunk', p')"
        by (auto simp: fill_chunk.simps [of _ _ _ chunk] ebind_eq_Inr)
      note c = conjunct1 [OF accept_item_Inr [OF r]] and src = next_item_source [OF n [unfolded Some] "1.prems"(3)]
      note cn = coming_next [OF n [unfolded Some] c]
      have kept: "kept_as_is rq (fst r)" using c "1.prems"(2) unfolding kept_as_is_def compacts_once_def by blast
      show ?thesis
      proof (cases "chunk \<noteq> [] \<and> PACKING_LIMIT < saturating_add approximate (snd r)")
        case True
        with e have p': "chunk' = chunk" "p' = p1\<lparr>pk_pending := [fst r] @ pk_pending p1\<rparr>" by auto
        have "coming rq p = coming rq p'" unfolding cn p'(2) using kept by (subst coming_pending) simp_all
        then show ?thesis using "1.prems"(4) src p' by (simp add: ebind_Inr)
      next
        case False
        with e have "fill_chunk wc rq index (chunk @ [fst r]) (saturating_add approximate (snd r)) p1 = Inr (chunk', p')" by auto
        from "1.IH" [OF _ n [symmetric] Some r False this "1.prems"(2) src] size kept "1.prems"(4)
        obtain new where "chunk' = (chunk @ [fst r]) @ new" "coming rq p1 = ebind (coming rq p') (\<lambda>rest. Inr (new @ rest))"
          "list_all (kept_as_is rq) chunk'" "pk_exhausted p' \<longrightarrow> pk_source p' = []" by auto
        then show ?thesis using cn by (intro exI [of _ "fst r # new"]) (cases "coming rq p'"; simp)
      qed
    qed
  qed
qed

lemma write_chunk_Inr:
  assumes "write_chunk wc bw chunk p w = Inr w'" "chunk \<noteq> []"
  shows "\<exists>items taken m line. chunk = items @ taken \<and> items \<noteq> [] \<and> int (length items) < 2 ^ 32
    \<and> sw_packing w' = p\<lparr>pk_pending := taken @ pk_pending p\<rparr>
    \<and> sw_records w' = sw_records w @ [(envelope_for bw BatchChunk (sw_next_seq w) (prefixed_ulid wc ''rec_'' m)
        (sw_previous_hash w) (chunk_payload_of (sw_item_index w) items), line)]
    \<and> int (length line) \<le> uint DEFAULT_MAX_V2_RECORD_BYTES
    \<and> sw_previous_hash w' = Some (blake3_id (oc_crypto (wc_origin wc)) line)
    \<and> accept_chunk \<lparr>bc_batch_id = bw_batch_id bw, bc_first_item_index = sw_item_index w, bc_item_count = of_nat (length items),
        bc_serialized_bytes = of_nat (length line), bc_record_hash = blake3_id (oc_crypto (wc_origin wc)) line\<rparr> (sw_validator w)
        = Inr (sw_validator w')
    \<and> checked_add (sw_item_index w) (ucast (of_nat (length items) :: u32)) = Some (sw_item_index w')
    \<and> checked_add (sw_next_seq w) 1 = Some (sw_next_seq w')"
proof -
  from assms(1) obtain e line items p' n v where
    f: "fit_chunk wc bw (sw_next_seq w) (sw_previous_hash w) (sw_item_index w) chunk p (sw_ulids w) = Inr (e, line, items, p', n)"
    and r: "int (length items) < 2 ^ 32" "sw_records w' = sw_records w @ [(e, line)]"
      "sw_previous_hash w' = Some (blake3_id (oc_crypto (wc_origin wc)) line)"
      "accept_chunk \<lparr>bc_batch_id = bw_batch_id bw, bc_first_item_index = sw_item_index w, bc_item_count = of_nat (length items),
        bc_serialized_bytes = of_nat (length line), bc_record_hash = blake3_id (oc_crypto (wc_origin wc)) line\<rparr> (sw_validator w)
        = Inr (sw_validator w')"
      "checked_add (sw_item_index w) (ucast (of_nat (length items) :: u32)) = Some (sw_item_index w')"
      "checked_add (sw_next_seq w) 1 = Some (sw_next_seq w')" "sw_packing w' = p'"
    unfolding write_chunk_def ebind_eq_Inr Let_def split_paired_Ex case_prod_conv advance_seq_def count_record_def
      write_streamed_record_def ok_or_eq_Inr map_err_eq_Inr ensure_eq_Inr sum.inject by auto
  from fit_chunk_Inr [OF f assms(2)] r show ?thesis by blast
qed

definition written_items :: "v2_record_envelope \<times> bytes \<Rightarrow> json list" where
  "written_items r = (case json_member (ve_payload (fst r)) ''items'' of Some (JArr items) \<Rightarrow> items | _ \<Rightarrow> [])"

lemma written_chunk: "written_items (envelope_for bw BatchChunk seq i prev (chunk_payload_of index items), line) = items"
  by (simp add: written_items_def envelope_for_def chunk_payload_of_def)

lemma write_chunks_step:
  assumes "write_chunks wc bw rq w = Inr w'"
  obtains (finished) p where "fill_chunk wc rq (sw_item_index w) [] 0 (sw_packing w) = Inr ([], p)"
      "pk_exhausted p" "pk_pending p = []" "w' = w\<lparr>sw_packing := p\<rparr>"
    | (wrote) chunk p w1 where "fill_chunk wc rq (sw_item_index w) [] 0 (sw_packing w) = Inr (chunk, p)" "chunk \<noteq> []"
      "write_chunk wc bw chunk p w = Inr w1" "write_chunks wc bw rq w1 = Inr w'"
  using assms unfolding write_chunks.simps [of _ _ _ w] ebind_eq_Inr by (auto split: if_splits simp: ebind_eq_Inr)

text \<open>Every item is written once, in order.\<close>

lemma write_chunks_items:
  assumes "write_chunks wc bw rq w = Inr w'" "compacts_once rq" "pk_exhausted (sw_packing w) \<longrightarrow> pk_source (sw_packing w) = []"
  shows "\<exists>es. sw_records w' = sw_records w @ es \<and> coming rq (sw_packing w) = Inr (concat (map written_items es))"
  using assms
proof (induction wc bw rq w rule: write_chunks.induct)
  case (1 wc bw rq w)
  from "1.prems"(1) show ?case
  proof (cases rule: write_chunks_step)
    case (finished p)
    with fill_chunk_items [OF finished(1) "1.prems"(2,3)] have "pk_source p = []"
      "coming rq (sw_packing w) = coming rq p" by (auto simp: ebind_Inr)
    with finished show ?thesis by (intro exI [of _ "[]"]) (simp add: coming_def)
  next
    case (wrote chunk p w1)
    from fill_chunk_items [OF wrote(1) "1.prems"(2,3)]
    have c: "coming rq (sw_packing w) = ebind (coming rq p) (\<lambda>rest. Inr (chunk @ rest))"
      and k: "list_all (kept_as_is rq) chunk" and src: "pk_exhausted p \<longrightarrow> pk_source p = []" by auto
    from write_chunk_Inr [OF wrote(3,2)] obtain items taken e line where i: "chunk = items @ taken"
      "sw_packing w1 = p\<lparr>pk_pending := taken @ pk_pending p\<rparr>" "sw_records w1 = sw_records w @ [(e, line)]"
      "written_items (e, line) = items" using written_chunk by metis
    from "1.IH" [of "(chunk, p)" w1] wrote "1.prems"(2) src i(2) obtain es where
      es: "sw_records w' = sw_records w1 @ es" "coming rq (sw_packing w1) = Inr (concat (map written_items es))" by auto
    have "coming rq (sw_packing w1) = ebind (coming rq p) (\<lambda>rest. Inr (taken @ rest))"
      unfolding i(2) using k i(1) by (intro coming_pending) simp
    with es(2) c i(1) have "coming rq (sw_packing w) = Inr (items @ concat (map written_items es))"
      by (cases "coming rq p") auto
    with es(1) i(3,4) show ?thesis by (intro exI [of _ "(e, line) # es"]) simp
  qed
qed

section \<open>What is written is accepted\<close>

text \<open>
  What the writer relies on: hashes are in lower-case hexadecimal, generated ULIDs are ULIDs, and a
  written line reads back as the envelope it was made from.
\<close>

definition writer_ok :: "writer_codec \<Rightarrow> batch_writer \<Rightarrow> bool" where
  "writer_ok wc bw \<longleftrightarrow> is_origin_id (bw_origin_id bw) \<and> (\<forall>b. is_lower_hex_64 (hash_hex (oc_crypto (wc_origin wc)) b))
     \<and> (\<forall>n. record_ulid_ok (oc_records (wc_origin wc)) (to_ascii_lowercase (new_ulid wc n)))
     \<and> (\<exists>n. bw_batch_id bw = prefixed_ulid wc ''batch_'' n)"

definition reads_back :: "writer_codec \<Rightarrow> v2_record_envelope \<times> bytes \<Rightarrow> bool" where
  "reads_back wc r \<longleftrightarrow> record_from_slice (oc_records (wc_origin wc)) (snd r) = Inr (fst r)
     \<and> snd r \<noteq> [] \<and> NL \<notin> set (snd r) \<and> CR \<notin> set (snd r)"

definition as_verified :: "writer_codec \<Rightarrow> batch_writer \<Rightarrow> bytes \<Rightarrow> v2_record_envelope \<times> bytes \<Rightarrow> verified_v2_record" where
  "as_verified wc bw mh r = \<lparr>vv_record = \<lparr>vr_envelope = fst r, vr_record_hash = blake3_id (oc_crypto (wc_origin wc)) (snd r)\<rparr>,
     vv_line = snd r, vv_segment_manifest_hash = mh, vv_causal_frontier_hash = bw_causal_frontier_hash bw\<rparr>"

definition follows_tail :: "u64 \<Rightarrow> bytes option \<Rightarrow> bool" where
  "follows_tail seq previous \<longleftrightarrow> 0 < seq \<and> (seq = 1 \<longrightarrow> previous = None)
     \<and> (1 < seq \<longrightarrow> (case previous of None \<Rightarrow> False | Some h \<Rightarrow> is_blake3_identifier h))"

lemma generated_ulid_ok:
  assumes "\<forall>n. ok (to_ascii_lowercase (new_ulid wc n))"
  shows "is_prefixed_lowercase_ulid ok (prefixed_ulid wc pre n) pre"
  using assms
  by (simp add: is_prefixed_lowercase_ulid_def prefixed_ulid_def to_ascii_lowercase_def)

lemma blake3_id_ok: "writer_ok wc bw \<Longrightarrow> is_blake3_identifier (blake3_id (oc_crypto (wc_origin wc)) b)"
  unfolding writer_ok_def blake3_id_def is_blake3_identifier_prefixed by blast

lemma written_record_parses:
  assumes "writer_ok wc bw" "reads_back wc (e, line)" "int (length line) \<le> uint DEFAULT_MAX_V2_RECORD_BYTES"
    "e = envelope_for bw kind seq (prefixed_ulid wc ''rec_'' n) previous payload" "json_is_object payload" "follows_tail seq previous"
  shows "parse_v2_record (oc_crypto (wc_origin wc)) (oc_records (wc_origin wc)) line (bw_origin_id bw) seq previous
    DEFAULT_MAX_V2_RECORD_BYTES = Inr (vv_record (as_verified wc bw mh (e, line)))"
proof -
  have u: "\<forall>n. record_ulid_ok (oc_records (wc_origin wc)) (to_ascii_lowercase (new_ulid wc n))"
    using assms(1) by (simp add: writer_ok_def)
  have "envelope_ok (oc_records (wc_origin wc)) e (bw_origin_id bw) seq previous"
    using assms(1,5,6) generated_ulid_ok [OF u] unfolding envelope_ok_def assms(4) writer_ok_def follows_tail_def
    by (auto simp: envelope_for_def)
  then show ?thesis
    using assms(2,3) unfolding parse_v2_record_Inr record_line_def reads_back_def as_verified_def by auto
qed

definition writing :: "segment_writer \<Rightarrow> bool" where
  "writing w \<longleftrightarrow> 1 < sw_next_seq w \<and> (\<exists>h. sw_previous_hash w = Some h \<and> is_blake3_identifier h)
     \<and> bv_next_item_index (sw_validator w) = sw_item_index w"

lemma writing_follows: "writing w \<Longrightarrow> follows_tail (sw_next_seq w) (sw_previous_hash w)"
  by (auto simp: writing_def follows_tail_def word_less_nat_alt)

lemma checked_next_seq:
  "checked_add seq (1 :: u64) = Some seq' \<Longrightarrow> seq' = seq + 1 \<and> unat seq + 1 < 2 ^ 64 \<and> unat seq' = unat seq + 1"
  unfolding checked_add_def by (auto simp: unat_plus_1 split: if_splits)

lemma chunk_of_written:
  assumes "items \<noteq> []" "int (length items) < 2 ^ 32"
    "e = envelope_for bw BatchChunk seq i previous (chunk_payload_of index items)"
  shows "ve_record_kind (vv_envelope (as_verified wc bw mh (e, line))) = BatchChunk
    \<and> ve_batch_id (vv_envelope (as_verified wc bw mh (e, line))) = bw_batch_id bw
    \<and> chunk_of (bw_batch_id bw) (as_verified wc bw mh (e, line))
       \<lparr>bc_batch_id = bw_batch_id bw, bc_first_item_index = index, bc_item_count = of_nat (length items),
        bc_serialized_bytes = of_nat (length line), bc_record_hash = blake3_id (oc_crypto (wc_origin wc)) line\<rparr>"
  using assms unsigned_less [of index, where ?'a = int]
  by (simp add: chunk_of_def u64_field_def describe_chunk_def as_verified_def envelope_for_def chunk_payload_of_def ok_or_eq_Inr)

lemma accept_chunk_index:
  assumes "accept_chunk c v = Inr v'"
  shows "checked_add (bv_next_item_index v) (ucast (bc_item_count c)) = Some (bv_next_item_index v')"
  using assms unfolding accept_chunk_def ebind_eq_Inr ok_or_eq_Inr by auto

lemma write_chunks_extends: "write_chunks wc bw rq w = Inr w' \<Longrightarrow> \<exists>es. sw_records w' = sw_records w @ es"
proof (induction wc bw rq w rule: write_chunks.induct)
  case (1 wc bw rq w)
  from "1.prems" show ?case
  proof (cases rule: write_chunks_step)
    case (wrote chunk p w1)
    with "1.IH" [of "(chunk, p)" w1] write_chunk_Inr [OF wrote(3,2)] show ?thesis by auto
  qed simp
qed

lemma write_chunks_chain:
  assumes "write_chunks wc bw rq w = Inr w'" "writer_ok wc bw" "writing w" "sw_records w' = sw_records w @ es"
    "\<forall>r \<in> set es. reads_back wc r"
  shows "origin_chain (oc_crypto (wc_origin wc)) (oc_records (wc_origin wc)) (bw_origin_id bw) (sw_next_seq w)
      (sw_previous_hash w) (map (as_verified wc bw mh) es)
    \<and> sw_next_seq w' = sw_next_seq w + of_nat (length es)
    \<and> sw_previous_hash w' = chain_hash (sw_previous_hash w) (map (as_verified wc bw mh) es) \<and> writing w'
    \<and> (\<exists>ds. chunks_ok (bw_batch_id bw) (map (as_verified wc bw mh) es) ds
        \<and> efold accept_chunk ds (sw_validator w) = Inr (sw_validator w'))"
  using assms
proof (induction wc bw rq w arbitrary: es rule: write_chunks.induct)
  case (1 wc bw rq w)
  from "1.prems"(1) show ?case
  proof (cases rule: write_chunks_step)
    case (finished p)
    with "1.prems" show ?thesis by (auto simp: writing_def chunks_ok_def intro!: exI [of _ "[]"])
  next
    case (wrote chunk p w1)
    let ?cr = "oc_crypto (wc_origin wc)" and ?rc = "oc_records (wc_origin wc)"
    from write_chunk_Inr [OF wrote(3,2)] obtain items m line where i: "items \<noteq> []" "int (length items) < 2 ^ 32"
      "sw_records w1 = sw_records w @ [(envelope_for bw BatchChunk (sw_next_seq w) (prefixed_ulid wc ''rec_'' m)
        (sw_previous_hash w) (chunk_payload_of (sw_item_index w) items), line)]"
      "int (length line) \<le> uint DEFAULT_MAX_V2_RECORD_BYTES" "sw_previous_hash w1 = Some (blake3_id ?cr line)"
      "accept_chunk \<lparr>bc_batch_id = bw_batch_id bw, bc_first_item_index = sw_item_index w, bc_item_count = of_nat (length items),
        bc_serialized_bytes = of_nat (length line), bc_record_hash = blake3_id ?cr line\<rparr> (sw_validator w) = Inr (sw_validator w1)"
      "checked_add (sw_item_index w) (ucast (of_nat (length items) :: u32)) = Some (sw_item_index w1)"
      "checked_add (sw_next_seq w) 1 = Some (sw_next_seq w1)" by blast
    define e where "e = envelope_for bw BatchChunk (sw_next_seq w) (prefixed_ulid wc ''rec_'' m)
        (sw_previous_hash w) (chunk_payload_of (sw_item_index w) items)"
    let ?d = "\<lparr>bc_batch_id = bw_batch_id bw, bc_first_item_index = sw_item_index w, bc_item_count = of_nat (length items),
        bc_serialized_bytes = of_nat (length line), bc_record_hash = blake3_id ?cr line\<rparr>"
    from write_chunks_extends [OF wrote(4)] obtain es' where es': "sw_records w' = sw_records w1 @ es'" by blast
    then have es: "es = (e, line) # es'" using "1.prems"(4) i(3) unfolding e_def [symmetric] by simp
    note n = checked_next_seq [OF i(8)]
    have w1: "writing w1"
      using "1.prems"(3) i(5,7) accept_chunk_index [OF i(6)] n blake3_id_ok [OF "1.prems"(2)]
      unfolding writing_def by (auto simp: word_less_nat_alt)
    from "1.IH" [of "(chunk, p)" w1 es'] wrote "1.prems"(2,5) w1 es' es have IH:
      "origin_chain ?cr ?rc (bw_origin_id bw) (sw_next_seq w1) (sw_previous_hash w1) (map (as_verified wc bw mh) es')"
      "sw_next_seq w' = sw_next_seq w1 + of_nat (length es')"
      "sw_previous_hash w' = chain_hash (sw_previous_hash w1) (map (as_verified wc bw mh) es')" "writing w'"
      "\<exists>ds. chunks_ok (bw_batch_id bw) (map (as_verified wc bw mh) es') ds
        \<and> efold accept_chunk ds (sw_validator w1) = Inr (sw_validator w')" by auto
    have "follows_tail (sw_next_seq w) (sw_previous_hash w)"
      using "1.prems"(3) by (rule writing_follows)
    then have parsed: "parse_v2_record ?cr ?rc line (bw_origin_id bw) (sw_next_seq w) (sw_previous_hash w)
        DEFAULT_MAX_V2_RECORD_BYTES = Inr (vv_record (as_verified wc bw mh (e, line)))"
      using "1.prems"(2,5) i(4) e_def es
      by (intro written_record_parses [where kind = BatchChunk and payload = "chunk_payload_of (sw_item_index w) items"])
        (auto simp: chunk_payload_of_def)
    have v: "vv_line (as_verified wc bw mh (e, line)) = line" "line \<noteq> []"
      "vr_record_hash (vv_record (as_verified wc bw mh (e, line))) = blake3_id ?cr line"
      using "1.prems"(5) es by (auto simp: as_verified_def reads_back_def)
    from IH(5) obtain ds where ds: "chunks_ok (bw_batch_id bw) (map (as_verified wc bw mh) es') ds"
      "efold accept_chunk ds (sw_validator w1) = Inr (sw_validator w')" by blast
    have "chunks_ok (bw_batch_id bw) (map (as_verified wc bw mh) es) (?d # ds)"
      using ds(1) chunk_of_written [OF i(1,2) e_def] unfolding es chunks_ok_def by simp
    moreover have "efold accept_chunk (?d # ds) (sw_validator w) = Inr (sw_validator w')" using i(6) ds(2) by simp
    ultimately show ?thesis using IH(1-4) parsed v n i(5) unfolding es by (auto simp: add.assoc intro!: exI [of _ "?d # ds"])
  qed
qed

lemma ensure_record_size_Inr:
  "ensure_record_size line = Inr u \<longleftrightarrow> int (length line) \<le> uint DEFAULT_MAX_V2_RECORD_BYTES"
  by (simp add: ensure_record_size_def)

lemma write_start_Inr:
  assumes "write_start wc bw rq first_seq previous source n = Inr w"
  shows "\<exists>e line. sw_records w = [(e, line)] \<and> e = envelope_for bw BatchStart first_seq (prefixed_ulid wc ''rec_'' n) previous (start_payload_of bw rq)
    \<and> int (length line) \<le> uint DEFAULT_MAX_V2_RECORD_BYTES \<and> checked_add first_seq 1 = Some (sw_next_seq w)
    \<and> sw_previous_hash w = Some (blake3_id (oc_crypto (wc_origin wc)) line) \<and> sw_item_index w = 0
    \<and> batch_validator_new (bw_batch_id bw) default_limits = Inr (sw_validator w)
    \<and> sw_packing w = \<lparr>pk_pending = [], pk_source = source, pk_exhausted = False\<rparr>"
  using assms unfolding write_start_def Let_def ebind_eq_Inr ok_or_eq_Inr map_err_eq_Inr ensure_record_size_Inr ensure_eq_Inr by auto

lemma write_complete_Inr:
  assumes "write_complete wc bw w = Inr w'"
  shows "\<exists>e line digest. sw_records w' = sw_records w @ [(e, line)]
    \<and> ordered_item_digest (hash_hex (oc_crypto (wc_origin wc))) (sw_validator w) = Inr digest
    \<and> e = envelope_for bw BatchComplete (sw_next_seq w) (prefixed_ulid wc ''rec_'' (sw_ulids w)) (sw_previous_hash w)
        (complete_payload_of (sw_item_index w) digest)
    \<and> int (length line) \<le> uint DEFAULT_MAX_V2_RECORD_BYTES \<and> sw_next_seq w' = sw_next_seq w"
  using assms unfolding write_complete_def count_record_def write_streamed_record_def Let_def ebind_eq_Inr ok_or_eq_Inr
    map_err_eq_Inr ensure_record_size_Inr ensure_eq_Inr by auto

lemma start_ok_written:
  assumes "e = envelope_for bw BatchStart seq i previous (start_payload_of bw rq)"
  shows "start_ok (bw_batch_id bw) (as_verified wc bw mh (e, line))"
  by (simp add: start_ok_def assms as_verified_def envelope_for_def start_payload_of_def string_field_def)

lemma complete_fields:
  "u64_field (complete_payload_of items digest) ''total_items'' = Inr items"
  "string_field (complete_payload_of items digest) ''ordered_item_digest'' = Inr digest"
  "string_field (complete_payload_of items digest) ''status'' = Inr ''complete''"
proof -
  have "json_member (complete_payload_of items digest) ''total_items'' = Some (JNum (uint items))"
    "json_member (complete_payload_of items digest) ''ordered_item_digest'' = Some (JStr digest)"
    "json_member (complete_payload_of items digest) ''status'' = Some (JStr ''complete'')"
    by (simp_all add: complete_payload_of_def)
  moreover have "json_as_u64 (JNum (uint items)) = Some items" using unsigned_less [of items, where ?'a = int] by simp
  ultimately show "u64_field (complete_payload_of items digest) ''total_items'' = Inr items"
    "string_field (complete_payload_of items digest) ''ordered_item_digest'' = Inr digest"
    "string_field (complete_payload_of items digest) ''status'' = Inr ''complete''"
    unfolding u64_field_def string_field_def ok_or_eq_Inr by simp_all
qed

lemma complete_ok_written:
  assumes "e = envelope_for bw BatchComplete seq i previous (complete_payload_of items digest)"
  shows "complete_ok (bw_batch_id bw) (as_verified wc bw mh (e, line)) \<lparr>bco_total_items = items, bco_ordered_item_digest = digest\<rparr>"
proof -
  have "vv_envelope (as_verified wc bw mh (e, line)) = e" by (simp add: as_verified_def)
  moreover have "ve_record_kind e = BatchComplete" "ve_batch_id e = bw_batch_id bw" "ve_payload e = complete_payload_of items digest"
    by (simp_all add: assms envelope_for_def)
  ultimately show ?thesis unfolding complete_ok_def completion_of_def by (simp only: complete_fields ebind_simps simp_thms)
qed

lemma digest_completes:
  assumes "ordered_item_digest hx v = Inr digest" "bv_next_item_index v = items"
  shows "validate_completion hx v \<lparr>bco_total_items = items, bco_ordered_item_digest = digest\<rparr> = Inr ()"
proof -
  have "bv_chunk_count v \<noteq> 0"
  proof
    assume "bv_chunk_count v = 0"
    then have "ordered_item_digest hx v = Inl NoChunks" unfolding ordered_item_digest_def by (simp only: if_True simp_thms)
    with assms(1) show False by simp
  qed
  then show ?thesis
    unfolding validate_completion_def assms(1) by (simp only: ebind_simps ensure_simps assms(2) batch_completion.simps simp_thms)
qed

lemma new_validator_index: "batch_validator_new batch_id limits = Inr v \<Longrightarrow> bv_next_item_index v = 0"
  unfolding batch_validator_new_def ebind_eq_Inr by auto

text \<open>
  C13. What an append writes, verification accepts: when the writer has packed a list of items into a
  segment after an origin's tail, its records are the continuation of the origin's chain and form
  one sealed batch, so the record-by-record validation ends without an open batch; and the items
  of the chunks are exactly the given items, each compacted once, in their order.
\<close>

theorem written_batch_is_accepted:
  assumes "write_batch wc bw rq first_seq previous source n = Inr w"
    and "validate_item_defaults (rq_item_schema_version rq) (rq_defaults rq) = Inr ()"
    and "writer_ok wc bw" "follows_tail first_seq previous" "list_all (reads_back wc) (sw_records w)"
    and "unat (sw_next_seq w) + 1 < 2 ^ 64"
  shows "origin_chain (oc_crypto (wc_origin wc)) (oc_records (wc_origin wc)) (bw_origin_id bw) first_seq previous
      (map (as_verified wc bw mh) (sw_records w))
    \<and> efold (validate_streamed_batch_record (wc_origin wc)) (map (as_verified wc bw mh) (sw_records w)) None = Inr None
    \<and> emap (compact_item rq) source = Inr (concat (map written_items (sw_records w)))"
proof -
  let ?cr = "oc_crypto (wc_origin wc)" and ?rc = "oc_records (wc_origin wc)" and ?v = "as_verified wc bw mh"
  from assms(1) obtain w0 w1 where w0: "write_start wc bw rq first_seq previous source n = Inr w0"
    and w1: "write_chunks wc bw rq w0 = Inr w1" and w: "write_complete wc bw w1 = Inr w"
    unfolding write_batch_def ebind_eq_Inr by blast
  from write_start_Inr [OF w0] obtain e0 l0 where s: "sw_records w0 = [(e0, l0)]"
    "e0 = envelope_for bw BatchStart first_seq (prefixed_ulid wc ''rec_'' n) previous (start_payload_of bw rq)"
    "int (length l0) \<le> uint DEFAULT_MAX_V2_RECORD_BYTES" "checked_add first_seq 1 = Some (sw_next_seq w0)"
    "sw_previous_hash w0 = Some (blake3_id ?cr l0)" "sw_item_index w0 = 0"
    "batch_validator_new (bw_batch_id bw) default_limits = Inr (sw_validator w0)"
    "sw_packing w0 = \<lparr>pk_pending = [], pk_source = source, pk_exhausted = False\<rparr>" by blast
  note once = validated_defaults_compact_once [OF assms(2)] and seq = checked_next_seq [OF s(4)]
  from write_chunks_items [OF w1 once] s(8) obtain es where es: "sw_records w1 = sw_records w0 @ es"
    "emap (compact_item rq) source = Inr (concat (map written_items es))" by (auto simp: coming_def)
  from write_complete_Inr [OF w] obtain e1 l1 digest where c: "sw_records w = sw_records w1 @ [(e1, l1)]"
    "ordered_item_digest (hash_hex ?cr) (sw_validator w1) = Inr digest"
    "e1 = envelope_for bw BatchComplete (sw_next_seq w1) (prefixed_ulid wc ''rec_'' (sw_ulids w1)) (sw_previous_hash w1)
        (complete_payload_of (sw_item_index w1) digest)" "int (length l1) \<le> uint DEFAULT_MAX_V2_RECORD_BYTES"
    "sw_next_seq w = sw_next_seq w1" by blast
  have rs: "sw_records w = (e0, l0) # es @ [(e1, l1)]" using c(1) es(1) s(1) by simp
  with assms(5) have rb: "reads_back wc (e0, l0)" "\<forall>r \<in> set es. reads_back wc r" "reads_back wc (e1, l1)"
    by (auto simp: list_all_iff)
  have writing: "writing w0"
    using assms(4) s(5,6) seq new_validator_index [OF s(7)] blake3_id_ok [OF assms(3)]
    by (auto simp: writing_def follows_tail_def word_less_nat_alt)
  note chunks = write_chunks_chain [OF w1 assms(3) writing es(1) rb(2), of mh]
  have p0: "parse_v2_record ?cr ?rc l0 (bw_origin_id bw) first_seq previous DEFAULT_MAX_V2_RECORD_BYTES = Inr (vv_record (?v (e0, l0)))"
    using s(2) by (intro written_record_parses [OF assms(3) rb(1) s(3) _ _ assms(4)]) (auto simp: start_payload_of_def)
  have p1: "parse_v2_record ?cr ?rc l1 (bw_origin_id bw) (sw_next_seq w1) (sw_previous_hash w1) DEFAULT_MAX_V2_RECORD_BYTES
      = Inr (vv_record (?v (e1, l1)))"
  proof (rule written_record_parses [OF assms(3) rb(3) c(4,3)])
    show "follows_tail (sw_next_seq w1) (sw_previous_hash w1)" using chunks writing_follows by blast
  qed (simp add: complete_payload_of_def)
  have v: "vv_line (?v (e, l)) = l" "vr_record_hash (vv_record (?v (e, l))) = blake3_id ?cr l" for e l
    by (simp_all add: as_verified_def)
  have last: "unat (sw_next_seq w1) + 1 < 2 ^ 64" using assms(6) c(5) by simp
  have "origin_chain ?cr ?rc (bw_origin_id bw) first_seq previous (map ?v (sw_records w))"
    unfolding rs using p0 p1 chunks seq s(5) rb last by (simp add: v reads_back_def)
  moreover have sealed: "sealed_batch (wc_origin wc) (bw_batch_id bw) (map ?v (sw_records w))"
  proof -
    from chunks obtain ds where ds: "chunks_ok (bw_batch_id bw) (map ?v es) ds"
      "efold accept_chunk ds (sw_validator w0) = Inr (sw_validator w1)" "bv_next_item_index (sw_validator w1) = sw_item_index w1"
      unfolding writing_def by blast
    have "validate_batch (hash_hex ?cr) (bw_batch_id bw) default_limits ds
        \<lparr>bco_total_items = sw_item_index w1, bco_ordered_item_digest = digest\<rparr> = Inr ()"
      unfolding validate_batch_def s(7) ebind_simps ds(2) by (rule digest_completes [OF c(2) ds(3)])
    with start_ok_written [OF s(2)] ds(1) complete_ok_written [OF c(3)] show ?thesis
      unfolding sealed_batch_def rs by (intro exI conjI) (auto simp only: list.map map_append)
  qed
  then have "efold (validate_streamed_batch_record (wc_origin wc)) (map ?v (sw_records w)) None = Inr None"
    using stream_batches_join [of "wc_origin wc" "[(bw_batch_id bw, map ?v (sw_records w))]"] by simp
  moreover have "written_items (e0, l0) = []" "written_items (e1, l1) = []"
    by (simp_all add: written_items_def s(2) c(3) envelope_for_def start_payload_of_def complete_payload_of_def)
  ultimately show ?thesis using es(2) rs by simp
qed

text \<open>A batch of one item with a default value, which client C of the sample archive appends to its journal.\<close>

definition small_bw :: batch_writer where
  "small_bw = \<lparr>bw_origin_id = client_c, bw_batch_id = ''batch_u'', bw_time_utc_ms = 7,
     bw_causal_frontier_hash = id_of ''f5''\<rparr>"

definition small_rq :: batch_request where
  "small_rq = \<lparr>rq_operation_kind = ''scan'', rq_item_schema_version = 2, rq_context = JObj [],
     rq_defaults = JObj [(''seen'', JObj [(''ok'', JBool True)])]\<rparr>"

definition small_item :: json where
  "small_item = JObj [(''kind'', JStr ''seen''), (''ok'', JBool True), (''path'', JStr ''a'')]"

definition compacted_item :: json where "compacted_item = JObj [(''kind'', JStr ''seen''), (''path'', JStr ''a'')]"

definition small_start_record :: v2_record_envelope where
  "small_start_record = envelope_for small_bw BatchStart 4 ''rec_u'' (Some (id_of ''l'')) (start_payload_of small_bw small_rq)"

definition small_chunk_record :: v2_record_envelope where
  "small_chunk_record = envelope_for small_bw BatchChunk 5 ''rec_u'' (Some (id_of ''s''))
     (chunk_payload_of 0 [compacted_item])"

definition small_complete_record :: v2_record_envelope where
  "small_complete_record = envelope_for small_bw BatchComplete 6 ''rec_u'' (Some (id_of ''t''))
     (complete_payload_of 1 (id_of ''digest''))"

definition small_line :: "v2_record_envelope \<Rightarrow> bytes + bytes" where
  "small_line e = Inr (case ve_record_kind e of BatchStart \<Rightarrow> ''s'' | BatchChunk \<Rightarrow> ''t'' | BatchComplete \<Rightarrow> ''u'')"

definition small_read :: "bytes \<Rightarrow> bytes + v2_record_envelope" where
  "small_read l =
     (if l = ''s'' then Inr small_start_record else if l = ''t'' then Inr small_chunk_record
      else if l = ''u'' then Inr small_complete_record else Inl ''unknown'')"

definition small_wc :: "record_codec \<Rightarrow> writer_codec" where
  "small_wc rc = \<lparr>wc_origin = archive_codec\<lparr>oc_records := rc\<rparr>, envelope_to_vec = small_line,
     value_to_vec = (\<lambda>_. Inr ''v''), new_ulid = (\<lambda>_. ''u'')\<rparr>"

definition small_rc :: record_codec where
  "small_rc = \<lparr>record_from_slice = small_read, record_ulid_ok = (\<lambda>_. True)\<rparr>"

definition small_packed :: packing where "small_packed = \<lparr>pk_pending = [], pk_source = [], pk_exhausted = True\<rparr>"

definition small_start :: segment_writer where
  "small_start = \<lparr>sw_next_seq = 5, sw_previous_hash = Some (id_of ''s''),
     sw_validator = projr (batch_validator_new (bw_batch_id small_bw) default_limits), sw_item_index = 0,
     sw_records = [(small_start_record, ''s'')], sw_segment_bytes = 2, sw_record_count = 1,
     sw_packing = \<lparr>pk_pending = [], pk_source = [Inr small_item], pk_exhausted = False\<rparr>, sw_ulids = 2\<rparr>"

definition small_validator :: batch_validator where
  "small_validator = projr (accept_chunk \<lparr>bc_batch_id = bw_batch_id small_bw, bc_first_item_index = 0, bc_item_count = 1,
     bc_serialized_bytes = 1, bc_record_hash = id_of ''t''\<rparr> (sw_validator small_start))"

definition small_chunked :: segment_writer where
  "small_chunked = \<lparr>sw_next_seq = 6, sw_previous_hash = Some (id_of ''t''), sw_validator = small_validator,
     sw_item_index = 1, sw_records = [(small_start_record, ''s''), (small_chunk_record, ''t'')], sw_segment_bytes = 4,
     sw_record_count = 2, sw_packing = small_packed, sw_ulids = 3\<rparr>"

definition small_segment :: segment_writer where
  "small_segment = small_chunked\<lparr>sw_records := [(small_start_record, ''s''), (small_chunk_record, ''t''), (small_complete_record, ''u'')],
     sw_segment_bytes := 6, sw_record_count := 3, sw_ulids := 4\<rparr>"

lemma small_batch_started: "write_start (small_wc rc) small_bw small_rq 4 (Some (id_of ''l'')) [Inr small_item] 1 = Inr small_start"
  by code_simp

lemma small_chunk_written: "write_chunk (small_wc rc) small_bw [compacted_item] small_packed small_start = Inr small_chunked"
proof -
  have fit: "fit_chunk (small_wc rc) small_bw (sw_next_seq small_start) (sw_previous_hash small_start) (sw_item_index small_start)
      [compacted_item] small_packed (sw_ulids small_start) = Inr (small_chunk_record, ''t'', [compacted_item], small_packed, 3)"
    by code_simp
  show ?thesis unfolding write_chunk_def fit ebind_simps prod.case by code_simp
qed

lemma small_chunks_written: "write_chunks (small_wc rc) small_bw small_rq small_start = Inr small_chunked"
proof -
  have filled: "fill_chunk (small_wc rc) small_rq (sw_item_index small_start) [] 0 (sw_packing small_start)
      = Inr ([compacted_item], small_packed)"
    and drained: "fill_chunk (small_wc rc) small_rq 1 [] 0 small_packed = Inr ([], small_packed)"
    by code_simp+
  have chunked: "sw_item_index small_chunked = 1" "sw_packing small_chunked = small_packed"
    and end_of_source: "pk_exhausted small_packed" "pk_pending small_packed = []"
      "small_chunked\<lparr>sw_packing := small_packed\<rparr> = small_chunked"
    by (simp_all add: small_chunked_def small_packed_def)
  have "write_chunks (small_wc rc) small_bw small_rq small_chunked = Inr small_chunked"
    unfolding write_chunks.simps [of _ _ _ small_chunked] chunked drained by (simp add: end_of_source)
  then show ?thesis
    unfolding write_chunks.simps [of _ _ _ small_start] filled by (simp add: small_chunk_written)
qed

lemma small_batch_written: "write_batch (small_wc rc) small_bw small_rq 4 (Some (id_of ''l'')) [Inr small_item] 1 = Inr small_segment"
proof -
  have "write_complete (small_wc rc) small_bw small_chunked = Inr small_segment" by code_simp
  then show ?thesis
    unfolding write_batch_def small_batch_started ebind_simps small_chunks_written .
qed

lemma sample_hex_ok: "is_lower_hex_64 (sample_hex b)"
proof -
  let ?hex = "\<lambda>b. is_ascii_digit b \<or> CHR ''a'' \<le> b \<and> b \<le> CHR ''f''"
  have "length ''0123456789abcdef'' = 16" "list_all ?hex ''0123456789abcdef''" "?hex (CHR ''0'')" by code_simp+
  then have "?hex (hex_digit n)" for n unfolding hex_digit_def list_all_length by (metis mod_less_divisor zero_less_numeral)
  with \<open>?hex (CHR ''0'')\<close> show ?thesis by (simp add: sample_hex_def is_lower_hex_64_def Let_def list_all_iff)
qed

lemma small_writer_ok: "writer_ok (small_wc small_rc) small_bw"
proof -
  have "is_origin_id (bw_origin_id small_bw)" "bw_batch_id small_bw = prefixed_ulid (small_wc small_rc) ''batch_'' 0" by code_simp+
  then show ?thesis
    by (auto simp: writer_ok_def small_wc_def small_rc_def archive_codec_def archive_crypto_def sample_hex_ok)
qed

theorem written_batch_is_accepted_witness:
  "origin_chain archive_crypto small_rc client_c 4 (Some (id_of ''l''))
      (map (as_verified (small_wc small_rc) small_bw ''m'') (sw_records small_segment))
    \<and> efold (validate_streamed_batch_record (wc_origin (small_wc small_rc)))
        (map (as_verified (small_wc small_rc) small_bw ''m'') (sw_records small_segment)) None = Inr None
    \<and> emap (compact_item small_rq) [Inr small_item] = Inr (concat (map written_items (sw_records small_segment)))"
proof -
  have "validate_item_defaults (rq_item_schema_version small_rq) (rq_defaults small_rq) = Inr ()"
    "follows_tail 4 (Some (id_of ''l''))" "list_all (reads_back (small_wc small_rc)) (sw_records small_segment)" by code_simp+
  moreover have "unat (sw_next_seq small_segment) + 1 < 2 ^ 64" by (simp add: small_segment_def small_chunked_def)
  ultimately show ?thesis
    using written_batch_is_accepted [OF small_batch_written _ small_writer_ok, of "''m''"]
    by (simp add: small_wc_def small_bw_def archive_codec_def)
qed

end
