(* ===== verification/Origin_Append.thy ===== *)
theory Origin_Append
  imports Origin_Writer
begin

text \<open>
  Appending a batch to a verified version 2 archive (\<open>append_batch_locked\<close> of
  \<open>src/src/v2_store.rs\<close>): the checks on the active client, the segment, its signed manifest and
  the successor of the accepted frontier. The verified archive, the signing key and the time are
  arguments, as are the serializers and the source of ULIDs. Files, the recovery of an interrupted
  append, the verification after the write and the git commit are not modelled.
\<close>

section \<open>Definitions\<close>

definition segment_manifest_of ::
  "writer_codec \<Rightarrow> genesis_body \<Rightarrow> bytes \<Rightarrow> batch_writer \<Rightarrow> u64 \<Rightarrow> origin_frontier option \<Rightarrow> segment_writer \<Rightarrow> segment_manifest_body" where
  "segment_manifest_of wc genesis gh bw first_seq tail w =
     (let cr = oc_crypto (wc_origin wc); first = hd (sw_records w); final = last (sw_records w) in
      \<lparr>sb_manifest_v = V2_MANIFEST_VERSION, sb_archive_id = ge_archive_id genesis, sb_genesis_hash = gh,
       sb_origin_id = bw_origin_id bw, sb_segment_path = segment_relative_path (bw_origin_id bw) first_seq,
       sb_first_seq = first_seq, sb_last_seq = sw_next_seq w, sb_first_record_id = ve_record_id (fst first),
       sb_last_record_id = ve_record_id (fst final), sb_first_record_hash = blake3_id cr (snd first),
       sb_last_record_hash = blake3_id cr (snd final), sb_record_count = sw_record_count w,
       sb_segment_bytes = sw_segment_bytes w,
       sb_segment_blake3 = ''blake3:'' @ hash_hex cr (file_of (map snd (sw_records w))),
       sb_causal_base_frontier_hash = bw_causal_frontier_hash bw,
       sb_previous_segment_manifest_hash = map_option of_segment_manifest_hash tail\<rparr>)"

fun replace_first :: "origin_frontier \<Rightarrow> origin_frontier list \<Rightarrow> origin_frontier list option" where
  "replace_first tail [] = None"
| "replace_first tail (origin # origins) =
     (if of_origin_id origin = of_origin_id tail then Some (tail # origins)
      else map_option (\<lambda>rest. origin # rest) (replace_first tail origins))"

definition replace_tail :: "origin_frontier \<Rightarrow> origin_frontier list \<Rightarrow> origin_frontier list" where
  "replace_tail tail origins =
     (case replace_first tail origins of Some replaced \<Rightarrow> replaced
      | None \<Rightarrow> sort_key of_origin_id (origins @ [tail]))"

definition successor_frontier :: "bytes \<Rightarrow> bytes \<Rightarrow> causal_frontier \<Rightarrow> bytes \<Rightarrow> origin_frontier \<Rightarrow> causal_frontier" where
  "successor_frontier archive gh accepted hash tail =
     \<lparr>cf_v = FRONTIER_VERSION, cf_archive_id = archive, cf_genesis_hash = gh,
      cf_origins = replace_tail tail (cf_origins accepted), cf_previous_frontiers = [hash],
      cf_item_projection_version = cf_item_projection_version accepted\<rparr>"

definition is_revoked :: "v2_client \<Rightarrow> bool" where
  "is_revoked client \<longleftrightarrow> cl_revoked_origin_id client \<noteq> None"

text \<open>What is written, and the fields of \<open>V2AppendResult\<close> that do not come from git or recovery.\<close>

record appended =
  ap_segment :: segment_writer
  ap_manifest :: signed_segment_manifest
  ap_frontier :: causal_frontier
  ap_batch_id :: bytes
  ap_origin_id :: bytes
  ap_first_seq :: u64
  ap_last_seq :: u64
  ap_records_written :: u64
  ap_items_written :: u64
  ap_segment_manifest_hash :: bytes
  ap_accepted_frontier_hash :: bytes

definition local_tail :: "verified_v2_archive \<Rightarrow> bytes \<Rightarrow> origin_frontier option" where
  "local_tail va origin_id = find (\<lambda>origin. of_origin_id origin = origin_id) (cf_origins (va_accepted_frontier va))"

definition check_active_client :: "crypto \<Rightarrow> verified_v2_archive \<Rightarrow> bytes \<Rightarrow> bytes \<Rightarrow> v2_store_error + unit" where
  "check_active_client cr va origin_id signing_key =
     ebind (ok_or (va_clients va origin_id) (VsInvalid (''active client '' @ origin_id @ '' is not enrolled''))) (\<lambda>enrolled.
     ebind (ensure (\<not> is_revoked enrolled) (VsInvalid (''active client '' @ origin_id @ '' is revoked''))) (\<lambda>_.
     ensure (verifying_key cr signing_key = cl_public_key enrolled)
       (VsInvalid ''local signing key does not match the enrolled client'')))"

text \<open>The part after the segment has been written.\<close>

definition publish_segment ::
  "writer_codec \<Rightarrow> verified_v2_archive \<Rightarrow> bytes \<Rightarrow> batch_writer \<Rightarrow> u64 \<Rightarrow> segment_writer \<Rightarrow> v2_store_error + appended" where
  "publish_segment wc va signing_key bw first_seq w =
     (let oc = wc_origin wc; genesis = sg_body (va_genesis va); tail = local_tail va (bw_origin_id bw) in
      ebind (manifest_create oc (segment_manifest_of wc genesis (va_genesis_hash va) bw first_seq tail w) signing_key) (\<lambda>manifest.
      ebind (manifest_hash oc manifest) (\<lambda>mh.
      let next_tail = \<lparr>of_origin_id = bw_origin_id bw, of_seq = sw_next_seq w,
            of_event_hash = sb_last_record_hash (sm_body manifest), of_segment_manifest_hash = mh\<rparr>;
          successor = successor_frontier (ge_archive_id genesis) (va_genesis_hash va) (va_accepted_frontier va)
            (va_accepted_frontier_hash va) next_tail in
      ebind (map_err VsFrontier (oc_frontier_hash oc successor)) (\<lambda>fh.
      Inr \<lparr>ap_segment = w, ap_manifest = manifest, ap_frontier = successor, ap_batch_id = bw_batch_id bw,
        ap_origin_id = bw_origin_id bw, ap_first_seq = first_seq, ap_last_seq = sw_next_seq w,
        ap_records_written = sw_record_count w, ap_items_written = sw_item_index w,
        ap_segment_manifest_hash = mh, ap_accepted_frontier_hash = fh\<rparr>))))"

definition v2_append_batch_locked ::
  "writer_codec \<Rightarrow> verified_v2_archive \<Rightarrow> bytes \<Rightarrow> bytes \<Rightarrow> u64 \<Rightarrow> batch_request \<Rightarrow> (v2_store_error + json) list \<Rightarrow> nat
   \<Rightarrow> v2_store_error + appended" where
  "v2_append_batch_locked wc va origin_id signing_key time_utc_ms rq source n =
     ebind (validate_item_defaults (rq_item_schema_version rq) (rq_defaults rq)) (\<lambda>_.
     ebind (check_active_client (oc_crypto (wc_origin wc)) va origin_id signing_key) (\<lambda>_.
     let tail = local_tail va origin_id;
         bw = \<lparr>bw_origin_id = origin_id, bw_batch_id = prefixed_ulid wc ''batch_'' n, bw_time_utc_ms = time_utc_ms,
               bw_causal_frontier_hash = va_accepted_frontier_hash va\<rparr> in
     ebind (ok_or (checked_add (case tail of None \<Rightarrow> 0 | Some tail \<Rightarrow> of_seq tail) 1)
       (VsInvalid ''origin sequence overflow'')) (\<lambda>first_seq.
     ebind (write_batch wc bw rq first_seq (map_option of_event_hash tail) source (Suc n)) (\<lambda>w.
     publish_segment wc va signing_key bw first_seq w))))"

section \<open>The successor frontier\<close>

lemma replace_first_None: "replace_first tail origins = None \<longleftrightarrow> of_origin_id tail \<notin> of_origin_id ` set origins"
  by (induction origins) auto

lemma other_origins:
  assumes "of_origin_id tail \<notin> of_origin_id ` set origins"
  shows "{origin \<in> set origins. of_origin_id origin \<noteq> of_origin_id tail} = set origins"
proof -
  have "of_origin_id x \<noteq> of_origin_id tail" if "x \<in> set origins" for x using assms that by (metis imageI)
  then show ?thesis by blast
qed

lemma replace_first_Some:
  "replace_first tail origins = Some replaced \<Longrightarrow> distinct (map of_origin_id origins) \<Longrightarrow>
     map of_origin_id replaced = map of_origin_id origins
     \<and> set replaced = insert tail {origin \<in> set origins. of_origin_id origin \<noteq> of_origin_id tail}"
proof (induction origins arbitrary: replaced)
  case (Cons origin origins)
  show ?case
  proof (cases "of_origin_id origin = of_origin_id tail")
    case True
    then have r: "replaced = tail # origins" using Cons.prems(1) by simp
    have "of_origin_id tail \<notin> of_origin_id ` set origins" using Cons.prems(2) True by simp
    from other_origins [OF this] True have "{x \<in> set (origin # origins). of_origin_id x \<noteq> of_origin_id tail} = set origins" by auto
    then show ?thesis using True by (simp add: r)
  next
    case False
    with Cons.prems obtain rest where "replace_first tail origins = Some rest" "replaced = origin # rest" by auto
    with Cons.IH [of rest] Cons.prems(2) False show ?thesis by auto
  qed
qed simp

lemma replace_tail_ok:
  assumes "sorted_wrt (<) (map of_origin_id origins)"
  shows "sorted_wrt (<) (map of_origin_id (replace_tail tail origins))
    \<and> set (replace_tail tail origins) = insert tail {origin \<in> set origins. of_origin_id origin \<noteq> of_origin_id tail}"
proof (cases "replace_first tail origins")
  case None
  then have new: "of_origin_id tail \<notin> of_origin_id ` set origins" by (simp add: replace_first_None)
  have d: "distinct (map of_origin_id origins)" using assms by (simp add: strict_sorted_iff)
  have "distinct (map of_origin_id (sort_key of_origin_id (origins @ [tail])))"
    using new d by (auto simp: distinct_map)
  then have "sorted_wrt (<) (map of_origin_id (sort_key of_origin_id (origins @ [tail])))"
    by (simp only: strict_sorted_iff sorted_sort_key simp_thms)
  then show ?thesis using None other_origins [OF new] by (simp add: replace_tail_def)
next
  case (Some replaced)
  have d: "distinct (map of_origin_id origins)" using assms by (simp add: strict_sorted_iff)
  from replace_first_Some [OF Some d] assms Some show ?thesis by (simp add: replace_tail_def)
qed

lemma appended_frontier_is_successor:
  assumes "wf_frontier accepted" "frontier_hash tv hx accepted = Inr hash"
    and "is_blake3_identifier hash" "origin_ok tail"
    and "\<And>m x. dots accepted (of_origin_id tail) = Some (m, x) \<Longrightarrow> m < of_seq tail"
  shows "wf_frontier (successor_frontier (cf_archive_id accepted) (cf_genesis_hash accepted) accepted hash tail)
    \<and> accepted_successor tv hx
        (successor_frontier (cf_archive_id accepted) (cf_genesis_hash accepted) accepted hash tail) accepted
    \<and> dots (successor_frontier (cf_archive_id accepted) (cf_genesis_hash accepted) accepted hash tail)
        = (dots accepted)(of_origin_id tail \<mapsto> (of_seq tail, of_event_hash tail, of_segment_manifest_hash tail))"
proof -
  let ?s = "successor_frontier (cf_archive_id accepted) (cf_genesis_hash accepted) accepted hash tail"
  have sorted: "sorted_wrt (<) (map of_origin_id (cf_origins accepted))" using assms(1) by (simp add: wf_frontier_def)
  note r = replace_tail_ok [OF sorted, of tail]
  have parts: "cf_origins ?s = replace_tail tail (cf_origins accepted)" "cf_previous_frontiers ?s = [hash]"
    "cf_archive_id ?s = cf_archive_id accepted" "cf_genesis_hash ?s = cf_genesis_hash accepted"
    "cf_item_projection_version ?s = cf_item_projection_version accepted" "cf_v ?s = FRONTIER_VERSION"
    by (simp_all add: successor_frontier_def)
  have wf: "wf_frontier ?s" using assms(1,3,4) r unfolding wf_frontier_def parts by (auto simp: list_all_iff)
  have lookup: "dots ?s i = Some (m, e, h) \<longleftrightarrow> (if i = of_origin_id tail
      then (m, e, h) = (of_seq tail, of_event_hash tail, of_segment_manifest_hash tail) else dots accepted i = Some (m, e, h))" for i m e h
    using r by (subst (1 2) dots_lookup) (auto simp: parts sorted)
  have dots: "dots ?s = (dots accepted)(of_origin_id tail \<mapsto> (of_seq tail, of_event_hash tail, of_segment_manifest_hash tail))"
  proof
    fix i
    show "dots ?s i = ((dots accepted)(of_origin_id tail \<mapsto> (of_seq tail, of_event_hash tail, of_segment_manifest_hash tail))) i"
    proof (cases "dots ?s i")
      case None
      then have "dots accepted i = None \<and> i \<noteq> of_origin_id tail"
        using lookup [of i] by (metis not_None_eq prod_cases3)
      with None show ?thesis by simp
    next
      case (Some d)
      obtain m e h where "d = (m, e, h)" by (cases d)
      with Some lookup [of i m e h] show ?thesis by (auto split: if_splits)
    qed
  qed
  have kept: "list_all (tail_kept ?s) (cf_origins accepted)"
    unfolding list_all_iff
  proof
    fix origin
    assume o: "origin \<in> set (cf_origins accepted)"
    then have old: "dots accepted (of_origin_id origin) = Some (of_seq origin, of_event_hash origin, of_segment_manifest_hash origin)"
      using dots_lookup [OF sorted] by blast
    show "tail_kept ?s origin"
      using old assms(5) unfolding tail_kept_def dots by (cases "of_origin_id origin = of_origin_id tail") auto
  qed
  have "accepted_successor tv hx ?s accepted"
  proof -
    have "sorted_wrt (<) (map of_origin_id (cf_origins ?s))" using r by (simp add: parts)
    from check_base_origins_ok [OF this] kept obtain adv where "check_base_origins (cf_origins ?s) (cf_origins accepted) = Inr adv" by blast
    moreover have "binary_search [hash] hash \<noteq> None" by (subst binary_search_eq_None) simp_all
    moreover have "frontier_validate accepted = Inr ()" "frontier_validate ?s = Inr ()" using assms(1) wf by (simp_all add: frontier_validate_ok)
    ultimately show ?thesis
      unfolding accepted_successor_def validate_successor_of_def parts assms(2)
      by (simp only: ebind_simps if_False simp_thms less_irrefl sum.case)
  qed
  with wf dots show ?thesis by blast
qed

section \<open>Appending\<close>

lemma created_manifest_verifies:
  assumes "manifest_create oc body signing_key = Inr m" "signer_ok (oc_crypto oc) signing_key"
  shows "manifest_verify oc m (verifying_key (oc_crypto oc) signing_key) = Inr () \<and> sm_body m = body"
  using assms unfolding manifest_create_def manifest_verify_def signer_ok_def
  by (auto simp: ebind_eq_Inr ok_or_eq_Inr ensure_eq_Inr)

lemma validated_manifest_fields:
  assumes "manifest_create oc body signing_key = Inr m"
  shows "sb_first_seq body \<noteq> 0 \<and> sb_first_seq body \<le> sb_last_seq body \<and> is_blake3_identifier (sb_last_record_hash body)
    \<and> is_blake3_identifier (sb_causal_base_frontier_hash body)"
  using assms unfolding manifest_create_def validate_manifest_body_def validate_blake3_id_def
    ebind_eq_Inr ensure_eq_Inr by auto

lemma verified_accepted_frontier:
  assumes "verify_archive fuel oc t = Some (Inr va)"
  shows "wf_frontier (va_accepted_frontier va) \<and> oc_frontier_hash oc (va_accepted_frontier va) = Inr (va_accepted_frontier_hash va)
    \<and> cf_archive_id (va_accepted_frontier va) = ge_archive_id (sg_body (va_genesis va))
    \<and> cf_genesis_hash (va_accepted_frontier va) = va_genesis_hash va"
proof -
  from verify_archive_Inr [OF assms] obtain st where
    l: "load_frontier_graph fuel oc t (ge_archive_id (sg_body (va_genesis va))) (va_genesis_hash va)
       (va_accepted_frontier_hash va) Map.empty = Some (Inr (va_frontiers va))"
    and f: "va_frontiers va (va_accepted_frontier_hash va) = Some (va_accepted_frontier va)" by metis
  have "loaded_ok oc t (ge_archive_id (sg_body (va_genesis va))) (va_genesis_hash va) Map.empty" by (simp add: loaded_ok_def)
  with load_ok(1) [OF l] f have "read_frontier oc t (va_accepted_frontier_hash va) (ge_archive_id (sg_body (va_genesis va)))
      (va_genesis_hash va) = Inr (va_accepted_frontier va)" unfolding loaded_ok_def by blast
  with read_frontier_Inr loaded_frontier_wf [OF l f] show ?thesis by blast
qed

lemma append_Inr:
  assumes "v2_append_batch_locked wc va origin_id signing_key time rq source n = Inr ap"
  obtains bw first_seq w where "check_active_client (oc_crypto (wc_origin wc)) va origin_id signing_key = Inr ()"
    "checked_add (case local_tail va origin_id of None \<Rightarrow> 0 | Some tail \<Rightarrow> of_seq tail) 1 = Some first_seq"
    "bw_origin_id bw = origin_id" "bw_causal_frontier_hash bw = va_accepted_frontier_hash va"
    "write_batch wc bw rq first_seq (map_option of_event_hash (local_tail va origin_id)) source (Suc n) = Inr w"
    "publish_segment wc va signing_key bw first_seq w = Inr ap"
  using assms that unfolding v2_append_batch_locked_def Let_def ebind_eq_Inr ok_or_eq_Inr by force

lemma checked_add_one_less: "checked_add a 1 = Some b \<Longrightarrow> a < b"
  unfolding checked_add_def word_less_nat_alt by (auto simp: unat_word_ariths split: if_splits)

lemma find_sorted_origin:
  assumes "sorted_wrt (<) (map of_origin_id origins)" "tail \<in> set origins" "of_origin_id tail = origin_id"
  shows "find (\<lambda>origin. of_origin_id origin = origin_id) origins = Some tail"
  using assms by (induction origins) auto


text \<open>Client C appends the small batch to the sample archive, in which B is revoked.\<close>

lemma sample_codec: "wc_origin (small_wc archive_record_codec) = archive_codec"
  by (simp add: small_wc_def archive_codec_def)

lemma sample_registry:
  "va_clients sample_archive client_c = Some client_row_c"
  "map_option is_revoked (va_clients sample_archive client_b) = Some True"
proof -
  have "clients_3 client_c = Some client_row_c" by code_simp
  then show "va_clients sample_archive client_c = Some client_row_c" by (simp add: sample_archive_def)
  show "map_option is_revoked (va_clients sample_archive client_b) = Some True"
    using clients_3 by (auto simp: sample_archive_def is_revoked_def)
qed

lemma sample_archive_parts:
  "local_tail sample_archive client_c = Some (tail_at client_c 3 ''l'' ''m4'')"
  "va_genesis sample_archive = archive_genesis" "va_genesis_hash sample_archive = id_of ''genesis''"
  "va_accepted_frontier sample_archive = frontier_5" "va_accepted_frontier_hash sample_archive = id_of ''f5''"
  using sample_origins_found by (simp_all add: local_tail_def sample_archive_def)

definition sample_appended :: appended where
  "sample_appended = projr (publish_segment (small_wc archive_record_codec) sample_archive key_c small_bw 4 small_segment)"

lemma small_bw_origin: "bw_origin_id small_bw = client_c"
  by (simp add: small_bw_def)

lemma sample_published:
  "publish_segment (small_wc archive_record_codec) sample_archive key_c small_bw 4 small_segment = Inr sample_appended"
proof -
  have "\<not> isl (publish_segment (small_wc archive_record_codec) sample_archive key_c small_bw 4 small_segment)"
    unfolding publish_segment_def small_bw_origin sample_archive_parts by code_simp
  then show ?thesis unfolding sample_appended_def
    by (cases "publish_segment (small_wc archive_record_codec) sample_archive key_c small_bw 4 small_segment") simp_all
qed

lemma sample_append_ok:
  "v2_append_batch_locked (small_wc archive_record_codec) sample_archive client_c key_c 7 small_rq [Inr small_item] 0 = Inr sample_appended"
proof -
  have d: "validate_item_defaults (rq_item_schema_version small_rq) (rq_defaults small_rq) = Inr ()" by code_simp
  have c: "check_active_client (oc_crypto (wc_origin (small_wc archive_record_codec))) sample_archive client_c key_c = Inr ()"
    unfolding check_active_client_def sample_registry(1) by code_simp
  have bw: "\<lparr>bw_origin_id = client_c, bw_batch_id = prefixed_ulid (small_wc archive_record_codec) ''batch_'' 0, bw_time_utc_ms = 7,
      bw_causal_frontier_hash = id_of ''f5''\<rparr> = small_bw" by code_simp
  have seq: "checked_add (of_seq (tail_at client_c 3 ''l'' ''m4'')) 1 = Some 4"
    "of_event_hash (tail_at client_c 3 ''l'' ''m4'') = id_of ''l''" by code_simp+
  show ?thesis
    unfolding v2_append_batch_locked_def d ebind_simps c Let_def sample_archive_parts option.case seq ok_or_simps bw option.map
    using small_batch_written sample_published by (simp only: ebind_simps One_nat_def)
qed


end
