(* ===== verification/Spec2Isabelle.thy ===== *)
theory Spec2Isabelle
  imports Frontier Paths Json_Values Catalog_Runs Policy_Rules Event_Log Origin_Append
begin

text \<open>
  \<^bold>\<open>Archive Ledger\<close> keeps an evidence catalog of archive files: which copies of a file exist on
  which location, device and site, when each copy was last verified, and whether a preservation
  policy is met. This development models the parts of it that decide what the catalog says,
  and proves what makes them correct. Source paths below are under \<open>src/\<close>.

  \<^bold>\<open>The program and its parts.\<close> There are three stores.
  \<^item> The \<^emph>\<open>SQLite catalog\<close> (\<open>src/sqlite_catalog.rs\<close>, schema \<open>sqlite_catalog.sql\<close>) is the
    authority on an archive's current facts. Three writers share it, each in transactions of
    its own: the catalog writer (\<open>src/sqlite_writes.rs\<close>: observations of files, scan jobs), the
    registry (\<open>src/sqlite_registry.rs\<close>, \<open>src/registry.rs\<close>: sites, devices, locations,
    collections, policies), and removal declarations (\<open>src/sqlite_removed.rs\<close>). Queries
    (\<open>src/sqlite_queries.rs\<close>) and the policy rules (\<open>src/policy.rs\<close>) read it.
  \<^item> The \<^emph>\<open>canonical event store\<close> (\<open>src/event_store.rs\<close>) is an append-only stream of JSON lines
    in segment files. Every event names the hash of the one before it; closed segments have
    manifests; a writer repairs a torn tail when it opens the store.
  \<^item> The \<^emph>\<open>version 2 event tree\<close> (\<open>src/genesis.rs\<close>, \<open>src/v2_event.rs\<close>, \<open>src/v2_batch.rs\<close>,
    \<open>src/frontier.rs\<close>, \<open>src/v2_store.rs\<close>) holds one journal per client: records in segments that
    the client's key has signed. A causal frontier says up to which record each journal is
    accepted, and the genesis is the root of trust.

  \<^bold>\<open>Conventions.\<close> A Rust string or byte slice is a list of bytes (type \<open>bytes\<close>), \<open>u64\<close>, \<open>u32\<close> and
  \<open>i64\<close> are words of their width, \<open>usize\<close> lengths are words of 64 bits where the code does
  checked arithmetic on them and \<open>nat\<close> where it only compares list lengths; a checked addition
  is written out with its overflow branch. A fallible function returns a sum whose left side is
  the error value of the source; \<open>ebind\<close> is the operator \<open>?\<close> and \<open>ensure\<close> a guard with an early
  return (\<open>Ledger_Prelude\<close>). Loops are recursive functions or \<open>efold\<close> over the list that the
  loop walks. A SQL table is a finite map from its primary key to a row record, or a list where
  the row identifier matters; a transaction is a function from the catalog to a result and a
  catalog, and an error leaves the old catalog. A directory is a map from names to contents.
  Code outside the repository is a parameter: BLAKE3 and Ed25519 (\<open>crypto\<close>), base64, the
  serializer and the parser of \<open>serde_json\<close> (records of codec functions), ULID generation and
  the clock (arguments). What the code relies on is a named hypothesis of the property (the
  codec laws, injectivity of the hash on the lines in question), and its witness instantiates
  the parameter with a concrete function.

  \<^bold>\<open>The theories.\<close>
  \<^item> \<open>Ledger_Prelude\<close>, \<open>Byte_Strings\<close>, \<open>Json_Values\<close>: the vocabulary above, the string operations
    of the standard library (\<open>trim\<close>, \<open>strip_prefix\<close>, splitting at a byte, hexadecimal digits),
    the identifier grammars shared by the modules, and JSON values.
  \<^item> \<open>Append_Only\<close> (locales \<open>transactions\<close> and \<open>two_writers\<close>) and \<open>Hash_Chains\<close> (locale
    \<open>hash_chain\<close>): the interfaces that several stores provide. A store of transactions keeps
    its well-formedness and extends its record at the end, so a position of the record never
    changes in any run; two such writers on one state are one again. In a hash chain the last
    hash commits to all lines. \<open>transactions\<close> is interpreted by the three catalog writers, by
    all of them together and by the event store, \<open>hash_chain\<close> by the event stream and by the
    journal of an origin.
  \<^item> \<open>Frontier\<close> (\<open>src/frontier.rs\<close>): frontiers, their validation, canonical bytes and hash, and
    the successor test. It decides exactly the causal order (sorted merge of the origins against
    a point-wise comparison); along a chain of accepted frontiers, through the locale
    \<open>causal_successor\<close>, no accepted record is rewritten or dropped.
  \<^item> \<open>Paths\<close> (\<open>src/discovery.rs\<close>, \<open>src/review.rs\<close>, \<open>src/registry.rs\<close>): lossless path encoding, and
    the byte-range form of a prefix query, which selects exactly the paths below the prefix.
  \<^item> \<open>Catalog_State\<close>, \<open>Catalog_Writes\<close>, \<open>Catalog_Batches\<close>, \<open>Catalog_Jobs\<close>: tables, constraints
    (\<open>schema_ok\<close>), and every transaction of \<open>src/sqlite_writes.rs\<close>. An observation refines an
    abstract state machine of one file's evidence; a verified copy always has evidence that
    matches the expected checksum; expected checksums change only on explicit acceptance;
    sending a batch again changes nothing; finishing a complete scan marks exactly the unseen
    copies of its scope missing; jobs keep their inputs and ended jobs never change.
    \<open>Sample_Catalog\<close> is the concrete catalog of the witnesses.
  \<^item> \<open>Registry_Types\<close>, \<open>Registry_Validation\<close>, \<open>Catalog_Registry\<close>: entities, validation of a change
    against the catalog, application, history and listing. A recorded change is what the
    registry lists, a commit touches only registry tables and adds one history row per change,
    and device stays follow the current site.
  \<^item> \<open>Catalog_Queries\<close>, \<open>Catalog_Removed\<close>, \<open>Catalog_Runs\<close>: following page tokens ends and lists
    every selected object once; a removal marks what its preview showed, is idempotent, and
    with the guard leaves every affected file a verified copy; any interleaving of the writers
    keeps the constraints and never changes a written history row.
  \<^item> \<open>Policy_Requirements\<close>, \<open>Policy_Evaluation\<close>, \<open>Policy_Rules\<close> (\<open>src/policy.rs\<close>): the requirements and
    the evaluation of a file. The result refines a declarative specification of which copies
    qualify and which losses the file survives; it is total for 64-bit age limits and stable
    until the expiry it reports.
  \<^item> \<open>Event_Segments\<close>, \<open>Event_Chain\<close>, \<open>Event_Store\<close>, \<open>Event_Verify\<close>, \<open>Event_Append\<close>,
    \<open>Event_History\<close>, \<open>Event_Log\<close> (\<open>src/event_store.rs\<close>): scanning a segment, the writer's state,
    appending, closing, checkpoints, recovery and verification. Verification accepts exactly
    the stores that hold one hash chain; appending extends it by the lines of the batch and
    leaves a verified store; recovery of a torn append keeps every complete event.
  \<^item> \<open>Batch_Validation\<close> (\<open>src/v2_batch.rs\<close>): the chunks of a batch are validated against limits and a
    digest. The validator accepts exactly the chunk lists of a declarative reference, and the
    completion commits to the hashes of the chunks.
  \<^item> \<open>Genesis\<close>, \<open>Origin_Records\<close>, \<open>Origin_Data\<close>, \<open>Origin_Segments\<close>, \<open>Origin_Chain\<close>, \<open>Origin_Batches\<close>
    (\<open>src/genesis.rs\<close>, \<open>src/v2_event.rs\<close>, \<open>src/v2_store.rs\<close>): founding an archive, the strict
    record parser, signed manifests, the verification of an origin up to an accepted tail
    (\<open>verify_origin\<close>) and from a cursor (\<open>verify_origin_range\<close>), and the batches in a journal
    record by record (\<open>validate_streamed_batch_record\<close>) and over a whole history
    (\<open>verify_batches\<close>). Whatever is accepted is one chain of signed records; the accepted tail
    commits to it; the incremental verification returns exactly the records after the cursor;
    the two validations of batches differ only on a repeated batch identifier.
  \<^item> \<open>Origin_Clients\<close>, \<open>Origin_Frontiers\<close>, \<open>Origin_Store\<close> (\<open>src/v2_store.rs\<close>, \<open>src/git.rs\<close>): enrolment and
    revocation of clients, coordination leases, the graph of frontiers
    (\<open>load_frontier_graph\<close>) and the verification of a whole archive (\<open>verify\<close>). Entries of the
    registry are permanent; a batch that claims a lease holds one signed by its writer; the
    loaded frontiers are closed under parents and covered by the accepted one; and every origin
    of a verified archive is trusted: its key is the genesis key or was enrolled by a signed
    record of a trusted client, and its records follow the enrolment. \<open>Sample_Origins\<close> is the
    small archive of the witnesses of all these theories.
  \<^item> \<open>Origin_Writer\<close>, \<open>Origin_Append\<close> (\<open>append_batch_locked\<close> in \<open>src/v2_store.rs\<close>): packing the
    items of a batch into records of bounded size, and the append around it: the checks on the
    active client, the signed manifest and the successor frontier. What is written continues the
    journal, is accepted by the validation of batches and holds every item once and in order;
    the manifest verifies with the enrolled key, and the new frontier is an accepted successor in
    which only the writer's own tail moved forward.

  \<^bold>\<open>Bounds and termination.\<close> Loops over files and records recur on the list they walk.
  \<open>load_frontier_graph\<close> follows hashes through files and takes fuel; on an acyclic graph every fuel
  beyond the rank of the first hash gives the same result (\<open>frontier_graph_load_returns\<close>). The loop
  over pending origins in \<open>verify\<close> recurs on their number, which every pass with progress lowers.
  The loops that pack a batch recur on the items not yet written and on the length of the chunk.
  \<open>verify_range_loop\<close> recurs on the distance of the next sequence number from \<open>2\<^sup>6\<^sup>4\<close>: every
  accepted segment holds a record and advances it. \<open>last_line_start\<close> and \<open>raw_lines\<close> recur on the
  part of the file that is left. White space is dropped with the length of the string as fuel,
  which is always enough (\<open>drop_ws_complete\<close>). The client that asks for page after page takes
  fuel, and every number greater than that of the selected objects is shown to be enough.
  Segment names round trip exactly below \<open>10\<^sup>1\<^sup>2\<close>, the width to which they are padded.

  \<^bold>\<open>What modelling showed.\<close> A policy result stays valid past the moment a future timestamp becomes
  past (\<open>Policy_Rules\<close>); a segment name of a sequence number from \<open>10\<^sup>1\<^sup>2\<close> on is not accepted by
  its own parser (\<open>Event_Chain\<close>); retiring a device may change its site without a stay
  (\<open>Catalog_Registry\<close> proves the invariant for every other change); fingerprints are compared
  trimmed and stored untrimmed; a segment of a revoked client that is based on a frontier with the
  revocation is accepted when the revoking origin is verified later (\<open>Origin_Store\<close>,
  \<open>revoked_client_still_accepted\<close>); the initial client cannot append after it has fast-forwarded
  to a frontier of another client (\<open>verify_append_base\<close> in \<open>src/v2_store.rs\<close>).

  \<^bold>\<open>Not modelled.\<close> The command line (\<open>src/main.rs\<close>, \<open>src/sqlite_*_cli.rs\<close>); walking, hashing and
  copying files (\<open>src/scan.rs\<close>, \<open>src/v2_inventory.rs\<close>, \<open>src/stage.rs\<close>, \<open>src/safe_copy.rs\<close>,
  \<open>src/annex.rs\<close>), which is the operating system and \<open>git-annex\<close>; the projection databases
  (\<open>src/projection.rs\<close>, \<open>src/v2_projection.rs\<close>, \<open>src/compact_projection.rs\<close>), which are caches
  rebuilt from the event stores, and the reports over them (\<open>src/status.rs\<close>, \<open>src/review.rs\<close>,
  \<open>src/app_integration.rs\<close>, \<open>src/metadata.rs\<close>, \<open>src/v2_fsck.rs\<close>); conversion, backup and snapshots
  of databases; Git remotes, the acquisition of leases, recovery and publication of an append (the
  rest of \<open>src/v2_store.rs\<close>, \<open>src/v2_store/\<close>, \<open>src/git.rs\<close>), which run the \<open>git\<close> program; the
  streaming variants of \<open>verify\<close> and the shortened check before an append; file locks,
  synchronisation of directories and I/O failures other than missing and existing files.
\<close>

end
